(* ===== verification/Hermes_Prelude.thy ===== *)
theory Hermes_Prelude
  imports Main "HOL-Library.Word" "HOL-Library.Monad_Syntax"
begin

unbundle bit_operations_syntax

section \<open>Shared types, status codes and byte-level helpers\<close>

text \<open>
  The types and conventions every component uses (\<^verbatim>\<open>include/hermes/common/errors.h\<close> and the
  C library calls the sources rely on).

  \<^item> A \<^verbatim>\<open>uint8_t*\<close> with its length is a list of 8-bit words.  Where the C code tests the
    pointer or the length, the argument is a \<open>cbuf\<close>: \<open>None\<close> is the NULL pointer and
    \<open>Some bs\<close> a pointer to \<open>length bs\<close> bytes; \<open>absent\<close> is the test \<^verbatim>\<open>!p || !p_length\<close>.
  \<^item> A status is a 32-bit word.  A function with out parameters returns \<open>Inl status\<close> when it
    fails and \<open>Inr values\<close> when it returns \<open>HM_SUCCESS\<close>.
  \<^item> An outer \<open>option\<close> is the outcome of running the C code: \<open>None\<close> means that the run has no
    defined result (a failed \<^verbatim>\<open>assert\<close>, a call through a NULL function pointer, an access out
    of bounds, a loop or a blocking call that never returns).  A theorem that a function returns
    \<open>Some\<close> therefore also says that none of this happens.
  \<^item> Multi-byte integers are copied with \<^verbatim>\<open>memcpy\<close> in the host's order; the model fixes a
    little-endian host.
\<close>

type_synonym u8 = "8 word"
type_synonym u32 = "32 word"
type_synonym u64 = "64 word"
type_synonym bytes = "u8 list"
type_synonym status = u32
type_synonym cbuf = "bytes option"

named_theorems status_simps \<open>values and inequalities of the status codes\<close>
named_theorems guard_simps \<open>evaluation of the NULL and length guards\<close>

subsection \<open>Status codes\<close>

definition HM_SUCCESS :: status where "HM_SUCCESS = 0"
definition HM_ERR :: status where "HM_ERR = 0x000f0000"
definition HM_FAIL :: status where "HM_FAIL = (HM_ERR OR 1)"
definition HM_INVALID_PARAMETER :: status where "HM_INVALID_PARAMETER = (HM_ERR OR 2)"
definition HM_BUFFER_TOO_SMALL :: status where "HM_BUFFER_TOO_SMALL = (HM_ERR OR 3)"
definition HM_BAD_ALLOC :: status where "HM_BAD_ALLOC = (HM_ERR OR 4)"
definition HM_NOT_IMPLEMENTED :: status where "HM_NOT_IMPLEMENTED = (HM_ERR OR 0x8000)"

lemmas status_defs = HM_SUCCESS_def HM_ERR_def HM_FAIL_def HM_INVALID_PARAMETER_def
  HM_BUFFER_TOO_SMALL_def HM_BAD_ALLOC_def HM_NOT_IMPLEMENTED_def

lemma status_distinct [simp, status_simps]:
  "HM_FAIL \<noteq> HM_SUCCESS" "HM_INVALID_PARAMETER \<noteq> HM_SUCCESS" "HM_BUFFER_TOO_SMALL \<noteq> HM_SUCCESS"
  "HM_BAD_ALLOC \<noteq> HM_SUCCESS" "HM_SUCCESS \<noteq> HM_FAIL" "HM_SUCCESS \<noteq> HM_INVALID_PARAMETER"
  "HM_SUCCESS \<noteq> HM_BUFFER_TOO_SMALL" "HM_SUCCESS \<noteq> HM_BAD_ALLOC"
  "HM_FAIL \<noteq> HM_INVALID_PARAMETER" "HM_INVALID_PARAMETER \<noteq> HM_FAIL"
  "HM_FAIL \<noteq> HM_BUFFER_TOO_SMALL" "HM_BUFFER_TOO_SMALL \<noteq> HM_FAIL"
  "HM_INVALID_PARAMETER \<noteq> HM_BUFFER_TOO_SMALL" "HM_BUFFER_TOO_SMALL \<noteq> HM_INVALID_PARAMETER"
  by (simp_all add: status_defs)

subsection \<open>Pointer and length guards\<close>

lemma list_all_True [simp]: "list_all (\<lambda>_. True) xs"
  by (simp add: list_all_iff)

definition absent :: "cbuf \<Rightarrow> bool" where
  "absent p = (case p of None \<Rightarrow> True | Some bs \<Rightarrow> bs = [])"

lemma absent_simps [simp, guard_simps]:
  "absent None" "absent (Some bs) \<longleftrightarrow> bs = []"
  by (simp_all add: absent_def)

lemma not_absentE [elim?]:
  assumes "\<not> absent p"
  obtains bs where "p = Some bs" "bs \<noteq> []"
  using assms by (cases p) auto

lemma not_absent_iff: "\<not> absent p \<longleftrightarrow> (\<exists>bs. p = Some bs \<and> bs \<noteq> [])"
  by (cases p) auto

subsection \<open>memcmp\<close>

text \<open>
  The sign of the first differing pair of bytes, 0 when there is none.  The standard leaves the
  call undefined when one of the two objects is shorter than the count.
\<close>

fun bytes_cmp :: "bytes \<Rightarrow> bytes \<Rightarrow> int" where
  "bytes_cmp (x # xs) (y # ys) = (if x = y then bytes_cmp xs ys else if x < y then -1 else 1)"
| "bytes_cmp _ _ = 0"

definition c_memcmp :: "bytes \<Rightarrow> bytes \<Rightarrow> nat \<Rightarrow> int option" where
  "c_memcmp a b n =
     (if n \<le> length a \<and> n \<le> length b then Some (bytes_cmp (take n a) (take n b)) else None)"

lemma bytes_cmp_eq_0: "length a = length b \<Longrightarrow> bytes_cmp a b = 0 \<longleftrightarrow> a = b"
  by (induction a b rule: bytes_cmp.induct) auto

lemma bytes_cmp_refl [simp]: "bytes_cmp a a = 0"
  by (induction a) auto

lemma bytes_cmp_range: "bytes_cmp a b \<in> {-1, 0, 1}"
  by (induction a b rule: bytes_cmp.induct) auto

lemma bytes_cmp_antisym: "length a = length b \<Longrightarrow> bytes_cmp b a = - bytes_cmp a b"
  by (induction a b rule: bytes_cmp.induct) auto

lemma bytes_cmp_less_trans:
  assumes "length a = length b" "length b = length c" "bytes_cmp a b < 0" "bytes_cmp b c < 0"
  shows "bytes_cmp a c < 0"
  using assms
proof (induction a b arbitrary: c rule: bytes_cmp.induct)
  case (1 x xs y ys)
  then obtain z zs where "c = z # zs" by (cases c) auto
  with 1 show ?case by (auto split: if_splits)
qed auto

lemma c_memcmp_same_length [simp]:
  "length a = length b \<Longrightarrow> c_memcmp a b (length a) = Some (bytes_cmp a b)"
  by (simp add: c_memcmp_def)

lemma c_memcmp_eq [simp]: "length a = length b \<Longrightarrow> c_memcmp a b (length b) = Some 0 \<longleftrightarrow> a = b"
  using bytes_cmp_eq_0 [of a b] by (simp add: c_memcmp_def)

text \<open>The bytes of a string literal, with its terminating zero (\<^verbatim>\<open>sizeof\<close> counts it).\<close>

definition c_string :: "string \<Rightarrow> bytes" where
  "c_string s = map of_char s @ [0]"

lemma c_string_nonempty [simp]: "c_string s \<noteq> []"
  by (simp add: c_string_def)

lemma length_c_string [simp]: "length (c_string s) = length s + 1"
  by (simp add: c_string_def)

subsection \<open>32-bit integers in memory\<close>

definition u32_le :: "u32 \<Rightarrow> bytes" where
  "u32_le w = [ucast w, ucast (drop_bit 8 w), ucast (drop_bit 16 w), ucast (drop_bit 24 w)]"

fun read_u32 :: "bytes \<Rightarrow> (u32 \<times> bytes) option" where
  "read_u32 (a # b # c # d # rest) =
     Some (ucast a OR push_bit 8 (ucast b) OR push_bit 16 (ucast c) OR push_bit 24 (ucast d), rest)"
| "read_u32 _ = None"

lemma length_u32_le [simp]: "length (u32_le w) = 4"
  by (simp add: u32_le_def)

lemma u32_le_nonempty [simp]: "u32_le w \<noteq> []"
  by (simp add: u32_le_def)

lemma read_u32_le [simp]: "read_u32 (u32_le w @ rest) = Some (w, rest)"
  unfolding u32_le_def
proof (simp, rule bit_word_eqI)
  fix n :: nat
  consider "n < 8" | "8 \<le> n" "n < 16" | "16 \<le> n" "n < 24" | "24 \<le> n"
    by linarith
  then show "n < LENGTH(32) \<Longrightarrow>
    bit (ucast (ucast w :: u8) OR push_bit 8 (ucast (ucast (drop_bit 8 w) :: u8)) OR
      push_bit 16 (ucast (ucast (drop_bit 16 w) :: u8)) OR
      push_bit 24 (ucast (ucast (drop_bit 24 w) :: u8)) :: u32) n = bit w n"
    by cases (auto simp: bit_simps)
qed

lemma read_u32_le_Nil [simp]: "read_u32 (u32_le w) = Some (w, [])"
  using read_u32_le [of w "[]"] by simp

lemma read_u32_None_iff: "read_u32 bs = None \<longleftrightarrow> length bs < 4"
  by (cases bs rule: read_u32.cases) auto

lemma read_u32_Some_iff_length: "(\<exists>p. read_u32 bs = Some p) \<longleftrightarrow> 4 \<le> length bs"
  using read_u32_None_iff [of bs] by (cases "read_u32 bs") auto

lemma read_u32_length: "read_u32 bs = Some (w, rest) \<Longrightarrow> length bs = length rest + 4"
  by (cases bs rule: read_u32.cases) auto

text \<open>A \<^verbatim>\<open>size_t\<close> length of which only the low four bytes are copied.\<close>

definition len32 :: "bytes \<Rightarrow> u32" where
  "len32 bs = word_of_nat (length bs)"

lemma unat_len32 [simp]: "length bs < 2 ^ 32 \<Longrightarrow> unat (len32 bs) = length bs"
  by (simp add: len32_def unat_of_nat)

lemma unat_len32_mod: "unat (len32 bs) = length bs mod 2 ^ 32"
  by (simp add: len32_def unat_of_nat)

end
