(* ===== verification/Mem_Cmp.thy ===== *)
theory Mem_Cmp
  imports Hermes_Prelude
begin

unbundle bit_operations_syntax

section \<open>Constant-time memory comparison\<close>

text \<open>
  \<^verbatim>\<open>src/common/mem_cmp.c\<close>.  The loop runs from the last byte to the first without an early
  exit, and keeps in \<^verbatim>\<open>res\<close> the difference of the bytes at the lowest index where they differ.
  The differences of two bytes lie between -255 and 255, so the model uses unbounded \<open>int\<close>
  for the C \<^verbatim>\<open>int\<close>; \<open>cst_loop_range\<close> proves that bound.
\<close>

definition cst_step :: "int \<Rightarrow> int \<Rightarrow> int" where
  "cst_step res diff = (res AND - (if diff = 0 then 1 else 0)) OR diff"

fun cst_loop :: "bytes \<Rightarrow> bytes \<Rightarrow> nat \<Rightarrow> int \<Rightarrow> int" where
  "cst_loop m1 m2 0 res = res"
| "cst_loop m1 m2 (Suc n) res =
     (let diff = int (unat (m1 ! n)) - int (unat (m2 ! n))
      in cst_loop m1 m2 n (cst_step res diff))"

definition cst_time_memcmp :: "bytes \<Rightarrow> bytes \<Rightarrow> nat \<Rightarrow> int option" where
  "cst_time_memcmp m1 m2 n =
     (if length m1 < n \<or> length m2 < n then None
      else let res = cst_loop m1 m2 n 0
           in Some ((if res > 0 then 1 else 0) - (if res < 0 then 1 else 0)))"

text \<open>The bit trick is a conditional overwrite.\<close>

lemma cst_step_eq: "cst_step res diff = (if diff = 0 then res else diff)"
  by (simp add: cst_step_def)

lemma bytes_cmp_snoc:
  "length xs = length ys \<Longrightarrow>
   bytes_cmp (xs @ [x]) (ys @ [y]) =
     (if bytes_cmp xs ys \<noteq> 0 then bytes_cmp xs ys else bytes_cmp [x] [y])"
  by (induction xs ys rule: list_induct2) auto

lemma bytes_cmp_single: "bytes_cmp [x] [y] = sgn (int (unat x) - int (unat y))"
  by (auto simp: sgn_if word_less_def word_uint_eq_iff)

lemma cst_loop_range:
  "\<bar>res\<bar> \<le> 255 \<Longrightarrow> \<bar>cst_loop m1 m2 n res\<bar> \<le> 255"
proof (induction n arbitrary: res)
  case (Suc n)
  have "unat (m1 ! n) < 2 ^ LENGTH(8)" "unat (m2 ! n) < 2 ^ LENGTH(8)"
    by (rule unsigned_less)+
  then have "\<bar>cst_step res (int (unat (m1 ! n)) - int (unat (m2 ! n)))\<bar> \<le> 255"
    using Suc.prems unfolding cst_step_eq by (cases "m1 ! n = m2 ! n") (auto simp del: of_nat_unat)
  then show ?case by (simp only: cst_loop.simps Let_def Suc.IH)
qed simp

lemma sgn_cst_loop:
  assumes "n \<le> length m1" "n \<le> length m2"
  shows "sgn (cst_loop m1 m2 n res) =
    (if bytes_cmp (take n m1) (take n m2) \<noteq> 0 then bytes_cmp (take n m1) (take n m2) else sgn res)"
  using assms
proof (induction n arbitrary: res)
  case (Suc n)
  have "take (Suc n) m1 = take n m1 @ [m1 ! n]" "take (Suc n) m2 = take n m2 @ [m2 ! n]"
    using Suc.prems by (simp_all add: take_Suc_conv_app_nth)
  then have "bytes_cmp (take (Suc n) m1) (take (Suc n) m2) =
      (if bytes_cmp (take n m1) (take n m2) \<noteq> 0 then bytes_cmp (take n m1) (take n m2)
       else sgn (int (unat (m1 ! n)) - int (unat (m2 ! n))))"
    using Suc.prems by (simp only: bytes_cmp_snoc bytes_cmp_single length_take)
  with Suc show ?case
    by (simp add: Let_def cst_step_eq sgn_0_0 del: bytes_cmp.simps)
qed simp

lemma sign_difference: "(if 0 < (r::int) then 1 else 0) - (if r < 0 then 1 else 0) = sgn r"
  by (simp add: sgn_if)

text \<open>The constant-time comparison computes what \<^verbatim>\<open>memcmp\<close> computes: undefined on the same
  calls, and otherwise the sign of the first difference.
\<close>

lemma cst_time_memcmp_eq_memcmp: "cst_time_memcmp m1 m2 n = c_memcmp m1 m2 n"
proof (cases "n \<le> length m1 \<and> n \<le> length m2")
  case True
  then have "sgn (cst_loop m1 m2 n 0) = bytes_cmp (take n m1) (take n m2)"
    by (simp add: sgn_cst_loop)
  with True show ?thesis
    by (simp add: cst_time_memcmp_def c_memcmp_def Let_def sign_difference)
next
  case False
  then show ?thesis by (auto simp: cst_time_memcmp_def c_memcmp_def)
qed

end
