(* ===== verification/Common_Buffer.thy ===== *)
theory Common_Buffer
  imports Hermes_Prelude
begin

section \<open>The growing buffer\<close>

text \<open>
  \<^verbatim>\<open>src/common/buffer.c\<close>: a buffer of tagged nodes (a status, or a length and data), filled at its
  end and read at \<^verbatim>\<open>currpos_\<close>.  The storage grows in blocks of 10240 bytes.  The model keeps the
  bytes written so far (\<^verbatim>\<open>length_\<close> is their number) and the number of blocks.  Reading a byte that
  was never written has no defined result.  Growing calls \<^verbatim>\<open>realloc\<close>, which frees the old block, but
  does not move \<^verbatim>\<open>currpos_\<close>; \<open>currpos = None\<close> is such a dangling pointer.

  \<^verbatim>\<open>buffer_push_string\<close> and \<^verbatim>\<open>buffer_pop_string\<close> are declared in the header and defined nowhere;
  they are the parameters \<open>push_string\<close> and \<open>pop_string\<close> of the functions that call them.
\<close>

subsection \<open>Data and operations\<close>

definition BUFFER_BLOCK_CAPACITY_DEFAULT :: nat where "BUFFER_BLOCK_CAPACITY_DEFAULT = 1024 * 10"
definition BUFFER_SUCCESS :: status where "BUFFER_SUCCESS = HM_SUCCESS"
definition BUFFER_INVALID_PARAM :: status where "BUFFER_INVALID_PARAM = HM_INVALID_PARAMETER"
definition BUFFER_BAD_ALLOC :: status where "BUFFER_BAD_ALLOC = HM_BAD_ALLOC"
definition BUFFER_AT_END :: status where "BUFFER_AT_END = - 4"
definition BUFFER_INCORRECT_BLOCK_TYPE :: status where "BUFFER_INCORRECT_BLOCK_TYPE = - 5"
definition BUFFER_CORRUPTED :: status where "BUFFER_CORRUPTED = - 6"
definition BUFFER_WRITE_READ_ONLY :: status where "BUFFER_WRITE_READ_ONLY = - 7"
definition HERMES_BUFFER_MAGIC :: u64 where "HERMES_BUFFER_MAGIC = 0x0000000026041900"
definition HERMES_BUFFER_NODE_TYPE_STR :: u8 where "HERMES_BUFFER_NODE_TYPE_STR = 1"
definition HERMES_BUFFER_NODE_TYPE_BIN :: u8 where "HERMES_BUFFER_NODE_TYPE_BIN = 2"
definition HERMES_BUFFER_NODE_TYPE_INT :: u8 where "HERMES_BUFFER_NODE_TYPE_INT = 3"

lemmas buffer_status_defs = BUFFER_SUCCESS_def BUFFER_INVALID_PARAM_def BUFFER_BAD_ALLOC_def
  BUFFER_AT_END_def BUFFER_INCORRECT_BLOCK_TYPE_def BUFFER_CORRUPTED_def BUFFER_WRITE_READ_ONLY_def
  status_defs

lemma buffer_status_distinct [simp]:
  "BUFFER_INVALID_PARAM \<noteq> BUFFER_SUCCESS" "BUFFER_BAD_ALLOC \<noteq> BUFFER_SUCCESS"
  "BUFFER_AT_END \<noteq> BUFFER_SUCCESS" "BUFFER_INCORRECT_BLOCK_TYPE \<noteq> BUFFER_SUCCESS"
  "BUFFER_CORRUPTED \<noteq> BUFFER_SUCCESS" "BUFFER_WRITE_READ_ONLY \<noteq> BUFFER_SUCCESS"
  "BUFFER_SUCCESS \<noteq> BUFFER_INVALID_PARAM" "BUFFER_SUCCESS \<noteq> BUFFER_BAD_ALLOC"
  "BUFFER_SUCCESS \<noteq> BUFFER_WRITE_READ_ONLY"
  by (simp_all add: buffer_status_defs)

record hm_buffer =
  capacity :: nat
  content :: bytes
  currpos :: "nat option"
  read_only :: bool

definition buffer_realloc :: "hm_buffer option \<Rightarrow> nat \<Rightarrow> status \<times> hm_buffer option" where
  "buffer_realloc buffer sz =
     (case buffer of
        None \<Rightarrow> (BUFFER_INVALID_PARAM, None)
      | Some b \<Rightarrow>
          if read_only b then (BUFFER_WRITE_READ_ONLY, buffer)
          else if capacity b * BUFFER_BLOCK_CAPACITY_DEFAULT < sz then
            (let new_capacity = sz div BUFFER_BLOCK_CAPACITY_DEFAULT +
                   (if sz mod BUFFER_BLOCK_CAPACITY_DEFAULT \<noteq> 0 then 1 else 0)
             in (BUFFER_SUCCESS, Some (b\<lparr>capacity := new_capacity, currpos := None\<rparr>)))
          else (BUFFER_SUCCESS, buffer))"

definition buffer_create :: hm_buffer where
  "buffer_create = \<lparr>capacity = 1, content = [], currpos = Some 0, read_only = False\<rparr>"

definition buffer_create_with_data :: "bytes \<Rightarrow> hm_buffer option" where
  "buffer_create_with_data data =
     (case buffer_realloc (Some buffer_create) (length data) of
        (st, None) \<Rightarrow> None
      | (st, Some res) \<Rightarrow>
          if BUFFER_SUCCESS \<noteq> st then None else Some (res\<lparr>currpos := Some 0, content := data\<rparr>))"

definition buffer_init_with_data :: "hm_buffer option \<Rightarrow> cbuf \<Rightarrow> status \<times> hm_buffer option" where
  "buffer_init_with_data buffer data =
     (if buffer = None \<or> absent data then (BUFFER_INVALID_PARAM, buffer)
      else (BUFFER_SUCCESS,
        Some \<lparr>capacity = 1, content = the data, currpos = Some 0, read_only = True\<rparr>))"

definition buffer_destroy :: "hm_buffer option \<Rightarrow> status \<times> hm_buffer option" where
  "buffer_destroy buffer =
     (if buffer = None then (BUFFER_INVALID_PARAM, None) else (BUFFER_SUCCESS, None))"

definition buffer_push_status :: "hm_buffer option \<Rightarrow> u32 \<Rightarrow> status \<times> hm_buffer option" where
  "buffer_push_status buffer status =
     (if buffer = None then (BUFFER_BAD_ALLOC, buffer)
      else (case buffer_realloc buffer (length (content (the buffer)) + 4 + 1) of
              (st, r) \<Rightarrow>
                if 0 \<noteq> st then (BUFFER_BAD_ALLOC, r)
                else if read_only (the r) then (BUFFER_WRITE_READ_ONLY, r)
                else (BUFFER_SUCCESS,
                  Some ((the r)\<lparr>content := content (the r) @ [HERMES_BUFFER_NODE_TYPE_INT] @ u32_le status\<rparr>))))"

definition buffer_push_data :: "hm_buffer option \<Rightarrow> cbuf \<Rightarrow> status \<times> hm_buffer option" where
  "buffer_push_data buffer data =
     (if buffer = None \<or> absent data then (BUFFER_BAD_ALLOC, buffer)
      else (case buffer_realloc buffer (length (content (the buffer)) + length (the data) + 4 + 1) of
              (st, r) \<Rightarrow>
                if 0 \<noteq> st then (BUFFER_BAD_ALLOC, r)
                else if read_only (the r) then (BUFFER_WRITE_READ_ONLY, r)
                else (BUFFER_SUCCESS,
                  Some ((the r)\<lparr>content := content (the r) @ [HERMES_BUFFER_NODE_TYPE_BIN] @
                    u32_le (len32 (the data)) @ the data\<rparr>))))"

text \<open>
  A pop reads at \<^verbatim>\<open>currpos_\<close>.  With a dangling \<^verbatim>\<open>currpos_\<close> already the comparison with the end
  has no defined result.
\<close>

definition buffer_pop_status :: "hm_buffer option \<Rightarrow> ((status + u32) \<times> hm_buffer option) option" where
  "buffer_pop_status buffer =
     (case buffer of
        None \<Rightarrow> Some (Inl BUFFER_INVALID_PARAM, None)
      | Some b \<Rightarrow>
          (case currpos b of
             None \<Rightarrow> None
           | Some pos \<Rightarrow>
               if length (content b) \<le> pos then Some (Inl BUFFER_AT_END, buffer)
               else if content b ! pos \<noteq> HERMES_BUFFER_NODE_TYPE_INT
               then Some (Inl BUFFER_INCORRECT_BLOCK_TYPE, buffer)
               else if length (content b) < pos + 1 + 4 then Some (Inl BUFFER_CORRUPTED, buffer)
               else (case read_u32 (drop (pos + 1) (content b)) of
                       None \<Rightarrow> None
                     | Some (status, _) \<Rightarrow> Some (Inr status, Some (b\<lparr>currpos := Some (pos + 5)\<rparr>)))))"

definition buffer_pop_data :: "hm_buffer option \<Rightarrow> ((status + bytes) \<times> hm_buffer option) option" where
  "buffer_pop_data buffer =
     (case buffer of
        None \<Rightarrow> Some (Inl BUFFER_INVALID_PARAM, None)
      | Some b \<Rightarrow>
          (case currpos b of
             None \<Rightarrow> None
           | Some pos \<Rightarrow>
               if length (content b) \<le> pos then Some (Inl BUFFER_AT_END, buffer)
               else if content b ! pos = HERMES_BUFFER_NODE_TYPE_BIN
               then Some (Inl BUFFER_INCORRECT_BLOCK_TYPE, buffer)
               else (case read_u32 (drop (pos + 1) (content b)) of
                       None \<Rightarrow> None
                     | Some (data_length, _) \<Rightarrow>
                         if length (content b) < pos + 1 + 4 + unat data_length
                         then Some (Inl BUFFER_CORRUPTED, buffer)
                         else Some (Inr (take (unat data_length) (drop (pos + 5) (content b))),
                           Some (b\<lparr>currpos := Some (pos + unat data_length + 5)\<rparr>)))))"

definition buffer_get_size :: "hm_buffer option \<Rightarrow> nat" where
  "buffer_get_size buffer = (case buffer of None \<Rightarrow> 0 | Some b \<Rightarrow> length (content b))"

definition buffer_get_data :: "hm_buffer option \<Rightarrow> cbuf" where
  "buffer_get_data buffer = map_option content buffer"

subsection \<open>Variadic creation and extraction\<close>

datatype buffer_arg = BStr bytes | BBin cbuf | BOther

fun create_with_loop ::
    "(hm_buffer option \<Rightarrow> bytes \<Rightarrow> status \<times> hm_buffer option) \<Rightarrow> (u64 \<times> buffer_arg) list \<Rightarrow>
     hm_buffer option \<Rightarrow> hm_buffer option" where
  "create_with_loop push_string [] res = res"
| "create_with_loop push_string ((mark, a) # args) res =
     (if mark = 0 then res
      else if HERMES_BUFFER_MAGIC \<noteq> mark then None
      else (case a of
              BStr str \<Rightarrow>
                (case push_string res str of
                   (st, res) \<Rightarrow> if BUFFER_SUCCESS \<noteq> st then None else create_with_loop push_string args res)
            | BBin data \<Rightarrow>
                (case buffer_push_data res data of
                   (st, res) \<Rightarrow> if BUFFER_SUCCESS \<noteq> st then None else create_with_loop push_string args res)
            | BOther \<Rightarrow> None))"

definition buffer_create_with ::
    "(hm_buffer option \<Rightarrow> bytes \<Rightarrow> status \<times> hm_buffer option) \<Rightarrow> (u64 \<times> buffer_arg) list \<Rightarrow> hm_buffer option"
where
  "buffer_create_with push_string args = create_with_loop push_string args (Some buffer_create)"

text \<open>The type tags asked for; the results are the values stored through the out pointers so far.\<close>

fun buffer_extract ::
    "(hm_buffer option \<Rightarrow> ((status + bytes) \<times> hm_buffer option) option) \<Rightarrow> hm_buffer option \<Rightarrow>
     (u64 \<times> u32) list \<Rightarrow> (status \<times> bytes list \<times> hm_buffer option) option" where
  "buffer_extract pop_string buffer [] = Some (BUFFER_SUCCESS, [], buffer)"
| "buffer_extract pop_string buffer ((mark, ty) # args) =
     (if mark = 0 then Some (BUFFER_SUCCESS, [], buffer)
      else if mark \<noteq> HERMES_BUFFER_MAGIC then Some (BUFFER_INVALID_PARAM, [], buffer)
      else if ty = ucast HERMES_BUFFER_NODE_TYPE_STR \<or> ty = ucast HERMES_BUFFER_NODE_TYPE_BIN then
        (case (if ty = ucast HERMES_BUFFER_NODE_TYPE_STR then pop_string buffer else buffer_pop_data buffer) of
           None \<Rightarrow> None
         | Some (Inl _, buffer) \<Rightarrow> Some (BUFFER_INVALID_PARAM, [], buffer)
         | Some (Inr v, buffer) \<Rightarrow>
             map_option (\<lambda>(st, vs, buffer). (st, v # vs, buffer)) (buffer_extract pop_string buffer args))
      else Some (BUFFER_INVALID_PARAM, [], buffer))"

subsection \<open>Invariant\<close>

text \<open>The content fits the allocated blocks.\<close>

definition buffer_inv :: "hm_buffer \<Rightarrow> bool" where
  "buffer_inv b \<longleftrightarrow> read_only b \<or> length (content b) \<le> capacity b * BUFFER_BLOCK_CAPACITY_DEFAULT"

lemma blocks_enough: "0 < c \<Longrightarrow> n \<le> (n div c + (if n mod c \<noteq> 0 then 1 else 0)) * c" for n c :: nat
proof -
  assume "0 < c"
  then have "n mod c < c" by simp
  moreover have "n div c * c + n mod c = n" by (rule div_mult_mod_eq)
  ultimately have "n \<le> n div c * c + (if n mod c \<noteq> 0 then c else 0)"
    by (split if_split) linarith
  then show ?thesis by (simp add: algebra_simps split: if_splits)
qed

lemma realloc_ok:
  assumes "buffer_realloc (Some b) n = (st, r)" "buffer_inv b" "length (content b) \<le> n"
  shows "\<exists>b'. r = Some b' \<and> buffer_inv b' \<and> content b' = content b \<and> read_only b' = read_only b \<and>
    (st = BUFFER_SUCCESS \<longleftrightarrow> \<not> read_only b) \<and>
    (st = BUFFER_SUCCESS \<longrightarrow> n \<le> capacity b' * BUFFER_BLOCK_CAPACITY_DEFAULT)"
proof -
  have c: "0 < BUFFER_BLOCK_CAPACITY_DEFAULT" by (simp add: BUFFER_BLOCK_CAPACITY_DEFAULT_def)
  from assms blocks_enough [OF c, of n] show ?thesis
    by (auto simp: buffer_realloc_def buffer_inv_def Let_def split: if_splits)
qed

lemma realloc_keeps:
  "n \<le> BUFFER_BLOCK_CAPACITY_DEFAULT \<Longrightarrow> 0 < capacity b \<Longrightarrow> \<not> read_only b \<Longrightarrow>
   buffer_realloc (Some b) n = (BUFFER_SUCCESS, Some b)"
  by (cases "capacity b") (auto simp: buffer_realloc_def)

text \<open>C37. Pushing a status or data never writes past the allocated blocks: on a buffer whose content
  fits them, the result fits them; the push succeeds and appends exactly the encoded node unless the
  buffer is read-only, when it fails and changes nothing.\<close>

theorem buffer_push_fits:
  assumes "buffer_inv b" "d \<noteq> []"
  shows "\<exists>b1 b2. buffer_push_status (Some b) s = (if read_only b then BUFFER_BAD_ALLOC else BUFFER_SUCCESS, Some b1) \<and>
    buffer_push_data (Some b) (Some d) = (if read_only b then BUFFER_BAD_ALLOC else BUFFER_SUCCESS, Some b2) \<and>
    buffer_inv b1 \<and> buffer_inv b2 \<and>
    content b1 = content b @ (if read_only b then [] else 3 # u32_le s) \<and>
    content b2 = content b @ (if read_only b then [] else 2 # u32_le (len32 d) @ d)"
proof -
  obtain st1 r1 where r1: "buffer_realloc (Some b) (length (content b) + 4 + 1) = (st1, r1)" by force
  obtain st2 r2 where r2: "buffer_realloc (Some b) (length (content b) + length d + 4 + 1) = (st2, r2)" by force
  have st: "(0 :: status) = BUFFER_SUCCESS" by (simp add: buffer_status_defs)
  from realloc_ok [OF r1 assms(1)] realloc_ok [OF r2 assms(1)] show ?thesis
    using r1 r2 assms(2)
    by (auto simp: buffer_push_status_def buffer_push_data_def st buffer_inv_def
        HERMES_BUFFER_NODE_TYPE_INT_def HERMES_BUFFER_NODE_TYPE_BIN_def)
qed

theorem buffer_push_fits_witness:
  "\<exists>b1 b2. buffer_push_status (Some buffer_create) 7 = (BUFFER_SUCCESS, Some b1) \<and>
    buffer_push_data (Some buffer_create) (Some [1]) = (BUFFER_SUCCESS, Some b2) \<and>
    buffer_inv b1 \<and> buffer_inv b2"
proof -
  have "buffer_inv buffer_create" by (simp add: buffer_inv_def buffer_create_def)
  from buffer_push_fits [OF this, of "[1]" 7] show ?thesis
    by (auto simp: buffer_create_def)
qed

subsection \<open>Reading what was pushed\<close>

fun push_statuses :: "hm_buffer option \<Rightarrow> u32 list \<Rightarrow> hm_buffer option" where
  "push_statuses b [] = b"
| "push_statuses b (s # ss) = push_statuses (snd (buffer_push_status b s)) ss"

fun pop_statuses :: "hm_buffer option \<Rightarrow> nat \<Rightarrow> (u32 list \<times> hm_buffer option) option" where
  "pop_statuses b 0 = Some ([], b)"
| "pop_statuses b (Suc n) =
     (case buffer_pop_status b of
        Some (Inr s, b) \<Rightarrow> map_option (apfst (Cons s)) (pop_statuses b n)
      | _ \<Rightarrow> None)"

definition status_nodes :: "u32 list \<Rightarrow> bytes" where
  "status_nodes ss = concat (map (\<lambda>s. HERMES_BUFFER_NODE_TYPE_INT # u32_le s) ss)"

lemma length_status_nodes: "length (status_nodes ss) = 5 * length ss"
  by (induction ss) (auto simp: status_nodes_def)

lemma push_statuses_content:
  assumes "\<not> read_only b" "0 < capacity b"
    and "length (content b) + 5 * length ss \<le> BUFFER_BLOCK_CAPACITY_DEFAULT"
  shows "push_statuses (Some b) ss = Some (b\<lparr>content := content b @ status_nodes ss\<rparr>)"
  using assms
proof (induction ss arbitrary: b)
  case (Cons s ss)
  have "buffer_realloc (Some b) (length (content b) + 4 + 1) = (BUFFER_SUCCESS, Some b)"
    using Cons.prems by (intro realloc_keeps) simp_all
  then have "snd (buffer_push_status (Some b) s) =
      Some (b\<lparr>content := content b @ HERMES_BUFFER_NODE_TYPE_INT # u32_le s\<rparr>)"
    using Cons.prems(1) by (simp add: buffer_push_status_def buffer_status_defs)
  with Cons.IH [of "b\<lparr>content := content b @ HERMES_BUFFER_NODE_TYPE_INT # u32_le s\<rparr>"] Cons.prems
  show ?case by (simp add: status_nodes_def)
qed (simp add: status_nodes_def)

lemma pop_statuses_content:
  assumes "content b = pre @ status_nodes ss @ post" "currpos b = Some (length pre)"
  shows "\<exists>b'. pop_statuses (Some b) (length ss) = Some (ss, Some b')"
  using assms
proof (induction ss arbitrary: b pre)
  case (Cons s ss)
  have c: "content b = pre @ (HERMES_BUFFER_NODE_TYPE_INT # u32_le s) @ status_nodes ss @ post"
    using Cons.prems(1) by (simp add: status_nodes_def)
  have pop: "buffer_pop_status (Some b) = Some (Inr s, Some (b\<lparr>currpos := Some (length pre + 5)\<rparr>))"
    using c Cons.prems(2) by (simp add: buffer_pop_status_def nth_append)
  have "\<exists>b'. pop_statuses (Some (b\<lparr>currpos := Some (length pre + 5)\<rparr>)) (length ss) = Some (ss, Some b')"
    by (rule Cons.IH [of _ "pre @ HERMES_BUFFER_NODE_TYPE_INT # u32_le s"]) (simp_all add: c)
  with pop show ?case by auto
qed simp

text \<open>Statuses pushed into a new buffer come out in the same order, as long as the buffer does not
  have to grow; the first push that makes it grow leaves the read position dangling.\<close>

theorem buffer_statuses_in_order:
  "(5 * length ss \<le> BUFFER_BLOCK_CAPACITY_DEFAULT \<longrightarrow>
      (\<exists>b'. pop_statuses (push_statuses (Some buffer_create) ss) (length ss) = Some (ss, Some b'))) \<and>
   (BUFFER_BLOCK_CAPACITY_DEFAULT < 5 * length (s # ss) \<and> 5 * length ss \<le> BUFFER_BLOCK_CAPACITY_DEFAULT \<longrightarrow>
      buffer_pop_status (snd (buffer_push_status (push_statuses (Some buffer_create) ss) s)) = None)"
proof (intro conjI impI)
  assume "5 * length ss \<le> BUFFER_BLOCK_CAPACITY_DEFAULT"
  then have p: "push_statuses (Some buffer_create) ss = Some (buffer_create\<lparr>content := status_nodes ss\<rparr>)"
    using push_statuses_content [of buffer_create ss] by (simp add: buffer_create_def)
  show "\<exists>b'. pop_statuses (push_statuses (Some buffer_create) ss) (length ss) = Some (ss, Some b')"
    unfolding p by (rule pop_statuses_content [of _ "[]" _ "[]"]) (simp_all add: buffer_create_def)
next
  assume a: "BUFFER_BLOCK_CAPACITY_DEFAULT < 5 * length (s # ss) \<and> 5 * length ss \<le> BUFFER_BLOCK_CAPACITY_DEFAULT"
  then have p: "push_statuses (Some buffer_create) ss = Some (buffer_create\<lparr>content := status_nodes ss\<rparr>)"
    using push_statuses_content [of buffer_create ss] by (simp add: buffer_create_def)
  show "buffer_pop_status (snd (buffer_push_status (push_statuses (Some buffer_create) ss) s)) = None"
    unfolding p using a
    by (simp add: buffer_push_status_def buffer_realloc_def buffer_create_def length_status_nodes
        buffer_status_defs buffer_pop_status_def Let_def)
qed

theorem buffer_statuses_in_order_witness:
  "\<exists>b'. pop_statuses (push_statuses (Some buffer_create) [7, 8]) 2 = Some ([7, 8], Some b')"
  using buffer_statuses_in_order [of "[7, 8]" 0]
  by (simp add: BUFFER_BLOCK_CAPACITY_DEFAULT_def numeral_2_eq_2)

text \<open>Data pushed into a buffer is never popped as data: whatever is pushed, popping data at that
  node reports an incorrect block type.\<close>

theorem buffer_pop_data_rejects_data:
  assumes "buffer_inv b" "\<not> read_only b" "d \<noteq> []" "currpos b' = Some (length (content b))"
    and "buffer_push_data (Some b) (Some d) = (BUFFER_SUCCESS, Some b1)" "content b' = content b1"
  shows "buffer_pop_data (Some b') = Some (Inl BUFFER_INCORRECT_BLOCK_TYPE, Some b')"
proof -
  obtain st r where r: "buffer_realloc (Some b) (length (content b) + length d + 4 + 1) = (st, r)" by force
  have st: "(0 :: status) = BUFFER_SUCCESS" by (simp add: buffer_status_defs)
  from realloc_ok [OF r assms(1)] have "content b1 = content b @ HERMES_BUFFER_NODE_TYPE_BIN # u32_le (len32 d) @ d"
    using assms r by (auto simp: buffer_push_data_def st)
  with assms show ?thesis by (simp add: buffer_pop_data_def)
qed

theorem buffer_pop_data_rejects_data_witness:
  "buffer_pop_data (snd (buffer_push_data (Some buffer_create) (Some [1, 2]))) =
    Some (Inl BUFFER_INCORRECT_BLOCK_TYPE, snd (buffer_push_data (Some buffer_create) (Some [1, 2])))"
proof -
  have inv: "buffer_inv buffer_create" "\<not> read_only buffer_create"
    by (simp_all add: buffer_inv_def buffer_create_def)
  let ?b = "buffer_create\<lparr>content := [2, 2, 0, 0, 0, 1, 2]\<rparr>"
  have "buffer_push_data (Some buffer_create) (Some [1, 2]) = (BUFFER_SUCCESS, Some ?b)"
    by (simp add: buffer_push_data_def buffer_realloc_def buffer_create_def BUFFER_BLOCK_CAPACITY_DEFAULT_def
        buffer_status_defs HERMES_BUFFER_NODE_TYPE_BIN_def u32_le_def len32_def)
  with buffer_pop_data_rejects_data [OF inv, of "[1, 2]" ?b ?b] show ?thesis
    by (simp add: buffer_create_def)
qed

end
