(* ===== verification/Hash_Table.thy ===== *)
theory Hash_Table
  imports Hermes_Prelude
begin

section \<open>The hash table\<close>

text \<open>
  \<^verbatim>\<open>src/common/hm_hash_table.c\<close>: 1024 buckets, each a singly linked list of entries ordered by
  key.  The model keeps a bucket as the list of its entries.  A value is opaque to the table (it is
  copied in and handed back), so its type is a parameter; \<open>None\<close> stands for a NULL or empty value
  argument.

  The C code compares keys with \<^verbatim>\<open>memcmp(key, entry->key, key_length)\<close>, where \<^verbatim>\<open>key_length\<close> is
  the length of the key looked up, whatever the length of the entry's key.  When the entry's key is
  shorter, this reads past its end and the run has no defined result (\<open>None\<close>); when it is longer,
  only a prefix of it is compared.  The lemmas below give the behaviour as a map for the keys on
  which every entry of their bucket has the same length (\<open>ht_safe\<close>), and the locale \<open>registry\<close>
  is the contract the RPC server relies on.
\<close>

subsection \<open>Data and operations\<close>

definition HM_HASH_TABLE_CAP :: nat where "HM_HASH_TABLE_CAP = 1024"

record 'v hm_hash_table_entry =
  key :: bytes
  val :: 'v

type_synonym 'v bucket = "'v hm_hash_table_entry list"
type_synonym 'v hm_hash_table = "nat \<Rightarrow> 'v bucket"

definition hm_hash_table_entry_create :: "bytes \<Rightarrow> 'v \<Rightarrow> 'v hm_hash_table_entry" where
  "hm_hash_table_entry_create k v = \<lparr>key = k, val = v\<rparr>"

text \<open>djb2 over \<^verbatim>\<open>unsigned long\<close> (64 bits).\<close>

definition hm_hash_step :: "u64 \<Rightarrow> u8 \<Rightarrow> u64" where
  "hm_hash_step hash c = (push_bit 5 hash + hash) + ucast c"

definition hm_hash :: "bytes \<Rightarrow> nat" where
  "hm_hash k = unat (foldl hm_hash_step 5381 k mod word_of_nat HM_HASH_TABLE_CAP)"

definition hm_hash_table_create :: "'v hm_hash_table" where
  "hm_hash_table_create = (\<lambda>_. [])"

text \<open>The walk over a bucket: the entries passed, and the rest from where the loop stops.\<close>

fun bucket_walk :: "bytes \<Rightarrow> 'v bucket \<Rightarrow> ('v bucket \<times> 'v bucket) option" where
  "bucket_walk k [] = Some ([], [])"
| "bucket_walk k (e # es) =
     (case c_memcmp k (key e) (length k) of
        None \<Rightarrow> None
      | Some c \<Rightarrow>
          if c > 0 then map_option (\<lambda>(passed, rest). (e # passed, rest)) (bucket_walk k es)
          else Some ([], e # es))"

definition hm_hash_table_set ::
    "'v hm_hash_table option \<Rightarrow> cbuf \<Rightarrow> 'v option \<Rightarrow> (status \<times> 'v hm_hash_table option) option" where
  "hm_hash_table_set table k v =
     (if table = None \<or> absent k \<or> v = None then Some (HM_INVALID_PARAMETER, table)
      else let t = the table; k' = the k; hash = hm_hash k' in
        (case bucket_walk k' (t hash) of
           None \<Rightarrow> None
         | Some (passed, []) \<Rightarrow>
             Some (HM_SUCCESS,
               Some (t(hash := passed @ [hm_hash_table_entry_create k' (the v)])))
         | Some (passed, e # rest) \<Rightarrow>
             (case c_memcmp k' (key e) (length k') of
                None \<Rightarrow> None
              | Some c \<Rightarrow>
                  if c = 0 then Some (HM_FAIL, table)
                  else Some (HM_SUCCESS,
                    Some (t(hash := passed @ hm_hash_table_entry_create k' (the v) # e # rest))))))"

definition hm_hash_table_get ::
    "'v hm_hash_table option \<Rightarrow> cbuf \<Rightarrow> (status + 'v) option" where
  "hm_hash_table_get table k =
     (if table = None \<or> absent k then Some (Inl HM_INVALID_PARAMETER)
      else let t = the table; k' = the k in
        (case bucket_walk k' (t (hm_hash k')) of
           None \<Rightarrow> None
         | Some (passed, []) \<Rightarrow> Some (Inl HM_FAIL)
         | Some (passed, e # rest) \<Rightarrow>
             (case c_memcmp k' (key e) (length k') of
                None \<Rightarrow> None
              | Some c \<Rightarrow> if c \<noteq> 0 then Some (Inl HM_FAIL) else Some (Inr (val e)))))"

definition hm_hash_table_destroy :: "'v hm_hash_table option \<Rightarrow> status \<times> 'v hm_hash_table option" where
  "hm_hash_table_destroy table =
     (if table = None then (HM_INVALID_PARAMETER, None) else (HM_SUCCESS, None))"

lemma hm_hash_bound: "hm_hash k < HM_HASH_TABLE_CAP"
proof -
  have "(word_of_nat HM_HASH_TABLE_CAP :: u64) = 1024"
    by (simp add: HM_HASH_TABLE_CAP_def)
  then have "hm_hash k = unat (foldl hm_hash_step 5381 k) mod 1024"
    by (simp add: hm_hash_def unat_mod)
  then show ?thesis by (simp add: HM_HASH_TABLE_CAP_def)
qed


subsection \<open>Buckets\<close>

text \<open>
  A bucket in which every key has length \<open>n\<close> is kept strictly ordered, so the walk stops at the
  first entry that is not below the key.
\<close>

definition key_less :: "'v hm_hash_table_entry \<Rightarrow> 'v hm_hash_table_entry \<Rightarrow> bool" where
  "key_less e e' \<longleftrightarrow> bytes_cmp (key e) (key e') < 0"

definition uniform :: "nat \<Rightarrow> 'v bucket \<Rightarrow> bool" where
  "uniform n b \<longleftrightarrow> (\<forall>e \<in> set b. length (key e) = n)"

definition bucket_map :: "'v bucket \<Rightarrow> bytes \<Rightarrow> 'v option" where
  "bucket_map b = map_of (map (\<lambda>e. (key e, val e)) b)"

lemma uniform_simps [simp]:
  "uniform n []" "uniform n (e # b) \<longleftrightarrow> length (key e) = n \<and> uniform n b"
  "uniform n (b @ b') \<longleftrightarrow> uniform n b \<and> uniform n b'"
  by (auto simp: uniform_def)

lemma bucket_map_simps [simp]:
  "bucket_map [] = Map.empty" "bucket_map (e # b) = (bucket_map b)(key e \<mapsto> val e)"
  "bucket_map (b @ b') = bucket_map b' ++ bucket_map b"
  by (auto simp: bucket_map_def)

lemma bucket_map_None: "(\<forall>e \<in> set b. key e \<noteq> k) \<Longrightarrow> bucket_map b k = None"
  by (induction b) auto

lemma bucket_walk_uniform:
  "uniform (length k) b \<Longrightarrow>
   bucket_walk k b =
     Some (takeWhile (\<lambda>e. bytes_cmp k (key e) > 0) b, dropWhile (\<lambda>e. bytes_cmp k (key e) > 0) b)"
  by (induction b) auto

lemma walk_splits:
  "bucket_walk k b = Some (passed, rest) \<Longrightarrow> b = passed @ rest"
  by (induction b arbitrary: passed) (auto split: option.splits if_splits)

lemma passed_below:
  assumes "uniform (length k) b" "bucket_walk k b = Some (passed, rest)" "e \<in> set passed"
  shows "bytes_cmp (key e) k < 0"
proof -
  from assms have "bytes_cmp k (key e) > 0" "e \<in> set b"
    by (auto simp: bucket_walk_uniform dest: set_takeWhileD)
  with assms(1) show ?thesis
    using bytes_cmp_antisym [of k "key e"] by (auto simp: uniform_def)
qed

lemma head_not_below:
  assumes "uniform (length k) b" "bucket_walk k b = Some (passed, e # rest)"
  shows "bytes_cmp k (key e) \<le> 0"
  using assms hd_dropWhile [of "\<lambda>e. bytes_cmp k (key e) > 0" b]
  by (auto simp: bucket_walk_uniform)

lemma rest_above:
  assumes "uniform (length k) b" "sorted_wrt key_less b"
    and "bucket_walk k b = Some (passed, e # rest)" "e' \<in> set rest"
  shows "bytes_cmp k (key e') < 0"
proof -
  from assms have b: "b = passed @ e # rest"
    by (auto dest: walk_splits)
  with assms have less: "bytes_cmp (key e) (key e') < 0" and len: "length (key e) = length k"
    "length (key e') = length k"
    by (auto simp: sorted_wrt_append key_less_def uniform_def)
  have "bytes_cmp k (key e) \<le> 0"
    using assms(1,3) by (rule head_not_below)
  then consider "bytes_cmp k (key e) < 0" | "k = key e"
    using len bytes_cmp_eq_0 [of k "key e"] by fastforce
  then show ?thesis
  proof cases
    case 1
    then show ?thesis using less len bytes_cmp_less_trans [of k "key e" "key e'"] by simp
  next
    case 2
    then show ?thesis using less by simp
  qed
qed

lemma bucket_map_walk:
  assumes "uniform (length k) b" "sorted_wrt key_less b"
    and "bucket_walk k b = Some (passed, rest)"
  shows "bucket_map b k =
    (case rest of [] \<Rightarrow> None | e # _ \<Rightarrow> if bytes_cmp k (key e) = 0 then Some (val e) else None)"
proof -
  have b: "b = passed @ rest" using assms(3) by (rule walk_splits)
  have "key e \<noteq> k" if "e \<in> set passed" for e
    using passed_below [OF assms(1,3) that] by auto
  then have passed: "bucket_map passed k = None" by (auto intro: bucket_map_None)
  show ?thesis
  proof (cases rest)
    case Nil
    with b passed show ?thesis by simp
  next
    case (Cons e es)
    have "key e' \<noteq> k" if "e' \<in> set es" for e'
      using rest_above [OF assms(1,2) assms(3) [unfolded Cons] that] by auto
    then have es: "bucket_map es k = None" by (auto intro: bucket_map_None)
    have "bytes_cmp k (key e) = 0 \<longleftrightarrow> k = key e"
      using assms(1) b Cons by (intro bytes_cmp_eq_0) simp
    with b passed es Cons show ?thesis by (auto simp: map_add_def)
  qed
qed

lemma sorted_insert:
  assumes "uniform (length k) b" "sorted_wrt key_less b"
    and "bucket_walk k b = Some (passed, rest)"
    and "\<forall>e es. rest = e # es \<longrightarrow> bytes_cmp k (key e) \<noteq> 0" "key n = k"
  shows "sorted_wrt key_less (passed @ n # rest)"
proof -
  have b: "b = passed @ rest" using assms(3) by (rule walk_splits)
  have "key_less n e" if "e \<in> set rest" for e
  proof (cases rest)
    case Nil
    with that show ?thesis by simp
  next
    case (Cons e' es)
    have "bytes_cmp k (key e') < 0"
      using head_not_below [OF assms(1) assms(3) [unfolded Cons]] assms(4) Cons by fastforce
    moreover have "bytes_cmp k (key e'') < 0" if "e'' \<in> set es" for e''
      using rest_above [OF assms(1,2) assms(3) [unfolded Cons] that] .
    ultimately show ?thesis
      using that Cons assms(5) by (auto simp: key_less_def)
  qed
  moreover have "key_less e n" if "e \<in> set passed" for e
    using passed_below [OF assms(1,3) that] assms(5) by (simp add: key_less_def)
  ultimately show ?thesis
    using assms(2) b by (auto simp: sorted_wrt_append)
qed

subsection \<open>The table as a map\<close>

definition ht_inv :: "'v hm_hash_table \<Rightarrow> bool" where
  "ht_inv t \<longleftrightarrow> (\<forall>i. sorted_wrt key_less (t i) \<and> (\<exists>n. uniform n (t i)) \<and>
     (\<forall>e \<in> set (t i). hm_hash (key e) = i))"

definition ht_safe :: "'v hm_hash_table \<Rightarrow> bytes \<Rightarrow> bool" where
  "ht_safe t k \<longleftrightarrow> uniform (length k) (t (hm_hash k))"

definition ht_abs :: "'v hm_hash_table \<Rightarrow> bytes \<Rightarrow> 'v option" where
  "ht_abs t k = bucket_map (t (hm_hash k)) k"

definition key_compat :: "bytes \<Rightarrow> bytes \<Rightarrow> bool" where
  "key_compat k k' \<longleftrightarrow> hm_hash k \<noteq> hm_hash k' \<or> length k = length k'"

lemma ht_inv_create: "ht_inv hm_hash_table_create"
  by (simp add: ht_inv_def hm_hash_table_create_def)

lemma ht_safe_create: "ht_safe hm_hash_table_create k"
  by (simp add: ht_safe_def hm_hash_table_create_def)

lemma ht_abs_create: "ht_abs hm_hash_table_create k = None"
  by (simp add: ht_abs_def hm_hash_table_create_def)

lemma hm_hash_table_get_abs:
  assumes "ht_inv t" "ht_safe t k" "k \<noteq> []"
  shows "hm_hash_table_get (Some t) (Some k) =
    Some (case ht_abs t k of None \<Rightarrow> Inl HM_FAIL | Some v \<Rightarrow> Inr v)"
proof -
  let ?b = "t (hm_hash k)"
  from assms have u: "uniform (length k) ?b" and srt: "sorted_wrt key_less ?b"
    by (auto simp: ht_safe_def ht_inv_def)
  obtain passed rest where w: "bucket_walk k ?b = Some (passed, rest)"
    using u by (simp add: bucket_walk_uniform)
  then have "uniform (length k) rest"
    using u walk_splits [OF w] by simp
  with w assms(3) bucket_map_walk [OF u srt w] show ?thesis
    by (auto simp: hm_hash_table_get_def ht_abs_def Let_def split: list.splits)
qed

lemma hm_hash_table_set_dup:
  assumes "ht_inv t" "ht_safe t k" "k \<noteq> []" "ht_abs t k = Some w"
  shows "hm_hash_table_set (Some t) (Some k) (Some v) = Some (HM_FAIL, Some t)"
proof -
  let ?b = "t (hm_hash k)"
  from assms have u: "uniform (length k) ?b" and srt: "sorted_wrt key_less ?b"
    by (auto simp: ht_safe_def ht_inv_def)
  obtain passed rest where w: "bucket_walk k ?b = Some (passed, rest)"
    using u by (simp add: bucket_walk_uniform)
  then have "uniform (length k) rest"
    using u walk_splits [OF w] by simp
  with w assms(3,4) bucket_map_walk [OF u srt w] show ?thesis
    by (auto simp: hm_hash_table_set_def ht_abs_def Let_def split: list.splits if_splits)
qed

text \<open>Setting a new key: success, and the invariant, the map and the safe keys afterwards.\<close>

lemma hm_hash_table_set_new:
  assumes "ht_inv t" "ht_safe t k" "k \<noteq> []" "ht_abs t k = None"
  obtains t' where "hm_hash_table_set (Some t) (Some k) (Some v) = Some (HM_SUCCESS, Some t')"
    "ht_inv t'" "\<And>k'. ht_abs t' k' = (if k' = k then Some v else ht_abs t k')"
    "\<And>k'. ht_safe t' k' \<longleftrightarrow> ht_safe t k' \<and> key_compat k k'"
proof -
  let ?b = "t (hm_hash k)" and ?e = "hm_hash_table_entry_create k v"
  from assms have u: "uniform (length k) ?b" and srt: "sorted_wrt key_less ?b"
    and hk: "\<forall>e \<in> set ?b. hm_hash (key e) = hm_hash k"
    by (auto simp: ht_safe_def ht_inv_def)
  obtain passed rest where w: "bucket_walk k ?b = Some (passed, rest)"
    using u by (simp add: bucket_walk_uniform)
  have b: "?b = passed @ rest" using w by (rule walk_splits)
  have ne: "\<forall>e es. rest = e # es \<longrightarrow> bytes_cmp k (key e) \<noteq> 0"
    using bucket_map_walk [OF u srt w] assms(4) by (auto simp: ht_abs_def)
  let ?t = "t(hm_hash k := passed @ ?e # rest)"
  have set_eq: "hm_hash_table_set (Some t) (Some k) (Some v) = Some (HM_SUCCESS, Some ?t)"
    using w assms(3) ne u b
    by (auto simp: hm_hash_table_set_def Let_def split: list.splits)
  have ke: "key ?e = k" "val ?e = v" by (simp_all add: hm_hash_table_entry_create_def)
  have "sorted_wrt key_less (passed @ ?e # rest)"
    using u srt w ne ke(1) by (rule sorted_insert)
  moreover have "uniform (length k) (passed @ ?e # rest)"
    using u b ke by simp
  ultimately have "ht_inv ?t"
    using assms(1) hk b ke by (auto simp: ht_inv_def)
  moreover have "ht_abs ?t k' = (if k' = k then Some v else ht_abs t k')" for k'
  proof (cases "hm_hash k' = hm_hash k")
    case True
    have "key e \<noteq> k" if "e \<in> set passed" for e
      using passed_below [OF u w that] by auto
    then have "bucket_map passed k = None" by (auto intro: bucket_map_None)
    with True b ke show ?thesis by (auto simp: ht_abs_def map_add_def split: option.splits)
  qed (auto simp: ht_abs_def)
  moreover have "ht_safe ?t k' \<longleftrightarrow> ht_safe t k' \<and> key_compat k k'" for k'
    using b ke by (auto simp: ht_safe_def key_compat_def)
  ultimately show ?thesis using set_eq that by blast
qed

subsection \<open>The registry contract\<close>

text \<open>
  What the RPC server needs from its table of functions: \<open>insert\<close> adds a new key or reports a
  duplicate, \<open>lookup\<close> finds exactly what was inserted, as long as the keys involved fit
  (\<open>compat\<close> says which keys can be in the table together).
\<close>

fun insert_all :: "('r \<Rightarrow> 'k \<Rightarrow> 'v \<Rightarrow> (status \<times> 'r) option) \<Rightarrow> 'r \<Rightarrow> ('k \<times> 'v) list \<Rightarrow> (status \<times> 'r) option"
where
  "insert_all ins r [] = Some (HM_SUCCESS, r)"
| "insert_all ins r ((k, v) # kvs) =
     (case ins r k v of
        None \<Rightarrow> None
      | Some (st, r') \<Rightarrow> if st \<noteq> HM_SUCCESS then Some (st, r') else insert_all ins r' kvs)"

locale registry =
  fixes init :: 'r
    and ins :: "'r \<Rightarrow> bytes \<Rightarrow> 'v \<Rightarrow> (status \<times> 'r) option"
    and lookup :: "'r \<Rightarrow> bytes \<Rightarrow> (status + 'v) option"
    and invar :: "'r \<Rightarrow> bool"
    and fits :: "'r \<Rightarrow> bytes \<Rightarrow> bool"
    and compat :: "bytes \<Rightarrow> bytes \<Rightarrow> bool"
    and absn :: "'r \<Rightarrow> bytes \<Rightarrow> 'v option"
  assumes invar_init: "invar init"
    and fits_init: "fits init k"
    and absn_init: "absn init k = None"
    and ins_new: "invar r \<Longrightarrow> fits r k \<Longrightarrow> k \<noteq> [] \<Longrightarrow> absn r k = None \<Longrightarrow>
      \<exists>r'. ins r k v = Some (HM_SUCCESS, r') \<and> invar r' \<and>
        (\<forall>k'. absn r' k' = (if k' = k then Some v else absn r k')) \<and>
        (\<forall>k'. fits r' k' \<longleftrightarrow> fits r k' \<and> compat k k')"
    and ins_dup: "invar r \<Longrightarrow> fits r k \<Longrightarrow> k \<noteq> [] \<Longrightarrow> absn r k = Some w \<Longrightarrow>
      ins r k v = Some (HM_FAIL, r)"
    and lookup_absn: "invar r \<Longrightarrow> fits r k \<Longrightarrow> k \<noteq> [] \<Longrightarrow>
      lookup r k = Some (case absn r k of None \<Rightarrow> Inl HM_FAIL | Some v \<Rightarrow> Inr v)"
begin

lemma ins_all_from:
  assumes "invar r" "\<forall>k \<in> fst ` set kvs. fits r k \<and> k \<noteq> [] \<and> absn r k = None"
    and "distinct (map fst kvs)" "\<forall>k \<in> fst ` set kvs. \<forall>k' \<in> fst ` set kvs. compat k k'"
  shows "\<exists>r'. insert_all ins r kvs = Some (HM_SUCCESS, r') \<and> invar r' \<and>
    (\<forall>k. absn r' k = (case map_of kvs k of None \<Rightarrow> absn r k | Some v \<Rightarrow> Some v)) \<and>
    (\<forall>k. fits r' k \<longleftrightarrow> fits r k \<and> (\<forall>k' \<in> fst ` set kvs. compat k' k))"
  using assms
proof (induction kvs arbitrary: r)
  case (Cons kv kvs)
  obtain k v where kv: "kv = (k, v)" by force
  with Cons.prems obtain r1 where r1: "ins r k v = Some (HM_SUCCESS, r1)" "invar r1"
    "\<forall>k'. absn r1 k' = (if k' = k then Some v else absn r k')"
    "\<forall>k'. fits r1 k' \<longleftrightarrow> fits r k' \<and> compat k k'"
    using ins_new [of r k v] by auto
  have fits: "\<forall>k' \<in> fst ` set kvs. fits r1 k' \<and> k' \<noteq> [] \<and> absn r1 k' = None"
  proof
    fix j assume j: "j \<in> fst ` set kvs"
    have "j \<noteq> k" using j Cons.prems(3) kv by auto
    moreover have "fits r j \<and> j \<noteq> [] \<and> absn r j = None"
      using Cons.prems(2) j by auto
    moreover have "compat k j" using Cons.prems(4) j kv by auto
    ultimately show "fits r1 j \<and> j \<noteq> [] \<and> absn r1 j = None"
      using r1 by simp
  qed
  have d: "distinct (map fst kvs)"
    and c: "\<forall>k \<in> fst ` set kvs. \<forall>k' \<in> fst ` set kvs. compat k k'"
    using Cons.prems by simp_all
  from Cons.IH [OF r1(2) fits d c] obtain r' where r':
    "insert_all ins r1 kvs = Some (HM_SUCCESS, r')" "invar r'"
    "\<forall>k. absn r' k = (case map_of kvs k of None \<Rightarrow> absn r1 k | Some v \<Rightarrow> Some v)"
    "\<forall>k. fits r' k \<longleftrightarrow> fits r1 k \<and> (\<forall>k' \<in> fst ` set kvs. compat k' k)"
    by blast
  have none: "map_of kvs k = None"
    using Cons.prems(3) kv by (simp add: map_of_eq_None_iff)
  have "insert_all ins r (kv # kvs) = Some (HM_SUCCESS, r')"
    using r' r1 kv by simp
  moreover have "absn r' j = (case map_of (kv # kvs) j of None \<Rightarrow> absn r j | Some v \<Rightarrow> Some v)" for j
    using r'(3) r1(3) kv none by (cases "j = k") (auto split: option.splits)
  moreover have "fits r' j \<longleftrightarrow> fits r j \<and> (\<forall>k' \<in> fst ` set (kv # kvs). compat k' j)" for j
    using r'(4) r1(4) kv by auto
  ultimately show ?case using r'(2) by blast
qed simp

text \<open>Registering distinct compatible names in an empty table: every one is found afterwards.\<close>

lemma ins_all_lookup:
  assumes "distinct (map fst kvs)" "\<forall>k \<in> fst ` set kvs. k \<noteq> []"
    and "\<forall>k \<in> fst ` set kvs. \<forall>k' \<in> fst ` set kvs. compat k k'"
  shows "\<exists>r. insert_all ins init kvs = Some (HM_SUCCESS, r) \<and> invar r \<and>
    (\<forall>k. absn r k = map_of kvs k) \<and>
    (\<forall>k v. (k, v) \<in> set kvs \<longrightarrow> lookup r k = Some (Inr v))"
proof -
  obtain r where r: "insert_all ins init kvs = Some (HM_SUCCESS, r)" "invar r"
    "\<forall>k. absn r k = (case map_of kvs k of None \<Rightarrow> absn init k | Some v \<Rightarrow> Some v)"
    "\<forall>k. fits r k \<longleftrightarrow> fits init k \<and> (\<forall>k' \<in> fst ` set kvs. compat k' k)"
    using ins_all_from [OF invar_init, of kvs] assms fits_init absn_init by auto
  have absn: "\<forall>k. absn r k = map_of kvs k"
    using r(3) absn_init by (auto split: option.splits)
  have "lookup r k = Some (Inr v)" if "(k, v) \<in> set kvs" for k v
  proof -
    have "map_of kvs k = Some v" using that assms(1) by simp
    moreover have "k \<in> fst ` set kvs"
      using that by force
    then have "fits r k" "k \<noteq> []"
      using r(4) assms(2,3) fits_init by auto
    ultimately show ?thesis using lookup_absn [OF r(2)] absn by simp
  qed
  with r absn show ?thesis by blast
qed

end

text \<open>The hash table is a registry.\<close>

definition ht_insert :: "'v hm_hash_table \<Rightarrow> bytes \<Rightarrow> 'v \<Rightarrow> (status \<times> 'v hm_hash_table) option" where
  "ht_insert t k v = map_option (\<lambda>(st, t'). (st, the t')) (hm_hash_table_set (Some t) (Some k) (Some v))"

interpretation ht: registry hm_hash_table_create ht_insert
  "\<lambda>t k. hm_hash_table_get (Some t) (Some k)" ht_inv ht_safe key_compat ht_abs
proof (unfold_locales, goal_cases)
  case 1 show ?case by (rule ht_inv_create)
next
  case 2 show ?case by (rule ht_safe_create)
next
  case 3 show ?case by (rule ht_abs_create)
next
  case (4 r k v)
  then show ?case
    by (rule hm_hash_table_set_new [of r k v]) (auto simp: ht_insert_def)
next
  case (5 r k w v)
  then show ?case by (simp add: ht_insert_def hm_hash_table_set_dup)
next
  case (6 r k)
  then show ?case by (rule hm_hash_table_get_abs)
qed

subsection \<open>The table of the RPC server\<close>

text \<open>C25. A table filled with pairwise compatible distinct keys (no two of different lengths in one
  bucket) is the finite map of its insertions: every insertion succeeds, and a lookup of any key that
  is compatible with them returns the value inserted under it, or \<open>HM_FAIL\<close> when there is none.\<close>

theorem hash_table_is_map:
  assumes "distinct (map fst kvs)" "\<forall>k \<in> fst ` set kvs. k \<noteq> []"
    and "\<forall>k \<in> fst ` set kvs. \<forall>k' \<in> fst ` set kvs. key_compat k k'"
  shows "\<exists>t. insert_all ht_insert hm_hash_table_create kvs = Some (HM_SUCCESS, t) \<and>
    (\<forall>k. k \<noteq> [] \<longrightarrow> (\<forall>k' \<in> fst ` set kvs. key_compat k' k) \<longrightarrow>
      hm_hash_table_get (Some t) (Some k) =
        Some (case map_of kvs k of None \<Rightarrow> Inl HM_FAIL | Some v \<Rightarrow> Inr v))"
proof -
  have pre: "\<forall>k \<in> fst ` set kvs. ht_safe hm_hash_table_create k \<and> k \<noteq> [] \<and> ht_abs hm_hash_table_create k = None"
    using assms(2) by (simp only: ht_safe_create ht_abs_create simp_thms)
  have opt: "(case x of None \<Rightarrow> None | Some v \<Rightarrow> Some v) = x" for x :: "'a option"
    by (cases x) simp_all
  have "\<exists>t. insert_all ht_insert hm_hash_table_create kvs = Some (HM_SUCCESS, t) \<and> ht_inv t \<and>
    (\<forall>k. ht_abs t k = map_of kvs k) \<and> (\<forall>k. ht_safe t k \<longleftrightarrow> (\<forall>k' \<in> fst ` set kvs. key_compat k' k))"
    using ht.ins_all_from [OF ht_inv_create pre assms(1,3)]
    by (simp only: ht_safe_create ht_abs_create simp_thms opt)
  then obtain t where t: "insert_all ht_insert hm_hash_table_create kvs = Some (HM_SUCCESS, t)" "ht_inv t"
    "\<forall>k. ht_abs t k = map_of kvs k" "\<forall>k. ht_safe t k \<longleftrightarrow> (\<forall>k' \<in> fst ` set kvs. key_compat k' k)"
    by blast
  have "hm_hash_table_get (Some t) (Some k) = Some (case map_of kvs k of None \<Rightarrow> Inl HM_FAIL | Some v \<Rightarrow> Inr v)"
    if "k \<noteq> []" "\<forall>k' \<in> fst ` set kvs. key_compat k' k" for k
  proof -
    have "ht_safe t k" using that(2) t(4) by blast
    moreover have "ht_abs t k = map_of kvs k" using t(3) by blast
    ultimately show ?thesis using hm_hash_table_get_abs [OF t(2) _ that(1)] by simp
  qed
  with t(1) show ?thesis by blast
qed

theorem hash_table_is_map_witness:
  "\<exists>t. insert_all ht_insert hm_hash_table_create [([97, 0], 1 :: nat), ([98, 99, 0], 2)] =
      Some (HM_SUCCESS, t) \<and>
    hm_hash_table_get (Some t) (Some [98, 99, 0]) = Some (Inr 2) \<and>
    hm_hash_table_get (Some t) (Some [100, 0]) = Some (Inl HM_FAIL)"
proof -
  have h: "hm_hash [97, 0] = 710" "hm_hash [98, 99, 0] = 138" "hm_hash [100, 0] = 809"
    by (simp_all add: hm_hash_def hm_hash_step_def HM_HASH_TABLE_CAP_def)
  let ?kvs = "[([97, 0], 1), ([98, 99, 0], 2)] :: (bytes \<times> nat) list"
  have pre: "distinct (map fst ?kvs)" "\<forall>k \<in> fst ` set ?kvs. k \<noteq> []"
    "\<forall>k \<in> fst ` set ?kvs. \<forall>k' \<in> fst ` set ?kvs. key_compat k k'"
    and c: "\<forall>k' \<in> fst ` set ?kvs. key_compat k' [98, 99, 0]"
    "\<forall>k' \<in> fst ` set ?kvs. key_compat k' [100, 0]"
    by (simp_all add: key_compat_def h)
  from hash_table_is_map [OF pre] obtain t where
    "insert_all ht_insert hm_hash_table_create ?kvs = Some (HM_SUCCESS, t)"
    and t: "\<And>k. k \<noteq> [] \<Longrightarrow> \<forall>k' \<in> fst ` set ?kvs. key_compat k' k \<Longrightarrow>
      hm_hash_table_get (Some t) (Some k) =
        Some (case map_of ?kvs k of None \<Rightarrow> Inl HM_FAIL | Some v \<Rightarrow> Inr v)"
    by blast
  moreover have "hm_hash_table_get (Some t) (Some [98, 99, 0]) = Some (Inr 2)"
    by (subst t) (use c in simp_all)
  moreover have "hm_hash_table_get (Some t) (Some [100, 0]) = Some (Inl HM_FAIL)"
    by (subst t) (use c in simp_all)
  ultimately show ?thesis by blast
qed

text \<open>Keys of different lengths in one bucket break the map: a lookup of the bytes 116 finds the
  entry of the longer key 116, 224, which it is only a prefix of, and a lookup of 116, 224 in a table
  that holds 116 reads past the end of the stored key.\<close>

lemma hash_table_prefix_confusion:
  "(\<exists>t. hm_hash_table_set (Some hm_hash_table_create) (Some [116, 224]) (Some v) = Some (HM_SUCCESS, Some t) \<and>
      hm_hash_table_get (Some t) (Some [116]) = Some (Inr v)) \<and>
   (\<exists>t. hm_hash_table_set (Some hm_hash_table_create) (Some [116]) (Some v) = Some (HM_SUCCESS, Some t) \<and>
      hm_hash_table_get (Some t) (Some [116, 224]) = None)"
proof -
  have "hm_hash [116] = 537" "hm_hash [116, 224] = 537"
    by (simp_all add: hm_hash_def hm_hash_step_def HM_HASH_TABLE_CAP_def)
  then show ?thesis
    by (simp add: hm_hash_table_set_def hm_hash_table_get_def hm_hash_table_create_def
        hm_hash_table_entry_create_def c_memcmp_def Let_def)
qed

end
