(* ===== verification/Buffers_List.thy ===== *)
theory Buffers_List
  imports Hermes_Prelude
begin

section \<open>Lists of buffers\<close>

text \<open>
  \<^verbatim>\<open>src/rpc/buffers_list.c\<close> and \<^verbatim>\<open>include/hermes/rpc/buffers_list.h\<close>.  The singly linked list of
  nodes (data, length) is the list of its buffers; a NULL list pointer is \<open>None\<close>.

  The two loops of the serialiser (\<^verbatim>\<open>hm_buffres_list_get_needed_buffer_size\<close> and the copy loop of
  \<^verbatim>\<open>hm_buffers_list_to_buf\<close>) never advance their cursor, so they are partial functions here, with
  \<open>None\<close> for a loop that does not end.
\<close>

subsection \<open>Data and operations\<close>

type_synonym hm_buffers_list = "bytes list"

definition hm_buffers_list_create :: hm_buffers_list where
  "hm_buffers_list_create = []"

fun hm_buffers_list_get_last :: "hm_buffers_list option \<Rightarrow> bytes option" where
  "hm_buffers_list_get_last None = None"
| "hm_buffers_list_get_last (Some []) = None"
| "hm_buffers_list_get_last (Some [b]) = Some b"
| "hm_buffers_list_get_last (Some (_ # b # bs)) = hm_buffers_list_get_last (Some (b # bs))"

definition hm_buffers_list_add ::
    "hm_buffers_list option \<Rightarrow> cbuf \<Rightarrow> status \<times> hm_buffers_list option" where
  "hm_buffers_list_add l data =
     (if l = None \<or> absent data then (HM_INVALID_PARAMETER, l)
      else (case hm_buffers_list_get_last l of
              None \<Rightarrow> (HM_SUCCESS, Some [the data])
            | Some _ \<Rightarrow> (HM_SUCCESS, Some (the l @ [the data]))))"

definition hm_buffers_list_add_c ::
    "hm_buffers_list option \<Rightarrow> cbuf \<Rightarrow> status \<times> hm_buffers_list option" where
  "hm_buffers_list_add_c l data =
     (if l = None \<or> absent data then (HM_INVALID_PARAMETER, l)
      else (case hm_buffers_list_get_last l of
              None \<Rightarrow> (HM_SUCCESS, Some [the data])
            | Some _ \<Rightarrow> (HM_SUCCESS, Some (the l @ [the data]))))"

function extract_loop :: "bytes \<Rightarrow> hm_buffers_list \<Rightarrow> hm_buffers_list option" where
  "extract_loop data l =
     (if data = [] then Some l
      else (case read_u32 data of
              None \<Rightarrow> None
            | Some (len, rest) \<Rightarrow>
                if length rest < unat len then None
                else (case hm_buffers_list_add_c (Some l) (Some (take (unat len) rest)) of
                        (st, l') \<Rightarrow>
                          if st \<noteq> HM_SUCCESS then None
                          else extract_loop (drop (unat len) rest) (the l'))))"
  by pat_completeness auto
termination
  by (relation "measure (\<lambda>(data, l). length data)") (auto dest: read_u32_length)

definition hm_buffers_list_extract :: "cbuf \<Rightarrow> hm_buffers_list option" where
  "hm_buffers_list_extract data =
     (if absent data then None else extract_loop (the data) hm_buffers_list_create)"

partial_function (option) needed_size_loop :: "hm_buffers_list \<Rightarrow> nat \<Rightarrow> nat option" where
  "needed_size_loop current result =
     (case current of
        [] \<Rightarrow> Some result
      | b # bs \<Rightarrow> needed_size_loop (b # bs) (result + 4 + length b))"

definition hm_buffres_list_get_needed_buffer_size :: "hm_buffers_list option \<Rightarrow> nat option" where
  "hm_buffres_list_get_needed_buffer_size l =
     (if l = None \<or> the l = [] then Some 0 else needed_size_loop (the l) 0)"

partial_function (option) copy_loop :: "hm_buffers_list \<Rightarrow> bytes \<Rightarrow> bytes option" where
  "copy_loop current out =
     (case current of
        [] \<Rightarrow> Some out
      | b # bs \<Rightarrow> copy_loop (b # bs) (out @ u32_le (len32 b) @ b))"

text \<open>The result and the buffer handed back through \<^verbatim>\<open>data\<close> (\<open>None\<close>: left untouched).\<close>

definition hm_buffers_list_to_buf :: "hm_buffers_list option \<Rightarrow> (nat \<times> bytes option) option" where
  "hm_buffers_list_to_buf l =
     (if l = None then Some (0, None)
      else (case hm_buffres_list_get_needed_buffer_size l of
              None \<Rightarrow> None
            | Some result \<Rightarrow>
                if result = 0 then Some (0, None)
                else map_option (\<lambda>out. (result, Some out)) (copy_loop (the l) [])))"

definition hm_buffers_list_destroy :: "hm_buffers_list option \<Rightarrow> status \<times> hm_buffers_list option" where
  "hm_buffers_list_destroy l = (if l = None then (HM_INVALID_PARAMETER, None) else (HM_SUCCESS, None))"

text \<open>The iterator holds the nodes from its current one on.\<close>

record hm_buffers_list_iterator =
  curr :: hm_buffers_list

definition hm_buffers_list_iterator_create ::
    "hm_buffers_list option \<Rightarrow> hm_buffers_list_iterator option" where
  "hm_buffers_list_iterator_create l =
     (if l = None \<or> the l = [] then None else Some \<lparr>curr = the l\<rparr>)"

definition hm_buffers_list_iterator_get_data :: "hm_buffers_list_iterator option \<Rightarrow> bytes option" where
  "hm_buffers_list_iterator_get_data i =
     (if i = None \<or> curr (the i) = [] then None else Some (hd (curr (the i))))"

definition hm_buffers_list_iterator_get_size :: "hm_buffers_list_iterator option \<Rightarrow> nat" where
  "hm_buffers_list_iterator_get_size i =
     (if i = None \<or> curr (the i) = [] then 0 else length (hd (curr (the i))))"

definition hm_buffers_list_iterator_next ::
    "hm_buffers_list_iterator option \<Rightarrow> bool \<times> hm_buffers_list_iterator option" where
  "hm_buffers_list_iterator_next i =
     (if i = None \<or> curr (the i) = [] then (False, i)
      else (True, Some ((the i)\<lparr>curr := tl (curr (the i))\<rparr>)))"

subsection \<open>The format\<close>

text \<open>What the list is as bytes: every buffer after its length.\<close>

definition encode_list :: "hm_buffers_list \<Rightarrow> bytes" where
  "encode_list bs = concat (map (\<lambda>b. u32_le (len32 b) @ b) bs)"

definition list_ok :: "hm_buffers_list \<Rightarrow> bool" where
  "list_ok bs \<longleftrightarrow> (\<forall>b \<in> set bs. b \<noteq> [] \<and> length b < 2 ^ 32)"

lemma encode_list_simps [simp]:
  "encode_list [] = []" "encode_list (b # bs) = u32_le (len32 b) @ b @ encode_list bs"
  by (simp_all add: encode_list_def)

lemma list_ok_simps [simp]:
  "list_ok []" "list_ok (b # bs) \<longleftrightarrow> b \<noteq> [] \<and> length b < 2 ^ 32 \<and> list_ok bs"
  by (auto simp: list_ok_def)

lemma get_last_eq: "hm_buffers_list_get_last (Some l) = (if l = [] then None else Some (last l))"
  by (induction "Some l" arbitrary: l rule: hm_buffers_list_get_last.induct) auto

lemma add_c_eq:
  "hm_buffers_list_add_c (Some l) (Some b) =
     (if b = [] then (HM_INVALID_PARAMETER, Some l) else (HM_SUCCESS, Some (l @ [b])))"
  by (simp add: hm_buffers_list_add_c_def get_last_eq)

lemma add_eq_add_c: "hm_buffers_list_add l d = hm_buffers_list_add_c l d"
  by (simp add: hm_buffers_list_add_def hm_buffers_list_add_c_def)

declare extract_loop.simps [simp del]

lemma extract_loop_Nil [simp]: "extract_loop [] l = Some l"
  by (simp add: extract_loop.simps)

lemma extract_loop_chunk:
  "b \<noteq> [] \<Longrightarrow> length b < 2 ^ 32 \<Longrightarrow>
   extract_loop (u32_le (len32 b) @ b @ rest) l = extract_loop rest (l @ [b])"
  by (subst extract_loop.simps) (simp add: add_c_eq)

lemma extract_loop_encode: "list_ok bs \<Longrightarrow> extract_loop (encode_list bs) l = Some (l @ bs)"
  by (induction bs arbitrary: l) (simp_all add: extract_loop_chunk)

lemma read_u32_inverse: "read_u32 bs = Some (w, rest) \<Longrightarrow> bs = u32_le w @ rest"
proof (cases bs rule: read_u32.cases)
  case (1 a b c d rest')
  assume "read_u32 bs = Some (w, rest)"
  with 1 have w: "w = ucast a OR push_bit 8 (ucast b) OR push_bit 16 (ucast c) OR push_bit 24 (ucast d)"
    and rest: "rest = rest'" by auto
  have "ucast w = a" "ucast (drop_bit 8 w) = b" "ucast (drop_bit 16 w) = c" "ucast (drop_bit 24 w) = d"
    unfolding w by (rule bit_word_eqI; auto simp: bit_simps dest: bit_imp_le_length)+
  with 1 rest show ?thesis by (simp add: u32_le_def)
qed auto

lemma extract_loop_sound:
  "extract_loop data l = Some r \<Longrightarrow> \<exists>bs. r = l @ bs \<and> list_ok bs \<and> data = encode_list bs"
proof (induction "length data" arbitrary: data l rule: less_induct)
  case less
  show ?case
  proof (cases "data = []")
    case True
    with less.prems show ?thesis by (intro exI [of _ "[]"]) simp
  next
    case False
    with less.prems obtain len rest where r: "read_u32 data = Some (len, rest)"
      by (auto simp: extract_loop.simps [of data] split: option.splits)
    let ?b = "take (unat len) rest"
    have len: "unat len \<le> length rest" "?b \<noteq> []"
      and loop: "extract_loop (drop (unat len) rest) (l @ [?b]) = Some r"
      using less.prems False r
      by (auto simp: extract_loop.simps [of data] add_c_eq split: option.splits if_splits)
    have "length (drop (unat len) rest) < length data"
      using read_u32_length [OF r] by simp
    from less.hyps [OF this loop]
    obtain bs where bs: "r = (l @ [?b]) @ bs" "list_ok bs" "drop (unat len) rest = encode_list bs"
      by blast
    have lb: "length ?b = unat len" using len by simp
    have "unat len < 2 ^ LENGTH(32)" by (rule unsigned_less)
    then have "list_ok (?b # bs)" using bs(2) len by simp
    moreover have "len32 ?b = len" using lb by (simp add: len32_def)
    then have "data = encode_list (?b # bs)"
      using read_u32_inverse [OF r] bs(3) by (simp flip: bs(3))
    ultimately show ?thesis using bs(1) by (intro exI [of _ "?b # bs"]) simp
  qed
qed


subsection \<open>Properties\<close>

lemma needed_size_loop_returns:
  assumes "needed_size_loop l n = Some r"
  shows "l = []"
proof (rule needed_size_loop.raw_induct [where P = "\<lambda>l n r. l = []", OF _ assms])
  fix f and l :: hm_buffers_list and n r :: nat
  assume "\<And>l n r. f l n = Some r \<Longrightarrow> l = []"
    and "(case l of [] \<Rightarrow> Some n | b # bs \<Rightarrow> f (b # bs) (n + 4 + length b)) = Some r"
  then show "l = []" by (cases l) auto
qed

lemma needed_size_loop_diverges: "l \<noteq> [] \<Longrightarrow> needed_size_loop l n = None"
  using needed_size_loop_returns by (cases "needed_size_loop l n") auto

text \<open>Every list of non-empty buffers shorter than 4 GiB is read back from its byte format, and
  nothing else is accepted: \<^verbatim>\<open>hm_buffers_list_extract\<close> returns a list exactly on the non-empty
  byte strings that are the format of a list of non-empty buffers.
\<close>

lemma buffers_list_extract_iff:
  "hm_buffers_list_extract (Some data) = Some bs \<longleftrightarrow>
     data \<noteq> [] \<and> data = encode_list bs \<and> list_ok bs"
proof
  assume "hm_buffers_list_extract (Some data) = Some bs"
  then have "data \<noteq> []" "extract_loop data [] = Some bs"
    by (auto simp: hm_buffers_list_extract_def hm_buffers_list_create_def split: if_splits)
  with extract_loop_sound [of data "[]" bs] show "data \<noteq> [] \<and> data = encode_list bs \<and> list_ok bs"
    by auto
next
  assume "data \<noteq> [] \<and> data = encode_list bs \<and> list_ok bs"
  then show "hm_buffers_list_extract (Some data) = Some bs"
    using extract_loop_encode [of bs "[]"]
    by (auto simp: hm_buffers_list_extract_def hm_buffers_list_create_def)
qed


end
