(* ===== verification/Rpc_Transport.thy ===== *)
theory Rpc_Transport
  imports Hermes_Prelude
begin

section \<open>The RPC transport interface\<close>

text \<open>
  \<^verbatim>\<open>include/hermes/rpc/transport.h\<close>: a struct of function pointers over an opaque \<^verbatim>\<open>user_data\<close>.
  The model's record holds the two pointers the library calls (\<^verbatim>\<open>get_remote_id\<close> is never called
  by the sources); a NULL pointer is \<open>None\<close>.  The object behind \<^verbatim>\<open>user_data\<close> is the state \<open>'t\<close>
  that every call takes and returns.  A call that blocks for ever is \<open>None\<close>.

  \<open>('t, 'a) io\<close> is the shape of the C functions that talk to a transport: a status or a result,
  and the transport afterwards.  \<open>io_bind\<close> is the idiom
  \<^verbatim>\<open>if (HM_SUCCESS != (res = f(...))) return res;\<close>.

  The locale \<open>reliable_transport\<close> is what the library expects of a transport: sends of
  non-empty buffers succeed (where \<open>fits\<close> says what the transport can carry), and a receive of exactly as many bytes as the next few sends of the
  peer carried returns those bytes.  It is stated over the sends (frames), so that it covers byte
  streams and also transports that keep message boundaries.
\<close>

subsection \<open>Transports and actions\<close>

record 't hm_rpc_transport =
  send_fn :: "('t \<Rightarrow> bytes \<Rightarrow> (status \<times> 't) option) option"
  recv_fn :: "('t \<Rightarrow> nat \<Rightarrow> (status \<times> bytes \<times> 't) option) option"

type_synonym ('t, 'a) io = "'t \<Rightarrow> ((status + 'a) \<times> 't) option"

definition io_ret :: "'a \<Rightarrow> ('t, 'a) io" where
  "io_ret x = (\<lambda>t. Some (Inr x, t))"

definition io_fail :: "status \<Rightarrow> ('t, 'a) io" where
  "io_fail e = (\<lambda>t. Some (Inl e, t))"

definition io_bind :: "('t, 'a) io \<Rightarrow> ('a \<Rightarrow> ('t, 'b) io) \<Rightarrow> ('t, 'b) io" where
  "io_bind m k = (\<lambda>t. case m t of
     None \<Rightarrow> None
   | Some (Inl e, t') \<Rightarrow> Some (Inl e, t')
   | Some (Inr x, t') \<Rightarrow> k x t')"

text \<open>\<^verbatim>\<open>if (HM_SUCCESS != f(...)) return e;\<close>, where the callee's own status is dropped.\<close>

definition io_map_err :: "status \<Rightarrow> ('t, 'a) io \<Rightarrow> ('t, 'a) io" where
  "io_map_err e m = (\<lambda>t. case m t of
     None \<Rightarrow> None
   | Some (Inl _, t') \<Rightarrow> Some (Inl e, t')
   | Some (Inr x, t') \<Rightarrow> Some (Inr x, t'))"

definition transport_send :: "'t hm_rpc_transport \<Rightarrow> bytes \<Rightarrow> ('t, unit) io" where
  "transport_send tr b = (\<lambda>t. case send_fn tr of
     None \<Rightarrow> None
   | Some f \<Rightarrow> (case f t b of
         None \<Rightarrow> None
       | Some (st, t') \<Rightarrow> Some (if st = HM_SUCCESS then Inr () else Inl st, t')))"

definition transport_recv :: "'t hm_rpc_transport \<Rightarrow> nat \<Rightarrow> ('t, bytes) io" where
  "transport_recv tr n = (\<lambda>t. case recv_fn tr of
     None \<Rightarrow> None
   | Some f \<Rightarrow> (case f t n of
         None \<Rightarrow> None
       | Some (st, b, t') \<Rightarrow> Some (if st = HM_SUCCESS then Inr b else Inl st, t')))"

lemma io_simps [simp]:
  "io_ret x t = Some (Inr x, t)" "io_fail e t = Some (Inl e, t)"
  "m t = Some (Inr x, t') \<Longrightarrow> io_bind m k t = k x t'"
  "m t = Some (Inl e, t') \<Longrightarrow> io_bind m k t = Some (Inl e, t')"
  "m t = Some (Inr x, t') \<Longrightarrow> io_map_err e' m t = Some (Inr x, t')"
  "m t = Some (Inl e, t') \<Longrightarrow> io_map_err e' m t = Some (Inl e', t')"
  by (simp_all add: io_ret_def io_fail_def io_bind_def io_map_err_def)

fun send_all :: "'t hm_rpc_transport \<Rightarrow> bytes list \<Rightarrow> ('t, unit) io" where
  "send_all tr [] = io_ret ()"
| "send_all tr (b # bs) = io_bind (transport_send tr b) (\<lambda>_. send_all tr bs)"

lemma io_bind_assoc: "io_bind (io_bind m k) h = io_bind m (\<lambda>x. io_bind (k x) h)"
  by (rule ext) (simp add: io_bind_def split: option.split sum.split prod.split)

lemma io_bind_ret [simp]: "io_bind m io_ret = m"
  by (rule ext) (simp add: io_bind_def io_ret_def split: option.split sum.split prod.split)

lemma io_ret_bind [simp]: "io_bind (io_ret x) k = k x"
  by (rule ext) (simp add: io_bind_def io_ret_def)

lemma send_all_append: "send_all tr (bs @ cs) = io_bind (send_all tr bs) (\<lambda>_. send_all tr cs)"
  by (induction bs) (simp_all add: io_bind_assoc)

subsection \<open>The contract of a transport\<close>

definition frames_ok :: "bytes list \<Rightarrow> bool" where
  "frames_ok fs \<longleftrightarrow> fs \<noteq> [] \<and> [] \<notin> set fs"

locale reliable_transport =
  fixes tr :: "'t hm_rpc_transport"
    and link :: "'t \<Rightarrow> bytes list \<Rightarrow> bytes list \<Rightarrow> bool"
    and fits :: "bytes \<Rightarrow> bool"
  assumes send_ok: "link t ins outs \<Longrightarrow> b \<noteq> [] \<Longrightarrow> fits b \<Longrightarrow>
      \<exists>t'. transport_send tr b t = Some (Inr (), t') \<and> link t' ins (outs @ [b])"
    and recv_ok: "link t (fs @ ins) outs \<Longrightarrow> frames_ok fs \<Longrightarrow>
      \<exists>t'. transport_recv tr (length (concat fs)) t = Some (Inr (concat fs), t') \<and> link t' ins outs"
    and pointers: "send_fn tr \<noteq> None" "recv_fn tr \<noteq> None"
begin

lemma send_all_ok:
  assumes "link t ins outs" "[] \<notin> set bs" "list_all fits bs"
  shows "\<exists>t'. send_all tr bs t = Some (Inr (), t') \<and> link t' ins (outs @ bs)"
  using assms
proof (induction bs arbitrary: t outs)
  case (Cons b bs)
  then obtain t1 where t1: "transport_send tr b t = Some (Inr (), t1)" "link t1 ins (outs @ [b])"
    using send_ok [of t ins outs b] by auto
  from Cons.IH [OF t1(2)] Cons.prems(2,3) obtain t' where
    "send_all tr bs t1 = Some (Inr (), t')" "link t' ins ((outs @ [b]) @ bs)"
    by auto
  with t1 show ?case by (intro exI [of _ t']) simp
qed simp

lemma recv_frame:
  assumes "link t (f # ins) outs" "f \<noteq> []"
  shows "\<exists>t'. transport_recv tr (length f) t = Some (Inr f, t') \<and> link t' ins outs"
  using recv_ok [of t "[f]" ins outs] assms by (simp add: frames_ok_def)

lemma recv_u32:
  assumes "link t (u32_le w # ins) outs"
  shows "\<exists>t'. transport_recv tr 4 t = Some (Inr (u32_le w), t') \<and> link t' ins outs"
  using recv_frame [OF assms] by simp

end

subsection \<open>A pair of pipes\<close>

text \<open>
  \<^verbatim>\<open>tests/common/test_transport.c\<close>: the transport over two POSIX pipes, the byte stream the
  repository runs its RPC over.  The state is what can be read from \<^verbatim>\<open>read_pipe\<close> and what has
  been written to \<^verbatim>\<open>write_pipe\<close>.  The write loop ends with the whole buffer written; the read
  loop does not return before \<^verbatim>\<open>buffer_length\<close> bytes have come.
\<close>

record pipes =
  read_pipe :: bytes
  write_pipe :: bytes

definition hm_rpc_test_transport_send :: "pipes \<Rightarrow> bytes \<Rightarrow> (status \<times> pipes) option" where
  "hm_rpc_test_transport_send p b =
     (if b = [] then Some (HM_INVALID_PARAMETER, p)
      else Some (HM_SUCCESS, p\<lparr>write_pipe := write_pipe p @ b\<rparr>))"

definition hm_rpc_test_transport_recv :: "pipes \<Rightarrow> nat \<Rightarrow> (status \<times> bytes \<times> pipes) option" where
  "hm_rpc_test_transport_recv p n =
     (if n = 0 then Some (HM_INVALID_PARAMETER, [], p)
      else if length (read_pipe p) < n then None
      else Some (HM_SUCCESS, take n (read_pipe p), p\<lparr>read_pipe := drop n (read_pipe p)\<rparr>))"

definition hm_test_transport :: "pipes hm_rpc_transport" where
  "hm_test_transport =
     \<lparr>send_fn = Some hm_rpc_test_transport_send, recv_fn = Some hm_rpc_test_transport_recv\<rparr>"

definition pipe_link :: "pipes \<Rightarrow> bytes list \<Rightarrow> bytes list \<Rightarrow> bool" where
  "pipe_link p ins outs \<longleftrightarrow> read_pipe p = concat ins \<and> write_pipe p = concat outs"

lemma pipe_send [simp]:
  "b \<noteq> [] \<Longrightarrow> transport_send hm_test_transport b p = Some (Inr (), p\<lparr>write_pipe := write_pipe p @ b\<rparr>)"
  by (simp add: transport_send_def hm_test_transport_def hm_rpc_test_transport_send_def)

lemma pipe_recv [simp]:
  "0 < n \<Longrightarrow> n \<le> length (read_pipe p) \<Longrightarrow>
   transport_recv hm_test_transport n p =
     Some (Inr (take n (read_pipe p)), p\<lparr>read_pipe := drop n (read_pipe p)\<rparr>)"
  by (simp add: transport_recv_def hm_test_transport_def hm_rpc_test_transport_recv_def)

lemma frames_ok_length: "frames_ok fs \<Longrightarrow> 0 < length (concat fs)"
  by (cases fs) (auto simp: frames_ok_def)

interpretation pipe: reliable_transport hm_test_transport pipe_link "\<lambda>_. True"
  rewrites "\<And>bs. list_all (\<lambda>_. True) bs \<equiv> True" and "\<And>P. (True \<Longrightarrow> PROP P) \<equiv> PROP P"
proof (unfold_locales, goal_cases)
  case (1 t ins outs b)
  then show ?case by (simp add: pipe_link_def)
next
  case (2 t fs ins outs)
  then have "0 < length (concat fs)" by (intro frames_ok_length)
  with 2 show ?case by (simp add: pipe_link_def)
qed (simp_all add: hm_test_transport_def)

end
