(* ===== verification/Param_Pack.thy ===== *)
theory Param_Pack
  imports Buffers_List Rpc_Transport
begin

section \<open>Parameter packs\<close>

text \<open>
  \<^verbatim>\<open>src/rpc/param_pack.c\<close> and \<^verbatim>\<open>include/hermes/rpc/param_pack.h\<close>: the packs of parameters an RPC
  call sends and receives.  The tagged node is a datatype with one constructor per type tag, so the
  \<^verbatim>\<open>default\<close> branches of the C switches over a stored node have no counterpart (creation and
  \<^verbatim>\<open>hm_param_pack_check_buf_\<close> only let the four tags in).  The variadic arguments are the list of
  (mark, argument) pairs up to the terminating zero mark.

  On the wire a pack is the number of parameters and, per parameter, its tag followed by the value
  of an \<^verbatim>\<open>int32\<close> or by the length and the bytes of a buffer; all three buffer tags are sent as
  \<^verbatim>\<open>HM_PARAM_TYPE_BUFFER\<close>.
\<close>

subsection \<open>Data\<close>

definition HM_PARAM_PACK_MAX_PARAMS :: nat where "HM_PARAM_PACK_MAX_PARAMS = 20"
definition HM_PARAM_PACK_MAGIC :: u32 where "HM_PARAM_PACK_MAGIC = 0x26048026"
definition HM_PARAM_TYPE_INT32 :: u32 where "HM_PARAM_TYPE_INT32 = 0x26048027"
definition HM_PARAM_TYPE_BUFFER :: u32 where "HM_PARAM_TYPE_BUFFER = 0x26048028"
definition HM_PARAM_TYPE_BUFFER_C :: u32 where "HM_PARAM_TYPE_BUFFER_C = 0x26048029"
definition HM_PARAM_TYPE_BUFFERS_LIST :: u32 where "HM_PARAM_TYPE_BUFFERS_LIST = 0x26048030"

lemmas param_type_defs = HM_PARAM_TYPE_INT32_def HM_PARAM_TYPE_BUFFER_def
  HM_PARAM_TYPE_BUFFER_C_def HM_PARAM_TYPE_BUFFERS_LIST_def

lemma param_types_distinct [simp]:
  "HM_PARAM_TYPE_INT32 \<noteq> HM_PARAM_TYPE_BUFFER" "HM_PARAM_TYPE_BUFFER \<noteq> HM_PARAM_TYPE_INT32"
  "HM_PARAM_TYPE_INT32 \<noteq> HM_PARAM_TYPE_BUFFER_C" "HM_PARAM_TYPE_BUFFER_C \<noteq> HM_PARAM_TYPE_INT32"
  "HM_PARAM_TYPE_INT32 \<noteq> HM_PARAM_TYPE_BUFFERS_LIST"
  "HM_PARAM_TYPE_BUFFERS_LIST \<noteq> HM_PARAM_TYPE_INT32"
  "HM_PARAM_TYPE_BUFFER \<noteq> HM_PARAM_TYPE_BUFFER_C" "HM_PARAM_TYPE_BUFFER_C \<noteq> HM_PARAM_TYPE_BUFFER"
  "HM_PARAM_TYPE_BUFFER \<noteq> HM_PARAM_TYPE_BUFFERS_LIST"
  "HM_PARAM_TYPE_BUFFERS_LIST \<noteq> HM_PARAM_TYPE_BUFFER"
  "HM_PARAM_TYPE_BUFFER_C \<noteq> HM_PARAM_TYPE_BUFFERS_LIST"
  "HM_PARAM_TYPE_BUFFERS_LIST \<noteq> HM_PARAM_TYPE_BUFFER_C"
  by (simp_all add: param_type_defs)

lemma magic_nonzero [simp]: "HM_PARAM_PACK_MAGIC \<noteq> 0"
  by (simp add: HM_PARAM_PACK_MAGIC_def)

datatype hm_param_pack_node =
    NInt32 u32
  | NBuffer bytes
  | NBufferC bytes
  | NBuffersList bytes

fun node_type :: "hm_param_pack_node \<Rightarrow> u32" where
  "node_type (NInt32 _) = HM_PARAM_TYPE_INT32"
| "node_type (NBuffer _) = HM_PARAM_TYPE_BUFFER"
| "node_type (NBufferC _) = HM_PARAM_TYPE_BUFFER_C"
| "node_type (NBuffersList _) = HM_PARAM_TYPE_BUFFERS_LIST"

record hm_param_pack =
  nodes :: "hm_param_pack_node list"
  readed :: bool
  whole_data :: bytes

definition hm_param_pack_create :: hm_param_pack where
  "hm_param_pack_create = \<lparr>nodes = [], readed = False, whole_data = []\<rparr>"

subsection \<open>Creating a pack and extracting from it\<close>

datatype hm_param_arg =
    AInt32 u32
  | ABuffer bytes
  | ABufferC bytes
  | ABuffersList "hm_buffers_list option"
  | AOther u32

text \<open>The result is \<open>Some None\<close> for a NULL pack.\<close>

fun create_loop :: "(u32 \<times> hm_param_arg) list \<Rightarrow> hm_param_pack_node list \<Rightarrow>
    hm_param_pack_node list option option" where
  "create_loop [] ns = Some (Some ns)"
| "create_loop ((mark, a) # args) ns =
     (if mark = 0 then Some (Some ns)
      else if length ns = HM_PARAM_PACK_MAX_PARAMS \<or> mark \<noteq> HM_PARAM_PACK_MAGIC then Some None
      else (case a of
              AInt32 v \<Rightarrow> create_loop args (ns @ [NInt32 v])
            | ABuffer b \<Rightarrow> create_loop args (ns @ [NBuffer b])
            | ABufferC b \<Rightarrow> create_loop args (ns @ [NBufferC b])
            | ABuffersList l \<Rightarrow>
                (case hm_buffers_list_to_buf l of
                   None \<Rightarrow> None
                 | Some (_, buf) \<Rightarrow>
                     create_loop args (ns @ [NBuffersList (case buf of None \<Rightarrow> [] | Some b \<Rightarrow> b)]))
            | AOther _ \<Rightarrow> Some None))"

definition hm_param_pack_create_args :: "(u32 \<times> hm_param_arg) list \<Rightarrow> hm_param_pack option option" where
  "hm_param_pack_create_args args =
     map_option (map_option (\<lambda>ns. hm_param_pack_create\<lparr>nodes := ns, readed := False\<rparr>))
       (create_loop args [])"

text \<open>The \<^verbatim>\<open>HM_PARAM_PACK(...)\<close> macro.\<close>

definition HM_PARAM_PACK :: "hm_param_arg list \<Rightarrow> hm_param_pack option option" where
  "HM_PARAM_PACK args = hm_param_pack_create_args (map (\<lambda>a. (HM_PARAM_PACK_MAGIC, a)) args @ [(0, AOther 0)])"

datatype hm_param_value =
    VInt32 u32
  | VBuffer bytes
  | VBuffersList "hm_buffers_list option"

fun node_value :: "hm_param_pack_node \<Rightarrow> hm_param_value" where
  "node_value (NInt32 v) = VInt32 v"
| "node_value (NBuffer b) = VBuffer b"
| "node_value (NBufferC b) = VBuffer b"
| "node_value (NBuffersList b) = VBuffersList (hm_buffers_list_extract (Some b))"

text \<open>
  The second argument gives, per mark, the type tag asked for; the out pointers receive the
  values of the result in order.
\<close>

fun extract_params :: "(u32 \<times> u32) list \<Rightarrow> hm_param_pack_node list \<Rightarrow> status + hm_param_value list" where
  "extract_params [] ns = Inr []"
| "extract_params ((mark, ty) # args) ns =
     (if mark = 0 then Inr []
      else (case ns of
              [] \<Rightarrow> Inl HM_FAIL
            | n # ns' \<Rightarrow>
                if mark \<noteq> HM_PARAM_PACK_MAGIC then Inl HM_FAIL
                else if ty \<noteq> node_type n then Inl HM_FAIL
                else (case extract_params args ns' of
                        Inl e \<Rightarrow> Inl e
                      | Inr vs \<Rightarrow> Inr (node_value n # vs))))"

definition hm_param_pack_extract_args ::
    "hm_param_pack option \<Rightarrow> (u32 \<times> u32) list \<Rightarrow> status + hm_param_value list" where
  "hm_param_pack_extract_args pack args =
     (case pack of None \<Rightarrow> Inl HM_INVALID_PARAMETER | Some p \<Rightarrow> extract_params args (nodes p))"

definition HM_PARAM_EXTRACT :: "hm_param_pack option \<Rightarrow> u32 list \<Rightarrow> status + hm_param_value list" where
  "HM_PARAM_EXTRACT pack tys =
     hm_param_pack_extract_args pack (map (\<lambda>ty. (HM_PARAM_PACK_MAGIC, ty)) tys @ [(0, 0)])"

definition hm_param_pack_destroy :: "hm_param_pack option \<Rightarrow> status \<times> hm_param_pack option" where
  "hm_param_pack_destroy pack = (if pack = None then (HM_INVALID_PARAMETER, None) else (HM_SUCCESS, None))"

subsection \<open>Writing\<close>

fun whole_length_loop :: "hm_param_pack_node list \<Rightarrow> u32 \<Rightarrow> u32" where
  "whole_length_loop [] l = l"
| "whole_length_loop (NInt32 _ # ns) l = whole_length_loop ns (l + 2 * 4)"
| "whole_length_loop (NBuffersList b # ns) l = whole_length_loop ns (l + 2 * 4 + len32 b)"
| "whole_length_loop (NBuffer b # ns) l = whole_length_loop ns (l + 2 * 4 + len32 b)"
| "whole_length_loop (NBufferC b # ns) l = whole_length_loop ns (l + 2 * 4 + len32 b)"

definition hm_param_pack_get_whole_length :: "hm_param_pack option \<Rightarrow> u32" where
  "hm_param_pack_get_whole_length pack =
     (case pack of
        None \<Rightarrow> HM_INVALID_PARAMETER
      | Some p \<Rightarrow> if readed p then len32 (whole_data p) else whole_length_loop (nodes p) 4)"

fun node_bytes :: "hm_param_pack_node \<Rightarrow> bytes" where
  "node_bytes (NInt32 v) = u32_le HM_PARAM_TYPE_INT32 @ u32_le v"
| "node_bytes (NBuffersList b) = u32_le HM_PARAM_TYPE_BUFFER @ u32_le (len32 b) @ b"
| "node_bytes (NBuffer b) = u32_le HM_PARAM_TYPE_BUFFER @ u32_le (len32 b) @ b"
| "node_bytes (NBufferC b) = u32_le HM_PARAM_TYPE_BUFFER @ u32_le (len32 b) @ b"

definition count32 :: "hm_param_pack \<Rightarrow> u32" where
  "count32 p = word_of_nat (length (nodes p))"

fun write_nodes :: "hm_param_pack_node list \<Rightarrow> bytes \<Rightarrow> bytes" where
  "write_nodes [] out = out"
| "write_nodes (n # ns) out = write_nodes ns (out @ node_bytes n)"

text \<open>
  \<open>cap\<close> is \<open>None\<close> for a NULL buffer and \<open>buffer_length\<close> the number of bytes it holds; the
  result is the status, the bytes written and the new \<^verbatim>\<open>*buffer_length\<close>.  Writing past the end
  of the buffer is undefined.
\<close>

definition hm_param_pack_write ::
    "hm_param_pack option \<Rightarrow> unit option \<Rightarrow> nat \<Rightarrow> (status \<times> bytes \<times> nat) option" where
  "hm_param_pack_write pack buffer buffer_length =
     (if pack = None \<or> nodes (the pack) = [] then Some (HM_INVALID_PARAMETER, [], buffer_length)
      else let p = the pack; needed = unat (hm_param_pack_get_whole_length pack) in
        if needed = 0 then Some (HM_INVALID_PARAMETER, [], buffer_length)
        else if buffer = None \<or> buffer_length < needed then Some (HM_BUFFER_TOO_SMALL, [], needed)
        else let out = write_nodes (nodes p) (u32_le (count32 p)) in
          if length out > buffer_length then None
          else Some (HM_SUCCESS, out, length out))"

fun send_nodes :: "'t hm_rpc_transport \<Rightarrow> hm_param_pack_node list \<Rightarrow> ('t, unit) io" where
  "send_nodes tr [] = io_ret ()"
| "send_nodes tr (n # ns) =
     (case n of
        NInt32 v \<Rightarrow>
          io_bind (transport_send tr (u32_le (node_type n))) (\<lambda>_.
          io_bind (transport_send tr (u32_le v)) (\<lambda>_.
          send_nodes tr ns))
      | NBuffersList b \<Rightarrow>
          io_bind (transport_send tr (u32_le HM_PARAM_TYPE_BUFFER)) (\<lambda>_.
          io_bind (transport_send tr (u32_le (len32 b))) (\<lambda>_.
          io_bind (transport_send tr b) (\<lambda>_.
          send_nodes tr ns)))
      | NBuffer b \<Rightarrow>
          io_bind (transport_send tr (u32_le HM_PARAM_TYPE_BUFFER)) (\<lambda>_.
          io_bind (transport_send tr (u32_le (len32 b))) (\<lambda>_.
          io_bind (transport_send tr b) (\<lambda>_.
          send_nodes tr ns)))
      | NBufferC b \<Rightarrow>
          io_bind (transport_send tr (u32_le HM_PARAM_TYPE_BUFFER)) (\<lambda>_.
          io_bind (transport_send tr (u32_le (len32 b))) (\<lambda>_.
          io_bind (transport_send tr b) (\<lambda>_.
          send_nodes tr ns))))"

definition hm_param_pack_send ::
    "hm_param_pack option \<Rightarrow> 't hm_rpc_transport option \<Rightarrow> ('t, unit) io" where
  "hm_param_pack_send pack transport =
     (if pack = None \<or> nodes (the pack) = [] \<or> transport = None \<or> send_fn (the transport) = None
      then io_fail HM_INVALID_PARAMETER
      else let p = the pack; tr = the transport; needed = hm_param_pack_get_whole_length pack in
        if needed = 0 then io_fail HM_INVALID_PARAMETER
        else
          io_bind (transport_send tr (u32_le needed)) (\<lambda>_.
          io_bind (transport_send tr (u32_le (count32 p))) (\<lambda>_.
          send_nodes tr (nodes p))))"

subsection \<open>Reading\<close>

fun check_loop :: "nat \<Rightarrow> bytes \<Rightarrow> bool" where
  "check_loop 0 buf = True"
| "check_loop (Suc param_count) buf =
     (case read_u32 buf of
        None \<Rightarrow> False
      | Some (ty, buf) \<Rightarrow>
          if ty = HM_PARAM_TYPE_INT32 then
            (case read_u32 buf of
               None \<Rightarrow> False
             | Some (_, buf) \<Rightarrow> check_loop param_count buf)
          else if ty = HM_PARAM_TYPE_BUFFERS_LIST \<or> ty = HM_PARAM_TYPE_BUFFER_C
              \<or> ty = HM_PARAM_TYPE_BUFFER then
            (case read_u32 buf of
               None \<Rightarrow> False
             | Some (buf_length, buf) \<Rightarrow>
                 if length buf < unat buf_length then False
                 else check_loop param_count (drop (unat buf_length) buf))
          else False)"

definition hm_param_pack_check_buf :: "bytes \<Rightarrow> bool" where
  "hm_param_pack_check_buf buf =
     (case read_u32 buf of
        None \<Rightarrow> False
      | Some (param_count, buf) \<Rightarrow> check_loop (unat param_count) buf)"

text \<open>
  The parsing loop itself tests nothing: a read past the end of the buffer, or a node that would
  point past it, is undefined (\<open>None\<close>).
\<close>

fun read_nodes :: "nat \<Rightarrow> bytes \<Rightarrow> hm_param_pack_node list option" where
  "read_nodes 0 buf = Some []"
| "read_nodes (Suc n) buf =
     (case read_u32 buf of
        None \<Rightarrow> None
      | Some (ty, buf) \<Rightarrow>
          if ty = HM_PARAM_TYPE_INT32 then
            (case read_u32 buf of
               None \<Rightarrow> None
             | Some (v, buf) \<Rightarrow> map_option (Cons (NInt32 v)) (read_nodes n buf))
          else if ty = HM_PARAM_TYPE_BUFFERS_LIST \<or> ty = HM_PARAM_TYPE_BUFFER
              \<or> ty = HM_PARAM_TYPE_BUFFER_C then
            (case read_u32 buf of
               None \<Rightarrow> None
             | Some (l, buf) \<Rightarrow>
                 if length buf < unat l then None
                 else let b = take (unat l) buf;
                          node = (if ty = HM_PARAM_TYPE_BUFFERS_LIST then NBuffersList b
                                  else if ty = HM_PARAM_TYPE_BUFFER then NBuffer b
                                  else NBufferC b)
                      in map_option (Cons node) (read_nodes n (drop (unat l) buf)))
          else None)"

definition hm_param_pack_read :: "cbuf \<Rightarrow> hm_param_pack option option" where
  "hm_param_pack_read buffer =
     (if buffer = None \<or> \<not> hm_param_pack_check_buf (the buffer) then Some None
      else let buf = the buffer in
        (case read_u32 buf of
           None \<Rightarrow> None
         | Some (param_count, rest) \<Rightarrow>
             if unat param_count > HM_PARAM_PACK_MAX_PARAMS then Some None
             else map_option
               (\<lambda>ns. Some \<lparr>nodes = ns, readed = True, whole_data = buf\<rparr>)
               (read_nodes (unat param_count) rest)))"

text \<open>The pack, or \<open>None\<close> for the NULL result; the transport's own status is dropped.\<close>

definition hm_param_pack_receive ::
    "'t hm_rpc_transport option \<Rightarrow> 't \<Rightarrow> (hm_param_pack option \<times> 't) option" where
  "hm_param_pack_receive transport t =
     (if transport = None \<or> recv_fn (the transport) = None then Some (None, t)
      else let tr = the transport in
        (case transport_recv tr 4 t of
           None \<Rightarrow> None
         | Some (Inl _, t) \<Rightarrow> Some (None, t)
         | Some (Inr lbuf, t) \<Rightarrow>
             (case read_u32 lbuf of
                None \<Rightarrow> None
              | Some (length_to_read, _) \<Rightarrow>
                  (case transport_recv tr (unat length_to_read) t of
                     None \<Rightarrow> None
                   | Some (Inl _, t) \<Rightarrow> Some (None, t)
                   | Some (Inr buffer, t) \<Rightarrow>
                       map_option (\<lambda>pack. (pack, t)) (hm_param_pack_read (Some buffer))))))"


subsection \<open>The wire format\<close>

definition nodes_wire :: "hm_param_pack_node list \<Rightarrow> bytes" where
  "nodes_wire ns = concat (map node_bytes ns)"

definition pack_wire :: "hm_param_pack \<Rightarrow> bytes" where
  "pack_wire p = u32_le (count32 p) @ nodes_wire (nodes p)"

text \<open>What the other side reads a node as.\<close>

fun received :: "hm_param_pack_node \<Rightarrow> hm_param_pack_node" where
  "received (NInt32 v) = NInt32 v"
| "received (NBuffer b) = NBuffer b"
| "received (NBufferC b) = NBuffer b"
| "received (NBuffersList b) = NBuffer b"

fun node_payload :: "hm_param_pack_node \<Rightarrow> bytes option" where
  "node_payload (NInt32 v) = None"
| "node_payload (NBuffer b) = Some b"
| "node_payload (NBufferC b) = Some b"
| "node_payload (NBuffersList b) = Some b"

definition pack_fits :: "hm_param_pack \<Rightarrow> bool" where
  "pack_fits p \<longleftrightarrow> nodes p \<noteq> [] \<and> length (nodes p) \<le> HM_PARAM_PACK_MAX_PARAMS \<and>
     \<not> readed p \<and> length (pack_wire p) < 2 ^ 32"

text \<open>As \<open>pack_fits\<close>, with no empty buffer: what can cross any reliable transport.\<close>

definition pack_sendable :: "hm_param_pack \<Rightarrow> bool" where
  "pack_sendable p \<longleftrightarrow> pack_fits p \<and> (\<forall>n \<in> set (nodes p). node_payload n \<noteq> Some [])"

lemma nodes_wire_simps [simp]:
  "nodes_wire [] = []" "nodes_wire (n # ns) = node_bytes n @ nodes_wire ns"
  by (simp_all add: nodes_wire_def)

lemma length_node_bytes:
  "length (node_bytes n) = 8 + (case node_payload n of None \<Rightarrow> 0 | Some b \<Rightarrow> length b)"
  by (cases n) auto

lemma write_nodes_eq: "write_nodes ns out = out @ nodes_wire ns"
  by (induction ns arbitrary: out) auto

lemma whole_length_loop_eq: "whole_length_loop ns l = l + word_of_nat (length (nodes_wire ns))"
proof (induction ns arbitrary: l)
  case (Cons n ns)
  then show ?case by (cases n) (simp_all add: len32_def)
qed simp

lemma whole_length_wire:
  assumes "\<not> readed p"
  shows "hm_param_pack_get_whole_length (Some p) = word_of_nat (length (pack_wire p))"
  using assms by (simp add: hm_param_pack_get_whole_length_def whole_length_loop_eq pack_wire_def)

lemma unat_whole_length:
  assumes "\<not> readed p" "length (pack_wire p) < 2 ^ 32"
  shows "unat (hm_param_pack_get_whole_length (Some p)) = length (pack_wire p)"
  using assms by (simp add: whole_length_wire unat_of_nat)

lemma unat_count32: "length (nodes p) \<le> HM_PARAM_PACK_MAX_PARAMS \<Longrightarrow> unat (count32 p) = length (nodes p)"
  by (simp add: count32_def unat_of_nat HM_PARAM_PACK_MAX_PARAMS_def)

lemma payload_bound:
  "n \<in> set ns \<Longrightarrow> node_payload n = Some b \<Longrightarrow> length b \<le> length (nodes_wire ns)"
  by (induction ns) (auto simp: length_node_bytes)

subsection \<open>Reading what was written\<close>

lemma read_nodes_wire:
  assumes "length (nodes_wire ns) < 2 ^ 32"
  shows "read_nodes (length ns) (nodes_wire ns @ rest) = Some (map received ns)"
  using assms
proof (induction ns)
  case (Cons n ns)
  then show ?case by (cases n) simp_all
qed simp

lemma check_loop_wire:
  assumes "length (nodes_wire ns) < 2 ^ 32"
  shows "check_loop (length ns) (nodes_wire ns @ rest)"
  using assms
proof (induction ns)
  case (Cons n ns)
  then show ?case by (cases n) simp_all
qed simp

text \<open>A buffer that passed the check is parsed without leaving it.\<close>

lemma check_loop_read_nodes: "check_loop n buf \<Longrightarrow> \<exists>ns. read_nodes n buf = Some ns \<and> length ns = n"
proof (induction n arbitrary: buf)
  case (Suc n)
  then show ?case
    by (fastforce simp: Let_def split: option.splits prod.splits if_splits)
qed simp

lemma read_nodes_inside:
  "read_nodes n buf = Some ns \<Longrightarrow>
   length (nodes_wire ns) \<le> length buf \<and>
     (\<forall>m \<in> set ns. \<forall>b. node_payload m = Some b \<longrightarrow> (\<exists>pre post. buf = pre @ b @ post))"
proof (induction n arbitrary: buf ns)
  case (Suc n)
  obtain ty r where r: "read_u32 buf = Some (ty, r)"
    using Suc.prems by (auto split: option.splits)
  obtain v r' where r': "read_u32 r = Some (v, r')"
    using Suc.prems r by (auto split: option.splits if_splits)
  have buf: "buf = u32_le ty @ u32_le v @ r'"
    using read_u32_inverse [OF r] read_u32_inverse [OF r'] by simp
  show ?case
  proof (cases "ty = HM_PARAM_TYPE_INT32")
    case True
    then obtain ns' where ns': "read_nodes n r' = Some ns'" "ns = NInt32 v # ns'"
      using Suc.prems r r' by auto
    have "\<exists>pre post. buf = pre @ b @ post" if "m \<in> set ns'" "node_payload m = Some b" for m b
      using Suc.IH [OF ns'(1)] that buf by (metis append.assoc)
    with Suc.IH [OF ns'(1)] ns' buf show ?thesis by auto
  next
    case False
    with Suc.prems r r' obtain node ns' where ns': "unat v \<le> length r'"
      "read_nodes n (drop (unat v) r') = Some ns'" "ns = node # ns'"
      "node_payload node = Some (take (unat v) r')"
      by (auto simp: Let_def split: if_splits)
    note IH = Suc.IH [OF ns'(2)]
    have split: "r' = take (unat v) r' @ drop (unat v) r'" by simp
    have "\<exists>pre post. buf = pre @ b @ post"
      if m: "m \<in> set ns'" "node_payload m = Some b" for m b
    proof -
      obtain pre post where "drop (unat v) r' = pre @ b @ post"
        using IH m by blast
      then have "buf = (u32_le ty @ u32_le v @ take (unat v) r' @ pre) @ b @ post"
        using buf split by (metis append.assoc)
      then show ?thesis by blast
    qed
    moreover have "buf = (u32_le ty @ u32_le v) @ take (unat v) r' @ drop (unat v) r'"
      using buf by simp
    then have "\<exists>pre post. buf = pre @ take (unat v) r' @ post" by blast
    moreover have "length (nodes_wire ns) \<le> length buf"
      using conjunct1 [OF IH] ns' buf by (simp add: length_node_bytes)
    ultimately show ?thesis using ns' by auto
  qed
qed simp

lemma read_wire:
  assumes "pack_fits p"
  shows "hm_param_pack_read (Some (pack_wire p)) =
    Some (Some \<lparr>nodes = map received (nodes p), readed = True, whole_data = pack_wire p\<rparr>)"
proof -
  have len: "length (nodes_wire (nodes p)) < 2 ^ 32" and n: "unat (count32 p) = length (nodes p)"
    "length (nodes p) \<le> HM_PARAM_PACK_MAX_PARAMS"
    using assms by (auto simp: pack_fits_def pack_wire_def unat_count32)
  have "read_u32 (pack_wire p) = Some (count32 p, nodes_wire (nodes p))"
    by (simp add: pack_wire_def)
  then show ?thesis
    using n read_nodes_wire [OF len, of "[]"] check_loop_wire [OF len, of "[]"]
    by (simp add: hm_param_pack_read_def hm_param_pack_check_buf_def Let_def)
qed

lemma write_wire:
  assumes "pack_fits p" "length (pack_wire p) \<le> n"
  shows "hm_param_pack_write (Some p) (Some ()) n =
    Some (HM_SUCCESS, pack_wire p, length (pack_wire p))"
proof -
  have "unat (hm_param_pack_get_whole_length (Some p)) = length (pack_wire p)"
    using assms by (intro unat_whole_length) (auto simp: pack_fits_def)
  moreover have "0 < length (pack_wire p)" by (simp add: pack_wire_def)
  moreover have "write_nodes (nodes p) (u32_le (count32 p)) = pack_wire p"
    by (simp add: write_nodes_eq pack_wire_def)
  ultimately show ?thesis
    using assms by (simp add: hm_param_pack_write_def pack_fits_def Let_def)
qed

subsection \<open>Sending and receiving\<close>

fun node_frames :: "hm_param_pack_node \<Rightarrow> bytes list" where
  "node_frames (NInt32 v) = [u32_le HM_PARAM_TYPE_INT32, u32_le v]"
| "node_frames (NBuffer b) = [u32_le HM_PARAM_TYPE_BUFFER, u32_le (len32 b), b]"
| "node_frames (NBufferC b) = [u32_le HM_PARAM_TYPE_BUFFER, u32_le (len32 b), b]"
| "node_frames (NBuffersList b) = [u32_le HM_PARAM_TYPE_BUFFER, u32_le (len32 b), b]"

definition body_frames :: "hm_param_pack \<Rightarrow> bytes list" where
  "body_frames p = u32_le (count32 p) # concat (map node_frames (nodes p))"

definition pack_frames :: "hm_param_pack \<Rightarrow> bytes list" where
  "pack_frames p = u32_le (word_of_nat (length (pack_wire p))) # body_frames p"

lemma concat_node_frames: "concat (node_frames n) = node_bytes n"
  by (cases n) auto

lemma concat_body_frames: "concat (body_frames p) = pack_wire p"
proof -
  have "concat (concat (map node_frames ns)) = nodes_wire ns" for ns
    by (induction ns) (simp_all add: concat_node_frames)
  then show ?thesis by (simp add: body_frames_def pack_wire_def)
qed

lemma send_nodes_eq: "send_nodes tr ns = send_all tr (concat (map node_frames ns))"
proof (induction ns)
  case (Cons n ns)
  then show ?case by (cases n) (simp_all add: send_all_append io_bind_assoc)
qed simp

lemma pack_send_eq:
  assumes "pack_fits p" "send_fn tr \<noteq> None"
  shows "hm_param_pack_send (Some p) (Some tr) = send_all tr (pack_frames p)"
proof -
  have w: "hm_param_pack_get_whole_length (Some p) = word_of_nat (length (pack_wire p))"
    using assms by (intro whole_length_wire) (simp add: pack_fits_def)
  have "unat (hm_param_pack_get_whole_length (Some p)) = length (pack_wire p)"
    using assms by (intro unat_whole_length) (auto simp: pack_fits_def)
  moreover have "0 < length (pack_wire p)" by (simp add: pack_wire_def)
  ultimately have "hm_param_pack_get_whole_length (Some p) \<noteq> 0" by auto
  with w assms show ?thesis
    by (auto simp add: hm_param_pack_send_def pack_fits_def Let_def pack_frames_def body_frames_def
        send_nodes_eq)
qed

lemma pack_frames_nonempty: "pack_sendable p \<Longrightarrow> [] \<notin> set (pack_frames p)"
proof -
  assume "pack_sendable p"
  then have "[] \<notin> set (node_frames n)" if "n \<in> set (nodes p)" for n
    using that by (cases n) (auto simp: pack_sendable_def u32_le_def)
  then show "[] \<notin> set (pack_frames p)"
    by (auto simp: pack_frames_def body_frames_def u32_le_def)
qed

lemma body_frames_ok: "pack_sendable p \<Longrightarrow> frames_ok (body_frames p)"
  using pack_frames_nonempty [of p] by (auto simp: pack_frames_def frames_ok_def body_frames_def)

definition received_pack :: "hm_param_pack \<Rightarrow> hm_param_pack" where
  "received_pack p = \<lparr>nodes = map received (nodes p), readed = True, whole_data = pack_wire p\<rparr>"

context reliable_transport
begin

lemma pack_send_ok:
  assumes "pack_sendable p" "link t ins outs" "list_all fits (pack_frames p)"
  shows "\<exists>t'. hm_param_pack_send (Some p) (Some tr) t = Some (Inr (), t') \<and>
    link t' ins (outs @ pack_frames p)"
proof -
  have "hm_param_pack_send (Some p) (Some tr) = send_all tr (pack_frames p)"
    using assms pointers by (intro pack_send_eq) (auto simp: pack_sendable_def)
  then show ?thesis
    using send_all_ok [OF assms(2) pack_frames_nonempty [OF assms(1)] assms(3)] by simp
qed

lemma pack_receive_ok:
  assumes "pack_sendable p" "link t (pack_frames p @ ins) outs"
  shows "\<exists>t'. hm_param_pack_receive (Some tr) t = Some (Some (received_pack p), t') \<and> link t' ins outs"
proof -
  let ?w = "word_of_nat (length (pack_wire p)) :: u32"
  from assms(2) have "link t (u32_le ?w # (body_frames p @ ins)) outs"
    by (simp add: pack_frames_def)
  from recv_u32 [OF this] obtain t1 where
    t1: "transport_recv tr 4 t = Some (Inr (u32_le ?w), t1)" "link t1 (body_frames p @ ins) outs"
    by blast
  have fits: "pack_fits p" using assms(1) by (simp add: pack_sendable_def)
  then have w: "unat ?w = length (concat (body_frames p))"
    by (simp add: concat_body_frames pack_fits_def unat_of_nat)
  from recv_ok [OF t1(2) body_frames_ok [OF assms(1)]] obtain t2 where
    t2: "transport_recv tr (length (concat (body_frames p))) t1 =
      Some (Inr (concat (body_frames p)), t2)" "link t2 ins outs"
    by blast
  show ?thesis
    using t1 t2 w read_wire [OF fits] pointers
    by (intro exI [of _ t2])
      (simp add: hm_param_pack_receive_def Let_def concat_body_frames received_pack_def)
qed

end

subsection \<open>Properties\<close>

text \<open>C19. Writing a pack of at most 20 parameters into a buffer with room for it succeeds, reports the
  number of bytes written, and reading those bytes gives the pack back, every kind of buffer as a
  plain buffer.\<close>

theorem param_pack_write_read:
  assumes "pack_fits p" "length (pack_wire p) \<le> n"
  shows "\<exists>out. hm_param_pack_write (Some p) (Some ()) n = Some (HM_SUCCESS, out, length out) \<and>
    hm_param_pack_read (Some out) =
      Some (Some \<lparr>nodes = map received (nodes p), readed = True, whole_data = out\<rparr>)"
  using write_wire [OF assms] read_wire [OF assms(1)] by blast

theorem param_pack_write_read_witness:
  "\<exists>out. hm_param_pack_write
      (Some \<lparr>nodes = [NInt32 7, NBufferC [1, 2]], readed = False, whole_data = []\<rparr>) (Some ()) 100 =
      Some (HM_SUCCESS, out, length out) \<and>
    hm_param_pack_read (Some out) =
      Some (Some \<lparr>nodes = [NInt32 7, NBuffer [1, 2]], readed = True, whole_data = out\<rparr>)"
  using param_pack_write_read [of "\<lparr>nodes = [NInt32 7, NBufferC [1, 2]], readed = False, whole_data = []\<rparr>" 100]
  by (simp add: pack_fits_def HM_PARAM_PACK_MAX_PARAMS_def pack_wire_def)

text \<open>C24. Reading any bytes is defined, and when it gives a pack, the pack has at most 20 nodes and every
  buffer node is a segment of the bytes read.\<close>

theorem param_pack_read_safe:
  "\<exists>r. hm_param_pack_read (Some buf) = Some r \<and>
    (\<forall>p. r = Some p \<longrightarrow> length (nodes p) \<le> HM_PARAM_PACK_MAX_PARAMS \<and> whole_data p = buf \<and>
      (\<forall>m \<in> set (nodes p). \<forall>b. node_payload m = Some b \<longrightarrow> (\<exists>pre post. buf = pre @ b @ post)))"
proof (cases "hm_param_pack_check_buf buf")
  case True
  then obtain count rest where r: "read_u32 buf = Some (count, rest)" "check_loop (unat count) rest"
    by (auto simp: hm_param_pack_check_buf_def split: option.splits)
  obtain ns where ns: "read_nodes (unat count) rest = Some ns" "length ns = unat count"
    using check_loop_read_nodes [OF r(2)] by blast
  have "\<exists>pre post. buf = pre @ b @ post" if "m \<in> set ns" "node_payload m = Some b" for m b
  proof -
    obtain pre post where "rest = pre @ b @ post"
      using read_nodes_inside [OF ns(1)] \<open>m \<in> set ns\<close> \<open>node_payload m = Some b\<close> by blast
    then have "buf = (u32_le count @ pre) @ b @ post"
      using read_u32_inverse [OF r(1)] by simp
    then show ?thesis by blast
  qed
  with True r ns show ?thesis by (auto simp: hm_param_pack_read_def Let_def)
qed (simp add: hm_param_pack_read_def)

theorem param_pack_read_safe_witness:
  "\<exists>p. hm_param_pack_read (Some [1, 0, 0, 0, 0x28, 0x80, 0x04, 0x26, 2, 0, 0, 0, 5, 6]) = Some (Some p) \<and>
    length (nodes p) \<le> HM_PARAM_PACK_MAX_PARAMS \<and> nodes p = [NBuffer [5, 6]]"
proof -
  let ?b = "[1, 0, 0, 0, 0x28, 0x80, 0x04, 0x26, 2, 0, 0, 0, 5, 6] :: bytes"
  have "hm_param_pack_read (Some ?b) =
    Some (Some \<lparr>nodes = [NBuffer [5, 6]], readed = True, whole_data = ?b\<rparr>)"
    by code_simp
  with param_pack_read_safe [of ?b] show ?thesis by auto
qed

end
