(* ===== verification/Rpc.thy ===== *)
theory Rpc
  imports Hash_Table Param_Pack
begin

section \<open>RPC client and server\<close>

text \<open>
  \<^verbatim>\<open>src/rpc/client.c\<close> and \<^verbatim>\<open>src/rpc/server.c\<close>.  A call sends the length and the bytes of the
  function's name and the packed parameters; the server looks the name up in its hash table,
  receives the parameters, runs the function on them and on its \<^verbatim>\<open>user_data\<close>, and answers with a
  status and, on success, with the packed results.

  A registered function takes the received pack and the \<^verbatim>\<open>user_data\<close> object (\<open>None\<close> for NULL) and
  returns its status, the pack it left in \<^verbatim>\<open>*out_params\<close> and the object afterwards.
\<close>

subsection \<open>The client\<close>

record 't hm_rpc_client_sync =
  client_transport :: "'t hm_rpc_transport"

definition hm_rpc_client_sync_create :: "'t hm_rpc_transport option \<Rightarrow> 't hm_rpc_client_sync option" where
  "hm_rpc_client_sync_create transport = map_option (\<lambda>tr. \<lparr>client_transport = tr\<rparr>) transport"

definition hm_rpc_client_sync_destroy ::
    "'t hm_rpc_client_sync option \<Rightarrow> status \<times> 't hm_rpc_client_sync option" where
  "hm_rpc_client_sync_destroy client =
     (if client = None then (HM_INVALID_PARAMETER, None) else (HM_SUCCESS, None))"

text \<open>
  \<open>want_out\<close> says whether \<^verbatim>\<open>out_params\<close> is non-NULL.  The result is \<^verbatim>\<open>*error\<close> and
  \<^verbatim>\<open>*out_params\<close>, which the callers initialise to NULL.
\<close>

definition hm_rpc_client_sync_call ::
    "'t hm_rpc_client_sync option \<Rightarrow> cbuf \<Rightarrow> hm_param_pack option \<Rightarrow> bool \<Rightarrow>
     ('t, u32 \<times> hm_param_pack option) io" where
  "hm_rpc_client_sync_call client func_name in_params want_out =
     (if client = None \<or> absent func_name \<or> in_params = None then io_fail HM_INVALID_PARAMETER
      else let tr = client_transport (the client) in
        io_bind (transport_send tr (u32_le (len32 (the func_name)))) (\<lambda>_.
        io_bind (transport_send tr (the func_name)) (\<lambda>_.
        io_bind (hm_param_pack_send in_params (Some tr)) (\<lambda>_.
        io_bind (transport_recv tr 4) (\<lambda>ebuf t.
          (case read_u32 ebuf of
             None \<Rightarrow> None
           | Some (error, _) \<Rightarrow>
               if error = HM_SUCCESS \<and> want_out then
                 (case hm_param_pack_receive (Some tr) t of
                    None \<Rightarrow> None
                  | Some (None, t) \<Rightarrow> Some (Inl HM_FAIL, t)
                  | Some (Some out, t) \<Rightarrow> Some (Inr (error, Some out), t))
               else Some (Inr (error, None), t)))))))"

subsection \<open>The server\<close>

type_synonym 'u hm_server_func =
  "hm_param_pack option \<Rightarrow> 'u option \<Rightarrow> (status \<times> hm_param_pack option \<times> 'u option) option"

record ('t, 'u) hm_rpc_server =
  server_transport :: "'t hm_rpc_transport"
  func_table :: "'u hm_server_func hm_hash_table"

definition hm_rpc_server_create :: "'t hm_rpc_transport option \<Rightarrow> ('t, 'u) hm_rpc_server option" where
  "hm_rpc_server_create transport =
     map_option (\<lambda>tr. \<lparr>server_transport = tr, func_table = hm_hash_table_create\<rparr>) transport"

definition hm_rpc_server_destroy ::
    "('t, 'u) hm_rpc_server option \<Rightarrow> status \<times> ('t, 'u) hm_rpc_server option" where
  "hm_rpc_server_destroy server =
     (if server = None then (HM_INVALID_PARAMETER, None) else (HM_SUCCESS, None))"

definition hm_rpc_server_reg_func ::
    "('t, 'u) hm_rpc_server option \<Rightarrow> cbuf \<Rightarrow> 'u hm_server_func option \<Rightarrow>
     (status \<times> ('t, 'u) hm_rpc_server option) option" where
  "hm_rpc_server_reg_func server func_signature func =
     (if server = None \<or> absent func_signature \<or> func = None
      then Some (HM_INVALID_PARAMETER, server)
      else map_option (\<lambda>(st, table). (st, Some ((the server)\<lparr>func_table := the table\<rparr>)))
             (hm_hash_table_set (Some (func_table (the server))) func_signature func))"

definition hm_rpc_server_send_error :: "('t, 'u) hm_rpc_server option \<Rightarrow> u32 \<Rightarrow> ('t, unit) io" where
  "hm_rpc_server_send_error server error =
     (if server = None \<or> HM_SUCCESS = error then io_fail HM_INVALID_PARAMETER
      else transport_send (server_transport (the server)) (u32_le error))"

definition hm_rpc_server_send ::
    "('t, 'u) hm_rpc_server option \<Rightarrow> hm_param_pack option \<Rightarrow> ('t, unit) io" where
  "hm_rpc_server_send server pack =
     (if server = None then io_fail HM_INVALID_PARAMETER
      else let tr = server_transport (the server) in
        io_bind (io_map_err HM_FAIL (transport_send tr (u32_le HM_SUCCESS))) (\<lambda>_.
        if pack \<noteq> None then hm_param_pack_send pack (Some tr) else io_ret ()))"

definition hm_rpc_server_call_func ::
    "('t, 'u) hm_rpc_server option \<Rightarrow> cbuf \<Rightarrow> 'u option \<Rightarrow> 't \<Rightarrow>
     ((status + unit) \<times> 'u option \<times> 't) option" where
  "hm_rpc_server_call_func server func_signature user_data t =
     (if server = None \<or> absent func_signature then Some (Inl HM_INVALID_PARAMETER, user_data, t)
      else let tr = server_transport (the server) in
        (case hm_hash_table_get (Some (func_table (the server))) func_signature of
           None \<Rightarrow> None
         | Some (Inl _) \<Rightarrow>
             map_option (\<lambda>(_, t). (Inl HM_FAIL, user_data, t)) (hm_rpc_server_send_error server HM_FAIL t)
         | Some (Inr func) \<Rightarrow>
             (case hm_param_pack_receive (Some tr) t of
                None \<Rightarrow> None
              | Some (None, t) \<Rightarrow>
                  map_option (\<lambda>(_, t). (Inl HM_FAIL, user_data, t))
                    (hm_rpc_server_send_error server HM_FAIL t)
              | Some (Some pack, t) \<Rightarrow>
                  (case func (Some pack) user_data of
                     None \<Rightarrow> None
                   | Some (res, out_pack, user_data) \<Rightarrow>
                       if HM_SUCCESS \<noteq> res then
                         map_option (\<lambda>(r, t). (r, user_data, t)) (hm_rpc_server_send_error server res t)
                       else
                         map_option (\<lambda>(r, t). (r, user_data, t))
                           (hm_rpc_server_send server out_pack t)))))"

definition hm_rpc_server_call ::
    "('t, 'u) hm_rpc_server option \<Rightarrow> 'u option \<Rightarrow> 't \<Rightarrow> ((status + unit) \<times> 'u option \<times> 't) option" where
  "hm_rpc_server_call server user_data t =
     (if server = None then Some (Inl HM_INVALID_PARAMETER, user_data, t)
      else let tr = server_transport (the server) in
        (case transport_recv tr 4 t of
           None \<Rightarrow> None
         | Some (Inl _, t) \<Rightarrow> Some (Inl HM_FAIL, user_data, t)
         | Some (Inr lbuf, t) \<Rightarrow>
             (case read_u32 lbuf of
                None \<Rightarrow> None
              | Some (func_signature_length, _) \<Rightarrow>
                  (case transport_recv tr (unat func_signature_length) t of
                     None \<Rightarrow> None
                   | Some (Inl _, t) \<Rightarrow> Some (Inl HM_FAIL, user_data, t)
                   | Some (Inr func_signature, t) \<Rightarrow>
                       hm_rpc_server_call_func server (Some func_signature) user_data t))))"

subsection \<open>One exchange, frame by frame\<close>

definition name_ok :: "bytes \<Rightarrow> bool" where
  "name_ok name \<longleftrightarrow> name \<noteq> [] \<and> length name < 2 ^ 32"

definition request_frames :: "bytes \<Rightarrow> hm_param_pack \<Rightarrow> bytes list" where
  "request_frames name p = [u32_le (len32 name), name] @ pack_frames p"

text \<open>What the server answers with, given the outcome of the function it called.\<close>

definition response_frames :: "status \<Rightarrow> hm_param_pack option \<Rightarrow> bytes list" where
  "response_frames res out =
     u32_le res # (if res = HM_SUCCESS then (case out of None \<Rightarrow> [] | Some p \<Rightarrow> pack_frames p) else [])"

definition registered :: "('t, 'u) hm_rpc_server \<Rightarrow> bytes \<Rightarrow> 'u hm_server_func \<Rightarrow> bool" where
  "registered s name f \<longleftrightarrow> hm_hash_table_get (Some (func_table s)) (Some name) = Some (Inr f)"

definition out_ok :: "hm_param_pack option \<Rightarrow> bool" where
  "out_ok out \<longleftrightarrow> (case out of None \<Rightarrow> True | Some p \<Rightarrow> pack_sendable p)"

context reliable_transport
begin

lemma server_answer_ok:
  assumes "server_transport s = tr" "link t ins outs" "out_ok out" "list_all fits (response_frames res out)"
  shows "\<exists>t'. (if HM_SUCCESS \<noteq> res then hm_rpc_server_send_error (Some s) res t
       else hm_rpc_server_send (Some s) out t) = Some (Inr (), t') \<and>
     link t' ins (outs @ response_frames res out)"
proof (cases "res = HM_SUCCESS")
  case True
  obtain t1 where t1: "transport_send tr (u32_le HM_SUCCESS) t = Some (Inr (), t1)"
    "link t1 ins (outs @ [u32_le HM_SUCCESS])"
    using send_ok [OF assms(2), of "u32_le HM_SUCCESS"] assms(4) True by (auto simp: response_frames_def)
  show ?thesis
  proof (cases out)
    case None
    with True t1 assms(1) show ?thesis
      by (intro exI [of _ t1]) (simp add: hm_rpc_server_send_def response_frames_def)
  next
    case (Some p)
    with True assms(3,4) pack_send_ok [OF _ t1(2), of p] obtain t2 where
      "hm_param_pack_send (Some p) (Some tr) t1 = Some (Inr (), t2)"
      "link t2 ins ((outs @ [u32_le HM_SUCCESS]) @ pack_frames p)"
      by (auto simp: out_ok_def response_frames_def)
    with True Some t1 assms(1) show ?thesis
      by (intro exI [of _ t2]) (simp add: hm_rpc_server_send_def response_frames_def)
  qed
next
  case False
  obtain t1 where "transport_send tr (u32_le res) t = Some (Inr (), t1)"
    "link t1 ins (outs @ [u32_le res])"
    using send_ok [OF assms(2), of "u32_le res"] assms(4) by (auto simp: response_frames_def)
  with False assms(1) show ?thesis
    by (intro exI [of _ t1]) (auto simp: hm_rpc_server_send_error_def response_frames_def)
qed

text \<open>The server serves one request of a registered function.\<close>

lemma server_call_ok:
  assumes "server_transport s = tr" "name_ok name" "pack_sendable p"
    and "registered s name f" "f (Some (received_pack p)) ud = Some (res, out, ud')" "out_ok out"
    and "link t (request_frames name p @ ins) outs" "list_all fits (response_frames res out)"
  shows "\<exists>t'. hm_rpc_server_call (Some s) ud t = Some (Inr (), ud', t') \<and>
    link t' ins (outs @ response_frames res out)"
proof -
  have n: "unat (len32 name) = length name" "name \<noteq> []"
    using assms(2) by (auto simp: name_ok_def)
  have "link t (u32_le (len32 name) # (name # pack_frames p @ ins)) outs"
    using assms(7) by (simp add: request_frames_def)
  from recv_u32 [OF this] obtain t1 where
    t1: "transport_recv tr 4 t = Some (Inr (u32_le (len32 name)), t1)"
      "link t1 (name # (pack_frames p @ ins)) outs" by blast
  from recv_frame [OF t1(2) n(2)] obtain t2 where
    t2: "transport_recv tr (length name) t1 = Some (Inr name, t2)" "link t2 (pack_frames p @ ins) outs"
    by blast
  from pack_receive_ok [OF assms(3) t2(2)] obtain t3 where
    t3: "hm_param_pack_receive (Some tr) t2 = Some (Some (received_pack p), t3)" "link t3 ins outs"
    by blast
  from server_answer_ok [OF assms(1) t3(2) assms(6,8)] obtain t4 where
    t4: "(if HM_SUCCESS \<noteq> res then hm_rpc_server_send_error (Some s) res t3
       else hm_rpc_server_send (Some s) out t3) = Some (Inr (), t4)"
      "link t4 ins (outs @ response_frames res out)" by blast
  have "hm_rpc_server_call_func (Some s) (Some name) ud t2 = Some (Inr (), ud', t4)"
    using assms(1,4,5) n t3(1) t4(1)
    by (auto simp: hm_rpc_server_call_func_def registered_def split: if_splits)
  with t1 t2 n t4 assms(1) show ?thesis
    by (intro exI [of _ t4]) (simp add: hm_rpc_server_call_def)
qed

text \<open>
  A name the table does not have: the server answers \<open>HM_FAIL\<close> and reports failure, and leaves the
  parameters of the call unread in its input.
\<close>

lemma server_call_unregistered:
  assumes "server_transport s = tr" "name_ok name"
    and "hm_hash_table_get (Some (func_table s)) (Some name) = Some (Inl e)"
    and "link t (request_frames name p @ ins) outs" "fits (u32_le HM_FAIL)"
  shows "\<exists>t'. hm_rpc_server_call (Some s) ud t = Some (Inl HM_FAIL, ud, t') \<and>
    link t' (pack_frames p @ ins) (outs @ [u32_le HM_FAIL])"
proof -
  have n: "unat (len32 name) = length name" "name \<noteq> []"
    using assms(2) by (auto simp: name_ok_def)
  have "link t (u32_le (len32 name) # (name # pack_frames p @ ins)) outs"
    using assms(4) by (simp add: request_frames_def)
  from recv_u32 [OF this] obtain t1 where
    t1: "transport_recv tr 4 t = Some (Inr (u32_le (len32 name)), t1)"
      "link t1 (name # (pack_frames p @ ins)) outs" by blast
  from recv_frame [OF t1(2) n(2)] obtain t2 where
    t2: "transport_recv tr (length name) t1 = Some (Inr name, t2)" "link t2 (pack_frames p @ ins) outs"
    by blast
  from send_ok [OF t2(2) _ assms(5)] obtain t3 where
    t3: "transport_send tr (u32_le HM_FAIL) t2 = Some (Inr (), t3)"
      "link t3 (pack_frames p @ ins) (outs @ [u32_le HM_FAIL])" by auto
  have "hm_rpc_server_call_func (Some s) (Some name) ud t2 = Some (Inl HM_FAIL, ud, t3)"
    using assms(1,3) n t3(1)
    by (simp add: hm_rpc_server_call_func_def hm_rpc_server_send_error_def)
  with t1 t2 n t3 assms(1) show ?thesis
    by (intro exI [of _ t3]) (simp add: hm_rpc_server_call_def)
qed

text \<open>The client's sends, up to the point where it waits for the answer.\<close>

lemma client_request_ok:
  assumes "client_transport c = tr" "name_ok name" "pack_sendable p" "link t ins outs" "list_all fits (request_frames name p)"
  shows "\<exists>t'. link t' ins (outs @ request_frames name p) \<and>
    (\<forall>w. hm_rpc_client_sync_call (Some c) (Some name) (Some p) w t =
      io_bind (transport_recv tr 4) (\<lambda>ebuf t.
          (case read_u32 ebuf of
             None \<Rightarrow> None
           | Some (error, _) \<Rightarrow>
               if error = HM_SUCCESS \<and> w then
                 (case hm_param_pack_receive (Some tr) t of
                    None \<Rightarrow> None
                  | Some (None, t) \<Rightarrow> Some (Inl HM_FAIL, t)
                  | Some (Some out, t) \<Rightarrow> Some (Inr (error, Some out), t))
               else Some (Inr (error, None), t))) t')"
proof -
  have n: "name \<noteq> []" using assms(2) by (simp add: name_ok_def)
  have fit: "fits (u32_le (len32 name))" "fits name" "list_all fits (pack_frames p)"
    using assms(5) by (simp_all add: request_frames_def)
  from send_ok [OF assms(4) _ fit(1)] obtain t1 where
    t1: "transport_send tr (u32_le (len32 name)) t = Some (Inr (), t1)"
      "link t1 ins (outs @ [u32_le (len32 name)])" by auto
  from send_ok [OF t1(2) n fit(2)] obtain t2 where
    t2: "transport_send tr name t1 = Some (Inr (), t2)"
      "link t2 ins ((outs @ [u32_le (len32 name)]) @ [name])" by auto
  from pack_send_ok [OF assms(3) t2(2) fit(3)] obtain t3 where
    t3: "hm_param_pack_send (Some p) (Some tr) t2 = Some (Inr (), t3)"
      "link t3 ins (((outs @ [u32_le (len32 name)]) @ [name]) @ pack_frames p)" by blast
  show ?thesis
    using t1 t2 t3 n assms(1)
    by (intro exI [of _ t3]) (simp add: hm_rpc_client_sync_call_def request_frames_def)
qed

end

end
