(* ===== verification/Rpc_Loop.thy ===== *)
theory Rpc_Loop
  imports Rpc
begin

section \<open>A client and a server over one pair of pipes\<close>

text \<open>
  The two ends of the pair of pipes of \<^verbatim>\<open>tests/common/test_transport.c\<close>, seen from the client:
  what it sends goes to the server's read end, and a receive that finds too few bytes blocks until
  the serving thread has run one \<^verbatim>\<open>hm_rpc_server_call\<close>.  As in the \<^verbatim>\<open>*_service_start\<close> loops the
  server stops at the first failed call.  The server's state is its \<^verbatim>\<open>hm_rpc_server_t\<close> and the
  object behind its \<^verbatim>\<open>user_data\<close>.

  \<open>loop_call\<close> is the contract of a remote call that the proxies of the three stores rest on.
\<close>

record 'u rpc_loop =
  to_server :: bytes
  to_client :: bytes
  loop_server :: "(pipes, 'u) hm_rpc_server option"
  loop_data :: "'u option"

definition loop_send :: "'u rpc_loop \<Rightarrow> bytes \<Rightarrow> (status \<times> 'u rpc_loop) option" where
  "loop_send L b =
     (if b = [] then Some (HM_INVALID_PARAMETER, L)
      else Some (HM_SUCCESS, L\<lparr>to_server := to_server L @ b\<rparr>))"

text \<open>One call of the serving thread.\<close>

definition loop_serve :: "'u rpc_loop \<Rightarrow> 'u rpc_loop option" where
  "loop_serve L =
     (case loop_server L of
        None \<Rightarrow> None
      | Some s \<Rightarrow>
          (case hm_rpc_server_call (Some s) (loop_data L)
                  \<lparr>read_pipe = to_server L, write_pipe = to_client L\<rparr> of
             None \<Rightarrow> None
           | Some (res, ud, p) \<Rightarrow>
               Some (L\<lparr>to_server := read_pipe p, to_client := write_pipe p,
                 loop_server := (case res of Inl _ \<Rightarrow> None | Inr _ \<Rightarrow> Some s), loop_data := ud\<rparr>)))"

definition loop_recv :: "'u rpc_loop \<Rightarrow> nat \<Rightarrow> (status \<times> bytes \<times> 'u rpc_loop) option" where
  "loop_recv L n =
     (if n = 0 then Some (HM_INVALID_PARAMETER, [], L)
      else case (if n \<le> length (to_client L) then Some L else loop_serve L) of
        None \<Rightarrow> None
      | Some L \<Rightarrow>
          if length (to_client L) < n then None
          else Some (HM_SUCCESS, take n (to_client L), L\<lparr>to_client := drop n (to_client L)\<rparr>))"

definition loop_transport :: "'u rpc_loop hm_rpc_transport" where
  "loop_transport = \<lparr>send_fn = Some loop_send, recv_fn = Some loop_recv\<rparr>"

definition loop_link ::
    "(pipes, 'u) hm_rpc_server option \<Rightarrow> 'u option \<Rightarrow> 'u rpc_loop \<Rightarrow> bytes list \<Rightarrow> bytes list \<Rightarrow> bool" where
  "loop_link s d L ins outs \<longleftrightarrow>
     to_client L = concat ins \<and> to_server L = concat outs \<and> loop_server L = s \<and> loop_data L = d"

definition loop_idle :: "'u rpc_loop \<Rightarrow> bool" where
  "loop_idle L \<longleftrightarrow> to_server L = [] \<and> to_client L = []"

interpretation loop: reliable_transport loop_transport "loop_link s d" "\<lambda>_. True"
  rewrites "\<And>bs. list_all (\<lambda>_. True) bs \<equiv> True" and "\<And>P. (True \<Longrightarrow> PROP P) \<equiv> PROP P" for s d
proof (unfold_locales, goal_cases)
  case (1 t ins outs b)
  then show ?case by (simp add: loop_link_def transport_send_def loop_transport_def loop_send_def)
next
  case (2 t fs ins outs)
  then have "0 < length (concat fs)" by (intro frames_ok_length)
  with 2 show ?case
    by (simp add: loop_link_def transport_recv_def loop_transport_def loop_recv_def)
qed (simp_all add: loop_transport_def)

text \<open>A receive on an empty input runs the server first.\<close>

lemma loop_recv_serves:
  assumes "length (to_client L) < n" "loop_serve L = Some L'" "n \<le> length (to_client L')"
  shows "transport_recv loop_transport n L = transport_recv loop_transport n L'"
  using assms by (simp add: transport_recv_def loop_transport_def loop_recv_def)

text \<open>The outcome of a remote call, for the caller.\<close>

definition call_result :: "status \<Rightarrow> hm_param_pack option \<Rightarrow> bool \<Rightarrow> u32 \<times> hm_param_pack option" where
  "call_result res out want = (res, if res = HM_SUCCESS \<and> want then map_option received_pack out else None)"

text \<open>The caller asks for results exactly when the function leaves some.\<close>

definition want_ok :: "status \<Rightarrow> hm_param_pack option \<Rightarrow> bool \<Rightarrow> bool" where
  "want_ok res out want \<longleftrightarrow> (res = HM_SUCCESS \<longrightarrow> want = (out \<noteq> None)) \<and> out_ok out"

lemma loop_serve_ok:
  assumes "loop_link (Some s) d L [] (request_frames name p)" "server_transport s = hm_test_transport"
    and "name_ok name" "pack_sendable p" "registered s name f"
    and "f (Some (received_pack p)) d = Some (res, out, d')" "out_ok out"
  shows "\<exists>L'. loop_serve L = Some L' \<and> loop_link (Some s) d' L' (response_frames res out) []"
proof -
  let ?p = "\<lparr>read_pipe = to_server L, write_pipe = to_client L\<rparr>"
  have l: "pipe_link ?p (request_frames name p @ []) []"
    using assms(1) by (simp add: pipe_link_def loop_link_def)
  obtain p' where p': "hm_rpc_server_call (Some s) d ?p = Some (Inr (), d', p')"
    "pipe_link p' [] ([] @ response_frames res out)"
    using pipe.server_call_ok [OF assms(2-7) l] by blast
  then show ?thesis
    using assms(1) by (auto simp: loop_serve_def loop_link_def pipe_link_def)
qed

lemma loop_call:
  assumes "loop_idle L" "loop_server L = Some s" "server_transport s = hm_test_transport"
    and "client_transport c = loop_transport"
    and "name_ok name" "pack_sendable p" "registered s name f"
    and "f (Some (received_pack p)) (loop_data L) = Some (res, out, d')" "want_ok res out want"
  shows "hm_rpc_client_sync_call (Some c) (Some name) (Some p) want L =
    Some (Inr (call_result res out want), L\<lparr>loop_data := d'\<rparr>)"
proof -
  have start: "loop_link (Some s) (loop_data L) L [] []"
    using assms(1,2) by (simp add: loop_link_def loop_idle_def)
  have out: "out_ok out" using assms(9) by (simp add: want_ok_def)
  from loop.client_request_ok [OF assms(4-6) start] obtain L1 where
    L1: "loop_link (Some s) (loop_data L) L1 [] (request_frames name p)"
      "\<And>w. hm_rpc_client_sync_call (Some c) (Some name) (Some p) w L =
      io_bind (transport_recv loop_transport 4) (\<lambda>ebuf t.
          (case read_u32 ebuf of
             None \<Rightarrow> None
           | Some (error, _) \<Rightarrow>
               if error = HM_SUCCESS \<and> w then
                 (case hm_param_pack_receive (Some loop_transport) t of
                    None \<Rightarrow> None
                  | Some (None, t) \<Rightarrow> Some (Inl HM_FAIL, t)
                  | Some (Some out, t) \<Rightarrow> Some (Inr (error, Some out), t))
               else Some (Inr (error, None), t))) L1"
    by auto
  from loop_serve_ok [OF L1(1) assms(3,5-8) out] obtain L2 where
    L2: "loop_serve L1 = Some L2" "loop_link (Some s) d' L2 (response_frames res out) []" by blast
  define rest where "rest = (if res = HM_SUCCESS then (case out of None \<Rightarrow> [] | Some q \<Rightarrow> pack_frames q) else [])"
  have L2': "loop_link (Some s) d' L2 (u32_le res # rest) []"
    using L2(2) by (simp add: response_frames_def rest_def)
  have recv: "transport_recv loop_transport 4 L1 = transport_recv loop_transport 4 L2"
    using L1(1) L2' by (intro loop_recv_serves [OF _ L2(1)]) (auto simp: loop_link_def)
  from loop.recv_u32 [OF L2'] obtain L3 where
    L3: "transport_recv loop_transport 4 L2 = Some (Inr (u32_le res), L3)"
      "loop_link (Some s) d' L3 rest []" by blast
  have final: "L' = L\<lparr>loop_data := d'\<rparr>" if "loop_link (Some s) d' L' [] []" for L' :: "'a rpc_loop"
    using that assms(1,2) by (cases L, cases L') (auto simp: loop_link_def loop_idle_def)
  show ?thesis
  proof (cases "res = HM_SUCCESS \<and> want")
    case True
    with assms(9) obtain q where q: "out = Some q" "pack_sendable q"
      by (auto simp: want_ok_def out_ok_def)
    with True L3(2) have "loop_link (Some s) d' L3 (pack_frames q @ []) []"
      by (simp add: rest_def)
    from loop.pack_receive_ok [OF q(2) this] obtain L4 where
      "hm_param_pack_receive (Some loop_transport) L3 = Some (Some (received_pack q), L4)"
      "loop_link (Some s) d' L4 [] []" by blast
    with True q L1(2) [of want] recv L3(1) final [of L4] show ?thesis
      by (simp add: call_result_def)
  next
    case False
    then have "rest = []"
      using assms(9) by (auto simp: rest_def want_ok_def)
    with False L1(2) [of want] recv L3 final [of L3] show ?thesis
      by (auto simp: call_result_def)
  qed
qed

text \<open>A call under a name that is not registered.\<close>

lemma loop_serve_unregistered:
  assumes "loop_link (Some s) d L [] (request_frames name p)" "server_transport s = hm_test_transport"
    and "name_ok name" "hm_hash_table_get (Some (func_table s)) (Some name) = Some (Inl e)"
  shows "\<exists>L'. loop_serve L = Some L' \<and> loop_link None d L' [u32_le HM_FAIL] (pack_frames p)"
proof -
  let ?p = "\<lparr>read_pipe = to_server L, write_pipe = to_client L\<rparr>"
  have l: "pipe_link ?p (request_frames name p @ []) []"
    using assms(1) by (simp add: pipe_link_def loop_link_def)
  obtain p' where p': "hm_rpc_server_call (Some s) d ?p = Some (Inl HM_FAIL, d, p')"
    "pipe_link p' (pack_frames p @ []) ([] @ [u32_le HM_FAIL])"
    using pipe.server_call_unregistered [OF assms(2-4) l] by blast
  then show ?thesis
    using assms(1) by (auto simp: loop_serve_def loop_link_def pipe_link_def)
qed

subsection \<open>Properties\<close>

text \<open>C18. A call over the pipes of a function registered on the server returns, with the status the
  function returned for the received parameters and, on success, its results as received; the
  server's data is as the function left it, and both pipes are empty again.\<close>

theorem rpc_call_runs_function:
  assumes "loop_idle L" "loop_server L = Some s" "server_transport s = hm_test_transport"
    and "client_transport c = loop_transport"
    and "name_ok name" "pack_sendable p" "registered s name f"
    and "f (Some (received_pack p)) (loop_data L) = Some (res, out, d')" "want_ok res out want"
  shows "hm_rpc_client_sync_call (Some c) (Some name) (Some p) want L =
    Some (Inr (res, if res = HM_SUCCESS \<and> want then map_option received_pack out else None),
      L\<lparr>loop_data := d'\<rparr>)"
  using loop_call [OF assms] by (simp add: call_result_def)

definition echo_func :: "nat hm_server_func" where
  "echo_func p d = Some (HM_SUCCESS,
     Some \<lparr>nodes = (case p of None \<Rightarrow> [] | Some q \<Rightarrow> nodes q), readed = False, whole_data = []\<rparr>,
     map_option Suc d)"

definition echo_server :: "(pipes, nat) hm_rpc_server" where
  "echo_server = \<lparr>server_transport = hm_test_transport,
     func_table = (\<lambda>i. if i = hm_hash [101] then [\<lparr>key = [101], val = echo_func\<rparr>] else [])\<rparr>"

theorem rpc_call_runs_function_witness:
  "hm_rpc_client_sync_call (Some \<lparr>client_transport = loop_transport\<rparr>) (Some [101])
      (Some \<lparr>nodes = [NInt32 5], readed = False, whole_data = []\<rparr>) True
      \<lparr>to_server = [], to_client = [], loop_server = Some echo_server, loop_data = Some 0\<rparr> =
    Some (Inr (HM_SUCCESS, Some (received_pack \<lparr>nodes = [NInt32 5], readed = False, whole_data = []\<rparr>)),
      \<lparr>to_server = [], to_client = [], loop_server = Some echo_server, loop_data = Some 1\<rparr>)"
proof -
  let ?p = "\<lparr>nodes = [NInt32 5], readed = False, whole_data = []\<rparr>"
  have "registered echo_server [101] echo_func"
    by (simp add: registered_def echo_server_def hm_hash_table_get_def Let_def c_memcmp_def)
  moreover have "pack_sendable ?p"
    by (simp add: pack_sendable_def pack_fits_def HM_PARAM_PACK_MAX_PARAMS_def pack_wire_def)
  ultimately show ?thesis
    using rpc_call_runs_function [of "\<lparr>to_server = [], to_client = [], loop_server = Some echo_server,
        loop_data = Some 0\<rparr>" echo_server "\<lparr>client_transport = loop_transport\<rparr>" "[101]" ?p
        echo_func HM_SUCCESS "Some ?p" "Some 1" True]
    by (simp add: loop_idle_def name_ok_def echo_func_def received_pack_def want_ok_def out_ok_def
        echo_server_def)
qed

text \<open>A call over the pipes under a name the server does not have returns \<open>HM_FAIL\<close> to the client and
  ends the server, with the parameters of the call unread in its pipe and its data unchanged.\<close>

theorem rpc_unregistered_call_ends_server:
  assumes "loop_idle L" "loop_server L = Some s" "server_transport s = hm_test_transport"
    and "client_transport c = loop_transport"
    and "name_ok name" "pack_sendable p"
    and "hm_hash_table_get (Some (func_table s)) (Some name) = Some (Inl e)"
  shows "hm_rpc_client_sync_call (Some c) (Some name) (Some p) want L =
    Some (Inr (HM_FAIL, None), L\<lparr>to_server := concat (pack_frames p), loop_server := None\<rparr>)"
proof -
  have start: "loop_link (Some s) (loop_data L) L [] []"
    using assms(1,2) by (simp add: loop_link_def loop_idle_def)
  from loop.client_request_ok [OF assms(4-6) start] obtain L1 where
    L1: "loop_link (Some s) (loop_data L) L1 [] (request_frames name p)"
      "\<And>w. hm_rpc_client_sync_call (Some c) (Some name) (Some p) w L =
      io_bind (transport_recv loop_transport 4) (\<lambda>ebuf t.
          (case read_u32 ebuf of
             None \<Rightarrow> None
           | Some (error, _) \<Rightarrow>
               if error = HM_SUCCESS \<and> w then
                 (case hm_param_pack_receive (Some loop_transport) t of
                    None \<Rightarrow> None
                  | Some (None, t) \<Rightarrow> Some (Inl HM_FAIL, t)
                  | Some (Some out, t) \<Rightarrow> Some (Inr (error, Some out), t))
               else Some (Inr (error, None), t))) L1"
    by auto
  from loop_serve_unregistered [OF L1(1) assms(3,5,7)] obtain L2 where
    L2: "loop_serve L1 = Some L2" "loop_link None (loop_data L) L2 [u32_le HM_FAIL] (pack_frames p)"
    by blast
  have recv: "transport_recv loop_transport 4 L1 = transport_recv loop_transport 4 L2"
    using L1(1) L2(2) by (intro loop_recv_serves [OF _ L2(1)]) (auto simp: loop_link_def)
  from loop.recv_u32 [OF L2(2)] obtain L3 where
    L3: "transport_recv loop_transport 4 L2 = Some (Inr (u32_le HM_FAIL), L3)"
      "loop_link None (loop_data L) L3 [] (pack_frames p)" by blast
  then have "L3 = L\<lparr>to_server := concat (pack_frames p), loop_server := None\<rparr>"
    using assms(1) by (cases L, cases L3) (auto simp: loop_link_def loop_idle_def)
  with L1(2) [of want] recv L3(1) show ?thesis by simp
qed

theorem rpc_unregistered_call_ends_server_witness:
  "hm_rpc_client_sync_call (Some \<lparr>client_transport = loop_transport\<rparr>) (Some [102])
      (Some \<lparr>nodes = [NInt32 5], readed = False, whole_data = []\<rparr>) True
      \<lparr>to_server = [], to_client = [], loop_server = Some echo_server, loop_data = Some 0\<rparr> =
    Some (Inr (HM_FAIL, None),
      \<lparr>to_server = concat (pack_frames \<lparr>nodes = [NInt32 5], readed = False, whole_data = []\<rparr>),
       to_client = [], loop_server = None, loop_data = Some 0\<rparr>)"
proof -
  let ?p = "\<lparr>nodes = [NInt32 5], readed = False, whole_data = []\<rparr>"
  have "hm_hash [101] \<noteq> hm_hash [102]"
    by (simp add: hm_hash_def hm_hash_step_def HM_HASH_TABLE_CAP_def)
  then have "hm_hash_table_get (Some (func_table echo_server)) (Some [102]) = Some (Inl HM_FAIL)"
    by (simp add: echo_server_def hm_hash_table_get_def Let_def)
  moreover have "pack_sendable ?p"
    by (simp add: pack_sendable_def pack_fits_def HM_PARAM_PACK_MAX_PARAMS_def pack_wire_def)
  ultimately show ?thesis
    using rpc_unregistered_call_ends_server [of "\<lparr>to_server = [], to_client = [],
        loop_server = Some echo_server, loop_data = Some 0\<rparr>" echo_server
        "\<lparr>client_transport = loop_transport\<rparr>" "[102]" ?p HM_FAIL True]
    by (simp add: loop_idle_def name_ok_def echo_server_def)
qed

end
