(* ===== verification/Remote_Call.thy ===== *)
theory Remote_Call
  imports Rpc_Loop
begin

section \<open>What the proxies and stubs of the stores share\<close>

text \<open>
  The three stores' \<^verbatim>\<open>functions.c\<close> follow one scheme: a proxy packs its arguments, calls
  \<^verbatim>\<open>hm_rpc_client_sync_call\<close> with the function's name and unpacks the results; a stub, registered
  under that name, unpacks the arguments, calls the function and packs its results.  This theory
  holds the scheme's common pieces and evaluates them: creating and extracting packs of a few
  integers and buffers, registering a list of functions, and \<open>proxy_loop\<close>, which reduces a proxy
  over the loop to its stub.
\<close>

named_theorems stub_simps \<open>evaluation of the stubs on a received pack\<close>

subsection \<open>Packs of integers and buffers\<close>

fun arg_node :: "hm_param_arg \<Rightarrow> hm_param_pack_node option" where
  "arg_node (AInt32 v) = Some (NInt32 v)"
| "arg_node (ABuffer b) = Some (NBuffer b)"
| "arg_node (ABufferC b) = Some (NBufferC b)"
| "arg_node _ = None"

definition arg_pack :: "hm_param_arg list \<Rightarrow> hm_param_pack" where
  "arg_pack args = \<lparr>nodes = map (the \<circ> arg_node) args, readed = False, whole_data = []\<rparr>"

text \<open>A buffer that can be a parameter: not empty, and small enough for 15 of them to fit a pack.\<close>

definition param_ok :: "bytes \<Rightarrow> bool" where
  "param_ok b \<longleftrightarrow> b \<noteq> [] \<and> length b < 2 ^ 28"

fun arg_ok :: "hm_param_arg \<Rightarrow> bool" where
  "arg_ok (AInt32 v) = True"
| "arg_ok (ABuffer b) = param_ok b"
| "arg_ok (ABufferC b) = param_ok b"
| "arg_ok _ = False"

definition args_ok :: "hm_param_arg list \<Rightarrow> bool" where
  "args_ok args \<longleftrightarrow> args \<noteq> [] \<and> length args \<le> 15 \<and> list_all arg_ok args"

lemma create_loop_args:
  assumes "list_all (\<lambda>a. arg_node a \<noteq> None) args" "length ns + length args \<le> HM_PARAM_PACK_MAX_PARAMS"
  shows "create_loop (map (\<lambda>a. (HM_PARAM_PACK_MAGIC, a)) args @ [(0, x)]) ns =
    Some (Some (ns @ map (the \<circ> arg_node) args))"
  using assms
proof (induction args arbitrary: ns)
  case (Cons a args)
  then show ?case by (cases a) auto
qed simp

lemma HM_PARAM_PACK_args:
  assumes "list_all (\<lambda>a. arg_node a \<noteq> None) args" "length args \<le> HM_PARAM_PACK_MAX_PARAMS"
  shows "HM_PARAM_PACK args = Some (Some (arg_pack args))"
  using create_loop_args [OF assms(1), of "[]"] assms(2)
  by (simp add: HM_PARAM_PACK_def hm_param_pack_create_args_def hm_param_pack_create_def arg_pack_def)

lemma arg_ok_node: "arg_ok a \<Longrightarrow> arg_node a \<noteq> None"
  by (cases a) auto

lemma HM_PARAM_PACK_ok: "args_ok args \<Longrightarrow> HM_PARAM_PACK args = Some (Some (arg_pack args))"
  by (rule HM_PARAM_PACK_args)
    (auto simp: args_ok_def HM_PARAM_PACK_MAX_PARAMS_def list_all_iff dest: arg_ok_node)

lemma args_wire_length:
  "list_all arg_ok args \<Longrightarrow>
   length (nodes_wire (map (the \<circ> arg_node) args)) \<le> length args * (2 ^ 28 + 8)"
proof (induction args)
  case (Cons a args)
  then show ?case by (cases a) (auto simp: param_ok_def)
qed simp

lemma arg_ok_payload: "arg_ok a \<Longrightarrow> node_payload (the (arg_node a)) \<noteq> Some []"
  by (cases a) (auto simp: param_ok_def)

lemma arg_pack_sendable:
  assumes "args_ok args"
  shows "pack_sendable (arg_pack args)"
proof -
  have "length (nodes_wire (nodes (arg_pack args))) \<le> length args * (2 ^ 28 + 8)"
    using args_wire_length [of args] assms by (simp add: args_ok_def arg_pack_def)
  also have "\<dots> \<le> 15 * (2 ^ 28 + 8)"
    using assms by (intro mult_right_mono) (auto simp: args_ok_def)
  finally have "length (pack_wire (arg_pack args)) < 2 ^ 32"
    by (simp add: pack_wire_def)
  moreover have "node_payload (the (arg_node a)) \<noteq> Some []" if "a \<in> set args" for a
    using that assms by (intro arg_ok_payload) (simp add: args_ok_def list_all_iff)
  ultimately show ?thesis
    using assms
    by (auto simp: pack_sendable_def pack_fits_def arg_pack_def args_ok_def HM_PARAM_PACK_MAX_PARAMS_def)
qed

subsection \<open>Extraction\<close>

lemma extract_params_eq:
  "extract_params (map (\<lambda>ty. (HM_PARAM_PACK_MAGIC, ty)) tys @ [(0, x)]) ns =
    (if tys = map node_type (take (length tys) ns) then Inr (map node_value (take (length tys) ns))
     else Inl HM_FAIL)"
proof (induction tys arbitrary: ns)
  case (Cons ty tys)
  then show ?case by (cases ns) auto
qed simp

lemma HM_PARAM_EXTRACT_eq [stub_simps]:
  "HM_PARAM_EXTRACT (Some p) tys =
    (if tys = map node_type (take (length tys) (nodes p))
     then Inr (map node_value (take (length tys) (nodes p))) else Inl HM_FAIL)"
  by (simp add: HM_PARAM_EXTRACT_def hm_param_pack_extract_args_def extract_params_eq)

text \<open>The values of the out pointers after an extraction.\<close>

definition vbuf :: "hm_param_value list \<Rightarrow> nat \<Rightarrow> cbuf" where
  "vbuf vs i = (if i < length vs then (case vs ! i of VBuffer b \<Rightarrow> Some b | _ \<Rightarrow> None) else None)"

definition vint :: "hm_param_value list \<Rightarrow> nat \<Rightarrow> u32" where
  "vint vs i = (if i < length vs then (case vs ! i of VInt32 v \<Rightarrow> v | _ \<Rightarrow> 0) else 0)"

lemma vbuf_simps [simp, stub_simps]:
  "vbuf (VBuffer b # vs) 0 = Some b" "vbuf (v # vs) (Suc i) = vbuf vs i"
  "vint (VInt32 w # vs) 0 = w" "vint (v # vs) (Suc i) = vint vs i"
  "vbuf (v # vs) (numeral n) = vbuf vs (pred_numeral n)"
  "vint (v # vs) (numeral n) = vint vs (pred_numeral n)"
  by (auto simp: vbuf_def vint_def numeral_eq_Suc)

lemma received_arg_pack [stub_simps]:
  "nodes (received_pack (arg_pack args)) = map (received \<circ> the \<circ> arg_node) args"
  by (simp add: received_pack_def arg_pack_def comp_def)

subsection \<open>Statuses as results\<close>

definition io_status :: "status \<Rightarrow> ('t, unit) io" where
  "io_status st = (if st = HM_SUCCESS then io_ret () else io_fail st)"

definition status_result :: "status \<Rightarrow> status + unit" where
  "status_result st = (if st = HM_SUCCESS then Inr () else Inl st)"

lemma io_status_apply [simp]: "io_status st t = Some (status_result st, t)"
  by (simp add: io_status_def status_result_def)

subsection \<open>Registering\<close>

definition reg_func :: "('t, 'u) hm_rpc_server \<Rightarrow> bytes \<Rightarrow> 'u hm_server_func \<Rightarrow>
    (status \<times> ('t, 'u) hm_rpc_server) option" where
  "reg_func s name f = map_option (\<lambda>(st, s). (st, the s)) (hm_rpc_server_reg_func (Some s) (Some name) (Some f))"

lemma reg_func_eq:
  "name \<noteq> [] \<Longrightarrow> reg_func s name f = map_option (\<lambda>(st, t). (st, s\<lparr>func_table := t\<rparr>)) (ht_insert (func_table s) name f)"
  by (simp add: reg_func_def hm_rpc_server_reg_func_def ht_insert_def option.map_comp comp_def
      case_prod_unfold)

lemma reg_all_eq:
  assumes "\<forall>k \<in> fst ` set kvs. k \<noteq> []"
  shows "insert_all reg_func s kvs =
    map_option (\<lambda>(st, t). (st, s\<lparr>func_table := t\<rparr>)) (insert_all ht_insert (func_table s) kvs)"
  using assms
proof (induction kvs arbitrary: s)
  case (Cons kv kvs)
  then show ?case
    by (cases kv) (auto simp: reg_func_eq split: option.splits)
qed simp

text \<open>
  Registering functions under distinct names that do not meet in a bucket with different lengths:
  all calls succeed, and every function is found under its name.
\<close>

lemma reg_all_registered:
  assumes "distinct (map fst kvs)" "\<forall>k \<in> fst ` set kvs. k \<noteq> []"
    and "\<forall>k \<in> fst ` set kvs. \<forall>k' \<in> fst ` set kvs. key_compat k k'"
  shows "\<exists>s. insert_all reg_func (the (hm_rpc_server_create (Some tr))) kvs = Some (HM_SUCCESS, s) \<and>
    server_transport s = tr \<and> (\<forall>(k, f) \<in> set kvs. registered s k f)"
proof -
  obtain t where "insert_all ht_insert hm_hash_table_create kvs = Some (HM_SUCCESS, t)"
    "\<forall>k v. (k, v) \<in> set kvs \<longrightarrow> hm_hash_table_get (Some t) (Some k) = Some (Inr v)"
    using ht.ins_all_lookup [OF assms] by blast
  then show ?thesis
    using assms(2) by (auto simp: reg_all_eq hm_rpc_server_create_def registered_def)
qed

subsection \<open>Remote calls\<close>

text \<open>The body of a proxy up to the answer: \<^verbatim>\<open>HM_PARAM_PACK\<close>, the NULL test, the call.\<close>

definition proxy_call ::
    "'t hm_rpc_client_sync option \<Rightarrow> bytes \<Rightarrow> hm_param_arg list \<Rightarrow> bool \<Rightarrow>
     ('t, u32 \<times> hm_param_pack option) io" where
  "proxy_call client name args want =
     (case HM_PARAM_PACK args of
        None \<Rightarrow> (\<lambda>_. None)
      | Some None \<Rightarrow> io_fail HM_FAIL
      | Some (Some pack) \<Rightarrow> hm_rpc_client_sync_call client (Some name) (Some pack) want)"

text \<open>A loop served by \<open>s\<close> on \<open>d\<close>, with nothing in flight.\<close>

definition serving :: "'u rpc_loop \<Rightarrow> (pipes, 'u) hm_rpc_server \<Rightarrow> 'u \<Rightarrow> bool" where
  "serving L s d \<longleftrightarrow> loop_idle L \<and> loop_server L = Some s \<and> loop_data L = Some d"

lemma proxy_loop:
  assumes "serving L s d" "server_transport s = hm_test_transport"
    and "client_transport c = loop_transport" "name_ok name" "args_ok args" "registered s name f"
    and "f (Some (received_pack (arg_pack args))) (Some d) = Some (res, out, d')"
    and "want_ok res out want"
  shows "proxy_call (Some c) name args want L =
    Some (Inr (call_result res out want), L\<lparr>loop_data := d'\<rparr>)"
  using assms loop_call [of L s c name "arg_pack args" f res out d' want]
  by (simp add: proxy_call_def HM_PARAM_PACK_ok arg_pack_sendable serving_def)

lemma want_ok_status [simp]: "want_ok res None False"
  by (simp add: want_ok_def out_ok_def)

lemma want_ok_fail [simp]: "res \<noteq> HM_SUCCESS \<Longrightarrow> want_ok res None want"
  by (simp add: want_ok_def out_ok_def)

lemma want_ok_result [simp]: "want_ok res (Some p) True \<longleftrightarrow> pack_sendable p"
  by (simp add: want_ok_def out_ok_def)

lemma call_result_simps [simp]:
  "fst (call_result res out w) = res"
  "call_result res None w = (res, None)"
  "call_result HM_SUCCESS (Some p) True = (HM_SUCCESS, Some (received_pack p))"
  "res \<noteq> HM_SUCCESS \<Longrightarrow> call_result res out w = (res, None)"
  by (auto simp: call_result_def)

lemma pack_results [stub_simps]:
  "HM_PARAM_PACK [ABufferC a] = Some (Some (arg_pack [ABufferC a]))"
  "HM_PARAM_PACK [ABuffer a] = Some (Some (arg_pack [ABuffer a]))"
  "HM_PARAM_PACK [ABuffer a, ABuffer b] = Some (Some (arg_pack [ABuffer a, ABuffer b]))"
  "HM_PARAM_PACK [ABuffer a, AInt32 w] = Some (Some (arg_pack [ABuffer a, AInt32 w]))"
  by (rule HM_PARAM_PACK_args; simp add: HM_PARAM_PACK_MAX_PARAMS_def)+

text \<open>
  The two shapes of a proxy: one that returns the function's status, and one that unpacks results.
  \<open>mk\<close> is how the stub packs a result and \<open>get\<close> how the proxy reads it back.
\<close>

lemma proxy_status:
  assumes "serving L s d" "server_transport s = hm_test_transport"
    and "client_transport c = loop_transport" "name_ok name" "args_ok args" "registered s name f"
    and "f (Some (received_pack (arg_pack args))) (Some d) = Some (res, None, d')"
  shows "io_bind (proxy_call (Some c) name args False)
      (\<lambda>(status, _). if HM_SUCCESS \<noteq> status then io_fail status else io_ret ()) L =
    Some (status_result res, L\<lparr>loop_data := d'\<rparr>)"
  using proxy_loop [OF assms want_ok_status] by (auto simp: status_result_def)

lemma proxy_result:
  assumes "serving L s d" "server_transport s = hm_test_transport"
    and "client_transport c = loop_transport" "name_ok name" "args_ok args" "registered s name f"
    and "f (Some (received_pack (arg_pack args))) (Some d) =
      (case r of Inl e \<Rightarrow> Some (e, None, d') | Inr v \<Rightarrow> Some (HM_SUCCESS, Some (arg_pack (mk v)), d'))"
    and "\<forall>e. r = Inl e \<longrightarrow> e \<noteq> HM_SUCCESS"
    and "\<forall>v. r = Inr v \<longrightarrow> args_ok (mk v) \<and>
      HM_PARAM_EXTRACT (Some (received_pack (arg_pack (mk v)))) tys = Inr (vs v) \<and> get (vs v) = v"
  shows "io_bind (proxy_call (Some c) name args True)
      (\<lambda>(status, out).
          if HM_SUCCESS \<noteq> status then io_fail status
          else (case HM_PARAM_EXTRACT out tys of Inl res \<Rightarrow> io_fail res | Inr vs \<Rightarrow> io_ret (get vs))) L =
    Some (r, L\<lparr>loop_data := d'\<rparr>)"
proof (cases r)
  case (Inl e)
  then have "f (Some (received_pack (arg_pack args))) (Some d) = Some (e, None, d')" "e \<noteq> HM_SUCCESS"
    using assms(7,8) by auto
  with Inl proxy_loop [OF assms(1-6), of e None d' True] show ?thesis by auto
next
  case (Inr v)
  then have "f (Some (received_pack (arg_pack args))) (Some d) =
      Some (HM_SUCCESS, Some (arg_pack (mk v)), d')" "pack_sendable (arg_pack (mk v))"
    using assms(7,9) arg_pack_sendable by auto
  with Inr assms(9) proxy_loop [OF assms(1-6), of HM_SUCCESS "Some (arg_pack (mk v))" d' True]
  show ?thesis by simp
qed

subsection \<open>Parameters across a transport\<close>

fun arg_type :: "hm_param_arg \<Rightarrow> u32" where
  "arg_type (AInt32 v) = HM_PARAM_TYPE_INT32"
| "arg_type _ = HM_PARAM_TYPE_BUFFER"

fun arg_value :: "hm_param_arg \<Rightarrow> hm_param_value" where
  "arg_value (AInt32 v) = VInt32 v"
| "arg_value (ABuffer b) = VBuffer b"
| "arg_value (ABufferC b) = VBuffer b"
| "arg_value _ = VBuffer []"

lemma received_arg:
  "arg_ok a \<Longrightarrow> node_type (received (the (arg_node a))) = arg_type a \<and>
    node_value (received (the (arg_node a))) = arg_value a"
  by (cases a) auto

text \<open>Up to 15 integers and non-empty buffers, packed on one side, sent through the pipe and received
  on the other, are extracted there with their values, and the receiver has read exactly what was
  sent.\<close>

lemma parameters_cross_pipe:
  assumes "args_ok args"
  shows "\<exists>p w p'. HM_PARAM_PACK args = Some (Some p) \<and>
    hm_param_pack_send (Some p) (Some hm_test_transport) \<lparr>read_pipe = [], write_pipe = []\<rparr> =
      Some (Inr (), \<lparr>read_pipe = [], write_pipe = w\<rparr>) \<and>
    hm_param_pack_receive (Some hm_test_transport) \<lparr>read_pipe = w, write_pipe = []\<rparr> =
      Some (Some p', \<lparr>read_pipe = [], write_pipe = []\<rparr>) \<and>
    HM_PARAM_EXTRACT (Some p') (map arg_type args) = Inr (map arg_value args)"
proof -
  let ?p = "arg_pack args"
  have sendable: "pack_sendable ?p" using assms by (rule arg_pack_sendable)
  obtain t where t: "hm_param_pack_send (Some ?p) (Some hm_test_transport) \<lparr>read_pipe = [], write_pipe = []\<rparr> =
      Some (Inr (), t)" "pipe_link t [] ([] @ pack_frames ?p)"
    using pipe.pack_send_ok [OF sendable, of "\<lparr>read_pipe = [], write_pipe = []\<rparr>" "[]" "[]"]
    by (auto simp: pipe_link_def)
  then have t': "t = \<lparr>read_pipe = [], write_pipe = concat (pack_frames ?p)\<rparr>"
    by (simp add: pipe_link_def)
  have "pipe_link \<lparr>read_pipe = concat (pack_frames ?p), write_pipe = []\<rparr> (pack_frames ?p @ []) []"
    by (simp add: pipe_link_def)
  from pipe.pack_receive_ok [OF sendable this]
  have receive: "hm_param_pack_receive (Some hm_test_transport)
      \<lparr>read_pipe = concat (pack_frames ?p), write_pipe = []\<rparr> =
      Some (Some (received_pack ?p), \<lparr>read_pipe = [], write_pipe = []\<rparr>)"
    by (auto simp: pipe_link_def)
  have "map (node_type \<circ> received \<circ> the \<circ> arg_node) args = map arg_type args"
    "map (node_value \<circ> received \<circ> the \<circ> arg_node) args = map arg_value args"
    using assms received_arg by (auto simp: args_ok_def list_all_iff)
  then have "HM_PARAM_EXTRACT (Some (received_pack ?p)) (map arg_type args) = Inr (map arg_value args)"
    by (simp add: HM_PARAM_EXTRACT_eq received_arg_pack comp_assoc)
  with HM_PARAM_PACK_ok [OF assms] t t' receive show ?thesis by blast
qed

theorem parameters_cross_pipe_witness:
  "\<exists>p w p'. HM_PARAM_PACK [ABufferC [1, 2], AInt32 7] = Some (Some p) \<and>
    hm_param_pack_send (Some p) (Some hm_test_transport) \<lparr>read_pipe = [], write_pipe = []\<rparr> =
      Some (Inr (), \<lparr>read_pipe = [], write_pipe = w\<rparr>) \<and>
    hm_param_pack_receive (Some hm_test_transport) \<lparr>read_pipe = w, write_pipe = []\<rparr> =
      Some (Some p', \<lparr>read_pipe = [], write_pipe = []\<rparr>) \<and>
    HM_PARAM_EXTRACT (Some p') [HM_PARAM_TYPE_BUFFER, HM_PARAM_TYPE_INT32] = Inr [VBuffer [1, 2], VInt32 7]"
  using parameters_cross_pipe [of "[ABufferC [1, 2], AInt32 7]"]
  by (simp add: args_ok_def param_ok_def)

text \<open>A list of buffers never arrives as one: whatever pack is sent, extracting from the received pack
  with a list of types that asks for a list of buffers fails, because it is sent as a plain buffer.\<close>

theorem buffers_list_never_received:
  assumes "HM_PARAM_TYPE_BUFFERS_LIST \<in> set tys"
  shows "HM_PARAM_EXTRACT (Some (received_pack p)) tys = Inl HM_FAIL"
proof -
  have ty: "node_type (received n) \<noteq> HM_PARAM_TYPE_BUFFERS_LIST" for n
    by (cases n) auto
  have "HM_PARAM_TYPE_BUFFERS_LIST \<notin> set (map node_type (take (length tys) (nodes (received_pack p))))"
    using ty by (auto simp: received_pack_def dest!: in_set_takeD) (metis ty)
  with assms show ?thesis unfolding HM_PARAM_EXTRACT_eq by metis
qed

theorem buffers_list_never_received_witness:
  "HM_PARAM_EXTRACT (Some (received_pack \<lparr>nodes = [NBuffersList [1, 0, 0, 0, 9]], readed = False,
     whole_data = []\<rparr>)) [HM_PARAM_TYPE_BUFFERS_LIST] = Inl HM_FAIL"
  by (rule buffers_list_never_received) simp

text \<open>A pack has room for 20 parameters: with more, \<^verbatim>\<open>HM_PARAM_PACK\<close> gives NULL; with up to 20 it
  gives the pack of them.\<close>

theorem param_pack_capacity:
  assumes "list_all (\<lambda>a. arg_node a \<noteq> None) args"
  shows "HM_PARAM_PACK args =
    Some (if length args \<le> HM_PARAM_PACK_MAX_PARAMS then Some (arg_pack args) else None)"
proof -
  have "create_loop (map (\<lambda>a. (HM_PARAM_PACK_MAGIC, a)) as @ [(0, x)]) ns = Some None"
    if "list_all (\<lambda>a. arg_node a \<noteq> None) as" "length ns \<le> HM_PARAM_PACK_MAX_PARAMS"
      "HM_PARAM_PACK_MAX_PARAMS < length ns + length as" for as ns x
    using that
  proof (induction as arbitrary: ns)
    case (Cons a as)
    then show ?case by (cases a) auto
  qed simp
  from this [of args "[]"] assms show ?thesis
    using HM_PARAM_PACK_args [OF assms]
    by (auto simp: HM_PARAM_PACK_def hm_param_pack_create_args_def)
qed

theorem param_pack_capacity_witness:
  "HM_PARAM_PACK (replicate 21 (AInt32 0)) = Some None"
  using param_pack_capacity [of "replicate 21 (AInt32 0)"]
  by (simp add: HM_PARAM_PACK_MAX_PARAMS_def list_all_iff)

end
