(* ===== verification/Service.thy ===== *)
theory Service
  imports Remote_Call
begin

section \<open>The serving loop\<close>

text \<open>
  The loop of \<^verbatim>\<open>hm_key_store_service_start\<close>, \<^verbatim>\<open>hm_data_store_service_start\<close> and
  \<^verbatim>\<open>hm_credential_store_service_start\<close>, which differ only in the server they call: serve requests
  until \<^verbatim>\<open>finish\<close> is set or a call fails.  \<^verbatim>\<open>finish\<close> is set by \<^verbatim>\<open>*_service_stop\<close> from another
  thread, so the run is given by a schedule: for each test of the flag, whether stop has been
  called just before it.  A schedule that ends while the loop goes on gives \<open>None\<close>.

  \<open>serve_requests\<close> shows that the loop answers a queue of requests one by one and in order;
  \<open>run_handlers\<close> is the abstract specification, the registered functions run in sequence.
\<close>

record 's hm_service =
  service_server :: 's
  finish :: bool

definition service_stop :: "'s hm_service option \<Rightarrow> status \<times> 's hm_service option" where
  "service_stop service =
     (case service of
        None \<Rightarrow> (HM_INVALID_PARAMETER, None)
      | Some sv \<Rightarrow> (HM_SUCCESS, Some (sv\<lparr>finish := True\<rparr>)))"

definition service_destroy :: "'s hm_service option \<Rightarrow> status \<times> 's hm_service option" where
  "service_destroy service =
     (if service = None then (HM_INVALID_PARAMETER, None) else (HM_SUCCESS, None))"

type_synonym ('s, 't) server_call = "'s option \<Rightarrow> 't \<Rightarrow> ((status + unit) \<times> 's option \<times> 't) option"

fun service_loop :: "('s, 't) server_call \<Rightarrow> bool list \<Rightarrow> 's hm_service \<Rightarrow> 't \<Rightarrow>
    (status \<times> 's hm_service \<times> 't) option" where
  "service_loop call [] sv t = None"
| "service_loop call (stopped # sched) sv t =
     (let sv = (if stopped then the (snd (service_stop (Some sv))) else sv) in
      if finish sv then Some (HM_SUCCESS, sv, t)
      else (case call (Some (service_server sv)) t of
              None \<Rightarrow> None
            | Some (Inl _, s, t) \<Rightarrow> Some (HM_FAIL, sv\<lparr>service_server := the s\<rparr>, t)
            | Some (Inr _, s, t) \<Rightarrow> service_loop call sched (sv\<lparr>service_server := the s\<rparr>) t))"

definition service_start :: "('s, 't) server_call \<Rightarrow> bool list \<Rightarrow> 's hm_service option \<Rightarrow> 't \<Rightarrow>
    (status \<times> 's hm_service option \<times> 't) option" where
  "service_start call sched service t =
     (case service of
        None \<Rightarrow> Some (HM_INVALID_PARAMETER, None, t)
      | Some sv \<Rightarrow> map_option (\<lambda>(st, sv, t). (st, Some sv, t)) (service_loop call sched sv t))"

subsection \<open>Serving a queue of requests\<close>

type_synonym request = "bytes \<times> hm_param_pack"

fun run_handlers :: "('t, 'u) hm_rpc_server \<Rightarrow> request list \<Rightarrow> 'u \<Rightarrow>
    ((status \<times> hm_param_pack option) list \<times> 'u) option" where
  "run_handlers s [] d = Some ([], d)"
| "run_handlers s ((name, p) # rs) d =
     (case hm_hash_table_get (Some (func_table s)) (Some name) of
        Some (Inr f) \<Rightarrow>
          (case f (Some (received_pack p)) (Some d) of
             Some (res, out, Some d') \<Rightarrow>
               map_option (\<lambda>(os, d). ((res, out) # os, d)) (run_handlers s rs d')
           | _ \<Rightarrow> None)
      | _ \<Rightarrow> None)"

definition requests_ok :: "request list \<Rightarrow> bool" where
  "requests_ok rs \<longleftrightarrow> (\<forall>(name, p) \<in> set rs. name_ok name \<and> pack_sendable p)"

definition request_stream :: "request list \<Rightarrow> bytes list" where
  "request_stream rs = concat (map (\<lambda>(name, p). request_frames name p) rs)"

definition response_stream :: "(status \<times> hm_param_pack option) list \<Rightarrow> bytes list" where
  "response_stream os = concat (map (\<lambda>(res, out). response_frames res out) os)"

lemma run_handlers_ConsE:
  assumes "run_handlers s ((name, p) # rs) d = Some (os, d')"
  obtains f res out d1 os' where "registered s name f"
    "f (Some (received_pack p)) (Some d) = Some (res, out, Some d1)"
    "run_handlers s rs d1 = Some (os', d')" "os = (res, out) # os'"
  using assms by (auto simp: registered_def split: option.splits sum.splits)

text \<open>
  A server whose call is \<^verbatim>\<open>hm_rpc_server_call\<close> on its RPC server and its db, as that of all three
  stores (\<open>rpc\<close> and \<open>dat\<close> select the two, \<open>upd\<close> puts the db back).
\<close>

definition db_server_call ::
    "('s \<Rightarrow> ('t, 'u) hm_rpc_server) \<Rightarrow> ('s \<Rightarrow> 'u) \<Rightarrow> ('u \<Rightarrow> 's \<Rightarrow> 's) \<Rightarrow> ('s, 't) server_call" where
  "db_server_call rpc dat upd server t =
     (case server of
        None \<Rightarrow> Some (Inl HM_INVALID_PARAMETER, None, t)
      | Some s \<Rightarrow>
          map_option (\<lambda>(res, ud, t). (res, Some (upd (the ud) s), t))
            (hm_rpc_server_call (Some (rpc s)) (Some (dat s)) t))"

locale db_server = reliable_transport tr link fits
  for tr :: "'t hm_rpc_transport" and link :: "'t \<Rightarrow> bytes list \<Rightarrow> bytes list \<Rightarrow> bool"
    and fits :: "bytes \<Rightarrow> bool" +
  fixes rpc :: "'s \<Rightarrow> ('t, 'u) hm_rpc_server"
    and dat :: "'s \<Rightarrow> 'u"
    and upd :: "'u \<Rightarrow> 's \<Rightarrow> 's"
  assumes rpc_upd: "rpc (upd d s) = rpc s"
    and dat_upd: "dat (upd d s) = d"
    and upd_upd: "upd d (upd d' s) = upd d s"
    and upd_dat: "upd (dat s) s = s"
begin

lemma serve_requests:
  assumes "server_transport (rpc s) = tr" "requests_ok rs"
    and "run_handlers (rpc s) rs (dat s) = Some (os, d')" "\<forall>(res, out) \<in> set os. out_ok out"
    and "link t (request_stream rs @ ins) outs" "list_all fits (response_stream os)"
  shows "\<exists>t'. service_loop (db_server_call rpc dat upd) (replicate (length rs) False @ [True])
      \<lparr>service_server = s, finish = False\<rparr> t =
      Some (HM_SUCCESS, \<lparr>service_server = upd d' s, finish = True\<rparr>, t') \<and>
    link t' ins (outs @ response_stream os)"
  using assms
proof (induction rs arbitrary: s t os outs)
  case Nil
  then show ?case
    by (auto simp: service_stop_def request_stream_def response_stream_def upd_dat)
next
  case (Cons r rs)
  obtain name p where r: "r = (name, p)" by force
  from Cons.prems(3) [unfolded r] obtain f res out d1 os' where
    f: "registered (rpc s) name f" "f (Some (received_pack p)) (Some (dat s)) = Some (res, out, Some d1)"
      "run_handlers (rpc s) rs d1 = Some (os', d')" "os = (res, out) # os'"
    by (rule run_handlers_ConsE)
  have ok: "name_ok name" "pack_sendable p" "out_ok out" "requests_ok rs"
    "\<forall>(res, out) \<in> set os'. out_ok out"
    using Cons.prems(2,4) r f(4) by (auto simp: requests_ok_def)
  have fit: "list_all fits (response_frames res out)" "list_all fits (response_stream os')"
    using Cons.prems(6) f(4) by (simp_all add: response_stream_def)
  have l: "link t (request_frames name p @ (request_stream rs @ ins)) outs"
    using Cons.prems(5) r by (simp add: request_stream_def)
  from server_call_ok [OF Cons.prems(1) ok(1,2) f(1,2) ok(3) l fit(1)] obtain t1 where
    t1: "hm_rpc_server_call (Some (rpc s)) (Some (dat s)) t = Some (Inr (), Some d1, t1)"
      "link t1 (request_stream rs @ ins) (outs @ response_frames res out)" by blast
  have s1: "server_transport (rpc (upd d1 s)) = tr"
    "run_handlers (rpc (upd d1 s)) rs (dat (upd d1 s)) = Some (os', d')"
    using Cons.prems(1) f(3) by (simp_all add: rpc_upd dat_upd)
  from Cons.IH [OF s1(1) ok(4) s1(2) ok(5) t1(2) fit(2)] obtain t2 where
    t2: "service_loop (db_server_call rpc dat upd) (replicate (length rs) False @ [True])
      \<lparr>service_server = upd d1 s, finish = False\<rparr> t1 =
      Some (HM_SUCCESS, \<lparr>service_server = upd d' s, finish = True\<rparr>, t2)"
      "link t2 ins ((outs @ response_frames res out) @ response_stream os')"
    unfolding upd_upd by blast
  have "service_loop (db_server_call rpc dat upd) (replicate (length (r # rs)) False @ [True])
      \<lparr>service_server = s, finish = False\<rparr> t =
      Some (HM_SUCCESS, \<lparr>service_server = upd d' s, finish = True\<rparr>, t2)"
    using t1(1) t2(1) by (simp add: db_server_call_def)
  moreover have "link t2 ins (outs @ response_stream os)"
    using t2(2) f(4) by (simp add: response_stream_def)
  ultimately show ?case by blast
qed

text \<open>A request for a name that is not registered ends the loop.\<close>

lemma unregistered_ends_service:
  assumes "server_transport (rpc s) = tr" "name_ok name"
    and "hm_hash_table_get (Some (func_table (rpc s))) (Some name) = Some (Inl e)"
    and "link t (request_frames name p @ ins) outs" "fits (u32_le HM_FAIL)"
  shows "\<exists>t'. service_loop (db_server_call rpc dat upd) (False # sched)
      \<lparr>service_server = s, finish = False\<rparr> t =
      Some (HM_FAIL, \<lparr>service_server = s, finish = False\<rparr>, t') \<and>
    link t' (pack_frames p @ ins) (outs @ [u32_le HM_FAIL])"
proof -
  from server_call_unregistered [OF assms] obtain t' where
    "hm_rpc_server_call (Some (rpc s)) (Some (dat s)) t = Some (Inl HM_FAIL, Some (dat s), t')"
    "link t' (pack_frames p @ ins) (outs @ [u32_le HM_FAIL])" by blast
  then show ?thesis by (auto simp: db_server_call_def upd_dat)
qed

end

end
