(* ===== verification/Credential_Store.thy ===== *)
theory Credential_Store
  imports Service
begin

section \<open>The credential store\<close>

text \<open>
  \<^verbatim>\<open>src/credential_store\<close>: one remote function, the public key of a user id.  The database behind
  the store (\<^verbatim>\<open>hm_cs_db_t\<close>) belongs to the application: a record of function pointers with an
  opaque \<^verbatim>\<open>user_data\<close>, here the parameter \<open>'d\<close>.  A callback returns its status, the buffers it
  stores through its out pointers (read only when the status is \<open>HM_SUCCESS\<close>) and the object
  afterwards.

  A function or proxy that returns a value through out pointers is given \<open>want\<close>, whether the out
  pointers its guard tests are non-NULL.  The \<^verbatim>\<open>out\<close> argument of a stub is never NULL
  (\<^verbatim>\<open>hm_rpc_server_call_func\<close> passes the address of a local), so the stubs have no such argument.
\<close>

subsection \<open>The database and the function\<close>

record 'd hm_cs_db =
  cs_user_data :: 'd
  get_pub :: "('d \<Rightarrow> bytes \<Rightarrow> status \<times> bytes \<times> 'd) option"

definition hm_credential_store_check_backend :: "'d hm_cs_db option \<Rightarrow> bool" where
  "hm_credential_store_check_backend db = (\<not> (db = None \<or> get_pub (the db) = None))"

definition hm_credential_store_get_pub_key_by_id ::
    "'d hm_cs_db option \<Rightarrow> cbuf \<Rightarrow> bool \<Rightarrow> (status + bytes) \<times> 'd hm_cs_db option" where
  "hm_credential_store_get_pub_key_by_id db uid want =
     (if db = None \<or> get_pub (the db) = None \<or> absent uid \<or> \<not> want
      then (Inl HM_INVALID_PARAMETER, db)
      else let (st, k, d) = the (get_pub (the db)) (cs_user_data (the db)) (the uid) in
        (if st = HM_SUCCESS then Inr k else Inl st, Some ((the db)\<lparr>cs_user_data := d\<rparr>)))"

subsection \<open>Proxy and stub\<close>

definition hm_credential_store_get_pub_key_by_id_NAME :: bytes where
  "hm_credential_store_get_pub_key_by_id_NAME = c_string ''hm_credential_store_get_pub_key_by_id''"

definition hm_credential_store_get_pub_key_by_id_sync_proxy ::
    "'t hm_rpc_client_sync option \<Rightarrow> cbuf \<Rightarrow> bool \<Rightarrow> ('t, bytes) io" where
  "hm_credential_store_get_pub_key_by_id_sync_proxy client uid want =
     (if client = None \<or> absent uid \<or> \<not> want then io_fail HM_INVALID_PARAMETER
      else io_bind (proxy_call client hm_credential_store_get_pub_key_by_id_NAME [ABufferC (the uid)] True)
        (\<lambda>(status, out).
          if HM_SUCCESS \<noteq> status then io_fail status
          else (case HM_PARAM_EXTRACT out [HM_PARAM_TYPE_BUFFER] of
                  Inl res \<Rightarrow> io_fail res
                | Inr vs \<Rightarrow> io_ret (the (vbuf vs 0)))))"

definition hm_credential_store_get_pub_key_by_id_stub :: "'d hm_cs_db hm_server_func" where
  "hm_credential_store_get_pub_key_by_id_stub in_params user_data =
     (if user_data = None \<or> in_params = None then Some (HM_INVALID_PARAMETER, None, user_data)
      else (case HM_PARAM_EXTRACT in_params [HM_PARAM_TYPE_BUFFER] of
              Inl res \<Rightarrow> Some (res, None, user_data)
            | Inr vs \<Rightarrow>
                (case hm_credential_store_get_pub_key_by_id user_data (vbuf vs 0) True of
                   (Inl res, db) \<Rightarrow> Some (res, None, db)
                 | (Inr k, db) \<Rightarrow>
                     (case HM_PARAM_PACK [ABufferC k] of
                        None \<Rightarrow> None
                      | Some None \<Rightarrow> Some (HM_FAIL, None, db)
                      | Some (Some out) \<Rightarrow> Some (HM_SUCCESS, Some out, db)))))"

subsection \<open>Client\<close>

record 't hm_credential_store_client_sync =
  cs_c :: "'t hm_rpc_client_sync"

definition hm_credential_store_client_sync_create ::
    "'t hm_rpc_transport option \<Rightarrow> 't hm_credential_store_client_sync option" where
  "hm_credential_store_client_sync_create transport =
     (if transport = None then None
      else (case hm_rpc_client_sync_create transport of
              None \<Rightarrow> None
            | Some c \<Rightarrow> Some \<lparr>cs_c = c\<rparr>))"

definition hm_credential_store_client_sync_destroy ::
    "'t hm_credential_store_client_sync option \<Rightarrow> status \<times> 't hm_credential_store_client_sync option" where
  "hm_credential_store_client_sync_destroy c =
     (if c = None then (HM_INVALID_PARAMETER, None) else (HM_SUCCESS, None))"

definition hm_credential_store_client_sync_call_get_pub_key_by_id ::
    "'t hm_credential_store_client_sync option \<Rightarrow> cbuf \<Rightarrow> bool \<Rightarrow> ('t, bytes) io" where
  "hm_credential_store_client_sync_call_get_pub_key_by_id client uid want =
     (if client = None \<or> absent uid \<or> \<not> want then io_fail HM_INVALID_PARAMETER
      else hm_credential_store_get_pub_key_by_id_sync_proxy (Some (cs_c (the client))) uid want)"

subsection \<open>Server and service\<close>

record ('t, 'd) hm_credential_store_server =
  cs_s :: "('t, 'd hm_cs_db) hm_rpc_server"
  cs_db :: "'d hm_cs_db"

text \<open>The registrations of the server, in order.\<close>

definition hm_credential_store_functions :: "(bytes \<times> 'd hm_cs_db hm_server_func) list" where
  "hm_credential_store_functions =
     [(hm_credential_store_get_pub_key_by_id_NAME, hm_credential_store_get_pub_key_by_id_stub)]"

definition hm_credential_store_server_create ::
    "'t hm_rpc_transport option \<Rightarrow> 'd hm_cs_db option \<Rightarrow> ('t, 'd) hm_credential_store_server option option"
where
  "hm_credential_store_server_create transport db =
     (if transport = None \<or> db = None \<or> \<not> hm_credential_store_check_backend db then Some None
      else (case hm_rpc_server_create transport of
              None \<Rightarrow> Some None
            | Some s \<Rightarrow>
                (case insert_all reg_func s hm_credential_store_functions of
                   None \<Rightarrow> None
                 | Some (res, s) \<Rightarrow>
                     if HM_SUCCESS \<noteq> res then Some None else Some (Some \<lparr>cs_s = s, cs_db = the db\<rparr>))))"

definition hm_credential_store_server_destroy ::
    "('t, 'd) hm_credential_store_server option \<Rightarrow> status \<times> ('t, 'd) hm_credential_store_server option" where
  "hm_credential_store_server_destroy server =
     (if server = None then (HM_INVALID_PARAMETER, None) else (HM_SUCCESS, None))"

definition hm_credential_store_server_call ::
    "(('t, 'd) hm_credential_store_server, 't) server_call" where
  "hm_credential_store_server_call =
     db_server_call cs_s cs_db (\<lambda>d s. s\<lparr>cs_db := d\<rparr>)"

type_synonym ('t, 'd) hm_credential_store_service = "('t, 'd) hm_credential_store_server hm_service"

definition hm_credential_store_service_create ::
    "'t hm_rpc_transport option \<Rightarrow> 'd hm_cs_db option \<Rightarrow> ('t, 'd) hm_credential_store_service option option"
where
  "hm_credential_store_service_create transport db =
     (if transport = None \<or> db = None then Some None
      else (case hm_credential_store_server_create transport db of
              None \<Rightarrow> None
            | Some None \<Rightarrow> Some None
            | Some (Some s) \<Rightarrow> Some (Some \<lparr>service_server = s, finish = False\<rparr>)))"

definition hm_credential_store_service_destroy ::
    "('t, 'd) hm_credential_store_service option \<Rightarrow> status \<times> ('t, 'd) hm_credential_store_service option"
where
  "hm_credential_store_service_destroy = service_destroy"

definition hm_credential_store_service_start ::
    "bool list \<Rightarrow> ('t, 'd) hm_credential_store_service option \<Rightarrow> 't \<Rightarrow>
     (status \<times> ('t, 'd) hm_credential_store_service option \<times> 't) option" where
  "hm_credential_store_service_start = service_start hm_credential_store_server_call"

definition hm_credential_store_service_stop ::
    "('t, 'd) hm_credential_store_service option \<Rightarrow> status \<times> ('t, 'd) hm_credential_store_service option"
where
  "hm_credential_store_service_stop = service_stop"

subsection \<open>The remote function is the function\<close>

interpretation cs_pipe: db_server hm_test_transport pipe_link "\<lambda>_. True" cs_s cs_db "\<lambda>d s. s\<lparr>cs_db := d\<rparr>"
  rewrites "\<And>bs. list_all (\<lambda>_. True) bs \<equiv> True" and "\<And>P. (True \<Longrightarrow> PROP P) \<equiv> PROP P"
  by unfold_locales simp_all

lemma credential_store_reg_all:
  "\<exists>s. insert_all reg_func (the (hm_rpc_server_create (Some tr))) hm_credential_store_functions =
      Some (HM_SUCCESS, s) \<and> server_transport s = tr \<and>
    (\<forall>(k, f) \<in> set hm_credential_store_functions. registered s k f)"
  by (rule reg_all_registered) (simp_all add: hm_credential_store_functions_def key_compat_def
      hm_credential_store_get_pub_key_by_id_NAME_def)

lemma hm_credential_store_server_create_ok:
  fixes srv :: "('t, 'd) hm_credential_store_server"
  assumes "hm_credential_store_server_create (Some tr) (Some db) = Some (Some srv)"
  shows "server_transport (cs_s srv) = tr" "cs_db srv = db"
    "registered (cs_s srv) hm_credential_store_get_pub_key_by_id_NAME
      hm_credential_store_get_pub_key_by_id_stub"
proof -
  obtain s :: "('t, 'd hm_cs_db) hm_rpc_server" where
    "insert_all reg_func (the (hm_rpc_server_create (Some tr))) hm_credential_store_functions =
      Some (HM_SUCCESS, s)"
    "server_transport s = tr" "\<forall>(k, f) \<in> set hm_credential_store_functions. registered s k f"
    using credential_store_reg_all by blast
  with assms show "server_transport (cs_s srv) = tr" "cs_db srv = db"
    "registered (cs_s srv) hm_credential_store_get_pub_key_by_id_NAME
      hm_credential_store_get_pub_key_by_id_stub"
    by (auto simp: hm_credential_store_server_create_def hm_rpc_server_create_def split: if_splits)
      (auto simp: hm_credential_store_functions_def)
qed

lemma name_ok_credential [simp]: "name_ok hm_credential_store_get_pub_key_by_id_NAME"
  by (simp add: name_ok_def hm_credential_store_get_pub_key_by_id_NAME_def)

lemma get_pub_stub:
  "hm_credential_store_get_pub_key_by_id_stub (Some (received_pack (arg_pack [ABufferC k]))) (Some db) =
    (case hm_credential_store_get_pub_key_by_id (Some db) (Some k) True of
       (Inl res, db) \<Rightarrow> Some (res, None, db)
     | (Inr pk, db) \<Rightarrow> Some (HM_SUCCESS, Some (arg_pack [ABufferC pk]), db))"
  by (simp add: hm_credential_store_get_pub_key_by_id_stub_def stub_simps
      split: sum.split prod.split)

lemma get_pub_never_success:
  "hm_credential_store_get_pub_key_by_id db k w = (Inl e, db') \<Longrightarrow> e \<noteq> HM_SUCCESS"
  by (auto simp: hm_credential_store_get_pub_key_by_id_def Let_def case_prod_unfold split: if_splits)

lemma hm_credential_store_server_create_returns:
  fixes db :: "'d hm_cs_db option"
  shows "\<exists>r. hm_credential_store_server_create transport db = Some r \<and>
    (r \<noteq> None \<longleftrightarrow> transport \<noteq> None \<and> hm_credential_store_check_backend db)"
proof (cases "transport = None \<or> \<not> hm_credential_store_check_backend db")
  case True
  then show ?thesis by (auto simp: hm_credential_store_server_create_def)
next
  case False
  then obtain tr d where tr: "transport = Some tr" "db = Some d"
    by (auto simp: hm_credential_store_check_backend_def)
  obtain s :: "(_, 'd hm_cs_db) hm_rpc_server" where
    "insert_all reg_func (the (hm_rpc_server_create (Some tr))) hm_credential_store_functions =
      Some (HM_SUCCESS, s)"
    using credential_store_reg_all by blast
  with False tr show ?thesis
    by (auto simp: hm_credential_store_server_create_def hm_rpc_server_create_def)
qed

lemma get_pub_call_run:
  assumes "hm_credential_store_server_create (Some hm_test_transport) (Some db) = Some (Some srv)"
    and "serving L (cs_s srv) d"
    and "hm_credential_store_client_sync_create (Some loop_transport) = Some c"
    and "param_ok k" "hm_credential_store_get_pub_key_by_id (Some d) (Some k) True = (res, d')"
    and "\<forall>pk. res = Inr pk \<longrightarrow> param_ok pk"
  shows "hm_credential_store_client_sync_call_get_pub_key_by_id (Some c) (Some k) True L =
    Some (res, L\<lparr>loop_data := d'\<rparr>)"
proof -
  note srv = hm_credential_store_server_create_ok [OF assms(1)]
  have c: "client_transport (cs_c c) = loop_transport"
    using assms(3) by (auto simp: hm_credential_store_client_sync_create_def hm_rpc_client_sync_create_def)
  have k: "k \<noteq> []" "args_ok [ABufferC k]" using assms(4) by (simp_all add: param_ok_def args_ok_def)
  have "\<forall>e. res = Inl e \<longrightarrow> e \<noteq> HM_SUCCESS"
    using assms(5) get_pub_never_success by metis
  moreover have "\<forall>pk. res = Inr pk \<longrightarrow> args_ok [ABufferC pk]"
    using assms(6) by (auto simp: args_ok_def)
  ultimately show ?thesis
    using proxy_result [OF assms(2) srv(1) c name_ok_credential k(2) srv(3), where r = res and d' = d'
        and mk = "\<lambda>pk. [ABufferC pk]" and tys = "[HM_PARAM_TYPE_BUFFER]" and vs = "\<lambda>pk. [VBuffer pk]"
        and get = "\<lambda>vs. the (vbuf vs 0)"] assms(5) k(1)
    by (simp add: get_pub_stub hm_credential_store_client_sync_call_get_pub_key_by_id_def
        hm_credential_store_get_pub_key_by_id_sync_proxy_def stub_simps)
qed

text \<open>C23. A credential store client over the pipes, against a server created on a database: the call
  returns what the database function returns for that id, status or key, and leaves the database as
  that function leaves it, with both pipes empty again.\<close>

theorem credential_store_call_is_function:
  assumes "hm_credential_store_server_create (Some hm_test_transport) (Some db) = Some (Some srv)"
    and "serving L (cs_s srv) d"
    and "hm_credential_store_client_sync_create (Some loop_transport) = Some c"
    and "param_ok k" "hm_credential_store_get_pub_key_by_id (Some d) (Some k) True = (res, d')"
    and "\<forall>pk. res = Inr pk \<longrightarrow> param_ok pk"
  shows "hm_credential_store_client_sync_call_get_pub_key_by_id (Some c) (Some k) True L =
    Some (res, L\<lparr>loop_data := d'\<rparr>)"
  by (rule get_pub_call_run [OF assms])

subsection \<open>The database of the tests\<close>

text \<open>
  \<^verbatim>\<open>tests/common/test_credential_store_db.c\<close>: a search tree from user ids to public keys, here a
  map.  The creation fills it with keys the Themis library generates; the map is a parameter.
\<close>

definition hm_cs_test_db_get_pub_by_id ::
    "(bytes \<Rightarrow> bytes option) \<Rightarrow> bytes \<Rightarrow> status \<times> bytes \<times> (bytes \<Rightarrow> bytes option)" where
  "hm_cs_test_db_get_pub_by_id users uid =
     (if length uid \<noteq> 32 then (HM_INVALID_PARAMETER, [], users)
      else (case users uid of None \<Rightarrow> (HM_FAIL, [], users) | Some pk \<Rightarrow> (HM_SUCCESS, pk, users)))"

definition hm_test_cs_db_create :: "(bytes \<Rightarrow> bytes option) \<Rightarrow> (bytes \<Rightarrow> bytes option) hm_cs_db" where
  "hm_test_cs_db_create users =
     \<lparr>cs_user_data = users, get_pub = Some hm_cs_test_db_get_pub_by_id\<rparr>"

theorem credential_store_call_is_function_witness:
  "\<exists>L c. hm_credential_store_client_sync_call_get_pub_key_by_id (Some c) (Some (replicate 32 1)) True
      (L :: (bytes \<Rightarrow> bytes option) hm_cs_db rpc_loop) = Some (Inr [5, 6], L)"
proof -
  let ?d = "hm_test_cs_db_create [replicate 32 1 \<mapsto> [5, 6]]"
  obtain srv :: "(pipes, bytes \<Rightarrow> bytes option) hm_credential_store_server" where srv:
    "hm_credential_store_server_create (Some hm_test_transport) (Some ?d) = Some (Some srv)"
    using hm_credential_store_server_create_returns [of "Some hm_test_transport" "Some ?d"]
    by (auto simp: hm_credential_store_check_backend_def hm_test_cs_db_create_def)
  let ?L = "\<lparr>to_server = [], to_client = [], loop_server = Some (cs_s srv), loop_data = Some ?d\<rparr>"
  have "hm_credential_store_get_pub_key_by_id (Some ?d) (Some (replicate 32 1)) True = (Inr [5, 6], Some ?d)"
    by (simp add: hm_credential_store_get_pub_key_by_id_def hm_test_cs_db_create_def
        hm_cs_test_db_get_pub_by_id_def)
  with credential_store_call_is_function [OF srv, of ?L ?d
      "\<lparr>cs_c = \<lparr>client_transport = loop_transport\<rparr>\<rparr>" "replicate 32 1" "Inr [5, 6]" "Some ?d"]
  show ?thesis
    by (intro exI [of _ ?L] exI [of _ "\<lparr>cs_c = \<lparr>client_transport = loop_transport\<rparr>\<rparr>"])
      (simp add: serving_def loop_idle_def param_ok_def hm_credential_store_client_sync_create_def
        hm_rpc_client_sync_create_def)
qed

end
