(* ===== verification/Ll_Utils.thy ===== *)
theory Ll_Utils
  imports Hermes_Prelude
begin

section \<open>The cryptographic helpers of Mid-Hermes\<close>

text \<open>
  \<^verbatim>\<open>src/mid_hermes_ll/utils.c\<close>: sealing, MACs and secure messages over Themis and Soter.  Themis
  and Soter are not part of the repository: the functions called are the fields of the record
  \<open>themis\<close>, an argument of every definition.  Their output functions are called twice, first with
  a NULL output to learn the length (the \<open>_size\<close> field) and then with a buffer of that length.
  Sealing, wrapping and \<^verbatim>\<open>soter_rand\<close> draw from a source of randomness, the state \<open>'r\<close>; the other
  functions depend on their arguments alone.  An HMAC context is a value of the type \<open>'h\<close>.

  What the sources rely on is \<open>themis_laws\<close>: unsealing under the key and context of a sealing gives
  the data back, and a message wrapped with one key pair for another is unwrapped with the other
  private key and the first public key (\<open>key_pair\<close> says which private and public keys belong
  together).  It is a hypothesis of the theorems that need it, never assumed.

  On failure \<^verbatim>\<open>hm_asym_decrypt\<close> clears \<^verbatim>\<open>result_buffer_length\<close> bytes from the address of its
  result pointer on, instead of the buffer it points to; beyond the eight bytes of the pointer the
  run has no defined result.
\<close>

subsection \<open>Themis and Soter as parameters\<close>

text \<open>The statuses of \<^verbatim>\<open>themis_status_t\<close> and \<^verbatim>\<open>soter_status_t\<close> that the sources tell apart.\<close>

datatype themis_status =
    THEMIS_SUCCESS | THEMIS_BUFFER_TOO_SMALL | THEMIS_SSESSION_SEND_OUTPUT_TO_PEER | THEMIS_FAIL

record ('r, 'h) themis =
  soter_rand :: "nat \<Rightarrow> 'r \<Rightarrow> themis_status \<times> bytes \<times> 'r"
  cell_encrypt_seal_size :: "bytes \<Rightarrow> cbuf \<Rightarrow> bytes \<Rightarrow> themis_status \<times> nat"
  cell_encrypt_seal :: "bytes \<Rightarrow> cbuf \<Rightarrow> bytes \<Rightarrow> nat \<Rightarrow> 'r \<Rightarrow> themis_status \<times> bytes \<times> 'r"
  cell_decrypt_seal_size :: "bytes \<Rightarrow> cbuf \<Rightarrow> bytes \<Rightarrow> themis_status \<times> nat"
  cell_decrypt_seal :: "bytes \<Rightarrow> cbuf \<Rightarrow> bytes \<Rightarrow> nat \<Rightarrow> themis_status \<times> bytes"
  message_wrap_size :: "bytes \<Rightarrow> bytes \<Rightarrow> bytes \<Rightarrow> themis_status \<times> nat"
  message_wrap :: "bytes \<Rightarrow> bytes \<Rightarrow> bytes \<Rightarrow> nat \<Rightarrow> 'r \<Rightarrow> themis_status \<times> bytes \<times> 'r"
  message_unwrap_size :: "bytes \<Rightarrow> bytes \<Rightarrow> bytes \<Rightarrow> themis_status \<times> nat"
  message_unwrap :: "bytes \<Rightarrow> bytes \<Rightarrow> bytes \<Rightarrow> nat \<Rightarrow> themis_status \<times> bytes"
  hmac_create :: "bytes \<Rightarrow> 'h option"
  hmac_update :: "'h \<Rightarrow> cbuf \<Rightarrow> themis_status \<times> 'h"
  hmac_final_size :: "'h \<Rightarrow> themis_status \<times> nat \<times> 'h"
  hmac_final :: "'h \<Rightarrow> nat \<Rightarrow> themis_status \<times> bytes \<times> 'h"

definition HM_TOKEN_LEN :: nat where "HM_TOKEN_LEN = 64"

text \<open>\<^verbatim>\<open>sizeof(uint8_t*)\<close> of the 64-bit host.\<close>

definition pointer_size :: nat where "pointer_size = 8"

subsection \<open>The functions\<close>

text \<open>\<open>want\<close> is whether both out pointers are non-NULL.\<close>

definition hm_encrypt ::
    "('r, 'h) themis \<Rightarrow> cbuf \<Rightarrow> cbuf \<Rightarrow> cbuf \<Rightarrow> bool \<Rightarrow> 'r \<Rightarrow> (status + bytes) \<times> 'r" where
  "hm_encrypt T k dat context want r =
     (if absent k \<or> absent dat \<or> \<not> want then (Inl HM_INVALID_PARAMETER, r)
      else (case cell_encrypt_seal_size T (the k) context (the dat) of
              (st, result_length) \<Rightarrow>
                if st \<noteq> THEMIS_BUFFER_TOO_SMALL then (Inl HM_FAIL, r)
                else (case cell_encrypt_seal T (the k) context (the dat) result_length r of
                        (st, out, r) \<Rightarrow>
                          if st \<noteq> THEMIS_SUCCESS then (Inl HM_FAIL, r) else (Inr out, r))))"

definition hm_decrypt ::
    "('r, 'h) themis \<Rightarrow> cbuf \<Rightarrow> cbuf \<Rightarrow> cbuf \<Rightarrow> bool \<Rightarrow> status + bytes" where
  "hm_decrypt T k encrypted context want =
     (if absent k \<or> absent encrypted \<or> \<not> want then Inl HM_INVALID_PARAMETER
      else (case cell_decrypt_seal_size T (the k) context (the encrypted) of
              (st, result_length) \<Rightarrow>
                if st \<noteq> THEMIS_BUFFER_TOO_SMALL then Inl HM_FAIL
                else (case cell_decrypt_seal T (the k) context (the encrypted) result_length of
                        (st, out) \<Rightarrow> if st \<noteq> THEMIS_SUCCESS then Inl HM_FAIL else Inr out)))"

definition hm_mac_create ::
    "('r, 'h) themis \<Rightarrow> cbuf \<Rightarrow> cbuf \<Rightarrow> cbuf \<Rightarrow> bool \<Rightarrow> status + bytes" where
  "hm_mac_create T k dat context want =
     (if absent k \<or> absent dat \<or> \<not> want then Inl HM_INVALID_PARAMETER
      else (case hmac_create T (the k) of
              None \<Rightarrow> Inl HM_FAIL
            | Some h \<Rightarrow>
                (case hmac_update T h dat of (st, h) \<Rightarrow>
                   if st \<noteq> THEMIS_SUCCESS then Inl HM_FAIL
                   else (case hmac_update T h context of (st, h) \<Rightarrow>
                     if st \<noteq> THEMIS_SUCCESS then Inl HM_FAIL
                     else (case hmac_final_size T h of (st, mac_len, h) \<Rightarrow>
                       if st \<noteq> THEMIS_BUFFER_TOO_SMALL then Inl HM_FAIL
                       else (case hmac_final T h mac_len of (st, mac, h) \<Rightarrow>
                         if st \<noteq> THEMIS_SUCCESS then Inl HM_FAIL else Inr mac))))))"

definition hm_asym_encrypt ::
    "('r, 'h) themis \<Rightarrow> cbuf \<Rightarrow> cbuf \<Rightarrow> cbuf \<Rightarrow> bool \<Rightarrow> 'r \<Rightarrow> (status + bytes) \<times> 'r" where
  "hm_asym_encrypt T private_key public_key dat want r =
     (if absent private_key \<or> absent public_key \<or> absent dat \<or> \<not> want
      then (Inl HM_INVALID_PARAMETER, r)
      else (case message_wrap_size T (the private_key) (the public_key) (the dat) of
              (st, result_length) \<Rightarrow>
                if st \<noteq> THEMIS_BUFFER_TOO_SMALL then (Inl HM_FAIL, r)
                else (case message_wrap T (the private_key) (the public_key) (the dat) result_length r of
                        (st, out, r) \<Rightarrow>
                          if st \<noteq> THEMIS_SUCCESS then (Inl HM_FAIL, r) else (Inr out, r))))"

definition hm_asym_decrypt ::
    "('r, 'h) themis \<Rightarrow> cbuf \<Rightarrow> cbuf \<Rightarrow> cbuf \<Rightarrow> bool \<Rightarrow> (status + bytes) option" where
  "hm_asym_decrypt T private_key public_key encrypted want =
     (if absent private_key \<or> absent public_key \<or> absent encrypted \<or> \<not> want
      then Some (Inl HM_INVALID_PARAMETER)
      else (case message_unwrap_size T (the private_key) (the public_key) (the encrypted) of
              (st, result_length) \<Rightarrow>
                if st \<noteq> THEMIS_BUFFER_TOO_SMALL then Some (Inl HM_FAIL)
                else (case message_unwrap T (the private_key) (the public_key) (the encrypted) result_length of
                        (st, out) \<Rightarrow>
                          if st \<noteq> THEMIS_SUCCESS
                          then (if pointer_size < result_length then None else Some (Inl HM_FAIL))
                          else Some (Inr out))))"

subsection \<open>What is relied on\<close>

definition seals :: "('r, 'h) themis \<Rightarrow> bool" where
  "seals T \<longleftrightarrow> (\<forall>k c d n r e r'. cell_encrypt_seal T k c d n r = (THEMIS_SUCCESS, e, r') \<longrightarrow> e \<noteq> [] \<and>
     (\<exists>m. cell_decrypt_seal_size T k c e = (THEMIS_BUFFER_TOO_SMALL, m) \<and>
          cell_decrypt_seal T k c e m = (THEMIS_SUCCESS, d)))"

definition wraps :: "('r, 'h) themis \<Rightarrow> (bytes \<Rightarrow> bytes \<Rightarrow> bool) \<Rightarrow> bool" where
  "wraps T key_pair \<longleftrightarrow> (\<forall>sk pk pk' d n r e r'. key_pair sk pk \<longrightarrow>
     message_wrap T sk pk' d n r = (THEMIS_SUCCESS, e, r') \<longrightarrow> e \<noteq> [] \<and>
     (\<forall>sk'. key_pair sk' pk' \<longrightarrow>
        (\<exists>m. message_unwrap_size T sk' pk e = (THEMIS_BUFFER_TOO_SMALL, m) \<and>
             message_unwrap T sk' pk e m = (THEMIS_SUCCESS, d))))"

definition themis_laws :: "('r, 'h) themis \<Rightarrow> (bytes \<Rightarrow> bytes \<Rightarrow> bool) \<Rightarrow> bool" where
  "themis_laws T key_pair \<longleftrightarrow> seals T \<and> wraps T key_pair"

lemma encrypt_decrypt:
  assumes "seals T" "hm_encrypt T k (Some d) c True r = (Inr e, r')"
  shows "hm_decrypt T k (Some e) c True = Inr d" "e \<noteq> []" "d \<noteq> []"
  using assms
  by (auto simp: hm_encrypt_def hm_decrypt_def seals_def split: if_splits prod.splits) fastforce+

lemma asym_encrypt_decrypt:
  assumes "wraps T key_pair" "key_pair sk pk" "key_pair sk' pk'" "sk' \<noteq> []" "pk \<noteq> []"
    and "hm_asym_encrypt T (Some sk) (Some pk') (Some d) True r = (Inr e, r')"
  shows "hm_asym_decrypt T (Some sk') (Some pk) (Some e) True = Some (Inr d)" "e \<noteq> []" "d \<noteq> []"
  using assms
  by (auto simp: hm_asym_encrypt_def hm_asym_decrypt_def wraps_def split: if_splits prod.splits) fastforce+

end
