(* ===== verification/Secure_Transport.thy ===== *)
theory Secure_Transport
  imports Credential_Store Ll_Utils
begin

section \<open>The secure transport\<close>

text \<open>
  \<^verbatim>\<open>src/secure_transport\<close>: a transport that seals what it sends in a secure session of Themis, over a
  transport of the user.  Every send becomes one message, its length before it; a receive reads
  messages until it has the bytes asked for.  The session is established by an exchange of such
  messages.

  The secure session is the parameter \<open>themis_session\<close>: the functions of
  \<^verbatim>\<open>themis/secure_session.h\<close> over an opaque session \<open>'s\<close>, each paired with its length query (the call
  with a NULL buffer).  Opening a message may call the callback for the public key of the peer,
  which the session was created with (\<open>'cb\<close>), and is undefined when the callback is.
\<close>

record ('s, 'cb) themis_session =
  secure_session_create :: "cbuf \<Rightarrow> cbuf \<Rightarrow> 'cb \<Rightarrow> 's option"
  connect_request_size :: "'s \<Rightarrow> themis_status \<times> nat \<times> 's"
  connect_request :: "'s \<Rightarrow> nat \<Rightarrow> themis_status \<times> bytes \<times> 's"
  session_wrap_size :: "'s \<Rightarrow> bytes \<Rightarrow> themis_status \<times> nat \<times> 's"
  session_wrap :: "'s \<Rightarrow> bytes \<Rightarrow> nat \<Rightarrow> themis_status \<times> bytes \<times> 's"
  session_unwrap_size :: "'s \<Rightarrow> bytes \<Rightarrow> (themis_status \<times> nat \<times> 's) option"
  session_unwrap :: "'s \<Rightarrow> bytes \<Rightarrow> nat \<Rightarrow> (themis_status \<times> bytes \<times> 's) option"
  session_is_established :: "'s \<Rightarrow> bool"

subsection \<open>Messages on the user's transport\<close>

text \<open>\<^verbatim>\<open>htonl\<close> and \<^verbatim>\<open>ntohl\<close> on the bytes of an integer.\<close>

definition u32_be :: "u32 \<Rightarrow> bytes" where
  "u32_be w = rev (u32_le w)"

definition read_u32_be :: "bytes \<Rightarrow> u32" where
  "read_u32_be b = (case read_u32 (rev b) of Some (w, _) \<Rightarrow> w | None \<Rightarrow> 0)"

text \<open>
  \<^verbatim>\<open>send_data\<close> tells failures of the first send by \<open>HM_FAIL\<close> alone and returns the status of the
  second.  The callers of the reads use the whole buffer: where the transport left a part of it
  unwritten the run has no defined result.
\<close>

definition send_data :: "'t hm_rpc_transport \<Rightarrow> bytes \<Rightarrow> 't \<Rightarrow> (status \<times> 't) option" where
  "send_data tr d t =
     (case send_fn tr of
        None \<Rightarrow> None
      | Some f \<Rightarrow>
          (case f t (u32_be (len32 d)) of
             None \<Rightarrow> None
           | Some (st, t) \<Rightarrow> if st = HM_FAIL then Some (HM_FAIL, t) else f t d))"

definition read_data_size :: "'t hm_rpc_transport \<Rightarrow> 't \<Rightarrow> (u32 \<times> 't) option" where
  "read_data_size tr t =
     (case recv_fn tr of
        None \<Rightarrow> None
      | Some f \<Rightarrow>
          (case f t 4 of
             None \<Rightarrow> None
           | Some (st, b, t) \<Rightarrow>
               if st = HM_FAIL then Some (HM_FAIL, t)
               else if length b \<noteq> 4 then None
               else Some (read_u32_be b, t)))"

definition read_data :: "'t hm_rpc_transport \<Rightarrow> nat \<Rightarrow> 't \<Rightarrow> (status \<times> bytes \<times> 't) option" where
  "read_data tr n t =
     (case recv_fn tr of
        None \<Rightarrow> None
      | Some f \<Rightarrow>
          (case f t n of
             None \<Rightarrow> None
           | Some (st, b, t) \<Rightarrow> if st \<noteq> HM_FAIL \<and> length b \<noteq> n then None else Some (st, b, t)))"

subsection \<open>The callback for public keys\<close>

text \<open>
  \<^verbatim>\<open>user_data\<close> of the callback is a \<^verbatim>\<open>void*\<close> that the library makes of three types; each callback casts it
  to its own.  With the client of a credential store goes the state of the transport it calls over.
\<close>

record secure_session_callback_data =
  public_key_id :: bytes
  public_key :: bytes

datatype ('t, 'd) callback_user_data =
    KeyData secure_session_callback_data
  | CsClient "'t hm_credential_store_client_sync" 't
  | CsDb "'d hm_cs_db"

type_synonym ('t, 'd) public_key_callback =
  "bytes \<Rightarrow> nat \<Rightarrow> ('t, 'd) callback_user_data \<Rightarrow> (themis_status \<times> bytes \<times> ('t, 'd) callback_user_data) option"

record ('t, 'd) secure_session_user_callbacks =
  get_public_key_for_id :: "('t, 'd) public_key_callback"
  callback_data :: "('t, 'd) callback_user_data"

text \<open>The key goes to the buffer of the caller when it fits there.\<close>

definition key_to_buffer :: "bytes \<Rightarrow> nat \<Rightarrow> 'u \<Rightarrow> (themis_status \<times> bytes \<times> 'u) option" where
  "key_to_buffer k n ud = Some (if n < length k then (THEMIS_FAIL, [], ud) else (THEMIS_SUCCESS, k, ud))"

definition get_public_key_for_id_wrapper :: "('t, 'd) public_key_callback" where
  "get_public_key_for_id_wrapper i n user_data =
     (case user_data of
        KeyData k \<Rightarrow>
          if length (public_key_id k) = length i \<and> i = public_key_id k then key_to_buffer (public_key k) n user_data
          else Some (THEMIS_FAIL, [], user_data)
      | _ \<Rightarrow> None)"

definition get_public_key_for_id_from_remote_credential_store_callback :: "('t, 'd) public_key_callback" where
  "get_public_key_for_id_from_remote_credential_store_callback i n user_data =
     (case user_data of
        CsClient db t \<Rightarrow>
          (case hm_credential_store_client_sync_call_get_pub_key_by_id (Some db) (Some i) True t of
             None \<Rightarrow> None
           | Some (Inl _, t) \<Rightarrow> Some (THEMIS_FAIL, [], CsClient db t)
           | Some (Inr k, t) \<Rightarrow> key_to_buffer k n (CsClient db t))
      | _ \<Rightarrow> None)"

definition get_public_key_for_id_from_local_credential_store_callback :: "('t, 'd) public_key_callback" where
  "get_public_key_for_id_from_local_credential_store_callback i n user_data =
     (case user_data of
        CsDb db \<Rightarrow>
          (case get_pub db of
             None \<Rightarrow> None
           | Some f \<Rightarrow>
               (case f (cs_user_data db) i of
                  (st, k, d) \<Rightarrow>
                    if st \<noteq> HM_SUCCESS then Some (THEMIS_FAIL, [], CsDb (db\<lparr>cs_user_data := d\<rparr>))
                    else key_to_buffer k n (CsDb (db\<lparr>cs_user_data := d\<rparr>))))
      | _ \<Rightarrow> None)"

definition get_session_callback_with_remote_credential_store ::
    "'t hm_rpc_transport option \<Rightarrow> 't \<Rightarrow> ('t, 'd) secure_session_user_callbacks option" where
  "get_session_callback_with_remote_credential_store transport t =
     (case hm_credential_store_client_sync_create transport of
        None \<Rightarrow> None
      | Some db \<Rightarrow>
          Some \<lparr>get_public_key_for_id = get_public_key_for_id_from_remote_credential_store_callback,
            callback_data = CsClient db t\<rparr>)"

definition get_session_callback_with_local_credential_store ::
    "'d hm_cs_db \<Rightarrow> ('t, 'd) secure_session_user_callbacks" where
  "get_session_callback_with_local_credential_store credential_store =
     \<lparr>get_public_key_for_id = get_public_key_for_id_from_local_credential_store_callback,
      callback_data = CsDb credential_store\<rparr>"

subsection \<open>The transport\<close>

text \<open>
  \<^verbatim>\<open>secure_transport_t\<close>.  A function of the transport works on it and on the object \<open>'t\<close> behind the
  user's transport.
\<close>

record ('s, 't, 'cb) secure_transport =
  user_transport :: "'t hm_rpc_transport"
  session :: 's
  session_callback :: 'cb

type_synonym ('s, 't, 'cb) secured = "('s, 't, 'cb) secure_transport \<times> 't"

definition hermes_transport_send ::
    "('s, 'cb) themis_session \<Rightarrow> ('s, 't, 'cb) secured \<Rightarrow> bytes \<Rightarrow> (status \<times> ('s, 't, 'cb) secured) option" where
  "hermes_transport_send S X buffer =
     (let (x, t) = X in
      (case session_wrap_size S (session x) buffer of
         (st, n, s) \<Rightarrow>
           if st \<noteq> THEMIS_BUFFER_TOO_SMALL then Some (HM_FAIL, x\<lparr>session := s\<rparr>, t)
           else (case session_wrap S s buffer n of
             (st, wrapped, s) \<Rightarrow>
               if st \<noteq> THEMIS_SUCCESS then Some (HM_FAIL, x\<lparr>session := s\<rparr>, t)
               else (case send_data (user_transport x) wrapped t of
                       None \<Rightarrow> None
                     | Some (st, t) \<Rightarrow>
                         Some (if st = HM_FAIL then HM_FAIL else HM_SUCCESS, x\<lparr>session := s\<rparr>, t)))))"

text \<open>One turn of the loop that receives: \<open>Inl\<close> the failure, or the bytes of one message.\<close>

definition receive_message ::
    "('s, 'cb) themis_session \<Rightarrow> nat \<Rightarrow> nat \<Rightarrow> ('s, 't, 'cb) secured \<Rightarrow>
     ((status + bytes) \<times> ('s, 't, 'cb) secured) option" where
  "receive_message S buffer_length total_read X =
     (let (x, t) = X in
      (case read_data_size (user_transport x) t of
         None \<Rightarrow> None
       | Some (n, t) \<Rightarrow>
           if n = HM_FAIL then Some (Inl HM_FAIL, x, t)
           else (case read_data (user_transport x) (unat n) t of
             None \<Rightarrow> None
           | Some (st, temp, t) \<Rightarrow>
               if st = HM_FAIL then Some (Inl HM_FAIL, x, t)
               else (case session_unwrap_size S (session x) temp of
                 None \<Rightarrow> None
               | Some (st, m, s) \<Rightarrow>
                   if st \<noteq> THEMIS_BUFFER_TOO_SMALL \<or> buffer_length < m + total_read
                   then Some (Inl HM_FAIL, x\<lparr>session := s\<rparr>, t)
                   else (case session_unwrap S s temp m of
                     None \<Rightarrow> None
                   | Some (st, b, s) \<Rightarrow>
                       Some (if st \<noteq> THEMIS_SUCCESS then Inl HM_FAIL else Inr b, x\<lparr>session := s\<rparr>, t))))))"

partial_function (option) receive_loop ::
    "('s, 'cb) themis_session \<Rightarrow> nat \<Rightarrow> bytes \<Rightarrow> ('s, 't, 'cb) secured \<Rightarrow>
     (status \<times> bytes \<times> ('s, 't, 'cb) secured) option" where
  "receive_loop S buffer_length got X =
     Option.bind (receive_message S buffer_length (length got) X) (\<lambda>(res, X).
       case res of
         Inl e \<Rightarrow> Some (e, got, X)
       | Inr b \<Rightarrow>
           if length (got @ b) < buffer_length then receive_loop S buffer_length (got @ b) X
           else Some (HM_SUCCESS, got @ b, X))"

definition hermes_transport_receive ::
    "('s, 'cb) themis_session \<Rightarrow> ('s, 't, 'cb) secured \<Rightarrow> nat \<Rightarrow>
     (status \<times> bytes \<times> ('s, 't, 'cb) secured) option" where
  "hermes_transport_receive S X buffer_length = receive_loop S buffer_length [] X"

definition hermes_transport :: "('s, 'cb) themis_session \<Rightarrow> ('s, 't, 'cb) secured hm_rpc_transport" where
  "hermes_transport S = \<lparr>send_fn = Some (hermes_transport_send S), recv_fn = Some (hermes_transport_receive S)\<rparr>"

subsection \<open>Establishing the session\<close>

definition TEMP_BUFFER_SIZE :: nat where "TEMP_BUFFER_SIZE = 2048"

text \<open>
  The request of a client.  Its length query bounds what Themis writes, not the size of the buffer
  on the stack: a longer request overflows it.
\<close>

definition send_connect_request ::
    "('s, 'cb) themis_session \<Rightarrow> 't hm_rpc_transport \<Rightarrow> 's \<Rightarrow> 't \<Rightarrow> (status \<times> 's \<times> 't) option" where
  "send_connect_request S tr s t =
     (case connect_request_size S s of
        (st, n, s) \<Rightarrow>
          if st \<noteq> THEMIS_BUFFER_TOO_SMALL then Some (HM_FAIL, s, t)
          else (case connect_request S s n of
            (st, m, s) \<Rightarrow>
              if TEMP_BUFFER_SIZE < length m then None
              else if st \<noteq> THEMIS_SUCCESS then Some (HM_FAIL, s, t)
              else (case send_data tr m t of
                      None \<Rightarrow> None
                    | Some (st, t) \<Rightarrow> Some (if st \<noteq> HM_SUCCESS then HM_FAIL else HM_SUCCESS, s, t))))"

text \<open>One turn of the loop: \<open>Inl\<close> the status it returns or breaks with, \<open>Inr\<close> to go on.\<close>

definition init_turn ::
    "('s, 'cb) themis_session \<Rightarrow> 't hm_rpc_transport \<Rightarrow> 's \<Rightarrow> 't \<Rightarrow> ((status + unit) \<times> 's \<times> 't) option" where
  "init_turn S tr s t =
     (case read_data_size tr t of
        None \<Rightarrow> None
      | Some (n, t) \<Rightarrow>
          if n = HM_FAIL \<or> TEMP_BUFFER_SIZE < unat n then Some (Inl HM_FAIL, s, t)
          else (case read_data tr (unat n) t of
            None \<Rightarrow> None
          | Some (st, temp, t) \<Rightarrow>
              if st = HM_FAIL then Some (Inl HM_FAIL, s, t)
              else (case session_unwrap S s temp TEMP_BUFFER_SIZE of
                None \<Rightarrow> None
              | Some (st, m, s) \<Rightarrow>
                  (case st of
                     THEMIS_SSESSION_SEND_OUTPUT_TO_PEER \<Rightarrow>
                       (case send_data tr m t of
                          None \<Rightarrow> None
                        | Some (st, t) \<Rightarrow> Some (if st \<noteq> HM_SUCCESS then Inl HM_FAIL else Inr (), s, t))
                   | THEMIS_SUCCESS \<Rightarrow> Some (Inl HM_SUCCESS, s, t)
                   | _ \<Rightarrow> Some (Inl HM_FAIL, s, t)))))"

partial_function (option) init_loop ::
    "('s, 'cb) themis_session \<Rightarrow> 't hm_rpc_transport \<Rightarrow> 's \<Rightarrow> 't \<Rightarrow> (status \<times> 's \<times> 't) option" where
  "init_loop S tr s t =
     (if session_is_established S s then Some (HM_SUCCESS, s, t)
      else Option.bind (init_turn S tr s t) (\<lambda>(res, s, t).
        case res of Inl st \<Rightarrow> Some (st, s, t) | Inr _ \<Rightarrow> init_loop S tr s t))"

definition init_secure_session ::
    "('s, 'cb) themis_session \<Rightarrow> 't hm_rpc_transport \<Rightarrow> 's \<Rightarrow> bool \<Rightarrow> 't \<Rightarrow> (status \<times> 's \<times> 't) option" where
  "init_secure_session S transport s is_server t =
     (if is_server then init_loop S transport s t
      else Option.bind (send_connect_request S transport s t) (\<lambda>(st, s, t).
        if st \<noteq> HM_SUCCESS then Some (HM_FAIL, s, t) else init_loop S transport s t))"

subsection \<open>Creating and destroying\<close>

text \<open>
  Destroying reads the callback's \<^verbatim>\<open>user_data\<close> as the struct of \<open>create_secure_transport\<close>, also where
  it is the client or the database of a credential store: then it frees what it takes for that
  struct's pointers, and the run has no defined result.
\<close>

definition destroy_callback_data :: "('t, 'd) callback_user_data option \<Rightarrow> ('t, 'd) callback_user_data option option" where
  "destroy_callback_data callback =
     (case callback of
        None \<Rightarrow> Some None
      | Some (KeyData _) \<Rightarrow> Some None
      | Some _ \<Rightarrow> None)"

definition destroy_secure_session_callback ::
    "('t, 'd) secure_session_user_callbacks \<Rightarrow> ('t, 'd) secure_session_user_callbacks option option" where
  "destroy_secure_session_callback callback =
     map_option (\<lambda>_. None) (destroy_callback_data (Some (callback_data callback)))"

type_synonym ('s, 't, 'ct, 'd) transport_object =
  "('s, 't, ('ct, 'd) secure_session_user_callbacks) secure_transport"

definition destroy_secure_transport ::
    "('s, 't, 'ct, 'd) transport_object option option \<Rightarrow>
     (status \<times> ('s, 't, 'ct, 'd) transport_object option option) option" where
  "destroy_secure_transport transport =
     (case transport of
        Some (Some x) \<Rightarrow>
          (case destroy_secure_session_callback (session_callback x) of
             None \<Rightarrow> None
           | Some _ \<Rightarrow> Some (HM_SUCCESS, Some None))
      | _ \<Rightarrow> Some (HM_FAIL, transport))"

definition create_secure_transport_with_callback ::
    "('s, ('ct, 'd) secure_session_user_callbacks) themis_session \<Rightarrow> cbuf \<Rightarrow> cbuf \<Rightarrow>
     ('ct, 'd) secure_session_user_callbacks \<Rightarrow> 't hm_rpc_transport \<Rightarrow> bool \<Rightarrow> 't \<Rightarrow>
     (('s, 't, 'ct, 'd) transport_object option \<times> 't) option" where
  "create_secure_transport_with_callback S uid private_key callback tr is_server t =
     (case secure_session_create S uid private_key callback of
        None \<Rightarrow> map_option (\<lambda>_. (None, t)) (destroy_secure_session_callback callback)
      | Some s \<Rightarrow>
          (case init_secure_session S tr s is_server t of
             None \<Rightarrow> None
           | Some (st, s, t) \<Rightarrow>
               let transport = \<lparr>user_transport = tr, session = s, session_callback = callback\<rparr> in
               if st \<noteq> HM_SUCCESS
               then map_option (\<lambda>_. (None, t)) (destroy_secure_transport (Some (Some transport)))
               else Some (Some transport, t)))"

definition create_secure_transport ::
    "('s, ('ct, 'd) secure_session_user_callbacks) themis_session \<Rightarrow> cbuf \<Rightarrow> cbuf \<Rightarrow> bytes \<Rightarrow> bytes \<Rightarrow>
     't hm_rpc_transport \<Rightarrow> bool \<Rightarrow> 't \<Rightarrow> (('s, 't, 'ct, 'd) transport_object option \<times> 't) option" where
  "create_secure_transport S uid private_key pk pk_id tr is_server t =
     create_secure_transport_with_callback S uid private_key
       \<lparr>get_public_key_for_id = get_public_key_for_id_wrapper,
        callback_data = KeyData \<lparr>public_key_id = pk_id, public_key = pk\<rparr>\<rparr> tr is_server t"

text \<open>
  The \<^verbatim>\<open>hm_rpc_transport_t\<close> that the creation returns, as it matters for destroying: whether what its
  \<^verbatim>\<open>user_data\<close> points to has been freed (\<open>None\<close>).  It keeps the pointer.
\<close>

record ('s, 't, 'ct, 'd) rpc_secure_transport =
  user_data :: "('s, 't, 'ct, 'd) transport_object option"

definition destroy_rpc_secure_transport ::
    "('s, 't, 'ct, 'd) rpc_secure_transport option option \<Rightarrow>
     (status \<times> ('s, 't, 'ct, 'd) rpc_secure_transport option option) option" where
  "destroy_rpc_secure_transport transport =
     (case transport of
        Some (Some r) \<Rightarrow>
          (case user_data r of
             None \<Rightarrow> None
           | Some x \<Rightarrow>
               (case destroy_secure_transport (Some (Some x)) of
                  None \<Rightarrow> None
                | Some (st, _) \<Rightarrow> Some (st, Some (Some (r\<lparr>user_data := None\<rparr>)))))
      | _ \<Rightarrow> Some (HM_FAIL, transport))"

end
