(* ===== verification/Secure_Link.thy ===== *)
theory Secure_Link
  imports Secure_Transport
begin

section \<open>What the secure transport promises\<close>

text \<open>
  The locale \<open>secure_link\<close> puts a secure session that does what Themis documents on a reliable
  transport.  The secure transport is then a reliable transport again (\<open>secured\<close>), for the
  buffers that fit into a message: everything that is proved of RPC over reliable transports holds over it.

  \<open>pair s p ces ins des outs\<close> is the contract of two sessions \<open>s\<close> and \<open>p\<close> that talk to each other: the
  sealed messages \<open>ces\<close>, on their way to \<open>s\<close>, carry \<open>ins\<close>, and \<open>des\<close>, on their way to \<open>p\<close>, carry \<open>outs\<close>.
\<close>

subsection \<open>Messages\<close>

lemma length_u32_be [simp]: "length (u32_be w) = 4"
  by (simp add: u32_be_def)

lemma u32_be_nonempty [simp]: "u32_be w \<noteq> []"
  by (simp add: u32_be_def)

lemma read_u32_be [simp]: "read_u32_be (u32_be w) = w"
  by (simp add: read_u32_be_def u32_be_def)

text \<open>A message that the other end can receive: its length fits into the 32 bits before it and is not
  \<open>HM_FAIL\<close>, which the reader would take for a failure.\<close>

definition wire_ok :: "bytes \<Rightarrow> bool" where
  "wire_ok e \<longleftrightarrow> e \<noteq> [] \<and> length e < 2 ^ 32 \<and> len32 e \<noteq> HM_FAIL"

definition wire :: "bytes list \<Rightarrow> bytes list" where
  "wire es = concat (map (\<lambda>e. [u32_be (len32 e), e]) es)"

lemma wire_simps [simp]:
  "wire [] = []" "wire (e # es) = u32_be (len32 e) # e # wire es" "wire (es @ es') = wire es @ wire es'"
  by (simp_all add: wire_def)

lemma transport_send_fn:
  "transport_send tr b t = Some (Inr (), t') \<Longrightarrow> \<exists>f. send_fn tr = Some f \<and> f t b = Some (HM_SUCCESS, t')"
  by (auto simp: transport_send_def split: option.splits if_splits)

lemma transport_recv_fn:
  "transport_recv tr n t = Some (Inr b, t') \<Longrightarrow> \<exists>f. recv_fn tr = Some f \<and> f t n = Some (HM_SUCCESS, b, t')"
  by (auto simp: transport_recv_def split: option.splits if_splits)

context reliable_transport
begin

lemma send_data_ok:
  assumes "link t ins outs" "e \<noteq> []" "fits e" "fits (u32_be (len32 e))"
  shows "\<exists>t'. send_data tr e t = Some (HM_SUCCESS, t') \<and> link t' ins (outs @ wire [e])"
proof -
  obtain t1 where t1: "transport_send tr (u32_be (len32 e)) t = Some (Inr (), t1)" "link t1 ins (outs @ [u32_be (len32 e)])"
    using send_ok [OF assms(1) _ assms(4)] by auto
  obtain t2 where t2: "transport_send tr e t1 = Some (Inr (), t2)" "link t2 ins ((outs @ [u32_be (len32 e)]) @ [e])"
    using send_ok [OF t1(2) assms(2,3)] by blast
  show ?thesis
    using transport_send_fn [OF t1(1)] transport_send_fn [OF t2(1)] t2(2)
    by (intro exI [of _ t2]) (auto simp: send_data_def status_simps)
qed

lemma read_data_ok:
  assumes "link t (wire [e] @ ins) outs" "wire_ok e"
  shows "\<exists>t1 t2. read_data_size tr t = Some (len32 e, t1) \<and> read_data tr (unat (len32 e)) t1 = Some (HM_SUCCESS, e, t2) \<and>
    link t1 (e # ins) outs \<and> link t2 ins outs"
proof -
  have e: "e \<noteq> []" "unat (len32 e) = length e" using assms(2) by (simp_all add: wire_ok_def)
  obtain t1 where t1: "transport_recv tr 4 t = Some (Inr (u32_be (len32 e)), t1)" "link t1 (e # ins) outs"
    using recv_frame [of t "u32_be (len32 e)"] assms(1) by auto
  obtain t2 where t2: "transport_recv tr (length e) t1 = Some (Inr e, t2)" "link t2 ins outs"
    using recv_frame [OF t1(2) e(1)] by blast
  show ?thesis
    using transport_recv_fn [OF t1(1)] transport_recv_fn [OF t2(1)] t1(2) t2(2) e(2)
    by (auto simp: read_data_size_def read_data_def status_simps)
qed

end

subsection \<open>The handshake\<close>

text \<open>What a session answers to the messages it gets until it is established.\<close>

fun handshake :: "('s, 'cb) themis_session \<Rightarrow> 's \<Rightarrow> bytes list \<Rightarrow> (bytes list \<times> 's) option" where
  "handshake S s [] = (if session_is_established S s then Some ([], s) else None)"
| "handshake S s (e # es) =
     (if session_is_established S s then None
      else (case session_unwrap S s e TEMP_BUFFER_SIZE of
              Some (THEMIS_SSESSION_SEND_OUTPUT_TO_PEER, m, s) \<Rightarrow>
                map_option (\<lambda>(ms, s). (m # ms, s)) (handshake S s es)
            | Some (THEMIS_SUCCESS, _, s) \<Rightarrow> if es = [] then Some ([], s) else None
            | _ \<Rightarrow> None))"

definition hello_ok :: "bytes \<Rightarrow> bool" where
  "hello_ok e \<longleftrightarrow> e \<noteq> [] \<and> length e \<le> TEMP_BUFFER_SIZE"

lemma hello_wire: "hello_ok e \<Longrightarrow> wire_ok e \<and> unat (len32 e) \<le> TEMP_BUFFER_SIZE"
proof -
  assume e: "hello_ok e"
  then have "unat (len32 e) = length e" by (simp add: hello_ok_def TEMP_BUFFER_SIZE_def)
  moreover have "unat HM_FAIL = 983041" by (simp add: HM_FAIL_def HM_ERR_def)
  ultimately have "unat (len32 e) \<noteq> unat HM_FAIL" using e by (simp add: hello_ok_def TEMP_BUFFER_SIZE_def)
  then have "len32 e \<noteq> HM_FAIL" by metis
  with \<open>unat (len32 e) = length e\<close> e show ?thesis
    by (simp add: hello_ok_def wire_ok_def TEMP_BUFFER_SIZE_def)
qed

context reliable_transport
begin

lemma init_loop_ok:
  assumes "link t (wire es @ ins) outs" "handshake S s es = Some (ms, s')" "list_all hello_ok es"
    and "list_all hello_ok ms" "list_all fits ms" "\<And>w. fits (u32_be w)"
  shows "\<exists>t'. init_loop S tr s t = Some (HM_SUCCESS, s', t') \<and> link t' ins (outs @ wire ms)"
  using assms(1-5)
proof (induction es arbitrary: s t outs ms)
  case Nil
  then show ?case by (subst init_loop.simps) (auto split: if_splits)
next
  case (Cons e es)
  have hs: "\<not> session_is_established S s" using Cons.prems(2) by (auto split: if_splits)
  have e: "wire_ok e" "unat (len32 e) \<le> TEMP_BUFFER_SIZE" using Cons.prems(3) hello_wire by auto
  have "link t (wire [e] @ (wire es @ ins)) outs" using Cons.prems(1) by simp
  then obtain t1 t2 where t: "read_data_size tr t = Some (len32 e, t1)" "read_data tr (unat (len32 e)) t1 = Some (HM_SUCCESS, e, t2)"
      "link t2 (wire es @ ins) outs"
    using read_data_ok e(1) by blast
  have start: "len32 e \<noteq> HM_FAIL" using e(1) by (simp add: wire_ok_def)
  consider m s1 ms' where "session_unwrap S s e TEMP_BUFFER_SIZE = Some (THEMIS_SSESSION_SEND_OUTPUT_TO_PEER, m, s1)"
      "handshake S s1 es = Some (ms', s')" "ms = m # ms'"
    | m where "session_unwrap S s e TEMP_BUFFER_SIZE = Some (THEMIS_SUCCESS, m, s')" "es = []" "ms = []"
    using Cons.prems(2) hs by (auto split: option.splits themis_status.splits if_splits)
  then show ?case
  proof cases
    case 1
    have m: "m \<noteq> []" "fits m" using Cons.prems(4,5) 1(3) by (simp_all add: hello_ok_def)
    obtain t3 where t3: "send_data tr m t2 = Some (HM_SUCCESS, t3)" "link t3 (wire es @ ins) (outs @ wire [m])"
      using send_data_ok [OF t(3) m assms(6)] by blast
    obtain t4 where t4: "init_loop S tr s1 t3 = Some (HM_SUCCESS, s', t4)" "link t4 ins ((outs @ wire [m]) @ wire ms')"
      using Cons.IH [OF t3(2) 1(2)] Cons.prems(3,4,5) 1(3) by auto
    show ?thesis
      using t t3(1) t4 1 hs start e(2)
      by (subst init_loop.simps) (simp add: init_turn_def status_simps)
  next
    case 2
    then show ?thesis
      using t hs start e(2)
      by (subst init_loop.simps) (simp add: init_turn_def status_simps)
  qed
qed

lemma client_init_ok:
  assumes "link t (wire es @ ins) outs" "connect_request_size S s = (THEMIS_BUFFER_TOO_SMALL, n, s1)"
    and "connect_request S s1 n = (THEMIS_SUCCESS, m, s2)" "handshake S s2 es = Some (ms, s')"
    and "list_all hello_ok es" "list_all hello_ok (m # ms)" "list_all fits (m # ms)" "\<And>w. fits (u32_be w)"
  shows "\<exists>t'. init_secure_session S tr s False t = Some (HM_SUCCESS, s', t') \<and> link t' ins (outs @ wire (m # ms))"
proof -
  have m: "m \<noteq> []" "fits m" "length m \<le> TEMP_BUFFER_SIZE" using assms(6,7) by (simp_all add: hello_ok_def)
  obtain t1 where t1: "send_data tr m t = Some (HM_SUCCESS, t1)" "link t1 (wire es @ ins) (outs @ wire [m])"
    using send_data_ok [OF assms(1) m(1,2) assms(8)] by blast
  obtain t2 where "init_loop S tr s2 t1 = Some (HM_SUCCESS, s', t2)" "link t2 ins ((outs @ wire [m]) @ wire ms)"
    using init_loop_ok [OF t1(2) assms(4,5) _ _ assms(8)] assms(6,7) by auto
  with t1 m(3) assms(2,3) show ?thesis
    by (simp add: init_secure_session_def send_connect_request_def status_simps)
qed

end

subsection \<open>Sessions that talk\<close>

text \<open>The device of the secure transport whose peer is the session \<open>p\<close>.\<close>

type_synonym 's session_pair = "'s \<Rightarrow> 's \<Rightarrow> bytes list \<Rightarrow> bytes list \<Rightarrow> bytes list \<Rightarrow> bytes list \<Rightarrow> bool"

definition secure_to ::
    "'t hm_rpc_transport \<Rightarrow> ('t \<Rightarrow> bytes list \<Rightarrow> bytes list \<Rightarrow> bool) \<Rightarrow> 's session_pair \<Rightarrow> 's \<Rightarrow>
     ('s, 't, 'cb) secured \<Rightarrow> bytes list \<Rightarrow> bytes list \<Rightarrow> bool" where
  "secure_to tr link pair p X ins outs \<longleftrightarrow> user_transport (fst X) = tr \<and>
     (\<exists>ces des. pair (session (fst X)) p ces ins des outs \<and> list_all wire_ok ces \<and> list_all wire_ok des \<and>
        link (snd X) (wire ces) (wire des))"

lemma secure_toI:
  "user_transport x = tr \<Longrightarrow> pair (session x) p ces ins des outs \<Longrightarrow> list_all wire_ok ces \<Longrightarrow> list_all wire_ok des \<Longrightarrow>
   link t (wire ces) (wire des) \<Longrightarrow> secure_to tr link pair p (x, t) ins outs"
  unfolding secure_to_def by (simp del: wire_simps) blast

locale secure_link = reliable_transport tr link fits
  for tr :: "'t hm_rpc_transport" and link :: "'t \<Rightarrow> bytes list \<Rightarrow> bytes list \<Rightarrow> bool" and fits :: "bytes \<Rightarrow> bool" +
  fixes S :: "('s, 'cb) themis_session"
    and pair :: "'s session_pair"
    and msg_ok :: "bytes \<Rightarrow> bool"
  assumes fits_size: "fits (u32_be w)"
    and wrap_ok: "pair s p ces ins des outs \<Longrightarrow> b \<noteq> [] \<Longrightarrow> msg_ok b \<Longrightarrow>
      \<exists>n s1 e s2. session_wrap_size S s b = (THEMIS_BUFFER_TOO_SMALL, n, s1) \<and>
        session_wrap S s1 b n = (THEMIS_SUCCESS, e, s2) \<and> wire_ok e \<and> fits e \<and>
        pair s2 p ces ins (des @ [e]) (outs @ [b])"
    and unwrap_ok: "pair s p (e # ces) (b # ins) des outs \<Longrightarrow>
      \<exists>s1 s2. session_unwrap_size S s e = Some (THEMIS_BUFFER_TOO_SMALL, length b, s1) \<and>
        session_unwrap S s1 e (length b) = Some (THEMIS_SUCCESS, b, s2) \<and> pair s2 p ces ins des outs"
    and pair_lengths: "pair s p ces ins des outs \<Longrightarrow> length ces = length ins"
    and pair_sym: "pair s p ces ins des outs \<Longrightarrow> pair p s des outs ces ins"
begin

lemma secure_send:
  assumes "secure_to tr link pair p X ins outs" "b \<noteq> []" "msg_ok b"
  shows "\<exists>X'. hermes_transport_send S X b = Some (HM_SUCCESS, X') \<and> secure_to tr link pair p X' ins (outs @ [b])"
proof -
  obtain x t where X: "X = (x, t)" by force
  obtain ces des where c: "user_transport x = tr" "pair (session x) p ces ins des outs" "list_all wire_ok ces"
      "list_all wire_ok des" "link t (wire ces) (wire des)"
    using assms(1) by (auto simp: secure_to_def X)
  obtain n s1 e s2 where w: "session_wrap_size S (session x) b = (THEMIS_BUFFER_TOO_SMALL, n, s1)"
      "session_wrap S s1 b n = (THEMIS_SUCCESS, e, s2)" "wire_ok e" "fits e" "pair s2 p ces ins (des @ [e]) (outs @ [b])"
    using wrap_ok [OF c(2) assms(2,3)] by blast
  have "e \<noteq> []" using w(3) by (simp add: wire_ok_def)
  then obtain t' where t': "send_data tr e t = Some (HM_SUCCESS, t')" "link t' (wire ces) (wire des @ wire [e])"
    using send_data_ok [OF c(5) _ w(4) fits_size] by blast
  have "secure_to tr link pair p (x\<lparr>session := s2\<rparr>, t') ins (outs @ [b])"
    using c w(3,5) t'(2) unfolding secure_to_def
    by (intro conjI exI [of _ ces] exI [of _ "des @ [e]"]) simp_all
  then show ?thesis
    using w(1,2) t'(1) c(1) by (simp add: hermes_transport_send_def X status_simps)
qed

lemma secure_message:
  assumes "secure_to tr link pair p X (b # ins) outs" "length b + m \<le> n"
  shows "\<exists>X'. receive_message S n m X = Some (Inr b, X') \<and> secure_to tr link pair p X' ins outs"
proof -
  obtain x t where X: "X = (x, t)" by force
  obtain es des where c: "user_transport x = tr" "pair (session x) p es (b # ins) des outs" "list_all wire_ok es"
      "list_all wire_ok des" "link t (wire es) (wire des)"
    using assms(1) by (auto simp: secure_to_def X)
  obtain e ces where es: "es = e # ces" using pair_lengths [OF c(2)] by (cases es) auto
  have wire: "wire_ok e" "list_all wire_ok ces" using c(3) es by simp_all
  obtain t1 t2 where t: "read_data_size tr t = Some (len32 e, t1)" "read_data tr (unat (len32 e)) t1 = Some (HM_SUCCESS, e, t2)"
      "link t2 (wire ces) (wire des)"
    using read_data_ok [of t e "wire ces" "wire des"] c(5) wire(1) unfolding es by auto
  obtain s1 s2 where u: "session_unwrap_size S (session x) e = Some (THEMIS_BUFFER_TOO_SMALL, length b, s1)"
      "session_unwrap S s1 e (length b) = Some (THEMIS_SUCCESS, b, s2)" "pair s2 p ces ins des outs"
    using unwrap_ok [OF c(2) [unfolded es]] by blast
  have "secure_to tr link pair p (x\<lparr>session := s2\<rparr>, t2) ins outs"
    using c(1,4) wire(2) u(3) t(3) by (auto simp: secure_to_def)
  moreover have "len32 e \<noteq> HM_FAIL" using wire(1) by (simp add: wire_ok_def)
  ultimately show ?thesis
    using t(1,2) u(1,2) c(1) assms(2) by (simp add: receive_message_def X status_simps)
qed

lemma secure_receive:
  assumes "secure_to tr link pair p X (bs @ ins) outs" "frames_ok bs" "n = length got + length (concat bs)"
  shows "\<exists>X'. receive_loop S n got X = Some (HM_SUCCESS, got @ concat bs, X') \<and> secure_to tr link pair p X' ins outs"
  using assms
proof (induction bs arbitrary: X got)
  case (Cons b bs)
  obtain X1 where X1: "receive_message S n (length got) X = Some (Inr b, X1)" "secure_to tr link pair p X1 (bs @ ins) outs"
    using secure_message [of p X b "bs @ ins" outs "length got" n] Cons.prems(1,3) by auto
  show ?case
  proof (cases "bs = []")
    case True
    with X1 Cons.prems(3) show ?thesis by (subst receive_loop.simps) simp
  next
    case False
    then have ok: "frames_ok bs" using Cons.prems(2) by (simp add: frames_ok_def)
    then have "length (got @ b) < n" using frames_ok_length [OF ok] Cons.prems(3) by simp
    with Cons.IH [OF X1(2) ok, of "got @ b"] Cons.prems(3) X1(1) show ?thesis
      by (subst receive_loop.simps) simp
  qed
qed (simp add: frames_ok_def)

sublocale secured: reliable_transport "hermes_transport S" "secure_to tr link pair p" msg_ok for p
proof (unfold_locales, goal_cases)
  case (1 X ins outs b)
  then show ?case
    using secure_send [of p X ins outs b] by (auto simp: transport_send_def hermes_transport_def)
next
  case (2 X fs ins outs)
  then show ?case
    using secure_receive [of p X fs ins outs "length (concat fs)" "[]"]
    by (auto simp: transport_recv_def hermes_transport_def hermes_transport_receive_def)
qed (simp_all add: hermes_transport_def)

lemma secured_transport: "reliable_transport (hermes_transport S) (secure_to tr link pair p) msg_ok"
  by unfold_locales

end

text \<open>The laws of the sessions alone, and the contract they give over a transport without limits.\<close>

definition session_laws ::
    "('s, 'cb) themis_session \<Rightarrow> 's session_pair \<Rightarrow> (bytes \<Rightarrow> bool) \<Rightarrow> bool" where
  "session_laws S pair msg_ok \<longleftrightarrow>
     (\<forall>s p ces ins des outs. pair s p ces ins des outs \<longrightarrow>
        length ces = length ins \<and> pair p s des outs ces ins \<and>
        (\<forall>b. b \<noteq> [] \<and> msg_ok b \<longrightarrow>
          (\<exists>n s1 e s2. session_wrap_size S s b = (THEMIS_BUFFER_TOO_SMALL, n, s1) \<and>
            session_wrap S s1 b n = (THEMIS_SUCCESS, e, s2) \<and> wire_ok e \<and> pair s2 p ces ins (des @ [e]) (outs @ [b]))) \<and>
        (\<forall>e ces' b ins'. ces = e # ces' \<and> ins = b # ins' \<longrightarrow>
          (\<exists>s1 s2. session_unwrap_size S s e = Some (THEMIS_BUFFER_TOO_SMALL, length b, s1) \<and>
            session_unwrap S s1 e (length b) = Some (THEMIS_SUCCESS, b, s2) \<and> pair s2 p ces' ins' des outs)))"

lemma session_lawsD:
  assumes "session_laws S pair msg_ok" "pair s p ces ins des outs"
  shows "length ces = length ins" "pair p s des outs ces ins"
    and "b \<noteq> [] \<Longrightarrow> msg_ok b \<Longrightarrow>
      \<exists>n s1 e s2. session_wrap_size S s b = (THEMIS_BUFFER_TOO_SMALL, n, s1) \<and>
        session_wrap S s1 b n = (THEMIS_SUCCESS, e, s2) \<and> wire_ok e \<and> pair s2 p ces ins (des @ [e]) (outs @ [b])"
    and "ces = e # ces' \<Longrightarrow> ins = b # ins' \<Longrightarrow>
      \<exists>s1 s2. session_unwrap_size S s e = Some (THEMIS_BUFFER_TOO_SMALL, length b, s1) \<and>
        session_unwrap S s1 e (length b) = Some (THEMIS_SUCCESS, b, s2) \<and> pair s2 p ces' ins' des outs"
  using assms unfolding session_laws_def by blast+

lemma secure_link_over:
  assumes "session_laws S pair msg_ok" "reliable_transport tr link (\<lambda>_. True)"
  shows "secure_link tr link (\<lambda>_. True) S pair msg_ok"
proof (rule secure_link.intro [OF assms(2)], rule secure_link_axioms.intro, goal_cases)
  case (2 s p ces ins des outs b)
  then show ?case using session_lawsD(3) [OF assms(1) 2] by simp
next
  case (3 s p e ces b ins des outs)
  then show ?case by (rule session_lawsD(4) [OF assms(1) _ refl refl])
next
  case (4 s p ces ins des outs)
  then show ?case by (rule session_lawsD(1) [OF assms(1)])
next
  case (5 s p ces ins des outs)
  then show ?case by (rule session_lawsD(2) [OF assms(1)])
qed simp

end
