(* ===== verification/Secure_Rpc.thy ===== *)
theory Secure_Rpc
  imports Secure_Link
begin

section \<open>Remote calls over the secure transport\<close>

text \<open>
  A client and a server, each with its end of a secure transport, over one pair of pipes, seen from
  the client, as in \<open>Rpc_Loop\<close>: a receive that finds too few bytes blocks until the serving thread has
  run one \<^verbatim>\<open>hm_rpc_server_call\<close>, which opens what came in its own session and answers in it.
\<close>

subsection \<open>The device\<close>

record ('s, 'u, 'cb) secure_loop =
  up :: bytes
  down :: bytes
  sl_server :: "(('s, pipes, 'cb) secured, 'u) hm_rpc_server option"
  sl_data :: "'u option"
  sl_end :: "('s, pipes, 'cb) secure_transport"

definition secure_loop_send ::
    "('s, 'u, 'cb) secure_loop \<Rightarrow> bytes \<Rightarrow> (status \<times> ('s, 'u, 'cb) secure_loop) option" where
  "secure_loop_send L b =
     (if b = [] then Some (HM_INVALID_PARAMETER, L) else Some (HM_SUCCESS, L\<lparr>up := up L @ b\<rparr>))"

definition secure_loop_serve :: "('s, 'u, 'cb) secure_loop \<Rightarrow> ('s, 'u, 'cb) secure_loop option" where
  "secure_loop_serve L =
     (case sl_server L of
        None \<Rightarrow> None
      | Some s \<Rightarrow>
          (case hm_rpc_server_call (Some s) (sl_data L) (sl_end L, \<lparr>read_pipe = up L, write_pipe = down L\<rparr>) of
             None \<Rightarrow> None
           | Some (res, ud, (x, p)) \<Rightarrow>
               Some \<lparr>up = read_pipe p, down = write_pipe p,
                 sl_server = (case res of Inl _ \<Rightarrow> None | Inr _ \<Rightarrow> Some s), sl_data = ud, sl_end = x\<rparr>))"

definition secure_loop_recv ::
    "('s, 'u, 'cb) secure_loop \<Rightarrow> nat \<Rightarrow> (status \<times> bytes \<times> ('s, 'u, 'cb) secure_loop) option" where
  "secure_loop_recv L n =
     (if n = 0 then Some (HM_INVALID_PARAMETER, [], L)
      else case (if n \<le> length (down L) then Some L else secure_loop_serve L) of
        None \<Rightarrow> None
      | Some L \<Rightarrow>
          if length (down L) < n then None
          else Some (HM_SUCCESS, take n (down L), L\<lparr>down := drop n (down L)\<rparr>))"

definition secure_loop_transport :: "('s, 'u, 'cb) secure_loop hm_rpc_transport" where
  "secure_loop_transport = \<lparr>send_fn = Some secure_loop_send, recv_fn = Some secure_loop_recv\<rparr>"

definition secure_loop_link ::
    "(('s, pipes, 'cb) secured, 'u) hm_rpc_server option \<Rightarrow> 'u option \<Rightarrow> ('s, pipes, 'cb) secure_transport \<Rightarrow>
     ('s, 'u, 'cb) secure_loop \<Rightarrow> bytes list \<Rightarrow> bytes list \<Rightarrow> bool" where
  "secure_loop_link s d y L ins outs \<longleftrightarrow>
     down L = concat ins \<and> up L = concat outs \<and> sl_server L = s \<and> sl_data L = d \<and> sl_end L = y"

interpretation secure_loop: reliable_transport secure_loop_transport "secure_loop_link s d y" "\<lambda>_. True" for s d y
proof (unfold_locales, goal_cases)
  case (1 t ins outs b)
  then show ?case
    by (simp add: secure_loop_link_def transport_send_def secure_loop_transport_def secure_loop_send_def)
next
  case (2 t fs ins outs)
  then have "0 < length (concat fs)" by (intro frames_ok_length)
  with 2 show ?case
    by (simp add: secure_loop_link_def transport_recv_def secure_loop_transport_def secure_loop_recv_def)
qed (simp_all add: secure_loop_transport_def)

text \<open>Both ends at rest: nothing in the pipes, and sessions that belong together.\<close>

definition secure_idle ::
    "'s session_pair \<Rightarrow> ('s, ('s, 'u, 'cb) secure_loop, 'cb) secured \<Rightarrow> bool" where
  "secure_idle pair X \<longleftrightarrow> user_transport (fst X) = secure_loop_transport \<and>
     user_transport (sl_end (snd X)) = hm_test_transport \<and> up (snd X) = [] \<and> down (snd X) = [] \<and>
     pair (session (fst X)) (session (sl_end (snd X))) [] [] [] []"

subsection \<open>One call\<close>

lemma secure_receive_serves:
  assumes "down L = []" "secure_loop_serve L = Some L'" "4 \<le> length (down L')" "user_transport x = secure_loop_transport"
  shows "transport_recv (hermes_transport S) n (x, L) = transport_recv (hermes_transport S) n (x, L')"
proof -
  have "read_data_size secure_loop_transport L = read_data_size secure_loop_transport L'"
    using assms(1-3) by (simp add: read_data_size_def secure_loop_transport_def secure_loop_recv_def)
  then have "receive_message S n 0 (x, L) = receive_message S n 0 (x, L')"
    using assms(4) by (simp add: receive_message_def)
  then show ?thesis
    by (simp add: transport_recv_def hermes_transport_def hermes_transport_receive_def receive_loop.simps [of S n "[]"])
qed

lemma wire_nonempty: "list_all wire_ok des \<Longrightarrow> des \<noteq> [] \<Longrightarrow> 4 \<le> length (concat (wire des))"
  by (cases des) simp_all

text \<open>The client's end, whose peer is the session \<open>p\<close>, and the server's.\<close>

abbreviation client_link where
  "client_link pair s d y p \<equiv> secure_to secure_loop_transport (secure_loop_link s d y) pair p"

abbreviation server_link where
  "server_link pair p \<equiv> secure_to hm_test_transport pipe_link pair p"

lemma client_end:
  "session_laws S pair msg_ok \<Longrightarrow> reliable_transport (hermes_transport S) (client_link pair s d y p) msg_ok"
  by (rule secure_link.secured_transport [OF secure_link_over [OF _ secure_loop.reliable_transport_axioms]])

lemma server_end:
  "session_laws S pair msg_ok \<Longrightarrow> reliable_transport (hermes_transport S) (server_link pair p) msg_ok"
  by (rule secure_link.secured_transport [OF secure_link_over [OF _ pipe.reliable_transport_axioms]])

lemma secure_serve_ok:
  assumes laws: "session_laws S pair msg_ok"
    and "client_link pair (Some s) d y (session y) (x, L) [] (request_frames name q)"
    and "user_transport y = hm_test_transport" "server_transport s = hermes_transport S"
    and "name_ok name" "pack_sendable q" "registered s name f"
    and "f (Some (received_pack q)) d = Some (res, out, d')" "out_ok out" "list_all msg_ok (response_frames res out)"
  shows "\<exists>L' y'. secure_loop_serve L = Some L' \<and> down L = [] \<and> 4 \<le> length (down L') \<and>
    user_transport y' = hm_test_transport \<and>
    client_link pair (Some s) d' y' (session y') (x, L') (response_frames res out) []"
proof -
  obtain ces des where c: "user_transport x = secure_loop_transport" "pair (session x) (session y) ces [] des (request_frames name q)"
      "list_all wire_ok ces" "list_all wire_ok des" "secure_loop_link (Some s) d y L (wire ces) (wire des)"
    using assms(2) by (auto simp: secure_to_def)
  have "ces = []" using session_lawsD(1) [OF laws c(2)] by simp
  with c(5) have L: "down L = []" "up L = concat (wire des)" "sl_server L = Some s" "sl_data L = d" "sl_end L = y"
    by (simp_all add: secure_loop_link_def)
  have "pair (session y) (session x) des (request_frames name q) [] []"
    using session_lawsD(2) [OF laws c(2)] \<open>ces = []\<close> by simp
  then have srv: "server_link pair (session x) (y, \<lparr>read_pipe = up L, write_pipe = down L\<rparr>) (request_frames name q @ []) []"
    using assms(3) c(4) L by (intro secure_toI [where ces = des and des = "[]"]) (simp_all add: pipe_link_def)
  obtain Y where Y: "hm_rpc_server_call (Some s) d (y, \<lparr>read_pipe = up L, write_pipe = down L\<rparr>) = Some (Inr (), d', Y)"
      "server_link pair (session x) Y [] ([] @ response_frames res out)"
    using reliable_transport.server_call_ok [OF server_end [OF laws] assms(4-9) srv assms(10)] by blast
  obtain y' p where Y': "Y = (y', p)" by force
  obtain ces' des' where c': "user_transport y' = hm_test_transport" "pair (session y') (session x) ces' [] des' (response_frames res out)"
      "list_all wire_ok des'" "pipe_link p (wire ces') (wire des')"
    using Y(2) by (auto simp: secure_to_def Y')
  have "ces' = []" using session_lawsD(1) [OF laws c'(2)] by simp
  have sym: "pair (session x) (session y') des' (response_frames res out) [] []"
    using session_lawsD(2) [OF laws c'(2)] \<open>ces' = []\<close> by simp
  have "des' \<noteq> []" using session_lawsD(1) [OF laws sym] by (auto simp: response_frames_def)
  let ?L = "\<lparr>up = read_pipe p, down = write_pipe p, sl_server = Some s, sl_data = d', sl_end = y'\<rparr>"
  have "secure_loop_serve L = Some ?L"
    using Y(1) Y' L by (simp add: secure_loop_serve_def)
  moreover have "client_link pair (Some s) d' y' (session y') (x, ?L) (response_frames res out) []"
    using c(1) sym c'(3,4) \<open>ces' = []\<close>
    by (intro secure_toI [where ces = des' and des = "[]"]) (simp_all add: secure_loop_link_def pipe_link_def)
  moreover have "4 \<le> length (down ?L)"
    using c'(4) wire_nonempty [OF c'(3) \<open>des' \<noteq> []\<close>] by (simp add: pipe_link_def)
  ultimately show ?thesis using L(1) c'(1) by blast
qed

lemma secure_call:
  fixes X :: "('s, ('s, 'u, 'cb) secure_loop, 'cb) secured"
  assumes laws: "session_laws S pair msg_ok" and "secure_idle pair X" "sl_server (snd X) = Some s" "server_transport s = hermes_transport S"
    and "client_transport c = hermes_transport S" "name_ok name" "pack_sendable q" "registered s name f"
    and "f (Some (received_pack q)) (sl_data (snd X)) = Some (res, out, d')" "want_ok res out want"
    and "list_all msg_ok (request_frames name q)" "list_all msg_ok (response_frames res out)"
  shows "\<exists>X'. hm_rpc_client_sync_call (Some c) (Some name) (Some q) want X = Some (Inr (call_result res out want), X') \<and>
    secure_idle pair X' \<and> sl_server (snd X') = Some s \<and> sl_data (snd X') = d'"
proof -
  obtain x L where X: "X = (x, L)" by force
  let ?y = "sl_end L" and ?d = "sl_data L"
  have out: "out_ok out" using assms(10) by (simp add: want_ok_def)
  have y: "user_transport ?y = hm_test_transport" using assms(2) by (simp add: secure_idle_def X)
  have start: "client_link pair (Some s) ?d ?y (session ?y) X [] []"
    using assms(2,3) unfolding X by (intro secure_toI [where ces = "[]" and des = "[]"])
      (simp_all add: secure_idle_def secure_loop_link_def)
  obtain X1 where X1: "client_link pair (Some s) ?d ?y (session ?y) X1 [] (request_frames name q)"
      "\<And>w. hm_rpc_client_sync_call (Some c) (Some name) (Some q) w X =
      io_bind (transport_recv (hermes_transport S) 4) (\<lambda>ebuf t.
          (case read_u32 ebuf of
             None \<Rightarrow> None
           | Some (error, _) \<Rightarrow>
               if error = HM_SUCCESS \<and> w then
                 (case hm_param_pack_receive (Some (hermes_transport S)) t of
                    None \<Rightarrow> None
                  | Some (None, t) \<Rightarrow> Some (Inl HM_FAIL, t)
                  | Some (Some out, t) \<Rightarrow> Some (Inr (error, Some out), t))
               else Some (Inr (error, None), t))) X1"
    using reliable_transport.client_request_ok [OF client_end [OF laws] assms(5-7) start assms(11)] by auto
  obtain x1 L1 where x1: "X1 = (x1, L1)" by force
  have f: "f (Some (received_pack q)) ?d = Some (res, out, d')" using assms(9) by (simp add: X)
  obtain L2 y' where L2: "secure_loop_serve L1 = Some L2" "down L1 = []" "4 \<le> length (down L2)"
      "user_transport y' = hm_test_transport" "client_link pair (Some s) d' y' (session y') (x1, L2) (response_frames res out) []"
    using secure_serve_ok [OF laws X1(1) [unfolded x1] y assms(4,6,7,8) f out assms(12)] by blast
  have "user_transport x1 = secure_loop_transport" using X1(1) by (simp add: secure_to_def x1)
  then have recv: "transport_recv (hermes_transport S) 4 X1 = transport_recv (hermes_transport S) 4 (x1, L2)"
    unfolding x1 by (rule secure_receive_serves [OF L2(2,1,3)])
  define rest where "rest = (if res = HM_SUCCESS then (case out of None \<Rightarrow> [] | Some q \<Rightarrow> pack_frames q) else [])"
  have "client_link pair (Some s) d' y' (session y') (x1, L2) (u32_le res # rest) []"
    using L2(5) by (simp add: response_frames_def rest_def)
  from reliable_transport.recv_u32 [OF client_end [OF laws] this] obtain X3 where
    X3: "transport_recv (hermes_transport S) 4 (x1, L2) = Some (Inr (u32_le res), X3)"
      "client_link pair (Some s) d' y' (session y') X3 rest []" by blast
  have final: "secure_idle pair X' \<and> sl_server (snd X') = Some s \<and> sl_data (snd X') = d'"
    if X': "client_link pair (Some s) d' y' (session y') X' [] []" for X' :: "('s, ('s, 'u, 'cb) secure_loop, 'cb) secured"
  proof -
    obtain ces des where cd: "pair (session (fst X')) (session y') ces [] des []"
        "secure_loop_link (Some s) d' y' (snd X') (wire ces) (wire des)" "user_transport (fst X') = secure_loop_transport"
      using X' by (auto simp: secure_to_def)
    then have "ces = []" "des = []"
      using session_lawsD(1) [OF laws cd(1)] session_lawsD(1) [OF laws session_lawsD(2) [OF laws cd(1)]] by simp_all
    with cd L2(4) show ?thesis by (simp add: secure_idle_def secure_loop_link_def)
  qed
  show ?thesis
  proof (cases "res = HM_SUCCESS \<and> want")
    case True
    with assms(10) obtain r where r: "out = Some r" "pack_sendable r" by (auto simp: want_ok_def out_ok_def)
    with True X3(2) have "client_link pair (Some s) d' y' (session y') X3 (pack_frames r @ []) []" by (simp add: rest_def)
    from reliable_transport.pack_receive_ok [OF client_end [OF laws] r(2) this] obtain X4 where
      "hm_param_pack_receive (Some (hermes_transport S)) X3 = Some (Some (received_pack r), X4)"
      "client_link pair (Some s) d' y' (session y') X4 [] []" by blast
    with True r X1(2) [of want] recv X3(1) final [of X4] show ?thesis by (simp add: call_result_def)
  next
    case False
    then have "rest = []" using assms(10) by (auto simp: rest_def want_ok_def)
    with False X1(2) [of want] recv X3 final [of X3] show ?thesis by (intro exI [of _ X3]) (auto simp: call_result_def)
  qed
qed

end
