(* ===== verification/Demo_Session.thy ===== *)
theory Demo_Session
  imports Secure_Rpc
begin

section \<open>Properties of the secure transport\<close>

text \<open>
  The claims about \<^verbatim>\<open>src/secure_transport\<close>, for every secure session that does what Themis documents, and
  a small instance of \<open>themis_session\<close> to apply them at concrete inputs.  The instance is not a model of
  Themis: a session seals by putting its key before the data, and its handshake is four numbered
  messages, of which the last leaves both ends established.
\<close>

subsection \<open>An instance of the sessions\<close>

record demo_end =
  skey :: u8
  phase :: nat

definition demo_unwrap :: "demo_end \<Rightarrow> bytes \<Rightarrow> themis_status \<times> bytes \<times> demo_end" where
  "demo_unwrap s e =
     (if phase s = 9 then (if e \<noteq> [] \<and> hd e = skey s then (THEMIS_SUCCESS, tl e, s) else (THEMIS_FAIL, [], s))
      else if phase s = 0 \<and> e = [1] then (THEMIS_SSESSION_SEND_OUTPUT_TO_PEER, [2], s\<lparr>phase := 2\<rparr>)
      else if phase s = 1 \<and> e = [2] then (THEMIS_SSESSION_SEND_OUTPUT_TO_PEER, [3], s\<lparr>phase := 3\<rparr>)
      else if phase s = 2 \<and> e = [3] then (THEMIS_SSESSION_SEND_OUTPUT_TO_PEER, [4], s\<lparr>phase := 9\<rparr>)
      else if phase s = 3 \<and> e = [4] then (THEMIS_SUCCESS, [], s\<lparr>phase := 9\<rparr>)
      else (THEMIS_FAIL, [], s))"

definition demo_session :: "(demo_end, 'cb) themis_session" where
  "demo_session =
     \<lparr>secure_session_create = (\<lambda>i sk cb. if absent i \<or> absent sk then None else Some \<lparr>skey = 7, phase = 0\<rparr>),
      connect_request_size = (\<lambda>s. (THEMIS_BUFFER_TOO_SMALL, 1, s)),
      connect_request = (\<lambda>s n. (THEMIS_SUCCESS, [1], s\<lparr>phase := 1\<rparr>)),
      session_wrap_size = (\<lambda>s b. (THEMIS_BUFFER_TOO_SMALL, Suc (length b), s)),
      session_wrap = (\<lambda>s b n. (THEMIS_SUCCESS, skey s # b, s)),
      session_unwrap_size = (\<lambda>s e. Some (THEMIS_BUFFER_TOO_SMALL, length e - 1, s)),
      session_unwrap = (\<lambda>s e n. Some (demo_unwrap s e)),
      session_is_established = (\<lambda>s. phase s = 9)\<rparr>"

definition demo_ends :: "demo_end session_pair" where
  "demo_ends s p ces ins des outs \<longleftrightarrow> phase s = 9 \<and> p = s \<and>
     ces = map (Cons (skey s)) ins \<and> des = map (Cons (skey s)) outs"

definition demo_msg_ok :: "bytes \<Rightarrow> bool" where
  "demo_msg_ok b \<longleftrightarrow> length b < 900000"

lemma demo_wire_ok: "demo_msg_ok b \<Longrightarrow> wire_ok (k # b)"
proof -
  assume b: "demo_msg_ok b"
  then have "unat (len32 (k # b)) < 900001" by (simp add: demo_msg_ok_def)
  moreover have "unat HM_FAIL = 983041" by (simp add: HM_FAIL_def HM_ERR_def)
  ultimately have "len32 (k # b) \<noteq> HM_FAIL" by auto
  with b show ?thesis by (simp add: wire_ok_def demo_msg_ok_def)
qed

lemma demo_session_laws: "session_laws demo_session demo_ends demo_msg_ok"
  by (auto simp: session_laws_def demo_ends_def demo_session_def demo_unwrap_def intro: demo_wire_ok)

interpretation demo_link: secure_link secure_loop_transport "secure_loop_link s d y" "\<lambda>_. True"
    demo_session demo_ends demo_msg_ok for s d y
  by (rule secure_link_over [OF demo_session_laws secure_loop.reliable_transport_axioms])

interpretation demo_pipe: secure_link hm_test_transport pipe_link "\<lambda>_. True" demo_session demo_ends demo_msg_ok
  by (rule secure_link_over [OF demo_session_laws pipe.reliable_transport_axioms])

subsection \<open>Calls\<close>

text \<open>C27. Remote calls work over secure transports: a call of a registered function through the client's
  session, the pipes and the server's session returns the status the function returned for the received
  parameters and, on success, its results as received; the server's data is as the function left it,
  the pipes are empty, and the two sessions belong together again.\<close>

theorem secure_call_runs_function:
  assumes "session_laws S pair msg_ok" "secure_idle pair X" "sl_server (snd X) = Some s"
    and "server_transport s = hermes_transport S" "client_transport c = hermes_transport S"
    and "name_ok name" "pack_sendable q" "registered s name f"
    and "f (Some (received_pack q)) (sl_data (snd X)) = Some (res, out, d')" "want_ok res out want"
    and "list_all msg_ok (request_frames name q)" "list_all msg_ok (response_frames res out)"
  shows "\<exists>X'. hm_rpc_client_sync_call (Some c) (Some name) (Some q) want X =
      Some (Inr (res, if res = HM_SUCCESS \<and> want then map_option received_pack out else None), X') \<and>
    secure_idle pair X' \<and> sl_server (snd X') = Some s \<and> sl_data (snd X') = d'"
  using secure_call [OF assms] by (simp add: call_result_def)

definition demo_echo_server :: "((demo_end, pipes, 'cb) secured, nat) hm_rpc_server" where
  "demo_echo_server = \<lparr>server_transport = hermes_transport demo_session,
     func_table = (\<lambda>i. if i = hm_hash [101] then [\<lparr>key = [101], val = echo_func\<rparr>] else [])\<rparr>"

definition demo_echo_ends :: "(demo_end, (demo_end, nat, unit) secure_loop, unit) secured" where
  "demo_echo_ends =
     (\<lparr>user_transport = secure_loop_transport, session = \<lparr>skey = 7, phase = 9\<rparr>, session_callback = ()\<rparr>,
      \<lparr>up = [], down = [], sl_server = Some demo_echo_server, sl_data = Some 0,
       sl_end = \<lparr>user_transport = hm_test_transport, session = \<lparr>skey = 7, phase = 9\<rparr>, session_callback = ()\<rparr>\<rparr>)"

lemma secure_call_runs_function_witness:
  "\<exists>X'. hm_rpc_client_sync_call (Some \<lparr>client_transport = hermes_transport demo_session\<rparr>) (Some [101])
      (Some \<lparr>nodes = [NInt32 5], readed = False, whole_data = []\<rparr>) True demo_echo_ends =
      Some (Inr (HM_SUCCESS, Some (received_pack \<lparr>nodes = [NInt32 5], readed = False, whole_data = []\<rparr>)), X') \<and>
    secure_idle demo_ends X' \<and> sl_server (snd X') = Some demo_echo_server \<and> sl_data (snd X') = Some 1"
proof -
  let ?p = "\<lparr>nodes = [NInt32 5], readed = False, whole_data = []\<rparr>"
  have "registered demo_echo_server [101] echo_func"
    by (simp add: registered_def demo_echo_server_def hm_hash_table_get_def Let_def c_memcmp_def)
  moreover have "pack_sendable ?p"
    by (simp add: pack_sendable_def pack_fits_def HM_PARAM_PACK_MAX_PARAMS_def pack_wire_def)
  moreover have "secure_idle demo_ends demo_echo_ends"
    by (simp add: secure_idle_def demo_echo_ends_def demo_ends_def)
  moreover have "list_all demo_msg_ok (request_frames [101] ?p)" "list_all demo_msg_ok (response_frames HM_SUCCESS (Some ?p))"
    by (simp_all add: request_frames_def response_frames_def pack_frames_def body_frames_def demo_msg_ok_def)
  ultimately show ?thesis
    using secure_call_runs_function [OF demo_session_laws, of demo_echo_ends demo_echo_server
        "\<lparr>client_transport = hermes_transport demo_session\<rparr>" "[101]" ?p echo_func HM_SUCCESS "Some ?p" "Some 1" True]
    by (simp add: demo_echo_ends_def demo_echo_server_def name_ok_def echo_func_def received_pack_def want_ok_def out_ok_def)
qed

subsection \<open>The handshake\<close>

text \<open>C28. Two sessions whose handshakes answer each other are established by \<^verbatim>\<open>create_secure_transport\<close>: the
  client sends its request and its answers, the server its answers, each reads exactly what the
  other wrote, and both get a transport over the session their handshake ends in.\<close>

theorem secure_transports_are_established:
  assumes "secure_session_create S u sk cb = Some s" "secure_session_create S v sk' cb' = Some p"
    and "connect_request_size S s = (THEMIS_BUFFER_TOO_SMALL, n, s1)" "connect_request S s1 n = (THEMIS_SUCCESS, m, s2)"
    and "handshake S s2 answers = Some (ms, s')" "handshake S p (m # ms) = Some (answers, p')"
    and "list_all hello_ok (m # ms)" "list_all hello_ok answers"
  shows "create_secure_transport_with_callback S u sk cb hm_test_transport False
      \<lparr>read_pipe = concat (wire answers), write_pipe = []\<rparr> =
    Some (Some \<lparr>user_transport = hm_test_transport, session = s', session_callback = cb\<rparr>,
      \<lparr>read_pipe = [], write_pipe = concat (wire (m # ms))\<rparr>) \<and>
    create_secure_transport_with_callback S v sk' cb' hm_test_transport True
      \<lparr>read_pipe = concat (wire (m # ms)), write_pipe = []\<rparr> =
    Some (Some \<lparr>user_transport = hm_test_transport, session = p', session_callback = cb'\<rparr>,
      \<lparr>read_pipe = [], write_pipe = concat (wire answers)\<rparr>)"
proof -
  have c: "pipe_link \<lparr>read_pipe = concat (wire answers), write_pipe = []\<rparr> (wire answers @ []) []"
    and v: "pipe_link \<lparr>read_pipe = concat (wire (m # ms)), write_pipe = []\<rparr> (wire (m # ms) @ []) []"
    by (simp_all add: pipe_link_def)
  show ?thesis
    using pipe.client_init_ok [OF c assms(3,4,5,8,7)] pipe.init_loop_ok [OF v assms(6,7,8)] assms(1,2)
    by (auto simp: create_secure_transport_with_callback_def init_secure_session_def pipe_link_def)
qed

definition demo_callback :: "(unit, unit) secure_session_user_callbacks" where
  "demo_callback = \<lparr>get_public_key_for_id = get_public_key_for_id_wrapper,
     callback_data = KeyData \<lparr>public_key_id = [3], public_key = [4]\<rparr>\<rparr>"

lemma secure_transports_are_established_witness:
  "create_secure_transport_with_callback demo_session (Some [1]) (Some [2]) demo_callback hm_test_transport False
      \<lparr>read_pipe = concat (wire [[2], [4]]), write_pipe = []\<rparr> =
    Some (Some \<lparr>user_transport = hm_test_transport, session = \<lparr>skey = 7, phase = 9\<rparr>, session_callback = demo_callback\<rparr>,
      \<lparr>read_pipe = [], write_pipe = concat (wire [[1], [3]])\<rparr>)"
  using secure_transports_are_established [of demo_session "Some [1]" "Some [2]" demo_callback "\<lparr>skey = 7, phase = 0\<rparr>"
      "Some [3]" "Some [4]" demo_callback "\<lparr>skey = 7, phase = 0\<rparr>" 1 "\<lparr>skey = 7, phase = 0\<rparr>" "[1]" "\<lparr>skey = 7, phase = 1\<rparr>"
      "[[2], [4]]" "[[3]]" "\<lparr>skey = 7, phase = 9\<rparr>" "\<lparr>skey = 7, phase = 9\<rparr>"]
  by (simp add: demo_session_def demo_unwrap_def hello_ok_def TEMP_BUFFER_SIZE_def)

subsection \<open>Failures\<close>

text \<open>C29. A secure transport that cannot be established is released as if \<^verbatim>\<open>create_secure_transport\<close> had made
  its callback: the creation has a defined result, NULL, exactly when the callback's \<^verbatim>\<open>user_data\<close> is of
  that type, and none when it is the client or the database of a credential store.\<close>

theorem failed_creation_defined_iff:
  assumes "case secure_session_create S u sk cb of None \<Rightarrow> True
     | Some s \<Rightarrow> \<exists>st s' t'. init_secure_session S tr s is_server t = Some (st, s', t') \<and> st \<noteq> HM_SUCCESS"
  shows "\<exists>t'. create_secure_transport_with_callback S u sk cb tr is_server t =
    (if \<exists>k. callback_data cb = KeyData k then Some (None, t') else None)"
  using assms
  by (auto simp: create_secure_transport_with_callback_def destroy_secure_session_callback_def destroy_callback_data_def
      destroy_secure_transport_def split: option.splits callback_user_data.splits)

text \<open>A service that cannot make a session for a client, with the callback it has for its local credential store.\<close>

lemma failed_creation_defined_iff_witness:
  "create_secure_transport_with_callback demo_session None (Some [2])
      (get_session_callback_with_local_credential_store (hm_test_cs_db_create Map.empty)) hm_test_transport True \<lparr>read_pipe = [], write_pipe = []\<rparr> = None"
  using failed_creation_defined_iff [where S = demo_session and u = None and sk = "Some [2]" and is_server = True
      and cb = "get_session_callback_with_local_credential_store (hm_test_cs_db_create Map.empty)" and tr = hm_test_transport
      and t = "\<lparr>read_pipe = [], write_pipe = []\<rparr>"]
  by (simp add: demo_session_def get_session_callback_with_local_credential_store_def)

text \<open>C30. A message whose sealed form has 983041 bytes is lost: the sender reports success, and the receiver
  takes the length before it for the status \<open>HM_FAIL\<close>, which is that number, and leaves the message
  in the pipe, where its first bytes are the length it will read next.\<close>

theorem message_of_error_size_is_lost:
  assumes "session_wrap_size S s b = (THEMIS_BUFFER_TOO_SMALL, n, s1)" "session_wrap S s1 b n = (THEMIS_SUCCESS, e, s2)"
    and "length e = 983041"
  shows "hermes_transport_send S (\<lparr>user_transport = hm_test_transport, session = s, session_callback = cb\<rparr>,
        \<lparr>read_pipe = [], write_pipe = []\<rparr>) b =
      Some (HM_SUCCESS, \<lparr>user_transport = hm_test_transport, session = s2, session_callback = cb\<rparr>,
        \<lparr>read_pipe = [], write_pipe = concat (wire [e])\<rparr>) \<and>
    hermes_transport_receive S (\<lparr>user_transport = hm_test_transport, session = p, session_callback = cb'\<rparr>,
        \<lparr>read_pipe = concat (wire [e]), write_pipe = []\<rparr>) k =
      Some (HM_FAIL, [], \<lparr>user_transport = hm_test_transport, session = p, session_callback = cb'\<rparr>,
        \<lparr>read_pipe = e, write_pipe = []\<rparr>)"
proof -
  have len: "len32 e = HM_FAIL" by (simp add: len32_def assms(3) HM_FAIL_def HM_ERR_def)
  have "e \<noteq> []" using assms(3) by auto
  then have "send_data hm_test_transport e \<lparr>read_pipe = [], write_pipe = []\<rparr> =
      Some (HM_SUCCESS, \<lparr>read_pipe = [], write_pipe = concat (wire [e])\<rparr>)"
    by (simp add: send_data_def hm_test_transport_def hm_rpc_test_transport_send_def status_simps)
  moreover have "read_data_size hm_test_transport \<lparr>read_pipe = concat (wire [e]), write_pipe = []\<rparr> =
      Some (HM_FAIL, \<lparr>read_pipe = e, write_pipe = []\<rparr>)"
    by (simp add: read_data_size_def hm_test_transport_def hm_rpc_test_transport_recv_def len status_simps)
  ultimately show ?thesis
    using assms(1,2)
    by (simp add: hermes_transport_send_def hermes_transport_receive_def receive_loop.simps receive_message_def
        status_simps del: wire_simps)
qed

lemma message_of_error_size_is_lost_witness:
  "\<exists>e. hermes_transport_send demo_session (\<lparr>user_transport = hm_test_transport, session = \<lparr>skey = 7, phase = 9\<rparr>,
        session_callback = ()\<rparr>, \<lparr>read_pipe = [], write_pipe = []\<rparr>) (replicate 983040 5) =
      Some (HM_SUCCESS, \<lparr>user_transport = hm_test_transport, session = \<lparr>skey = 7, phase = 9\<rparr>, session_callback = ()\<rparr>,
        \<lparr>read_pipe = [], write_pipe = concat (wire [e])\<rparr>) \<and>
    hermes_transport_receive demo_session (\<lparr>user_transport = hm_test_transport, session = \<lparr>skey = 7, phase = 9\<rparr>,
        session_callback = ()\<rparr>, \<lparr>read_pipe = concat (wire [e]), write_pipe = []\<rparr>) 983040 =
      Some (HM_FAIL, [], \<lparr>user_transport = hm_test_transport, session = \<lparr>skey = 7, phase = 9\<rparr>, session_callback = ()\<rparr>,
        \<lparr>read_pipe = e, write_pipe = []\<rparr>)"
  by (rule exI [of _ "7 # replicate 983040 5"], rule message_of_error_size_is_lost
        [where n = 983041 and ?s1.0 = "\<lparr>skey = 7, phase = 9\<rparr>"])
    (simp_all add: demo_session_def)

end
