(* ===== verification/Ll_Buffer.thy ===== *)
theory Ll_Buffer
  imports Mem_Cmp
begin

section \<open>Buffers of Mid-Hermes\<close>

text \<open>
  \<^verbatim>\<open>src/mid_hermes_ll/mid_hermes_ll_buffer.c\<close>: a pointer and a length.  The field \<open>bdata\<close> is both:
  \<open>None\<close> is the NULL pointer, whose length is 0 in every buffer the code builds.  A pointer to a
  buffer is an option of it.  Allocating a buffer of a positive length without data leaves it
  uninitialised; no caller does, and such a call is not represented.
\<close>

record mid_hermes_ll_buffer =
  bdata :: cbuf

type_synonym buffer_ptr = "mid_hermes_ll_buffer option"

definition buffer_length :: "mid_hermes_ll_buffer \<Rightarrow> nat" where
  "buffer_length b = (case bdata b of None \<Rightarrow> 0 | Some d \<Rightarrow> length d)"

definition mid_hermes_ll_buffer_create :: "cbuf \<Rightarrow> mid_hermes_ll_buffer" where
  "mid_hermes_ll_buffer_create d = \<lparr>bdata = d\<rparr>"

definition mid_hermes_ll_buffer_is_empty :: "buffer_ptr \<Rightarrow> bool option" where
  "mid_hermes_ll_buffer_is_empty b =
     (case b of None \<Rightarrow> None | Some b \<Rightarrow> Some (bdata b = None \<or> buffer_length b = 0))"

definition mid_hermes_ll_buffer_is_equal :: "buffer_ptr \<Rightarrow> buffer_ptr \<Rightarrow> bool option" where
  "mid_hermes_ll_buffer_is_equal buffer1 buffer2 =
     (case (buffer1, buffer2) of
        (Some b1, Some b2) \<Rightarrow>
          if buffer_length b2 \<noteq> buffer_length b1 then Some False
          else map_option (\<lambda>c. c = 0)
            (cst_time_memcmp (case_option [] (\<lambda>d. d) (bdata b1)) (case_option [] (\<lambda>d. d) (bdata b2))
              (buffer_length b1))
      | _ \<Rightarrow> None)"

definition mid_hermes_ll_buffer_reset :: "buffer_ptr \<Rightarrow> cbuf \<Rightarrow> status \<times> buffer_ptr" where
  "mid_hermes_ll_buffer_reset buffer d =
     (case buffer of
        None \<Rightarrow> (HM_INVALID_PARAMETER, None)
      | Some b \<Rightarrow>
          (case (bdata b, d) of
             (Some old, Some new) \<Rightarrow> (HM_SUCCESS, Some (b\<lparr>bdata := Some new\<rparr>))
           | (Some old, None) \<Rightarrow> (HM_SUCCESS, Some (b\<lparr>bdata := None\<rparr>))
           | (None, Some new) \<Rightarrow> (HM_SUCCESS, Some (b\<lparr>bdata := Some new\<rparr>))
           | (None, None) \<Rightarrow> (HM_SUCCESS, Some (b\<lparr>bdata := None\<rparr>))))"

text \<open>The result is whether \<^verbatim>\<open>dst\<close> is returned, and \<^verbatim>\<open>dst\<close> afterwards.\<close>

definition mid_hermes_ll_buffer_copy :: "buffer_ptr \<Rightarrow> buffer_ptr \<Rightarrow> bool \<times> buffer_ptr" where
  "mid_hermes_ll_buffer_copy src dst =
     (case (src, dst) of
        (Some s, Some _) \<Rightarrow>
          (case mid_hermes_ll_buffer_reset dst (bdata s) of
             (st, dst') \<Rightarrow> (st = HM_SUCCESS, dst'))
      | _ \<Rightarrow> (False, dst))"

definition mid_hermes_ll_buffer_destroy :: "buffer_ptr option \<Rightarrow> status \<times> buffer_ptr option" where
  "mid_hermes_ll_buffer_destroy b =
     (case b of Some (Some _) \<Rightarrow> (HM_SUCCESS, Some None) | _ \<Rightarrow> (HM_INVALID_PARAMETER, b))"

definition mid_hermes_ll_buffer_destroy_secure :: "buffer_ptr option \<Rightarrow> status \<times> buffer_ptr option" where
  "mid_hermes_ll_buffer_destroy_secure b =
     (case b of Some (Some _) \<Rightarrow> (HM_SUCCESS, Some None) | _ \<Rightarrow> (HM_INVALID_PARAMETER, b))"

lemma bdata_create [simp]: "bdata (mid_hermes_ll_buffer_create d) = d"
  by (simp add: mid_hermes_ll_buffer_create_def)

lemma create_bdata [simp]: "mid_hermes_ll_buffer_create (bdata b) = b"
  by (simp add: mid_hermes_ll_buffer_create_def)

lemma is_empty_iff [simp]: "mid_hermes_ll_buffer_is_empty (Some b) = Some (absent (bdata b))"
  by (auto simp: mid_hermes_ll_buffer_is_empty_def buffer_length_def absent_def split: option.splits)

lemma cst_time_memcmp_same:
  "length a = n \<Longrightarrow> length b = n \<Longrightarrow> cst_time_memcmp a b n = Some (bytes_cmp a b)"
  unfolding cst_time_memcmp_def Let_def sign_difference
  by (simp add: sgn_cst_loop)

lemma is_equal_eq:
  "mid_hermes_ll_buffer_is_equal (Some b1) (Some b2) =
     Some (case_option [] (\<lambda>d. d) (bdata b1) = case_option [] (\<lambda>d. d) (bdata b2))"
proof -
  let ?a = "case_option [] (\<lambda>d. d) (bdata b1)" and ?b = "case_option [] (\<lambda>d. d) (bdata b2)"
  have "buffer_length b1 = length ?a" "buffer_length b2 = length ?b"
    by (auto simp: buffer_length_def split: option.splits)
  then show ?thesis
    by (cases "length ?a = length ?b")
      (auto simp: mid_hermes_ll_buffer_is_equal_def cst_time_memcmp_same bytes_cmp_eq_0)
qed

lemma reset_holds: "snd (mid_hermes_ll_buffer_reset (Some b) d) = Some \<lparr>bdata = d\<rparr>"
  by (cases b; cases "bdata b"; cases d) (auto simp: mid_hermes_ll_buffer_reset_def)

end
