(* ===== verification/Ll_Stores.thy ===== *)
theory Ll_Stores
  imports Hermes_Prelude
begin

section \<open>The stores as Mid-Hermes sees them\<close>

text \<open>
  \<^verbatim>\<open>include/hermes/mid_hermes_ll/interfaces\<close>: the functions of the three stores that blocks,
  tokens and users are written against.  A store object is a record of those functions; what it
  changes when called (its service, its connection) is a state of its own, \<open>'k\<close>, \<open>'d\<close> or \<open>'c\<close>.
  The \<open>world\<close> holds these three states and the source of randomness.

  \<open>act\<close> is the shape of the functions above the stores: a result and the world afterwards, or
  \<open>None\<close> when the run has no defined result.  \<open>act_some\<close> is the idiom of returning NULL as soon as
  a called function returns NULL, \<open>act_ok\<close> the same for a failed status.
\<close>

subsection \<open>Actions\<close>

type_synonym ('w, 'a) act = "'w \<Rightarrow> ('a \<times> 'w) option"

definition act_ret :: "'a \<Rightarrow> ('w, 'a) act" where
  "act_ret x = (\<lambda>w. Some (x, w))"

definition act_bind :: "('w, 'a) act \<Rightarrow> ('a \<Rightarrow> ('w, 'b) act) \<Rightarrow> ('w, 'b) act" where
  "act_bind m k = (\<lambda>w. case m w of None \<Rightarrow> None | Some (x, w') \<Rightarrow> k x w')"

definition act_undefined :: "('w, 'a) act" where
  "act_undefined = (\<lambda>w. None)"

definition act_some :: "('w, 'a option) act \<Rightarrow> ('a \<Rightarrow> ('w, 'b option) act) \<Rightarrow> ('w, 'b option) act" where
  "act_some m k = act_bind m (\<lambda>x. case x of None \<Rightarrow> act_ret None | Some y \<Rightarrow> k y)"

definition act_ok :: "('w, status + 'a) act \<Rightarrow> ('a \<Rightarrow> ('w, 'b option) act) \<Rightarrow> ('w, 'b option) act" where
  "act_ok m k = act_bind m (\<lambda>x. case x of Inl _ \<Rightarrow> act_ret None | Inr y \<Rightarrow> k y)"

named_theorems act_simps \<open>running actions\<close>

lemma act_ret_run [simp, act_simps]: "act_ret x w = Some (x, w)"
  by (simp add: act_ret_def)

lemma act_bind_run [act_simps]:
  "act_bind m k w = (case m w of None \<Rightarrow> None | Some (x, w') \<Rightarrow> k x w')"
  by (simp add: act_bind_def)

lemma act_undefined_run [simp, act_simps]: "act_undefined w = None"
  by (simp add: act_undefined_def)

lemma act_some_run [act_simps]:
  "act_some m k w = (case m w of None \<Rightarrow> None | Some (None, w') \<Rightarrow> Some (None, w') | Some (Some y, w') \<Rightarrow> k y w')"
  by (auto simp: act_some_def act_bind_def split: option.splits)

lemma act_ok_run [act_simps]:
  "act_ok m k w = (case m w of None \<Rightarrow> None | Some (Inl e, w') \<Rightarrow> Some (None, w') | Some (Inr y, w') \<Rightarrow> k y w')"
  by (auto simp: act_ok_def act_bind_def split: option.splits sum.splits)

subsection \<open>The interfaces\<close>

record 'c hermes_credential_store =
  cs_get_public_key :: "cbuf \<Rightarrow> ('c, status + bytes) act"

record 'd hermes_data_store =
  ds_set_block :: "cbuf \<Rightarrow> cbuf \<Rightarrow> cbuf \<Rightarrow> cbuf \<Rightarrow> cbuf \<Rightarrow> ('d, status \<times> cbuf) act"
  ds_get_block :: "cbuf \<Rightarrow> ('d, status + bytes \<times> bytes) act"
  ds_rem_block :: "cbuf \<Rightarrow> cbuf \<Rightarrow> ('d, status) act"

text \<open>The iterator over the users of a block (\<^verbatim>\<open>struct hermes_key_store_iterator_type\<close>).\<close>

record hermes_key_store_iterator =
  it_block_id :: bytes
  current_user_id :: cbuf
  current_rights_mask :: u32
  current_index :: u64

record 'k hermes_key_store =
  ks_get_rtoken :: "cbuf \<Rightarrow> cbuf \<Rightarrow> ('k, status + bytes \<times> bytes) act"
  ks_get_wtoken :: "cbuf \<Rightarrow> cbuf \<Rightarrow> ('k, status + bytes \<times> bytes) act"
  ks_set_rtoken :: "cbuf \<Rightarrow> cbuf \<Rightarrow> cbuf \<Rightarrow> cbuf \<Rightarrow> ('k, status) act"
  ks_set_wtoken :: "cbuf \<Rightarrow> cbuf \<Rightarrow> cbuf \<Rightarrow> cbuf \<Rightarrow> ('k, status) act"
  ks_iterator_create :: "cbuf \<Rightarrow> ('k, hermes_key_store_iterator option) act"
  ks_iterator_next :: "hermes_key_store_iterator \<Rightarrow> ('k, status \<times> hermes_key_store_iterator) act"

subsection \<open>The world\<close>

record ('r, 'k, 'd, 'c) world =
  rand_state :: 'r
  key_state :: 'k
  data_state :: 'd
  cred_state :: 'c

definition on_rand :: "('r, 'a) act \<Rightarrow> (('r, 'k, 'd, 'c) world, 'a) act" where
  "on_rand m = (\<lambda>w. map_option (\<lambda>(x, s). (x, w\<lparr>rand_state := s\<rparr>)) (m (rand_state w)))"

definition on_keys :: "('k, 'a) act \<Rightarrow> (('r, 'k, 'd, 'c) world, 'a) act" where
  "on_keys m = (\<lambda>w. map_option (\<lambda>(x, s). (x, w\<lparr>key_state := s\<rparr>)) (m (key_state w)))"

definition on_data :: "('d, 'a) act \<Rightarrow> (('r, 'k, 'd, 'c) world, 'a) act" where
  "on_data m = (\<lambda>w. map_option (\<lambda>(x, s). (x, w\<lparr>data_state := s\<rparr>)) (m (data_state w)))"

definition on_creds :: "('c, 'a) act \<Rightarrow> (('r, 'k, 'd, 'c) world, 'a) act" where
  "on_creds m = (\<lambda>w. map_option (\<lambda>(x, s). (x, w\<lparr>cred_state := s\<rparr>)) (m (cred_state w)))"

lemma on_run [act_simps]:
  "on_rand mr w = (case mr (rand_state w) of None \<Rightarrow> None | Some (x, s) \<Rightarrow> Some (x, w\<lparr>rand_state := s\<rparr>))"
  "on_keys mk w = (case mk (key_state w) of None \<Rightarrow> None | Some (x, s) \<Rightarrow> Some (x, w\<lparr>key_state := s\<rparr>))"
  "on_data md w = (case md (data_state w) of None \<Rightarrow> None | Some (x, s) \<Rightarrow> Some (x, w\<lparr>data_state := s\<rparr>))"
  "on_creds mc w = (case mc (cred_state w) of None \<Rightarrow> None | Some (x, s) \<Rightarrow> Some (x, w\<lparr>cred_state := s\<rparr>))"
  by (auto simp: on_rand_def on_keys_def on_data_def on_creds_def split: option.splits)

lemma on_ret [simp]: "on_rand (act_ret x) = act_ret x" "on_creds (act_ret x) = act_ret x"
  by (auto simp: act_ret_def act_simps)

subsection \<open>Pointers with a length\<close>

text \<open>What a pointer with a length refers to; nothing is read through NULL with the length 0.\<close>

definition buf_bytes :: "cbuf \<Rightarrow> bytes" where
  "buf_bytes b = (case b of None \<Rightarrow> [] | Some d \<Rightarrow> d)"

lemma buf_bytes_Some [simp]: "buf_bytes (Some d) = d"
  by (simp add: buf_bytes_def)

end
