(* ===== verification/Ll_User.thy ===== *)
theory Ll_User
  imports Ll_Buffer Ll_Stores
begin

section \<open>Users\<close>

text \<open>
  \<^verbatim>\<open>src/mid_hermes_ll/mid_hermes_ll_user.c\<close>: an id with a public key and, for the local user, a
  private key.  A function that returns NULL on failure returns \<open>None\<close>.  Allocations succeed, so
  the checks on the buffers just created never fail; the field \<^verbatim>\<open>count\<close> is never used.
\<close>

record mid_hermes_ll_user =
  user_id :: buffer_ptr
  user_sk :: buffer_ptr
  user_pk :: buffer_ptr

type_synonym user_ptr = "mid_hermes_ll_user option"

definition mid_hermes_ll_user_create :: "buffer_ptr \<Rightarrow> buffer_ptr \<Rightarrow> user_ptr" where
  "mid_hermes_ll_user_create i public_key =
     (if i = None \<or> mid_hermes_ll_buffer_is_empty i = Some True \<or> public_key = None \<or>
        mid_hermes_ll_buffer_is_empty public_key = Some True
      then None
      else Some \<lparr>user_id = i, user_sk = None, user_pk = public_key\<rparr>)"

definition mid_hermes_ll_local_user_create :: "buffer_ptr \<Rightarrow> buffer_ptr \<Rightarrow> buffer_ptr \<Rightarrow> user_ptr" where
  "mid_hermes_ll_local_user_create i private_key public_key =
     (if i = None \<or> mid_hermes_ll_buffer_is_empty i = Some True \<or> private_key = None \<or>
        mid_hermes_ll_buffer_is_empty private_key = Some True \<or> public_key = None \<or>
        mid_hermes_ll_buffer_is_empty public_key = Some True
      then None
      else map_option (\<lambda>u. u\<lparr>user_sk := private_key\<rparr>) (mid_hermes_ll_user_create i public_key))"

definition mid_hermes_ll_user_destroy :: "user_ptr option \<Rightarrow> status \<times> user_ptr option" where
  "mid_hermes_ll_user_destroy u =
     (case u of Some (Some _) \<Rightarrow> (HM_SUCCESS, Some None) | _ \<Rightarrow> (HM_INVALID_PARAMETER, u))"

definition mid_hermes_ll_user_create_c :: "cbuf \<Rightarrow> cbuf \<Rightarrow> user_ptr" where
  "mid_hermes_ll_user_create_c i public_key =
     (if absent i \<or> absent public_key then None
      else mid_hermes_ll_user_create (Some (mid_hermes_ll_buffer_create i))
        (Some (mid_hermes_ll_buffer_create public_key)))"

definition mid_hermes_ll_local_user_create_c :: "cbuf \<Rightarrow> cbuf \<Rightarrow> cbuf \<Rightarrow> user_ptr" where
  "mid_hermes_ll_local_user_create_c i private_key public_key =
     (if absent i \<or> absent private_key \<or> absent public_key then None
      else mid_hermes_ll_local_user_create (Some (mid_hermes_ll_buffer_create i))
        (Some (mid_hermes_ll_buffer_create private_key)) (Some (mid_hermes_ll_buffer_create public_key)))"

text \<open>The copy reads through the id and the public key without a test.\<close>

definition mid_hermes_ll_user_copy :: "user_ptr \<Rightarrow> user_ptr option" where
  "mid_hermes_ll_user_copy user =
     (case user of
        None \<Rightarrow> Some None
      | Some u \<Rightarrow>
          (case (user_id u, user_pk u) of
             (Some i, Some pk) \<Rightarrow>
               Some (map_option
                 (\<lambda>c. if user_sk u = None then c
                      else c\<lparr>user_sk := Some (mid_hermes_ll_buffer_create (bdata (the (user_sk u))))\<rparr>)
                 (mid_hermes_ll_user_create_c (bdata i) (bdata pk)))
           | _ \<Rightarrow> None))"

definition mid_hermes_ll_user_is_equal :: "user_ptr \<Rightarrow> user_ptr \<Rightarrow> bool option" where
  "mid_hermes_ll_user_is_equal user1 user2 =
     (case (user1, user2) of
        (Some u1, Some u2) \<Rightarrow> mid_hermes_ll_buffer_is_equal (user_id u1) (user_id u2)
      | _ \<Rightarrow> None)"

subsection \<open>Loading from a credential store\<close>

definition mid_hermes_ll_user_load ::
    "buffer_ptr \<Rightarrow> 'c hermes_credential_store option \<Rightarrow> ('c, user_ptr) act" where
  "mid_hermes_ll_user_load i credential_store =
     (if i = None \<or> credential_store = None then act_ret None
      else act_ok (cs_get_public_key (the credential_store) (bdata (the i)))
        (\<lambda>public_key. act_ret (mid_hermes_ll_user_create i
           (Some (mid_hermes_ll_buffer_create (Some public_key))))))"

definition mid_hermes_ll_user_load_c ::
    "cbuf \<Rightarrow> 'c hermes_credential_store option \<Rightarrow> ('c, user_ptr) act" where
  "mid_hermes_ll_user_load_c i credential_store =
     (if absent i \<or> credential_store = None then act_ret None
      else mid_hermes_ll_user_load (Some (mid_hermes_ll_buffer_create i)) credential_store)"

definition mid_hermes_ll_local_user_load_c ::
    "cbuf \<Rightarrow> cbuf \<Rightarrow> 'c hermes_credential_store option \<Rightarrow> ('c, user_ptr) act" where
  "mid_hermes_ll_local_user_load_c i private_key credential_store =
     (if absent i \<or> absent private_key \<or> credential_store = None then act_ret None
      else act_some (mid_hermes_ll_user_load (Some (mid_hermes_ll_buffer_create i)) credential_store)
        (\<lambda>u. act_ret (Some (u\<lparr>user_sk := Some (mid_hermes_ll_buffer_create private_key)\<rparr>))))"

subsection \<open>Well-formed users\<close>

text \<open>The users that the constructors build: \<open>remote_user\<close> has no private key.\<close>

definition remote_user :: "bytes \<Rightarrow> bytes \<Rightarrow> mid_hermes_ll_user" where
  "remote_user i pk = \<lparr>user_id = Some \<lparr>bdata = Some i\<rparr>, user_sk = None, user_pk = Some \<lparr>bdata = Some pk\<rparr>\<rparr>"

definition local_user :: "bytes \<Rightarrow> bytes \<Rightarrow> bytes \<Rightarrow> mid_hermes_ll_user" where
  "local_user i sk pk = (remote_user i pk)\<lparr>user_sk := Some \<lparr>bdata = Some sk\<rparr>\<rparr>"

lemma user_sel [simp]:
  "user_id (remote_user i pk) = Some \<lparr>bdata = Some i\<rparr>" "user_id (local_user i sk pk) = Some \<lparr>bdata = Some i\<rparr>"
  "user_pk (remote_user i pk) = Some \<lparr>bdata = Some pk\<rparr>" "user_pk (local_user i sk pk) = Some \<lparr>bdata = Some pk\<rparr>"
  "user_sk (remote_user i pk) = None" "user_sk (local_user i sk pk) = Some \<lparr>bdata = Some sk\<rparr>"
  by (simp_all add: remote_user_def local_user_def)

lemma user_create_eq:
  "mid_hermes_ll_user_create (Some i) (Some pk) =
     (if absent (bdata i) \<or> absent (bdata pk) then None
      else Some (remote_user (the (bdata i)) (the (bdata pk))))"
  by (cases i; cases pk) (auto simp: mid_hermes_ll_user_create_def remote_user_def absent_def split: option.splits)

lemma local_user_create_eq:
  "i \<noteq> [] \<Longrightarrow> sk \<noteq> [] \<Longrightarrow> pk \<noteq> [] \<Longrightarrow>
   mid_hermes_ll_local_user_create (Some \<lparr>bdata = Some i\<rparr>) (Some \<lparr>bdata = Some sk\<rparr>) (Some \<lparr>bdata = Some pk\<rparr>) =
     Some (local_user i sk pk)"
  by (simp add: mid_hermes_ll_local_user_create_def user_create_eq local_user_def)

lemma user_create_c_eq:
  "i \<noteq> [] \<Longrightarrow> pk \<noteq> [] \<Longrightarrow> mid_hermes_ll_user_create_c (Some i) (Some pk) = Some (remote_user i pk)"
  by (simp add: mid_hermes_ll_user_create_c_def user_create_eq)

lemma local_user_create_c_eq:
  "i \<noteq> [] \<Longrightarrow> sk \<noteq> [] \<Longrightarrow> pk \<noteq> [] \<Longrightarrow>
   mid_hermes_ll_local_user_create_c (Some i) (Some sk) (Some pk) = Some (local_user i sk pk)"
  by (simp add: mid_hermes_ll_local_user_create_c_def local_user_create_eq mid_hermes_ll_buffer_create_def)

lemma user_copy_eq:
  assumes "i \<noteq> []" "pk \<noteq> []"
  shows "mid_hermes_ll_user_copy (Some (remote_user i pk)) = Some (Some (remote_user i pk))"
    and "mid_hermes_ll_user_copy (Some (local_user i sk pk)) = Some (Some (local_user i sk pk))"
  using assms
  by (simp_all add: mid_hermes_ll_user_copy_def user_create_c_eq local_user_def remote_user_def
      mid_hermes_ll_buffer_create_def)

lemma user_is_equal_eq:
  assumes "user_id u = Some \<lparr>bdata = Some i\<rparr>" "user_id v = Some \<lparr>bdata = Some j\<rparr>"
  shows "mid_hermes_ll_user_is_equal (Some u) (Some v) = Some (i = j)"
  using assms by (simp add: mid_hermes_ll_user_is_equal_def is_equal_eq)

lemma user_load_run:
  "i \<noteq> [] \<Longrightarrow> mid_hermes_ll_user_load (Some \<lparr>bdata = Some i\<rparr>) (Some cs) s =
     (case cs_get_public_key cs (Some i) s of
        None \<Rightarrow> None
      | Some (Inl e, s') \<Rightarrow> Some (None, s')
      | Some (Inr pk, s') \<Rightarrow> Some (if pk = [] then None else Some (remote_user i pk), s'))"
  by (auto simp: mid_hermes_ll_user_load_def act_simps user_create_eq split: option.splits sum.splits)

lemma user_load_c_run:
  "i \<noteq> [] \<Longrightarrow> mid_hermes_ll_user_load_c (Some i) (Some cs) = mid_hermes_ll_user_load (Some \<lparr>bdata = Some i\<rparr>) (Some cs)"
  by (simp add: mid_hermes_ll_user_load_c_def mid_hermes_ll_buffer_create_def)

end
