(* ===== verification/Ll_Token.thy ===== *)
theory Ll_Token
  imports Ll_User Ll_Utils
begin

section \<open>Tokens\<close>

text \<open>
  \<^verbatim>\<open>src/mid_hermes_ll/mid_hermes_ll_token.c\<close>: a token is a random key, wrapped by its owner for
  its user.  \<open>token_user\<close> is the user it can be opened by, \<open>token_owner\<close> the one who wrapped it.
  Reading through the private key of a user who has none is undefined (\<open>key_of\<close>), as is opening a
  token that unwraps in length but not in content (see \<open>Ll_Utils\<close>).

  The lemmas \<open>opens_*\<close> are the contract of a token under \<open>themis_laws\<close>: the token that is generated,
  and every token made from it for another user, opens to the same key.
\<close>

record mid_hermes_ll_token =
  token_user :: user_ptr
  token_owner :: user_ptr
  token_data :: buffer_ptr

type_synonym token_ptr = "mid_hermes_ll_token option"

definition mid_hermes_ll_token_create :: "user_ptr \<Rightarrow> user_ptr \<Rightarrow> buffer_ptr \<Rightarrow> token_ptr" where
  "mid_hermes_ll_token_create user owner token =
     (if user = None \<or> token = None then None
      else Some \<lparr>token_user = user, token_owner = owner, token_data = token\<rparr>)"

text \<open>\<^verbatim>\<open>user->sk->data\<close> and \<^verbatim>\<open>user->pk->data\<close>, undefined when a pointer on the way is NULL.\<close>

definition key_of :: "(mid_hermes_ll_user \<Rightarrow> buffer_ptr) \<Rightarrow> user_ptr \<Rightarrow> cbuf option" where
  "key_of f user = (case user of None \<Rightarrow> None | Some u \<Rightarrow> map_option bdata (f u))"

definition mid_hermes_ll_token_generate :: "('r, 'h) themis \<Rightarrow> user_ptr \<Rightarrow> ('r, token_ptr) act" where
  "mid_hermes_ll_token_generate T user_and_owner r =
     (if user_and_owner = None then Some (None, r)
      else (case soter_rand T HM_TOKEN_LEN r of (st, token, r) \<Rightarrow>
        if st \<noteq> THEMIS_SUCCESS then Some (None, r)
        else (case (key_of user_sk user_and_owner, key_of user_pk user_and_owner) of
                (Some sk, Some pk) \<Rightarrow>
                  (case hm_asym_encrypt T sk pk (Some token) True r of
                     (Inl _, r) \<Rightarrow> Some (None, r)
                   | (Inr encrypted, r) \<Rightarrow>
                       Some (mid_hermes_ll_token_create user_and_owner user_and_owner
                               (Some (mid_hermes_ll_buffer_create (Some encrypted))), r))
              | _ \<Rightarrow> None)))"

definition mid_hermes_ll_token_get_data :: "('r, 'h) themis \<Rightarrow> token_ptr \<Rightarrow> buffer_ptr option" where
  "mid_hermes_ll_token_get_data T token =
     (case token of
        None \<Rightarrow> Some None
      | Some t \<Rightarrow>
          (case (key_of user_sk (token_user t), key_of user_pk (token_owner t), token_data t) of
             (Some sk, Some pk, Some d) \<Rightarrow>
               (case hm_asym_decrypt T sk pk (bdata d) True of
                  None \<Rightarrow> None
                | Some (Inl _) \<Rightarrow> Some None
                | Some (Inr k) \<Rightarrow> Some (Some (mid_hermes_ll_buffer_create (Some k))))
           | _ \<Rightarrow> None))"

definition mid_hermes_ll_token_get_token_for_user ::
    "('r, 'h) themis \<Rightarrow> token_ptr \<Rightarrow> user_ptr \<Rightarrow> ('r, token_ptr) act" where
  "mid_hermes_ll_token_get_token_for_user T token for_user r =
     (if token = None \<or> for_user = None then Some (None, r)
      else (case mid_hermes_ll_token_get_data T token of
              None \<Rightarrow> None
            | Some None \<Rightarrow> Some (None, r)
            | Some (Some buffer) \<Rightarrow>
                (case (key_of user_sk (token_user (the token)), key_of user_pk for_user) of
                   (Some sk, Some pk) \<Rightarrow>
                     (case hm_asym_encrypt T sk pk (bdata buffer) True r of
                        (Inl _, r) \<Rightarrow> Some (None, r)
                      | (Inr encrypted, r) \<Rightarrow>
                          map_option (\<lambda>owner. (mid_hermes_ll_token_create for_user owner
                              (Some (mid_hermes_ll_buffer_create (Some encrypted))), r))
                            (mid_hermes_ll_user_copy (token_user (the token))))
                 | _ \<Rightarrow> None)))"

definition mid_hermes_ll_token_destroy :: "token_ptr option \<Rightarrow> status \<times> token_ptr option" where
  "mid_hermes_ll_token_destroy t =
     (case t of Some (Some _) \<Rightarrow> (HM_SUCCESS, Some None) | _ \<Rightarrow> (HM_INVALID_PARAMETER, t))"

subsection \<open>Tokens in the key store\<close>

text \<open>\<^verbatim>\<open>is_update\<close> selects the write token.\<close>

definition get_token_fn :: "'k hermes_key_store \<Rightarrow> bool \<Rightarrow> cbuf \<Rightarrow> cbuf \<Rightarrow> ('k, status + bytes \<times> bytes) act" where
  "get_token_fn ks is_update = (if is_update then ks_get_wtoken ks else ks_get_rtoken ks)"

definition set_token_fn :: "'k hermes_key_store \<Rightarrow> bool \<Rightarrow> cbuf \<Rightarrow> cbuf \<Rightarrow> cbuf \<Rightarrow> cbuf \<Rightarrow> ('k, status) act" where
  "set_token_fn ks is_update = (if is_update then ks_set_wtoken ks else ks_set_rtoken ks)"

definition mid_hermes_ll_token_load_c ::
    "cbuf \<Rightarrow> cbuf \<Rightarrow> 'k hermes_key_store option \<Rightarrow> 'c hermes_credential_store option \<Rightarrow> bool \<Rightarrow>
     (('r, 'k, 'd, 'c) world, token_ptr) act" where
  "mid_hermes_ll_token_load_c uid block_id key_store credential_store is_update =
     (if absent uid \<or> absent block_id \<or> key_store = None \<or> credential_store = None then act_ret None
      else act_ok (on_keys (get_token_fn (the key_store) is_update uid block_id)) (\<lambda>(token, ownerid).
        act_some (on_creds (mid_hermes_ll_user_load_c uid credential_store)) (\<lambda>user.
        act_some (on_creds (mid_hermes_ll_user_load
            (Some (mid_hermes_ll_buffer_create (Some ownerid))) credential_store)) (\<lambda>owner.
        act_ret (mid_hermes_ll_token_create (Some user) (Some owner)
          (Some (mid_hermes_ll_buffer_create (Some token))))))))"

definition mid_hermes_ll_rtoken_load_c ::
    "cbuf \<Rightarrow> cbuf \<Rightarrow> 'k hermes_key_store option \<Rightarrow> 'c hermes_credential_store option \<Rightarrow>
     (('r, 'k, 'd, 'c) world, token_ptr) act" where
  "mid_hermes_ll_rtoken_load_c uid block_id key_store credential_store =
     mid_hermes_ll_token_load_c uid block_id key_store credential_store False"

definition mid_hermes_ll_wtoken_load_c ::
    "cbuf \<Rightarrow> cbuf \<Rightarrow> 'k hermes_key_store option \<Rightarrow> 'c hermes_credential_store option \<Rightarrow>
     (('r, 'k, 'd, 'c) world, token_ptr) act" where
  "mid_hermes_ll_wtoken_load_c uid block_id key_store credential_store =
     mid_hermes_ll_token_load_c uid block_id key_store credential_store True"

definition mid_hermes_ll_token_save ::
    "user_ptr \<Rightarrow> buffer_ptr \<Rightarrow> token_ptr \<Rightarrow> 'k hermes_key_store option \<Rightarrow> bool \<Rightarrow> ('k, status) act" where
  "mid_hermes_ll_token_save user block_id token key_store is_update =
     (if user = None \<or> block_id = None \<or> token = None \<or> key_store = None then act_ret HM_FAIL
      else (case (key_of user_id (token_user (the token)), key_of user_id (token_owner (the token)),
                  token_data (the token)) of
              (Some uid, Some oid, Some d) \<Rightarrow>
                set_token_fn (the key_store) is_update uid (bdata (the block_id)) (bdata d) oid
            | _ \<Rightarrow> act_undefined))"

definition mid_hermes_ll_token_del ::
    "user_ptr \<Rightarrow> user_ptr \<Rightarrow> buffer_ptr \<Rightarrow> 'k hermes_key_store option \<Rightarrow> bool \<Rightarrow> ('k, status) act" where
  "mid_hermes_ll_token_del user owner bl_id key_store is_update =
     (if user = None \<or> bl_id = None \<or> key_store = None then act_ret HM_FAIL
      else (case (key_of user_id user, key_of user_id owner) of
              (Some uid, Some oid) \<Rightarrow>
                act_bind (ks_set_wtoken (the key_store) uid (bdata (the bl_id)) None oid) (\<lambda>res.
                  if \<not> is_update then ks_set_rtoken (the key_store) uid (bdata (the bl_id)) None oid
                  else act_ret res)
            | _ \<Rightarrow> act_undefined))"

subsection \<open>Tokens that open\<close>

definition token_opens :: "('r, 'h) themis \<Rightarrow> token_ptr \<Rightarrow> bytes \<Rightarrow> bool" where
  "token_opens T token k \<longleftrightarrow> mid_hermes_ll_token_get_data T token = Some (Some \<lparr>bdata = Some k\<rparr>)"

lemma token_opensD: "token_opens T token k \<Longrightarrow>
    mid_hermes_ll_token_get_data T token = Some (Some \<lparr>bdata = Some k\<rparr>)"
  by (simp add: token_opens_def)

lemma key_of_simps [simp]:
  "key_of f None = None" "key_of f (Some u) = map_option bdata (f u)"
  by (simp_all add: key_of_def)

text \<open>The token a local user \<open>i\<close>, \<open>sk\<close>, \<open>pk\<close> wraps for the user \<open>for\<close>.\<close>

definition wrapped_for :: "mid_hermes_ll_user \<Rightarrow> mid_hermes_ll_user \<Rightarrow> bytes \<Rightarrow> mid_hermes_ll_token" where
  "wrapped_for u owner e =
     \<lparr>token_user = Some u, token_owner = Some owner, token_data = Some \<lparr>bdata = Some e\<rparr>\<rparr>"

lemma wrapped_sel [simp]:
  "token_user (wrapped_for u w e) = Some u" "token_owner (wrapped_for u w e) = Some w"
  "token_data (wrapped_for u w e) = Some \<lparr>bdata = Some e\<rparr>"
  by (simp_all add: wrapped_for_def)

lemma opens_wrapped:
  assumes "wraps T key_pair" "key_pair sk pk" "key_pair sk' pk'" "sk' \<noteq> []" "pk \<noteq> []"
    and "hm_asym_encrypt T (Some sk) (Some pk') (Some k) True r = (Inr e, r')"
    and "user_sk u = Some \<lparr>bdata = Some sk'\<rparr>" "user_pk w = Some \<lparr>bdata = Some pk\<rparr>"
  shows "token_opens T (Some (wrapped_for u w e)) k"
  using asym_encrypt_decrypt(1) [OF assms(1-6)] assms(7,8)
  by (simp add: token_opens_def mid_hermes_ll_token_get_data_def mid_hermes_ll_buffer_create_def)

lemma opens_generated:
  assumes "wraps T key_pair" "key_pair sk pk" "sk \<noteq> []" "pk \<noteq> []"
    and "mid_hermes_ll_token_generate T (Some (local_user i sk pk)) r = Some (Some t, r')"
  shows "\<exists>k e r0. soter_rand T HM_TOKEN_LEN r = (THEMIS_SUCCESS, k, r0) \<and> k \<noteq> [] \<and> e \<noteq> [] \<and>
    hm_asym_encrypt T (Some sk) (Some pk) (Some k) True r0 = (Inr e, r') \<and>
    t = wrapped_for (local_user i sk pk) (local_user i sk pk) e \<and> token_opens T (Some t) k"
proof -
  obtain k e r0 where k: "soter_rand T HM_TOKEN_LEN r = (THEMIS_SUCCESS, k, r0)"
    and e: "hm_asym_encrypt T (Some sk) (Some pk) (Some k) True r0 = (Inr e, r')"
    and t: "t = wrapped_for (local_user i sk pk) (local_user i sk pk) e"
    using assms(5)
    by (auto simp: mid_hermes_ll_token_generate_def mid_hermes_ll_token_create_def wrapped_for_def
        mid_hermes_ll_buffer_create_def split: if_splits prod.splits sum.splits)
  show ?thesis
    using k t e asym_encrypt_decrypt(2,3) [OF assms(1,2,2,3,4) e] opens_wrapped [OF assms(1,2,2,3,4) e]
    by auto
qed

lemma token_for_user_run:
  assumes "token_opens T (Some t) k" "token_user t = Some (local_user i sk pk)" "i \<noteq> []" "pk \<noteq> []"
    and "user_pk u = Some \<lparr>bdata = Some pk'\<rparr>"
  shows "mid_hermes_ll_token_get_token_for_user T (Some t) (Some u) r =
    (case hm_asym_encrypt T (Some sk) (Some pk') (Some k) True r of
       (Inl _, r) \<Rightarrow> Some (None, r)
     | (Inr e, r) \<Rightarrow> Some (Some (wrapped_for u (local_user i sk pk) e), r))"
  using assms
  by (auto simp: mid_hermes_ll_token_get_token_for_user_def token_opensD user_copy_eq wrapped_for_def
      mid_hermes_ll_token_create_def mid_hermes_ll_buffer_create_def split: prod.splits sum.splits)

end
