(* ===== verification/Ll_Rights_List.thy ===== *)
theory Ll_Rights_List
  imports Ll_Token
begin

section \<open>Rights lists\<close>

text \<open>
  \<^verbatim>\<open>src/mid_hermes_ll/mid_hermes_ll_rights_list.c\<close>: a doubly linked list of the users of a block
  with their tokens.  The nodes live in a heap of cells at numbered addresses, where they are
  changed in place; \<open>brk\<close> is the next address \<^verbatim>\<open>calloc\<close> gives.  Reading through NULL or through a
  freed cell has no defined result.

  \<open>represents c l as\<close> says that \<open>l\<close> is a well-formed list of the cells at the addresses \<open>as\<close>.  The
  lemmas show that pushing, removing, finding and iterating implement the operations on the list of
  entries.  Popping the only node leaves \<^verbatim>\<open>head\<close> on it, so the result is no longer well formed
  although its length is 0 (\<open>rpop_last_dangles\<close>); pushing on it makes it well formed again.
\<close>

subsection \<open>Nodes and heap\<close>

record rights_entry =
  re_user :: user_ptr
  re_rtoken :: token_ptr
  re_wtoken :: token_ptr

type_synonym addr = nat

record mid_hermes_ll_rights_list_node = rights_entry +
  node_prev :: "addr option"
  node_next :: "addr option"

type_synonym cells = "addr \<Rightarrow> mid_hermes_ll_rights_list_node option"

record rights_heap =
  cells :: cells
  brk :: addr

record mid_hermes_ll_rights_list =
  rl_head :: "addr option"
  rl_tail :: "addr option"
  rl_len :: nat

text \<open>\<^verbatim>\<open>++len\<close> and \<^verbatim>\<open>--len\<close> of a 64-bit \<^verbatim>\<open>size_t\<close>.\<close>

definition inc_len :: "nat \<Rightarrow> nat" where "inc_len n = Suc n mod 2 ^ 64"
definition dec_len :: "nat \<Rightarrow> nat" where "dec_len n = (n + (2 ^ 64 - 1)) mod 2 ^ 64"

text \<open>\<^verbatim>\<open>p->field = v\<close>\<close>

definition store :: "cells \<Rightarrow> addr option \<Rightarrow>
    (mid_hermes_ll_rights_list_node \<Rightarrow> mid_hermes_ll_rights_list_node) \<Rightarrow> cells option" where
  "store c p f = (case p of None \<Rightarrow> None | Some a \<Rightarrow>
     (case c a of None \<Rightarrow> None | Some n \<Rightarrow> Some (c(a \<mapsto> f n))))"

definition fetch :: "cells \<Rightarrow> addr option \<Rightarrow> mid_hermes_ll_rights_list_node option" where
  "fetch c p = (case p of None \<Rightarrow> None | Some a \<Rightarrow> c a)"

subsection \<open>Operations\<close>

definition mid_hermes_ll_rights_list_node_create ::
    "rights_heap \<Rightarrow> user_ptr \<Rightarrow> token_ptr \<Rightarrow> token_ptr \<Rightarrow> addr option \<times> rights_heap" where
  "mid_hermes_ll_rights_list_node_create h user read_token write_token =
     (if user = None \<or> read_token = None then (None, h)
      else (Some (brk h),
        h\<lparr>cells := (cells h)(brk h \<mapsto>
            \<lparr>re_user = user, re_rtoken = read_token, re_wtoken = write_token,
             node_prev = None, node_next = None\<rparr>),
          brk := Suc (brk h)\<rparr>))"

definition mid_hermes_ll_rights_list_node_destroy :: "cells \<Rightarrow> addr option \<Rightarrow> (status \<times> cells) option" where
  "mid_hermes_ll_rights_list_node_destroy c p =
     (case p of
        None \<Rightarrow> Some (HM_INVALID_PARAMETER, c)
      | Some a \<Rightarrow> (case c a of None \<Rightarrow> None | Some _ \<Rightarrow> Some (HM_SUCCESS, c(a := None))))"

definition mid_hermes_ll_rights_list_create :: "mid_hermes_ll_rights_list" where
  "mid_hermes_ll_rights_list_create = \<lparr>rl_head = None, rl_tail = None, rl_len = 0\<rparr>"

definition mid_hermes_ll_rights_list_rpush ::
    "cells \<Rightarrow> mid_hermes_ll_rights_list option \<Rightarrow> addr option \<Rightarrow>
     (status \<times> cells \<times> mid_hermes_ll_rights_list option) option" where
  "mid_hermes_ll_rights_list_rpush c rights_list rights_node =
     (case (rights_list, rights_node) of
        (Some l, Some a) \<Rightarrow>
          if rl_len l \<noteq> 0 then
            Option.bind (store c (Some a) (\<lambda>n. n\<lparr>node_prev := rl_tail l, node_next := None\<rparr>)) (\<lambda>c.
            Option.bind (store c (rl_tail l) (\<lambda>n. n\<lparr>node_next := Some a\<rparr>)) (\<lambda>c.
            Some (HM_SUCCESS, c, Some (l\<lparr>rl_tail := Some a, rl_len := inc_len (rl_len l)\<rparr>))))
          else
            Option.bind (store c (Some a) (\<lambda>n. n\<lparr>node_prev := None, node_next := None\<rparr>)) (\<lambda>c.
            Some (HM_SUCCESS, c, Some (l\<lparr>rl_head := Some a, rl_tail := Some a, rl_len := inc_len (rl_len l)\<rparr>)))
      | _ \<Rightarrow> Some (HM_INVALID_PARAMETER, c, rights_list))"

definition mid_hermes_ll_rights_list_rpush_val ::
    "rights_heap \<Rightarrow> mid_hermes_ll_rights_list option \<Rightarrow> user_ptr \<Rightarrow> token_ptr \<Rightarrow> token_ptr \<Rightarrow>
     (status \<times> rights_heap \<times> mid_hermes_ll_rights_list option) option" where
  "mid_hermes_ll_rights_list_rpush_val h rights_list user read_token write_token =
     (case mid_hermes_ll_rights_list_node_create h user read_token write_token of
        (node, h) \<Rightarrow> map_option (\<lambda>(st, c, l). (st, h\<lparr>cells := c\<rparr>, l))
          (mid_hermes_ll_rights_list_rpush (cells h) rights_list node))"

definition mid_hermes_ll_rights_list_rpop ::
    "cells \<Rightarrow> mid_hermes_ll_rights_list option \<Rightarrow>
     (addr option \<times> cells \<times> mid_hermes_ll_rights_list option) option" where
  "mid_hermes_ll_rights_list_rpop c rights_list =
     (case rights_list of
        None \<Rightarrow> Some (None, c, None)
      | Some l \<Rightarrow>
          if rl_len l = 0 then Some (None, c, Some l)
          else let node = rl_tail l; l = l\<lparr>rl_len := dec_len (rl_len l)\<rparr> in
            if rl_len l \<noteq> 0 then
              Option.bind (fetch c node) (\<lambda>n.
              Option.bind (store c (node_prev n) (\<lambda>m. m\<lparr>node_next := None\<rparr>)) (\<lambda>c.
              Option.bind (store c node (\<lambda>m. m\<lparr>node_prev := None, node_next := None\<rparr>)) (\<lambda>c.
              Some (node, c, Some (l\<lparr>rl_tail := node_prev n\<rparr>)))))
            else
              Option.bind (store c node (\<lambda>m. m\<lparr>node_prev := None\<rparr>)) (\<lambda>c.
              Option.bind (store c node (\<lambda>m. m\<lparr>node_prev := None, node_next := None\<rparr>)) (\<lambda>c.
              Some (node, c, Some (l\<lparr>rl_tail := None\<rparr>)))))"

definition mid_hermes_ll_rights_list_remove ::
    "cells \<Rightarrow> mid_hermes_ll_rights_list option \<Rightarrow> addr option \<Rightarrow>
     (status \<times> cells \<times> mid_hermes_ll_rights_list option) option" where
  "mid_hermes_ll_rights_list_remove c rights_list rights_node =
     (case (rights_list, rights_node) of
        (Some l, Some a) \<Rightarrow>
          Option.bind (fetch c (Some a)) (\<lambda>n.
          Option.bind (if node_prev n = None then Some c
                       else store c (node_prev n) (\<lambda>m. m\<lparr>node_next := node_next n\<rparr>)) (\<lambda>c.
          Option.bind (if node_next n = None then Some c
                       else store c (node_next n) (\<lambda>m. m\<lparr>node_prev := node_prev n\<rparr>)) (\<lambda>c.
          Option.bind (mid_hermes_ll_rights_list_node_destroy c (Some a)) (\<lambda>(_, c).
          Some (HM_SUCCESS, c,
            Some (l\<lparr>rl_head := (if node_prev n = None then node_next n else rl_head l),
                   rl_tail := (if node_next n = None then node_prev n else rl_tail l),
                   rl_len := dec_len (rl_len l)\<rparr>))))))
      | _ \<Rightarrow> Some (HM_INVALID_PARAMETER, c, rights_list))"

text \<open>The iterator is the address of the next node; \<open>None\<close> as a whole is a NULL iterator.\<close>

definition mid_hermes_ll_rights_list_iterator_create ::
    "mid_hermes_ll_rights_list option \<Rightarrow> addr option option" where
  "mid_hermes_ll_rights_list_iterator_create rights_list = map_option rl_head rights_list"

definition mid_hermes_ll_rights_list_iterator_next ::
    "cells \<Rightarrow> addr option option \<Rightarrow> (addr option \<times> addr option option) option" where
  "mid_hermes_ll_rights_list_iterator_next c i =
     (case i of
        None \<Rightarrow> Some (None, None)
      | Some None \<Rightarrow> Some (None, Some None)
      | Some (Some a) \<Rightarrow> map_option (\<lambda>n. (Some a, Some (node_next n))) (c a))"

text \<open>\<open>fuel\<close> bounds the number of nodes visited; the length of the list plus one is enough.\<close>

fun find_loop :: "nat \<Rightarrow> cells \<Rightarrow> addr option option \<Rightarrow> mid_hermes_ll_buffer \<Rightarrow> addr option option" where
  "find_loop 0 c i uid = None"
| "find_loop (Suc fuel) c i uid =
     Option.bind (mid_hermes_ll_rights_list_iterator_next c i) (\<lambda>(node, i).
       case node of
         None \<Rightarrow> Some None
       | Some a \<Rightarrow>
           Option.bind (Option.bind (c a) (\<lambda>n. key_of user_id (re_user n))) (\<lambda>nid.
             if length (case_option [] (\<lambda>d. d) nid) = buffer_length uid \<and>
                c_memcmp (case_option [] (\<lambda>d. d) nid) (case_option [] (\<lambda>d. d) (bdata uid)) (buffer_length uid) = Some 0
             then Some (Some a) else find_loop fuel c i uid))"

definition mid_hermes_ll_rights_list_find ::
    "nat \<Rightarrow> cells \<Rightarrow> mid_hermes_ll_rights_list option \<Rightarrow> buffer_ptr \<Rightarrow> addr option option" where
  "mid_hermes_ll_rights_list_find fuel c rights_list uid =
     (if rights_list = None \<or> uid = None \<or> buffer_length (the uid) = 0 then Some None
      else find_loop fuel c (mid_hermes_ll_rights_list_iterator_create rights_list) (the uid))"

fun destroy_loop :: "nat \<Rightarrow> cells \<Rightarrow> addr option \<Rightarrow> cells option" where
  "destroy_loop 0 c current = Some c"
| "destroy_loop (Suc n) c current =
     Option.bind (fetch c current) (\<lambda>nd.
     Option.bind (mid_hermes_ll_rights_list_node_destroy c current) (\<lambda>(_, c).
     destroy_loop n c (node_next nd)))"

definition mid_hermes_ll_rights_list_destroy ::
    "cells \<Rightarrow> mid_hermes_ll_rights_list option option \<Rightarrow>
     (status \<times> cells \<times> mid_hermes_ll_rights_list option option) option" where
  "mid_hermes_ll_rights_list_destroy c rights_list =
     (case rights_list of
        Some (Some l) \<Rightarrow>
          map_option (\<lambda>c. (HM_SUCCESS, c, Some None)) (destroy_loop (rl_len l) c (rl_head l))
      | _ \<Rightarrow> Some (HM_INVALID_PARAMETER, c, rights_list))"

text \<open>The entries an iteration over the list yields, with the same bound.\<close>

fun iterate :: "nat \<Rightarrow> cells \<Rightarrow> addr option option \<Rightarrow> rights_entry list option" where
  "iterate 0 c i = None"
| "iterate (Suc fuel) c i =
     Option.bind (mid_hermes_ll_rights_list_iterator_next c i) (\<lambda>(node, i).
       case node of
         None \<Rightarrow> Some []
       | Some a \<Rightarrow> Option.bind (c a) (\<lambda>n. map_option (Cons (rights_entry.truncate n)) (iterate fuel c i)))"

subsection \<open>Well-formed lists\<close>

fun dll :: "cells \<Rightarrow> addr option \<Rightarrow> addr option \<Rightarrow> addr list \<Rightarrow> addr option \<Rightarrow> bool" where
  "dll c p cur [] q \<longleftrightarrow> cur = q"
| "dll c p cur (a # as) q \<longleftrightarrow> cur = Some a \<and>
     (case c a of None \<Rightarrow> False | Some n \<Rightarrow> node_prev n = p \<and> dll c (Some a) (node_next n) as q)"

definition last_addr :: "addr option \<Rightarrow> addr list \<Rightarrow> addr option" where
  "last_addr p as = (if as = [] then p else Some (last as))"

definition represents :: "cells \<Rightarrow> mid_hermes_ll_rights_list \<Rightarrow> addr list \<Rightarrow> bool" where
  "represents c l as \<longleftrightarrow> dll c None (rl_head l) as None \<and> rl_tail l = last_addr None as \<and>
     rl_len l = length as \<and> distinct as \<and> length as < 2 ^ 64"

definition entries :: "cells \<Rightarrow> addr list \<Rightarrow> rights_entry list" where
  "entries c as = map (\<lambda>a. rights_entry.truncate (the (c a))) as"

lemma len_simps [simp]:
  "Suc n < 2 ^ 64 \<Longrightarrow> inc_len n = Suc n" "0 < n \<Longrightarrow> n < 2 ^ 64 \<Longrightarrow> dec_len n = n - 1"
proof -
  show "Suc n < 2 ^ 64 \<Longrightarrow> inc_len n = Suc n" by (simp add: inc_len_def)
  assume n: "0 < n" "n < 2 ^ 64"
  then have "n + (2 ^ 64 - 1) = (n - 1) + 2 ^ 64" by simp
  then have "dec_len n = (n - 1) mod 2 ^ 64" by (simp only: dec_len_def mod_add_self2)
  then show "dec_len n = n - 1" using n by simp
qed

lemma last_addr_simps [simp]:
  "last_addr p [] = p" "last_addr p (a # as) = last_addr (Some a) as"
  "last_addr p (as @ bs) = last_addr (last_addr p as) bs"
  by (auto simp: last_addr_def)

lemma dll_append:
  "dll c p cur (as @ bs) q \<longleftrightarrow> (\<exists>m. dll c p cur as m \<and> dll c (last_addr p as) m bs q)"
  by (induction as arbitrary: p cur) (auto split: option.splits)

lemma dll_Some: "dll c p cur as q \<Longrightarrow> a \<in> set as \<Longrightarrow> \<exists>n. c a = Some n"
  by (induction as arbitrary: p cur) (auto split: option.splits)

lemma dll_cong: "(\<And>a. a \<in> set as \<Longrightarrow> c' a = c a) \<Longrightarrow> dll c' p cur as q = dll c p cur as q"
  by (induction as arbitrary: p cur) (auto split: option.splits)

lemma dll_upd [simp]: "a \<notin> set as \<Longrightarrow> dll (c(a := x)) p cur as q = dll c p cur as q"
  by (rule dll_cong) auto

lemma entries_upd [simp]: "a \<notin> set as \<Longrightarrow> entries (c(a := x)) as = entries c as"
  by (auto simp: entries_def)

lemma truncate_links [simp]:
  "rights_entry.truncate (n\<lparr>node_prev := p\<rparr>) = rights_entry.truncate n"
  "rights_entry.truncate (n\<lparr>node_next := q\<rparr>) = rights_entry.truncate n"
  by (simp_all add: rights_entry.truncate_def)

lemma store_Some [simp]: "c a = Some n \<Longrightarrow> store c (Some a) f = Some (c(a \<mapsto> f n))"
  by (simp add: store_def)

lemma fetch_Some [simp]: "fetch c (Some a) = c a"
  by (simp add: fetch_def)

text \<open>The empty list.\<close>

lemma create_represents: "represents c mid_hermes_ll_rights_list_create []"
  by (simp add: represents_def mid_hermes_ll_rights_list_create_def)

text \<open>Iterating yields the entries in order.\<close>

lemma iterate_dll:
  "dll c p cur as None \<Longrightarrow> length as < fuel \<Longrightarrow> iterate fuel c (Some cur) = Some (entries c as)"
proof (induction as arbitrary: fuel p cur)
  case Nil
  then show ?case
    by (cases fuel) (auto simp: mid_hermes_ll_rights_list_iterator_next_def entries_def)
next
  case (Cons a as)
  then obtain f where "fuel = Suc f" by (cases fuel) auto
  with Cons show ?case
    by (auto simp: mid_hermes_ll_rights_list_iterator_next_def entries_def split: option.splits)
qed

lemma iterate_represents:
  "represents c l as \<Longrightarrow> length as < fuel \<Longrightarrow>
   iterate fuel c (mid_hermes_ll_rights_list_iterator_create (Some l)) = Some (entries c as)"
  by (auto simp: represents_def mid_hermes_ll_rights_list_iterator_create_def intro: iterate_dll)

text \<open>Pushing a fresh node.\<close>

lemma rpush_represents:
  assumes "represents c l as" "c a = Some n" "a \<notin> set as" "Suc (length as) < 2 ^ 64"
  shows "\<exists>c' l'. mid_hermes_ll_rights_list_rpush c (Some l) (Some a) = Some (HM_SUCCESS, c', Some l') \<and>
    represents c' l' (as @ [a]) \<and> entries c' (as @ [a]) = entries c (as @ [a]) \<and>
    (\<forall>b. b \<notin> set (as @ [a]) \<longrightarrow> c' b = c b)"
proof (cases as rule: rev_cases)
  case Nil
  with assms show ?thesis
    by (auto simp: represents_def mid_hermes_ll_rights_list_rpush_def entries_def)
next
  case (snoc bs b)
  have d: "dll c None (rl_head l) (bs @ [b]) None" "distinct (bs @ [b])" "rl_tail l = Some b"
    using assms(1) snoc by (auto simp: represents_def)
  then obtain m where m: "c b = Some m" using dll_Some [of c None "rl_head l" "bs @ [b]" None b] by auto
  have ab: "a \<noteq> b" using assms(3) snoc by auto
  let ?c = "c(a \<mapsto> n\<lparr>node_prev := Some b, node_next := None\<rparr>, b \<mapsto> m\<lparr>node_next := Some a\<rparr>)"
  have "mid_hermes_ll_rights_list_rpush c (Some l) (Some a) =
      Some (HM_SUCCESS, ?c, Some (l\<lparr>rl_tail := Some a, rl_len := Suc (rl_len l)\<rparr>))"
    using assms d m ab snoc by (simp add: mid_hermes_ll_rights_list_rpush_def represents_def)
  moreover have "dll ?c None (rl_head l) ((bs @ [b]) @ [a]) None"
    using d m ab assms(3) snoc by (auto simp: dll_append)
  moreover have "entries ?c (as @ [a]) = entries c (as @ [a])"
    using assms(2,3) snoc m ab by (auto simp: entries_def)
  moreover have "represents ?c (l\<lparr>rl_tail := Some a, rl_len := Suc (rl_len l)\<rparr>) (as @ [a])"
    using assms calculation(2) snoc by (auto simp: represents_def)
  moreover have "\<forall>x. x \<notin> set (as @ [a]) \<longrightarrow> ?c x = c x"
    using snoc by auto
  ultimately show ?thesis by blast
qed

text \<open>Removing any node.\<close>

lemma split_here:
  assumes "dll c None h (as @ a # bs) None"
  obtains n where "c a = Some n" "dll c None h as (Some a)" "node_prev n = last_addr None as"
    "dll c (Some a) (node_next n) bs None"
  using assms by (auto simp: dll_append split: option.splits)

text \<open>Redirecting the pointer out of a segment, or the pointer back into one.\<close>

lemma dll_redirect_out:
  assumes "dll c p cur as q" "as \<noteq> []" "distinct as" "c (last as) = Some n"
  shows "dll (c(last as \<mapsto> n\<lparr>node_next := q'\<rparr>)) p cur as q'"
  using assms
proof (induction as arbitrary: p cur)
  case (Cons a as)
  show ?case
  proof (cases "as = []")
    case False
    then have "last as \<noteq> a" using Cons.prems(3) by auto
    then show ?thesis using Cons False by (auto split: option.splits)
  qed (use Cons in auto)
qed simp

lemma dll_redirect_in:
  assumes "dll c p (Some b) (b # bs) q" "distinct (b # bs)" "c b = Some n"
  shows "dll (c(b \<mapsto> n\<lparr>node_prev := p'\<rparr>)) p' (Some b) (b # bs) q"
  using assms by auto

lemma dll_out_head:
  "dll c p cur as q \<Longrightarrow> as \<noteq> [] \<Longrightarrow> \<exists>n. c (last as) = Some n \<and> cur = Some (hd as)"
  using dll_Some [of c p cur as q "last as"] by (cases as) auto

lemma unlink_before:
  assumes "dll c None h as q" "distinct as"
  shows "\<exists>c1. (if last_addr None as = None then Some c
        else store c (last_addr None as) (\<lambda>m. m\<lparr>node_next := x\<rparr>)) = Some c1 \<and>
      dll c1 None (if last_addr None as = None then x else h) as x \<and>
      (\<forall>b. b \<notin> set as \<longrightarrow> c1 b = c b) \<and> entries c1 as = entries c as"
proof (cases "as = []")
  case True
  then show ?thesis by (simp add: entries_def)
next
  case False
  then obtain n where n: "c (last as) = Some n" using dll_out_head [OF assms(1)] by auto
  have "dll (c(last as \<mapsto> n\<lparr>node_next := x\<rparr>)) None h as x"
    by (rule dll_redirect_out) (use assms False n in auto)
  then show ?thesis
    using False n by (auto simp: last_addr_def entries_def)
qed

lemma unlink_after:
  assumes "dll c p nx bs None" "distinct bs"
  shows "\<exists>c2. (if nx = None then Some c else store c nx (\<lambda>m. m\<lparr>node_prev := p'\<rparr>)) = Some c2 \<and>
      dll c2 p' nx bs None \<and> (\<forall>b. b \<notin> set bs \<longrightarrow> c2 b = c b) \<and> entries c2 bs = entries c bs"
proof (cases bs)
  case Nil
  then show ?thesis using assms by (simp add: entries_def)
next
  case (Cons b bs')
  then obtain n where n: "c b = Some n" "nx = Some b" using assms(1) by (auto split: option.splits)
  show ?thesis
    by (rule exI [where x = "c(b \<mapsto> n\<lparr>node_prev := p'\<rparr>)"]) (use Cons assms n in \<open>auto simp: entries_def\<close>)
qed

lemma remove_represents:
  assumes "represents c l (as @ a # bs)"
  shows "\<exists>c' l'. mid_hermes_ll_rights_list_remove c (Some l) (Some a) = Some (HM_SUCCESS, c', Some l') \<and>
    represents c' l' (as @ bs) \<and> entries c' (as @ bs) = entries c (as @ bs) \<and> c' a = None"
proof -
  have d: "dll c None (rl_head l) (as @ a # bs) None" "distinct (as @ a # bs)"
    "rl_tail l = last_addr None (as @ a # bs)" "rl_len l = length (as @ a # bs)"
    "length (as @ a # bs) < 2 ^ 64"
    using assms unfolding represents_def by blast+
  obtain n where n: "c a = Some n" "dll c None (rl_head l) as (Some a)" "node_prev n = last_addr None as"
    "dll c (Some a) (node_next n) bs None"
    by (rule split_here [OF d(1)])
  have das: "distinct as" and dbs: "distinct bs" using d(2) by simp_all
  obtain c1 where c1: "(if node_prev n = None then Some c
        else store c (node_prev n) (\<lambda>m. m\<lparr>node_next := node_next n\<rparr>)) = Some c1"
      "dll c1 None (if node_prev n = None then node_next n else rl_head l) as (node_next n)"
      "\<forall>b. b \<notin> set as \<longrightarrow> c1 b = c b" "entries c1 as = entries c as"
    using unlink_before [OF n(2) das, of "node_next n"] unfolding n(3) [symmetric] by blast
  have "dll c1 (Some a) (node_next n) bs None"
    using n(4) c1(3) d(2) dll_cong [of bs c1 c] by fastforce
  then obtain c2 where c2: "(if node_next n = None then Some c1
        else store c1 (node_next n) (\<lambda>m. m\<lparr>node_prev := node_prev n\<rparr>)) = Some c2"
      "dll c2 (node_prev n) (node_next n) bs None"
      "\<forall>b. b \<notin> set bs \<longrightarrow> c2 b = c1 b" "entries c2 bs = entries c1 bs"
    using unlink_after [OF _ dbs, of c1 "Some a" "node_next n" "node_prev n"] by blast
  have c2a: "c2 a = Some n" using c1(3) c2(3) d(2) n(1) by auto
  have as2: "dll c2 None (if node_prev n = None then node_next n else rl_head l) as (node_next n)"
    using c1(2) c2(3) d(2) dll_cong [of as c2 c1] by fastforce
  define l' where "l' = l\<lparr>rl_head := (if node_prev n = None then node_next n else rl_head l),
      rl_tail := (if node_next n = None then node_prev n else rl_tail l), rl_len := dec_len (rl_len l)\<rparr>"
  have run: "mid_hermes_ll_rights_list_remove c (Some l) (Some a) = Some (HM_SUCCESS, c2(a := None), Some l')"
    using n(1) c1(1) c2(1) c2a
    by (simp add: mid_hermes_ll_rights_list_remove_def mid_hermes_ll_rights_list_node_destroy_def l'_def)
  have "dll (c2(a := None)) None (rl_head l') (as @ bs) None"
    using as2 c2(2) d(2) n(3) by (auto simp: dll_append l'_def)
  moreover have "node_next n = None \<longleftrightarrow> bs = []"
    using n(4) by (cases bs) auto
  ultimately have "represents (c2(a := None)) l' (as @ bs)"
    using d n(3) by (cases bs rule: rev_cases) (auto simp: represents_def l'_def)
  moreover have "entries (c2(a := None)) (as @ bs) = entries c (as @ bs)"
    using c1(3,4) c2(3,4) d(2) by (auto simp: entries_def)
  ultimately show ?thesis using run by auto
qed

text \<open>Destroying frees the cells of the list and no others.\<close>

lemma destroy_loop_dll:
  "dll c p cur as None \<Longrightarrow> distinct as \<Longrightarrow>
   destroy_loop (length as) c cur = Some (\<lambda>a. if a \<in> set as then None else c a)"
proof (induction as arbitrary: c p cur)
  case (Cons a as)
  then obtain n where n: "c a = Some n" "dll c (Some a) (node_next n) as None" "cur = Some a"
    by (auto split: option.splits)
  then have d: "dll (c(a := None)) (Some a) (node_next n) as None" using Cons.prems(2) by simp
  have "destroy_loop (length as) (c(a := None)) (node_next n) =
      Some (\<lambda>b. if b \<in> set as then None else (c(a := None)) b)"
    using Cons.IH [OF d] Cons.prems(2) by (simp del: fun_upd_apply)
  moreover have "(\<lambda>b. if b \<in> set as then None else (c(a := None)) b) =
      (\<lambda>b. if b \<in> set (a # as) then None else c b)"
    by auto
  ultimately show ?case
    using n by (simp add: mid_hermes_ll_rights_list_node_destroy_def del: fun_upd_apply)
qed auto

text \<open>Finding compares ids.\<close>

definition entry_id :: "rights_entry \<Rightarrow> bytes \<Rightarrow> bool" where
  "entry_id e i \<longleftrightarrow> (\<exists>u. re_user e = Some u \<and> user_id u = Some \<lparr>bdata = Some i\<rparr>)"

lemma truncate_sel [simp]:
  "re_user (rights_entry.truncate n) = re_user n" "re_rtoken (rights_entry.truncate n) = re_rtoken n"
  "re_wtoken (rights_entry.truncate n) = re_wtoken n"
  by (simp_all add: rights_entry.truncate_def)

lemma entries_Cons: "entries c (a # as) = rights_entry.truncate (the (c a)) # entries c as"
  by (simp add: entries_def)

lemma find_loop_dll:
  assumes "dll c p cur as None" "list_all2 entry_id (entries c as) ids" "length as < fuel"
  shows "find_loop fuel c (Some cur) \<lparr>bdata = Some uid\<rparr> =
    Some (map_option fst (find (\<lambda>(a, i). i = uid) (zip as ids)))"
  using assms
proof (induction as arbitrary: fuel p cur ids)
  case Nil
  then show ?case
    by (cases fuel) (auto simp: mid_hermes_ll_rights_list_iterator_next_def entries_def)
next
  case (Cons a as)
  from Cons.prems(3) obtain f where f: "fuel = Suc f" by (cases fuel) auto
  from Cons.prems(1) obtain n where n: "c a = Some n" "cur = Some a" "dll c (Some a) (node_next n) as None"
    by (auto split: option.splits)
  from Cons.prems(2) n obtain i js where js: "ids = i # js" "entry_id (rights_entry.truncate n) i"
      "list_all2 entry_id (entries c as) js"
    by (cases ids) (auto simp: entries_Cons)
  then obtain u where ids: "re_user n = Some u" "user_id u = Some \<lparr>bdata = Some i\<rparr>"
    by (auto simp: entry_id_def)
  have "find_loop f c (Some (node_next n)) \<lparr>bdata = Some uid\<rparr> =
      Some (map_option fst (find (\<lambda>(a, i). i = uid) (zip as js)))"
    using Cons.IH [OF n(3) js(3)] Cons.prems(3) f by simp
  then show ?case
    using f n ids js(1)
    by (cases "length i = length uid")
      (auto simp: mid_hermes_ll_rights_list_iterator_next_def buffer_length_def bytes_cmp_eq_0 c_memcmp_def)
qed

text \<open>Popping: the last of several nodes is unlinked; the only node leaves the head on it.\<close>

lemma rpop_represents:
  assumes "represents c l (as @ [b, a])"
  shows "\<exists>c' l'. mid_hermes_ll_rights_list_rpop c (Some l) = Some (Some a, c', Some l') \<and>
    represents c' l' (as @ [b]) \<and> entries c' (as @ [b]) = entries c (as @ [b])"
proof -
  have d: "dll c None (rl_head l) ((as @ [b]) @ [a]) None" "distinct (as @ [b, a])"
    "rl_tail l = Some a" "rl_len l = Suc (Suc (length as))" "Suc (Suc (length as)) < 2 ^ 64"
    using assms unfolding represents_def by auto
  then obtain n m where n: "c a = Some n" "c b = Some m" "node_prev n = Some b"
      "dll c None (rl_head l) (as @ [b]) (Some a)"
    by (auto simp: dll_append split: option.splits)
  let ?m = "m\<lparr>node_next := None\<rparr>" and ?n = "n\<lparr>node_prev := None, node_next := None\<rparr>"
  have "dll (c(b \<mapsto> ?m)) None (rl_head l) (as @ [b]) None"
    using dll_redirect_out [OF n(4), of m None] d(2) n(2) by simp
  then have "dll (c(b \<mapsto> ?m, a \<mapsto> ?n)) None (rl_head l) (as @ [b]) None"
    using d(2) by simp
  moreover have "mid_hermes_ll_rights_list_rpop c (Some l) =
      Some (Some a, c(b \<mapsto> ?m, a \<mapsto> ?n), Some (l\<lparr>rl_len := Suc (length as), rl_tail := Some b\<rparr>))"
    using d n by (simp add: mid_hermes_ll_rights_list_rpop_def Let_def)
  moreover have "entries (c(b \<mapsto> ?m, a \<mapsto> ?n)) (as @ [b]) = entries c (as @ [b])"
    using d(2) n by (auto simp: entries_def)
  ultimately show ?thesis
    using d(2,5) by (auto simp: represents_def)
qed

lemma rpop_last_dangles:
  assumes "represents c l [a]"
  shows "\<exists>c' l'. mid_hermes_ll_rights_list_rpop c (Some l) = Some (Some a, c', Some l') \<and>
    rl_len l' = 0 \<and> rl_head l' = Some a \<and> \<not> represents c' l' [] \<and>
    iterate (Suc (Suc 0)) c' (mid_hermes_ll_rights_list_iterator_create (Some l')) = Some (entries c [a])"
proof -
  from assms obtain n where n: "c a = Some n" "rl_head l = Some a" "rl_tail l = Some a" "rl_len l = 1"
    by (auto simp: represents_def split: option.splits)
  let ?c = "c(a \<mapsto> n\<lparr>node_prev := None, node_next := None\<rparr>)" and ?l = "l\<lparr>rl_len := 0, rl_tail := None\<rparr>"
  have "mid_hermes_ll_rights_list_rpop c (Some l) = Some (Some a, ?c, Some ?l)"
    using n by (simp add: mid_hermes_ll_rights_list_rpop_def Let_def)
  moreover have "iterate (Suc (Suc 0)) ?c (mid_hermes_ll_rights_list_iterator_create (Some ?l)) = Some (entries c [a])"
    using n by (simp add: mid_hermes_ll_rights_list_iterator_create_def
        mid_hermes_ll_rights_list_iterator_next_def entries_def)
  ultimately show ?thesis
    using n by (auto simp: represents_def)
qed

subsection \<open>Programs over a rights list\<close>

text \<open>
  A program pushes users with their tokens and removes the first node of a given user, found by its
  id.  \<open>rights_spec\<close> is what it does to the list of entries.
\<close>

datatype rights_op = RPush user_ptr token_ptr token_ptr | RRemove bytes

definition id_of :: "rights_entry \<Rightarrow> bytes" where
  "id_of e = the (bdata (the (user_id (the (re_user e)))))"

definition rights_step :: "rights_op \<Rightarrow> rights_heap \<times> mid_hermes_ll_rights_list \<Rightarrow>
    (rights_heap \<times> mid_hermes_ll_rights_list) option" where
  "rights_step op hl =
     (case (op, hl) of
        (RPush u rt wt, (h, l)) \<Rightarrow>
          map_option (\<lambda>(st, h, l). (h, the l)) (mid_hermes_ll_rights_list_rpush_val h (Some l) u rt wt)
      | (RRemove i, (h, l)) \<Rightarrow>
          Option.bind (mid_hermes_ll_rights_list_find (Suc (rl_len l)) (cells h) (Some l)
              (Some (mid_hermes_ll_buffer_create (Some i)))) (\<lambda>node.
          map_option (\<lambda>(st, c, l). (h\<lparr>cells := c\<rparr>, the l))
            (mid_hermes_ll_rights_list_remove (cells h) (Some l) node)))"

fun rights_run :: "rights_op list \<Rightarrow> rights_heap \<times> mid_hermes_ll_rights_list \<Rightarrow>
    (rights_heap \<times> mid_hermes_ll_rights_list) option" where
  "rights_run [] hl = Some hl"
| "rights_run (op # ops) hl = Option.bind (rights_step op hl) (rights_run ops)"

fun rights_spec_step :: "rights_op \<Rightarrow> rights_entry list \<Rightarrow> rights_entry list" where
  "rights_spec_step (RPush u rt wt) es =
     (if u = None \<or> rt = None then es else es @ [\<lparr>re_user = u, re_rtoken = rt, re_wtoken = wt\<rparr>])"
| "rights_spec_step (RRemove i) es =
     takeWhile (\<lambda>e. id_of e \<noteq> i) es @ drop 1 (dropWhile (\<lambda>e. id_of e \<noteq> i) es)"

fun rights_spec :: "rights_op list \<Rightarrow> rights_entry list \<Rightarrow> rights_entry list" where
  "rights_spec [] es = es"
| "rights_spec (op # ops) es = rights_spec ops (rights_spec_step op es)"

text \<open>Programs that push only users with an id and look for non-empty ids.\<close>

fun rights_op_ok :: "rights_op \<Rightarrow> bool" where
  "rights_op_ok (RPush u rt wt) \<longleftrightarrow> (case u of None \<Rightarrow> True | Some v \<Rightarrow>
     (case user_id v of None \<Rightarrow> False | Some b \<Rightarrow> bdata b \<noteq> None))"
| "rights_op_ok (RRemove i) \<longleftrightarrow> i \<noteq> []"

definition rights_inv :: "rights_heap \<times> mid_hermes_ll_rights_list \<Rightarrow> addr list \<Rightarrow> bool" where
  "rights_inv hl as \<longleftrightarrow> represents (cells (fst hl)) (snd hl) as \<and> (\<forall>a \<in> set as. a < brk (fst hl)) \<and>
     (\<forall>e \<in> set (entries (cells (fst hl)) as). entry_id e (id_of e))"

lemma push_step:
  assumes "rights_inv (h, l) as" "rights_op_ok (RPush u rt wt)" "Suc (length as) < 2 ^ 64"
  shows "\<exists>hl as'. rights_step (RPush u rt wt) (h, l) = Some hl \<and> rights_inv hl as' \<and>
    length as' \<le> Suc (length as) \<and>
    entries (cells (fst hl)) as' = rights_spec_step (RPush u rt wt) (entries (cells h) as)"
proof (cases "u = None \<or> rt = None")
  case True
  then show ?thesis
    using assms(1) by (auto simp: rights_step_def mid_hermes_ll_rights_list_rpush_val_def
        mid_hermes_ll_rights_list_node_create_def mid_hermes_ll_rights_list_rpush_def)
next
  case False
  let ?n = "\<lparr>re_user = u, re_rtoken = rt, re_wtoken = wt, node_prev = None, node_next = None\<rparr>"
  let ?c = "(cells h)(brk h \<mapsto> ?n)"
  have new: "brk h \<notin> set as" and r: "represents (cells h) l as"
    and ids: "\<forall>e \<in> set (entries (cells h) as). entry_id e (id_of e)"
    using assms(1) by (auto simp: rights_inv_def)
  have "represents ?c l as" using r new by (simp add: represents_def)
  then obtain c' l' where run: "mid_hermes_ll_rights_list_rpush ?c (Some l) (Some (brk h)) = Some (HM_SUCCESS, c', Some l')"
    and rep: "represents c' l' (as @ [brk h])" and e: "entries c' (as @ [brk h]) = entries ?c (as @ [brk h])"
    using rpush_represents [of ?c l as "brk h" ?n] new assms(3) by auto
  have en: "entries ?c (as @ [brk h]) = entries (cells h) as @ [\<lparr>re_user = u, re_rtoken = rt, re_wtoken = wt\<rparr>]"
    using new by (auto simp: entries_def rights_entry.truncate_def)
  have "entry_id \<lparr>re_user = u, re_rtoken = rt, re_wtoken = wt\<rparr> (id_of \<lparr>re_user = u, re_rtoken = rt, re_wtoken = wt\<rparr>)"
    using assms(2) False
    by (auto simp: entry_id_def id_of_def split: option.splits)
  then have "rights_inv (h\<lparr>cells := c', brk := Suc (brk h)\<rparr>, l') (as @ [brk h])"
    using rep e en ids assms(1) by (auto simp: rights_inv_def less_Suc_eq)
  moreover have "rights_step (RPush u rt wt) (h, l) = Some (h\<lparr>cells := c', brk := Suc (brk h)\<rparr>, l')"
  proof -
    have "mid_hermes_ll_rights_list_node_create h u rt wt = (Some (brk h), h\<lparr>cells := ?c, brk := Suc (brk h)\<rparr>)"
      using False by (simp add: mid_hermes_ll_rights_list_node_create_def)
    then show ?thesis
      using run by (simp add: rights_step_def mid_hermes_ll_rights_list_rpush_val_def)
  qed
  moreover have "entries c' (as @ [brk h]) = rights_spec_step (RPush u rt wt) (entries (cells h) as)"
    using False e en by simp
  ultimately show ?thesis
    by (intro exI [where x = "(h\<lparr>cells := c', brk := Suc (brk h)\<rparr>, l')"] exI [where x = "as @ [brk h]"]) simp
qed

lemma find_zip_None:
  "length as = length es \<Longrightarrow> find (\<lambda>(a, i). i = x) (zip as (map f es)) = None \<Longrightarrow> \<forall>e \<in> set es. f e \<noteq> x"
  by (induction as es rule: list_induct2) (auto split: if_splits)

lemma find_zip_Some:
  "length as = length es \<Longrightarrow> find (\<lambda>(a, i). i = x) (zip as (map f es)) = Some (b, j) \<Longrightarrow>
   \<exists>as1 as2 es1 e es2. as = as1 @ b # as2 \<and> es = es1 @ e # es2 \<and> length as1 = length es1 \<and>
     f e = x \<and> (\<forall>e \<in> set es1. f e \<noteq> x)"
proof (induction as es rule: list_induct2)
  case (Cons a as e es)
  show ?case
  proof (cases "f e = x")
    case True
    then have "a # as = [] @ b # as \<and> e # es = [] @ e # es" using Cons.prems by simp
    then show ?thesis using True by (metis empty_iff empty_set list.size(3))
  next
    case False
    then obtain as1 as2 es1 d es2 where "as = as1 @ b # as2" "es = es1 @ d # es2"
        "length as1 = length es1" "f d = x" "\<forall>e \<in> set es1. f e \<noteq> x"
      using Cons by auto
    then have "a # as = (a # as1) @ b # as2" "e # es = (e # es1) @ d # es2"
        "length (a # as1) = length (e # es1)" "f d = x" "\<forall>e \<in> set (e # es1). f e \<noteq> x"
      using False by auto
    then show ?thesis by blast
  qed
qed simp

lemma entries_append: "entries c (as @ bs) = entries c as @ entries c bs"
  by (simp add: entries_def)

lemma length_entries [simp]: "length (entries c as) = length as"
  by (simp add: entries_def)

lemma find_represents:
  assumes "represents c l as" "\<forall>e \<in> set (entries c as). entry_id e (id_of e)" "i \<noteq> []"
  shows "mid_hermes_ll_rights_list_find (Suc (rl_len l)) c (Some l) (Some \<lparr>bdata = Some i\<rparr>) =
    Some (map_option fst (find (\<lambda>(a, j). j = i) (zip as (map id_of (entries c as)))))"
proof -
  have d: "dll c None (rl_head l) as None" "rl_len l = length as" using assms(1) unfolding represents_def by auto
  have "list_all2 entry_id (entries c as) (map id_of (entries c as))"
    using assms(2) by (simp add: list_all2_conv_all_nth)
  from find_loop_dll [OF d(1) this, of "Suc (length as)" i] d(2) assms(3) show ?thesis
    by (simp add: mid_hermes_ll_rights_list_find_def mid_hermes_ll_rights_list_iterator_create_def buffer_length_def)
qed

lemma spec_remove:
  "\<forall>e \<in> set es. id_of e \<noteq> i \<Longrightarrow> rights_spec_step (RRemove i) es = es"
  "\<forall>e \<in> set es. id_of e \<noteq> i \<Longrightarrow> id_of d = i \<Longrightarrow> rights_spec_step (RRemove i) (es @ d # es') = es @ es'"
  by (induction es) auto

lemma remove_step:
  assumes "rights_inv (h, l) as" "rights_op_ok (RRemove i)"
  shows "\<exists>hl as'. rights_step (RRemove i) (h, l) = Some hl \<and> rights_inv hl as' \<and>
    length as' \<le> length as \<and>
    entries (cells (fst hl)) as' = rights_spec_step (RRemove i) (entries (cells h) as)"
proof -
  let ?es = "entries (cells h) as"
  have r: "represents (cells h) l as" and ids: "\<forall>e \<in> set ?es. entry_id e (id_of e)"
    and below: "\<forall>a \<in> set as. a < brk h"
    using assms(1) by (auto simp: rights_inv_def)
  have i: "i \<noteq> []" using assms(2) by simp
  note f = find_represents [OF r ids i]
  have len: "length as = length ?es" by simp
  show ?thesis
  proof (cases "find (\<lambda>(a, j). j = i) (zip as (map id_of ?es))")
    case None
    have "\<forall>e \<in> set ?es. id_of e \<noteq> i" by (rule find_zip_None [OF len None])
    then have "rights_spec_step (RRemove i) ?es = ?es" by (rule spec_remove(1))
    moreover have "rights_step (RRemove i) (h, l) = Some (h, l)"
      using f [unfolded None] by (simp add: rights_step_def mid_hermes_ll_rights_list_remove_def
          mid_hermes_ll_buffer_create_def)
    ultimately show ?thesis
      using assms(1) by (intro exI [where x = "(h, l)"] exI [where x = as]) simp
  next
    case (Some bj)
    then obtain b j where bj: "find (\<lambda>(a, j). j = i) (zip as (map id_of ?es)) = Some (b, j)"
      by (cases bj) auto
    from find_zip_Some [OF len bj] obtain as1 as2 es1 e es2 where s: "as = as1 @ b # as2" "?es = es1 @ e # es2"
        "length as1 = length es1" "id_of e = i" "\<forall>e \<in> set es1. id_of e \<noteq> i"
      by (elim exE conjE) (rule that)
    have es: "es1 = entries (cells h) as1" "es2 = entries (cells h) as2"
      using s(1,2,3) by (auto simp: entries_append entries_Cons append_eq_append_conv)
    have spec: "rights_spec_step (RRemove i) ?es = entries (cells h) (as1 @ as2)"
      unfolding s(2) es entries_append by (rule spec_remove(2)) (use s(4,5) es in simp_all)
    obtain c' l' where run: "mid_hermes_ll_rights_list_remove (cells h) (Some l) (Some b) = Some (HM_SUCCESS, c', Some l')"
      and rep: "represents c' l' (as1 @ as2)" and e: "entries c' (as1 @ as2) = entries (cells h) (as1 @ as2)"
      using remove_represents [OF r [unfolded s(1)]] by blast
    have "rights_step (RRemove i) (h, l) = Some (h\<lparr>cells := c'\<rparr>, l')"
      using f [unfolded bj] run by (simp add: rights_step_def mid_hermes_ll_buffer_create_def)
    moreover have "rights_inv (h\<lparr>cells := c'\<rparr>, l') (as1 @ as2)"
      using rep e ids below s(1) by (auto simp: rights_inv_def entries_append entries_Cons)
    moreover have "length (as1 @ as2) \<le> length as" using s(1) by simp
    ultimately show ?thesis
      using e spec by (intro exI [where x = "(h\<lparr>cells := c'\<rparr>, l')"] exI [where x = "as1 @ as2"]) simp
  qed
qed

lemma rights_run_inv:
  assumes "rights_inv (h, l) as" "list_all rights_op_ok ops" "length as + length ops < 2 ^ 64"
  shows "\<exists>hl as'. rights_run ops (h, l) = Some hl \<and> rights_inv hl as' \<and>
    entries (cells (fst hl)) as' = rights_spec ops (entries (cells h) as)"
  using assms
proof (induction ops arbitrary: h l as)
  case (Cons op ops)
  have "\<exists>hl as'. rights_step op (h, l) = Some hl \<and> rights_inv hl as' \<and> length as' \<le> Suc (length as) \<and>
      entries (cells (fst hl)) as' = rights_spec_step op (entries (cells h) as)"
    using push_step [OF Cons.prems(1)] remove_step [OF Cons.prems(1)] Cons.prems(2,3)
    by (cases op) (fastforce simp del: rights_spec_step.simps)+
  then obtain h' l' as' where "rights_step op (h, l) = Some (h', l')" "rights_inv (h', l') as'"
      "length as' \<le> Suc (length as)" "entries (cells h') as' = rights_spec_step op (entries (cells h) as)"
    by auto
  then show ?case using Cons.IH [of h' l' as'] Cons.prems(2,3) by simp
qed auto

text \<open>C38. A program of pushes and removals by user id on a new rights list has a defined run, keeps the
  links well formed, and iterating over the result yields exactly the entries of the same program on
  a plain list.\<close>

theorem rights_list_refines_list:
  assumes "list_all rights_op_ok ops" "length ops < 2 ^ 64"
  shows "\<exists>h l as. rights_run ops (\<lparr>cells = Map.empty, brk = 0\<rparr>, mid_hermes_ll_rights_list_create) = Some (h, l) \<and>
    represents (cells h) l as \<and>
    iterate (Suc (rl_len l)) (cells h) (mid_hermes_ll_rights_list_iterator_create (Some l)) =
      Some (rights_spec ops [])"
proof -
  have "rights_inv (\<lparr>cells = Map.empty, brk = 0\<rparr>, mid_hermes_ll_rights_list_create) []"
    by (simp add: rights_inv_def create_represents entries_def)
  from rights_run_inv [OF this assms(1)] assms(2) obtain h l as where
    "rights_run ops (\<lparr>cells = Map.empty, brk = 0\<rparr>, mid_hermes_ll_rights_list_create) = Some (h, l)"
    "rights_inv (h, l) as" "entries (cells h) as = rights_spec ops []"
    by (auto simp: entries_def)
  moreover have "rl_len l = length as" using \<open>rights_inv (h, l) as\<close> by (auto simp: rights_inv_def represents_def)
  ultimately show ?thesis
    using iterate_represents [of "cells h" l as "Suc (rl_len l)"] by (auto simp: rights_inv_def simp del: iterate.simps)
qed

lemma rights_list_refines_list_witness:
  "\<exists>h l as. rights_run [RPush (Some (remote_user [1] [2])) (Some (wrapped_for (remote_user [1] [2]) (remote_user [3] [4]) [5])) None,
      RPush (Some (remote_user [6] [7])) (Some (wrapped_for (remote_user [6] [7]) (remote_user [3] [4]) [8])) None, RRemove [1]]
      (\<lparr>cells = Map.empty, brk = 0\<rparr>, mid_hermes_ll_rights_list_create) = Some (h, l) \<and>
    represents (cells h) l as \<and>
    iterate (Suc (rl_len l)) (cells h) (mid_hermes_ll_rights_list_iterator_create (Some l)) =
      Some [\<lparr>re_user = Some (remote_user [6] [7]),
             re_rtoken = Some (wrapped_for (remote_user [6] [7]) (remote_user [3] [4]) [8]), re_wtoken = None\<rparr>]"
  using rights_list_refines_list [of "[RPush (Some (remote_user [1] [2])) (Some (wrapped_for (remote_user [1] [2]) (remote_user [3] [4]) [5])) None,
      RPush (Some (remote_user [6] [7])) (Some (wrapped_for (remote_user [6] [7]) (remote_user [3] [4]) [8])) None, RRemove [1]]"]
  by (simp add: id_of_def)

end
