(* ===== verification/Ll_Block.thy ===== *)
theory Ll_Block
  imports Ll_Rights_List
begin

section \<open>Blocks\<close>

text \<open>
  \<^verbatim>\<open>src/mid_hermes_ll/mid_hermes_ll_block.c\<close>: a block in the hands of a user, plain and sealed,
  with its tokens and MACs, and its movement to and from the stores.  The sealing key is what the
  read token opens to, the MAC key what the write token opens to.  The function pointers of the
  struct always hold the functions of this file, so \<^verbatim>\<open>bl->init(bl, ...)\<close> is a direct call.

  A function that returns the block it was given or NULL gives a boolean (whether it is the block)
  and the block as it leaves it, which the callers free on failure but the model keeps.  Lists of
  rights are lists of entries: \<open>Ll_Rights_List\<close> shows that iterating over the linked list yields
  them in order and that pushing appends.
\<close>

record mid_hermes_ll_block =
  bl_user :: user_ptr
  bl_id :: buffer_ptr
  bl_block :: buffer_ptr
  bl_data :: buffer_ptr
  bl_meta :: buffer_ptr
  bl_old_mac :: buffer_ptr
  bl_mac :: buffer_ptr
  bl_rtoken :: token_ptr
  bl_wtoken :: token_ptr

type_synonym rights = "rights_entry list"

definition new_buffer :: "bytes \<Rightarrow> buffer_ptr" where
  "new_buffer d = Some (mid_hermes_ll_buffer_create (Some d))"

definition mid_hermes_ll_block_init_empty :: "mid_hermes_ll_block \<Rightarrow> user_ptr \<Rightarrow> mid_hermes_ll_block" where
  "mid_hermes_ll_block_init_empty block user = block\<lparr>bl_user := user\<rparr>"

text \<open>\<^verbatim>\<open>calloc\<close>\<close>

definition calloc_block :: mid_hermes_ll_block where
  "calloc_block = \<lparr>bl_user = None, bl_id = None, bl_block = None, bl_data = None, bl_meta = None,
     bl_old_mac = None, bl_mac = None, bl_rtoken = None, bl_wtoken = None\<rparr>"

definition mid_hermes_ll_block_create_empty :: "user_ptr \<Rightarrow> mid_hermes_ll_block" where
  "mid_hermes_ll_block_create_empty user = mid_hermes_ll_block_init_empty calloc_block user"

subsection \<open>Creating and opening\<close>

definition mid_hermes_ll_block_create_new ::
    "('r, 'h) themis \<Rightarrow> user_ptr \<Rightarrow> buffer_ptr \<Rightarrow> buffer_ptr \<Rightarrow> buffer_ptr \<Rightarrow> token_ptr \<Rightarrow> token_ptr \<Rightarrow>
     ('r, mid_hermes_ll_block option) act" where
  "mid_hermes_ll_block_create_new T user i block_data meta read_token write_token r =
     (if user = None \<or> i = None \<or> block_data = None \<or> meta = None \<or> read_token = None \<or> write_token = None
      then Some (None, r)
      else let block = mid_hermes_ll_block_create_empty user;
               d = bdata (the block_data); m = bdata (the meta) in
        (case mid_hermes_ll_token_get_data T read_token of
           None \<Rightarrow> None
         | Some None \<Rightarrow> Some (None, r)
         | Some (Some rt) \<Rightarrow>
             (case hm_encrypt T (bdata rt) d m True r of
                (Inl _, r) \<Rightarrow> Some (None, r)
              | (Inr sealed, r) \<Rightarrow>
                  (case mid_hermes_ll_token_get_data T write_token of
                     None \<Rightarrow> None
                   | Some None \<Rightarrow> Some (None, r)
                   | Some (Some wt) \<Rightarrow>
                       (case hm_mac_create T (bdata wt) d m True of
                          Inl _ \<Rightarrow> Some (None, r)
                        | Inr mac \<Rightarrow>
                            Some (Some (block\<lparr>bl_block := new_buffer sealed, bl_mac := new_buffer mac,
                              bl_id := i, bl_meta := meta, bl_data := block_data,
                              bl_rtoken := read_token, bl_wtoken := write_token\<rparr>), r))))))"

text \<open>
  \<^verbatim>\<open>mid_hermes_ll_block_init\<close> in three steps: the tokens, the data, the MAC.  With a read token it
  opens a sealed block, without one it generates both tokens and seals.
\<close>

definition init_mac ::
    "('r, 'h) themis \<Rightarrow> mid_hermes_ll_block \<Rightarrow> buffer_ptr \<Rightarrow> mid_hermes_ll_buffer \<Rightarrow> mid_hermes_ll_buffer \<Rightarrow>
     token_ptr \<Rightarrow> token_ptr \<Rightarrow> (bool \<times> mid_hermes_ll_block) option" where
  "init_mac T block i block_data meta read_token write_token =
     (let finish = (\<lambda>b. if read_token \<noteq> None
            then b\<lparr>bl_id := i, bl_meta := Some meta, bl_block := Some block_data,
                   bl_rtoken := read_token, bl_wtoken := write_token\<rparr>
            else b\<lparr>bl_id := i, bl_meta := Some meta, bl_data := Some block_data\<rparr>);
          plain = (if read_token \<noteq> None then bdata (the (bl_data block)) else bdata block_data) in
      if write_token = None \<and> bl_wtoken block = None then Some (True, finish block)
      else (case mid_hermes_ll_token_get_data T
              (if write_token \<noteq> None then write_token else bl_wtoken block) of
              None \<Rightarrow> None
            | Some None \<Rightarrow> Some (False, block)
            | Some (Some wt) \<Rightarrow>
                (case hm_mac_create T (bdata wt) plain (bdata meta) True of
                   Inl _ \<Rightarrow> Some (False, block\<lparr>bl_mac := Some (mid_hermes_ll_buffer_create None)\<rparr>)
                 | Inr mac \<Rightarrow> Some (True, finish (block\<lparr>bl_mac := new_buffer mac\<rparr>)))))"

definition init_data ::
    "('r, 'h) themis \<Rightarrow> mid_hermes_ll_block \<Rightarrow> buffer_ptr \<Rightarrow> buffer_ptr \<Rightarrow> buffer_ptr \<Rightarrow> token_ptr \<Rightarrow>
     token_ptr \<Rightarrow> ('r, bool \<times> mid_hermes_ll_block) act" where
  "init_data T block i block_data meta read_token write_token r =
     (case mid_hermes_ll_token_get_data T (if read_token \<noteq> None then read_token else bl_rtoken block) of
        None \<Rightarrow> None
      | Some None \<Rightarrow> Some ((False, block), r)
      | Some (Some rt) \<Rightarrow>
          (case (block_data, meta) of
             (Some bd, Some mt) \<Rightarrow>
               if read_token \<noteq> None then
                 (case hm_decrypt T (bdata rt) (bdata bd) (bdata mt) True of
                    Inl _ \<Rightarrow> Some ((False, block\<lparr>bl_data := Some (mid_hermes_ll_buffer_create None)\<rparr>), r)
                  | Inr d \<Rightarrow> map_option (\<lambda>res. (res, r))
                      (init_mac T (block\<lparr>bl_data := new_buffer d\<rparr>) i bd mt read_token write_token))
               else
                 (case hm_encrypt T (bdata rt) (bdata bd) (bdata mt) True r of
                    (Inl _, r) \<Rightarrow> Some ((False, block\<lparr>bl_block := Some (mid_hermes_ll_buffer_create None)\<rparr>), r)
                  | (Inr e, r) \<Rightarrow> map_option (\<lambda>res. (res, r))
                      (init_mac T (block\<lparr>bl_block := new_buffer e\<rparr>) i bd mt read_token write_token))
           | _ \<Rightarrow> None))"

text \<open>\<^verbatim>\<open>mid_hermes_ll_token_generate(mid_hermes_ll_user_copy(user))\<close>\<close>

definition generate_for :: "('r, 'h) themis \<Rightarrow> user_ptr \<Rightarrow> ('r, token_ptr) act" where
  "generate_for T user r =
     (case mid_hermes_ll_user_copy user of
        None \<Rightarrow> None
      | Some u \<Rightarrow> mid_hermes_ll_token_generate T u r)"

definition mid_hermes_ll_block_init ::
    "('r, 'h) themis \<Rightarrow> mid_hermes_ll_block \<Rightarrow> user_ptr \<Rightarrow> buffer_ptr \<Rightarrow> buffer_ptr \<Rightarrow> buffer_ptr \<Rightarrow>
     token_ptr \<Rightarrow> token_ptr \<Rightarrow> ('r, bool \<times> mid_hermes_ll_block) act" where
  "mid_hermes_ll_block_init T block user i block_data meta read_token write_token =
     (let block = block\<lparr>bl_user := user\<rparr> in
      if read_token = None then
        act_bind (generate_for T user) (\<lambda>rt.
        act_bind (generate_for T user) (\<lambda>wt.
          let block = block\<lparr>bl_rtoken := rt, bl_wtoken := wt\<rparr> in
          if rt = None \<or> wt = None then act_ret (False, block)
          else init_data T block i block_data meta read_token write_token))
      else init_data T block i block_data meta read_token write_token)"

definition mid_hermes_ll_block_create ::
    "('r, 'h) themis \<Rightarrow> user_ptr \<Rightarrow> buffer_ptr \<Rightarrow> buffer_ptr \<Rightarrow> buffer_ptr \<Rightarrow> token_ptr \<Rightarrow> token_ptr \<Rightarrow>
     ('r, mid_hermes_ll_block option) act" where
  "mid_hermes_ll_block_create T user i block meta read_token write_token =
     act_bind (mid_hermes_ll_block_init T calloc_block user i block meta read_token write_token)
       (\<lambda>(ok, bl). act_ret (if ok then Some bl else None))"

definition mid_hermes_ll_block_destroy ::
    "mid_hermes_ll_block option option \<Rightarrow> status \<times> mid_hermes_ll_block option option" where
  "mid_hermes_ll_block_destroy b =
     (case b of Some (Some _) \<Rightarrow> (HM_SUCCESS, Some None) | _ \<Rightarrow> (HM_FAIL, b))"

subsection \<open>Updating and rotating\<close>

text \<open>The MAC the data store holds stays in \<^verbatim>\<open>old_mac\<close> until the block is saved.\<close>

definition replace_mac :: "mid_hermes_ll_block \<Rightarrow> bytes \<Rightarrow> mid_hermes_ll_block" where
  "replace_mac bl new_mac =
     (if bl_old_mac bl \<noteq> None then bl else bl\<lparr>bl_old_mac := bl_mac bl\<rparr>)\<lparr>bl_mac := new_buffer new_mac\<rparr>"

definition mid_hermes_ll_block_update ::
    "('r, 'h) themis \<Rightarrow> mid_hermes_ll_block option \<Rightarrow> buffer_ptr \<Rightarrow> buffer_ptr \<Rightarrow>
     ('r, bool \<times> mid_hermes_ll_block option) act" where
  "mid_hermes_ll_block_update T block dat meta r =
     (if block = None \<or> dat = None \<or> meta = None \<or> bl_rtoken (the block) = None \<or> bl_wtoken (the block) = None
      then Some ((False, block), r)
      else let bl = the block; d = bdata (the dat); m = bdata (the meta) in
        (case (mid_hermes_ll_token_get_data T (bl_rtoken bl), mid_hermes_ll_token_get_data T (bl_wtoken bl)) of
           (Some (Some rt), Some (Some wt)) \<Rightarrow>
             (case hm_encrypt T (bdata rt) d m True r of
                (Inl _, r) \<Rightarrow> Some ((False, block), r)
              | (Inr new_block, r) \<Rightarrow>
                  (case hm_mac_create T (bdata wt) d m True of
                     Inl _ \<Rightarrow> Some ((False, block), r)
                   | Inr new_mac \<Rightarrow>
                       Some ((True, Some (replace_mac
                         (bl\<lparr>bl_meta := meta, bl_data := dat, bl_block := new_buffer new_block\<rparr>) new_mac)), r)))
         | (Some _, Some _) \<Rightarrow> Some ((False, block), r)
         | _ \<Rightarrow> None))"

text \<open>
  The loop that rewraps the new tokens for every entry.  An entry that had a write token and whose
  new one could not be made is left without.
\<close>

definition token_for_copy :: "('r, 'h) themis \<Rightarrow> token_ptr \<Rightarrow> user_ptr \<Rightarrow> ('r, token_ptr) act" where
  "token_for_copy T token user r =
     (case mid_hermes_ll_user_copy user of
        None \<Rightarrow> None
      | Some u \<Rightarrow> mid_hermes_ll_token_get_token_for_user T token u r)"

fun rotate_loop ::
    "('r, 'h) themis \<Rightarrow> token_ptr \<Rightarrow> token_ptr \<Rightarrow> rights \<Rightarrow> ('r, bool \<times> rights) act" where
  "rotate_loop T new_rtoken new_wtoken [] = act_ret (True, [])"
| "rotate_loop T new_rtoken new_wtoken (e # es) =
     act_bind (token_for_copy T new_rtoken (re_user e)) (\<lambda>nrt.
     act_bind (if re_wtoken e \<noteq> None then token_for_copy T new_wtoken (re_user e) else act_ret None) (\<lambda>nwt.
       if nrt = None then act_ret (False, e # es)
       else act_bind (rotate_loop T new_rtoken new_wtoken es) (\<lambda>(ok, es).
         act_ret (ok, e\<lparr>re_rtoken := nrt, re_wtoken := nwt\<rparr> # es))))"

definition mid_hermes_ll_block_rotate ::
    "('r, 'h) themis \<Rightarrow> mid_hermes_ll_block option \<Rightarrow> rights option \<Rightarrow>
     ('r, bool \<times> mid_hermes_ll_block option \<times> rights option) act" where
  "mid_hermes_ll_block_rotate T block rights =
     (if block = None \<or> rights = None \<or> bl_rtoken (the block) = None \<or> bl_wtoken (the block) = None
      then act_ret (False, block, rights)
      else let bl = the block in
        act_bind (generate_for T (bl_user bl)) (\<lambda>new_rtoken.
        act_bind (generate_for T (bl_user bl)) (\<lambda>new_wtoken.
          (case (mid_hermes_ll_token_get_data T new_rtoken, mid_hermes_ll_token_get_data T new_wtoken) of
             (Some (Some rt), Some (Some wt)) \<Rightarrow>
               (case (bl_data bl, bl_meta bl) of
                  (Some d, Some m) \<Rightarrow> (\<lambda>r.
                    (case hm_encrypt T (bdata rt) (bdata d) (bdata m) True r of
                       (Inl _, r) \<Rightarrow> Some ((False, block, rights), r)
                     | (Inr new_block, r) \<Rightarrow>
                         (case hm_mac_create T (bdata wt) (bdata d) (bdata m) True of
                            Inl _ \<Rightarrow> Some ((False, block, rights), r)
                          | Inr new_mac \<Rightarrow>
                              act_bind (rotate_loop T new_rtoken new_wtoken (the rights)) (\<lambda>(ok, es).
                                act_ret (ok, Some (replace_mac (bl\<lparr>bl_rtoken := new_rtoken,
                                  bl_wtoken := new_wtoken, bl_block := new_buffer new_block\<rparr>) new_mac), Some es)) r)))
                | _ \<Rightarrow> act_undefined)
           | (Some _, Some _) \<Rightarrow> act_ret (False, block, rights)
           | _ \<Rightarrow> act_undefined))))"

definition mid_hermes_ll_block_rtoken_for ::
    "('r, 'h) themis \<Rightarrow> mid_hermes_ll_block option \<Rightarrow> user_ptr \<Rightarrow> ('r, token_ptr) act" where
  "mid_hermes_ll_block_rtoken_for T bl for_user =
     (if bl = None \<or> bl_rtoken (the bl) = None \<or> for_user = None then act_ret None
      else mid_hermes_ll_token_get_token_for_user T (bl_rtoken (the bl)) for_user)"

definition mid_hermes_ll_block_wtoken_for ::
    "('r, 'h) themis \<Rightarrow> mid_hermes_ll_block option \<Rightarrow> user_ptr \<Rightarrow> ('r, token_ptr) act" where
  "mid_hermes_ll_block_wtoken_for T bl for_user =
     (if bl = None \<or> bl_wtoken (the bl) = None \<or> for_user = None then act_ret None
      else mid_hermes_ll_token_get_token_for_user T (bl_wtoken (the bl)) for_user)"

end
