(* ===== verification/Ll_Block_Store.thy ===== *)
theory Ll_Block_Store
  imports Ll_Block
begin

section \<open>Blocks and the stores\<close>

text \<open>
  The second half of \<^verbatim>\<open>src/mid_hermes_ll/mid_hermes_ll_block.c\<close>: the rights of a block, loading,
  saving and deleting it.  A NULL store is \<open>None\<close>; the stores are called through the interfaces of
  \<open>Ll_Stores\<close>.  Walking the users of a block ends when the key store says so; a store that never
  does keeps the walk running, which is \<open>None\<close>.
\<close>

subsection \<open>Access rights\<close>

definition hermes_key_store_iterator_get_user_id :: "hermes_key_store_iterator option \<Rightarrow> cbuf" where
  "hermes_key_store_iterator_get_user_id i = (case i of None \<Rightarrow> None | Some it \<Rightarrow> current_user_id it)"

text \<open>\<^verbatim>\<open>mid_hermes_ll_rights_list_rpush_val\<close> on the list of entries.\<close>

definition rights_push :: "rights \<Rightarrow> user_ptr \<Rightarrow> token_ptr \<Rightarrow> token_ptr \<Rightarrow> status \<times> rights" where
  "rights_push rights user rtoken wtoken =
     (if user = None \<or> rtoken = None then (HM_INVALID_PARAMETER, rights)
      else (HM_SUCCESS, rights @ [\<lparr>re_user = user, re_rtoken = rtoken, re_wtoken = wtoken\<rparr>]))"

text \<open>One turn of the loop: \<open>Inl rights\<close> returns, \<open>Inr\<close> goes on to the next user.\<close>

definition access_body ::
    "'k hermes_key_store option \<Rightarrow> 'c hermes_credential_store option \<Rightarrow> mid_hermes_ll_block \<Rightarrow>
     hermes_key_store_iterator \<Rightarrow> rights \<Rightarrow> (('r, 'k, 'd, 'c) world, rights option + rights) act" where
  "access_body key_store credential_store bl i rights =
     (let uid = hermes_key_store_iterator_get_user_id (Some i); bid = bdata (the (bl_id bl)) in
      act_bind (on_creds (mid_hermes_ll_user_load_c uid credential_store)) (\<lambda>user.
      (case (if user = None then Some False else mid_hermes_ll_user_is_equal user (bl_user bl)) of
         None \<Rightarrow> act_undefined
       | Some True \<Rightarrow> act_ret (Inr rights)
       | Some False \<Rightarrow>
           act_bind (mid_hermes_ll_rtoken_load_c uid bid key_store credential_store) (\<lambda>rtoken.
           act_bind (mid_hermes_ll_wtoken_load_c uid bid key_store credential_store) (\<lambda>wtoken.
             if user = None \<or> rtoken = None \<or> fst (rights_push rights user rtoken wtoken) \<noteq> HM_SUCCESS
             then act_ret (Inl None)
             else act_ret (Inr (snd (rights_push rights user rtoken wtoken))))))))"

definition access_turn ::
    "'k hermes_key_store \<Rightarrow> 'c hermes_credential_store option \<Rightarrow> mid_hermes_ll_block \<Rightarrow>
     hermes_key_store_iterator \<Rightarrow> rights \<Rightarrow>
     (('r, 'k, 'd, 'c) world, rights option + hermes_key_store_iterator \<times> rights) act" where
  "access_turn ks credential_store bl i rights =
     act_bind (access_body (Some ks) credential_store bl i rights) (\<lambda>res. case res of
       Inl out \<Rightarrow> act_ret (Inl out)
     | Inr rights \<Rightarrow>
         act_bind (on_keys (ks_iterator_next ks i)) (\<lambda>(st, i).
           act_ret (if st = HM_SUCCESS then Inr (i, rights) else Inl (Some rights))))"

partial_function (option) access_loop ::
    "'k hermes_key_store \<Rightarrow> 'c hermes_credential_store option \<Rightarrow> mid_hermes_ll_block \<Rightarrow>
     hermes_key_store_iterator \<Rightarrow> rights \<Rightarrow> ('r, 'k, 'd, 'c) world \<Rightarrow>
     (rights option \<times> ('r, 'k, 'd, 'c) world) option" where
  "access_loop ks credential_store bl i rights w =
     Option.bind (access_turn ks credential_store bl i rights w) (\<lambda>(res, w).
       case res of
         Inl out \<Rightarrow> Some (out, w)
       | Inr (i, rights) \<Rightarrow> access_loop ks credential_store bl i rights w)"

definition mid_hermes_ll_block_access_rights ::
    "mid_hermes_ll_block option \<Rightarrow> 'k hermes_key_store option \<Rightarrow> 'c hermes_credential_store option \<Rightarrow>
     (('r, 'k, 'd, 'c) world, rights option) act" where
  "mid_hermes_ll_block_access_rights block key_store credential_store =
     (if block = None \<or> bl_id (the block) = None \<or> bl_mac (the block) = None \<or> key_store = None \<or>
        credential_store = None
      then act_ret None
      else act_bind (on_keys (ks_iterator_create (the key_store) (bdata (the (bl_id (the block))))))
        (\<lambda>i. case i of
           None \<Rightarrow> act_undefined
         | Some i \<Rightarrow> access_loop (the key_store) credential_store (the block) i []))"

subsection \<open>Loading\<close>

definition mid_hermes_ll_token_load ::
    "user_ptr \<Rightarrow> buffer_ptr \<Rightarrow> 'k hermes_key_store option \<Rightarrow> 'c hermes_credential_store option \<Rightarrow> bool \<Rightarrow>
     (('r, 'k, 'd, 'c) world, token_ptr) act" where
  "mid_hermes_ll_token_load user block_id key_store credential_store is_update =
     (if user = None \<or> block_id = None \<or> key_store = None \<or> credential_store = None then act_ret None
      else (case key_of user_id user of
              None \<Rightarrow> act_undefined
            | Some uid \<Rightarrow>
                act_ok (on_keys (get_token_fn (the key_store) is_update uid (bdata (the block_id))))
                  (\<lambda>(token, owner_id).
                act_ok (on_creds (cs_get_public_key (the credential_store) (Some owner_id))) (\<lambda>owner_pub_key.
                  (case mid_hermes_ll_user_create (new_buffer owner_id) (new_buffer owner_pub_key) of
                     None \<Rightarrow> act_ret None
                   | Some owner \<Rightarrow>
                       act_ret (mid_hermes_ll_token_create user (Some owner) (new_buffer token)))))))"

definition mid_hermes_ll_block_load ::
    "('r, 'h) themis \<Rightarrow> mid_hermes_ll_block option \<Rightarrow> buffer_ptr \<Rightarrow> 'd hermes_data_store option \<Rightarrow>
     'k hermes_key_store option \<Rightarrow> 'c hermes_credential_store option \<Rightarrow>
     (('r, 'k, 'd, 'c) world, bool \<times> mid_hermes_ll_block option) act" where
  "mid_hermes_ll_block_load T block i data_store key_store credential_store =
     (if block = None \<or> i = None \<or> data_store = None \<or> key_store = None \<or> credential_store = None
      then act_ret (False, block)
      else let bl = the block in
        (case mid_hermes_ll_user_copy (bl_user bl) of
           None \<Rightarrow> act_undefined
         | Some u \<Rightarrow>
             act_bind (mid_hermes_ll_token_load u i key_store credential_store False) (\<lambda>read_token.
             act_bind (mid_hermes_ll_token_load u i key_store credential_store True) (\<lambda>write_token.
               if read_token = None then act_ret (False, block)
               else act_bind (on_data (ds_get_block (the data_store) (bdata (the i)))) (\<lambda>res. case res of
                   Inl _ \<Rightarrow> act_ret (False, block)
                 | Inr (dat, meta) \<Rightarrow>
                     act_bind (on_rand (mid_hermes_ll_block_init T bl (bl_user bl) i (new_buffer dat)
                         (new_buffer meta) read_token write_token)) (\<lambda>(ok, bl).
                       act_ret (ok, Some bl)))))))"

subsection \<open>Saving\<close>

definition save_token ::
    "('k hermes_key_store \<Rightarrow> cbuf \<Rightarrow> cbuf \<Rightarrow> cbuf \<Rightarrow> cbuf \<Rightarrow> ('k, status) act) \<Rightarrow>
     mid_hermes_ll_block \<Rightarrow> token_ptr \<Rightarrow> 'k hermes_key_store option \<Rightarrow> ('k, status) act" where
  "save_token set_fn bl token key_store =
     (if token = None \<or> key_store = None then act_ret HM_FAIL
      else (case (key_of user_id (token_user (the token)), bl_id bl, token_data (the token),
                  key_of user_id (token_owner (the token))) of
              (Some uid, Some bid, Some d, Some oid) \<Rightarrow>
                set_fn (the key_store) uid (bdata bid) (bdata d) oid
            | _ \<Rightarrow> act_undefined))"

definition mid_hermes_ll_rtoken_save ::
    "mid_hermes_ll_block \<Rightarrow> token_ptr \<Rightarrow> 'k hermes_key_store option \<Rightarrow> ('k, status) act" where
  "mid_hermes_ll_rtoken_save = save_token ks_set_rtoken"

definition mid_hermes_ll_wtoken_save ::
    "mid_hermes_ll_block \<Rightarrow> token_ptr \<Rightarrow> 'k hermes_key_store option \<Rightarrow> ('k, status) act" where
  "mid_hermes_ll_wtoken_save = save_token ks_set_wtoken"

text \<open>\<open>act_check m k\<close> is \<^verbatim>\<open>if (HM_SUCCESS != m) return NULL; k\<close>, with \<open>bl\<close> as it is left.\<close>

definition act_check :: "'b \<Rightarrow> ('w, status) act \<Rightarrow> ('w, bool \<times> 'b) act \<Rightarrow> ('w, bool \<times> 'b) act" where
  "act_check bl m k = act_bind m (\<lambda>st. if st \<noteq> HM_SUCCESS then act_ret (False, bl) else k)"

fun save_rights ::
    "mid_hermes_ll_block \<Rightarrow> 'k hermes_key_store option \<Rightarrow> rights \<Rightarrow> ('k, bool \<times> mid_hermes_ll_block) act" where
  "save_rights bl key_store [] = act_ret (True, bl)"
| "save_rights bl key_store (e # es) =
     act_check bl (mid_hermes_ll_rtoken_save bl (re_rtoken e) key_store)
       (if re_wtoken e \<noteq> None
        then act_check bl (mid_hermes_ll_wtoken_save bl (re_wtoken e) key_store) (save_rights bl key_store es)
        else save_rights bl key_store es)"

definition save_data ::
    "mid_hermes_ll_block \<Rightarrow> 'd hermes_data_store \<Rightarrow> ('d, bool \<times> mid_hermes_ll_block) act" where
  "save_data bl ds =
     (let bl = (if bl_id bl = None then bl\<lparr>bl_id := Some (mid_hermes_ll_buffer_create None)\<rparr> else bl) in
      (case (bl_block bl, bl_meta bl, bl_mac bl) of
         (Some b, Some m, Some mac) \<Rightarrow>
           act_bind (ds_set_block ds (bdata (the (bl_id bl))) (bdata b) (bdata m) (bdata mac)
               (case bl_old_mac bl of None \<Rightarrow> None | Some old \<Rightarrow> bdata old)) (\<lambda>(st, i).
             let bl = bl\<lparr>bl_id := Some (mid_hermes_ll_buffer_create i)\<rparr> in
             if st \<noteq> HM_SUCCESS then act_ret (False, bl)
             else act_ret (True, bl\<lparr>bl_old_mac := None\<rparr>))
       | _ \<Rightarrow> act_undefined))"

definition save_keys ::
    "mid_hermes_ll_block \<Rightarrow> rights option \<Rightarrow> 'k hermes_key_store option \<Rightarrow>
     ('k, bool \<times> mid_hermes_ll_block) act" where
  "save_keys bl rights key_store =
     (if key_store = None then act_ret (True, bl)
      else act_check bl (mid_hermes_ll_rtoken_save bl (bl_rtoken bl) key_store)
        (act_check bl (mid_hermes_ll_wtoken_save bl (bl_wtoken bl) key_store)
          (case rights of None \<Rightarrow> act_ret (True, bl) | Some es \<Rightarrow> save_rights bl key_store es)))"

definition mid_hermes_ll_block_save ::
    "mid_hermes_ll_block option \<Rightarrow> rights option \<Rightarrow> 'd hermes_data_store option \<Rightarrow>
     'k hermes_key_store option \<Rightarrow> (('r, 'k, 'd, 'c) world, bool \<times> mid_hermes_ll_block option) act" where
  "mid_hermes_ll_block_save block rights data_store key_store =
     (if block = None \<or> (data_store = None \<and> key_store = None) then act_ret (False, block)
      else act_bind (if data_store \<noteq> None then on_data (save_data (the block) (the data_store))
                     else act_ret (True, the block)) (\<lambda>(ok, bl).
        if \<not> ok then act_ret (False, Some bl)
        else act_bind (on_keys (save_keys bl rights key_store)) (\<lambda>(ok, bl). act_ret (ok, Some bl))))"

subsection \<open>Deleting\<close>

text \<open>A read token is deleted in the name of the block's user, a write token in that of its owner.\<close>

definition mid_hermes_ll_rtoken_delete ::
    "mid_hermes_ll_block \<Rightarrow> token_ptr \<Rightarrow> 'k hermes_key_store option \<Rightarrow> ('k, status) act" where
  "mid_hermes_ll_rtoken_delete bl token key_store =
     (if token = None \<or> key_store = None then act_ret HM_FAIL
      else (case (key_of user_id (token_user (the token)), bl_id bl, key_of user_id (bl_user bl)) of
              (Some uid, Some bid, Some oid) \<Rightarrow> ks_set_rtoken (the key_store) uid (bdata bid) None oid
            | _ \<Rightarrow> act_undefined))"

definition mid_hermes_ll_wtoken_delete ::
    "mid_hermes_ll_block \<Rightarrow> token_ptr \<Rightarrow> 'k hermes_key_store option \<Rightarrow> ('k, status) act" where
  "mid_hermes_ll_wtoken_delete bl token key_store =
     (if token = None \<or> key_store = None then act_ret HM_FAIL
      else (case (key_of user_id (token_user (the token)), bl_id bl, key_of user_id (token_owner (the token))) of
              (Some uid, Some bid, Some oid) \<Rightarrow> ks_set_wtoken (the key_store) uid (bdata bid) None oid
            | _ \<Rightarrow> act_undefined))"

fun delete_rights ::
    "mid_hermes_ll_block \<Rightarrow> 'k hermes_key_store option \<Rightarrow> rights \<Rightarrow> ('k, bool \<times> mid_hermes_ll_block) act" where
  "delete_rights bl key_store [] = act_ret (True, bl)"
| "delete_rights bl key_store (e # es) =
     act_check bl (mid_hermes_ll_rtoken_delete bl (re_rtoken e) key_store)
       (if re_wtoken e \<noteq> None
        then act_check bl (mid_hermes_ll_wtoken_delete bl (re_wtoken e) key_store) (delete_rights bl key_store es)
        else delete_rights bl key_store es)"

definition mid_hermes_ll_block_delete ::
    "mid_hermes_ll_block option \<Rightarrow> rights option \<Rightarrow> 'd hermes_data_store option \<Rightarrow>
     'k hermes_key_store option \<Rightarrow> (('r, 'k, 'd, 'c) world, bool \<times> mid_hermes_ll_block option) act" where
  "mid_hermes_ll_block_delete block rights data_store key_store =
     (if block = None \<or> bl_id (the block) = None \<or> bl_mac (the block) = None \<or>
        (data_store = None \<and> key_store = None)
      then act_ret (False, block)
      else let bl = the block in
        act_bind (if data_store = None then act_ret HM_SUCCESS
                  else on_data (ds_rem_block (the data_store) (bdata (the (bl_id bl)))
                    (case bl_old_mac bl of None \<Rightarrow> bdata (the (bl_mac bl)) | Some old \<Rightarrow> bdata old))) (\<lambda>st.
          if st \<noteq> HM_SUCCESS then act_ret (False, block)
          else if key_store = None then act_ret (True, block)
          else act_bind (on_keys (act_check bl (mid_hermes_ll_rtoken_delete bl (bl_rtoken bl) key_store)
              (case rights of None \<Rightarrow> act_ret (True, bl) | Some es \<Rightarrow> delete_rights bl key_store es)))
            (\<lambda>(ok, bl). act_ret (ok, Some bl))))"

end
