(* ===== verification/Data_Store.thy ===== *)
theory Data_Store
  imports Service
begin

section \<open>The data store\<close>

text \<open>
  \<^verbatim>\<open>src/data_store\<close>: creation (with an id of the store's choice, or a given one), reading, update
  and deletion of blocks.  A block is its data and its meta; the MAC given at creation is what a
  later update or deletion has to present as \<^verbatim>\<open>old_mac\<close>.  The database is the application's
  (\<^verbatim>\<open>hm_ds_db_t\<close>); the conventions are those of \<open>Credential_Store\<close>.
\<close>

subsection \<open>The database\<close>

record 'd hm_ds_db =
  ds_user_data :: "'d option"
  insert_block :: "('d \<Rightarrow> bytes \<Rightarrow> bytes \<Rightarrow> bytes \<Rightarrow> status \<times> bytes \<times> 'd) option"
  insert_block_with_id :: "('d \<Rightarrow> bytes \<Rightarrow> bytes \<Rightarrow> bytes \<Rightarrow> bytes \<Rightarrow> status \<times> 'd) option"
  get_block :: "('d \<Rightarrow> bytes \<Rightarrow> status \<times> (bytes \<times> bytes) \<times> 'd) option"
  update_block :: "('d \<Rightarrow> bytes \<Rightarrow> bytes \<Rightarrow> bytes \<Rightarrow> bytes \<Rightarrow> bytes \<Rightarrow> status \<times> 'd) option"
  rem_block :: "('d \<Rightarrow> bytes \<Rightarrow> bytes \<Rightarrow> status \<times> 'd) option"

definition hm_data_store_check_backend :: "'d hm_ds_db option \<Rightarrow> bool" where
  "hm_data_store_check_backend db =
     (\<not> (db = None \<or> insert_block (the db) = None \<or> insert_block_with_id (the db) = None \<or>
        get_block (the db) = None \<or> update_block (the db) = None \<or> rem_block (the db) = None))"

text \<open>The results of a callback, put back in the database.\<close>

definition ds_done :: "'d hm_ds_db option \<Rightarrow> status \<times> 'd \<Rightarrow> status \<times> 'd hm_ds_db option" where
  "ds_done db r = (fst r, Some ((the db)\<lparr>ds_user_data := Some (snd r)\<rparr>))"

definition ds_result ::
    "'d hm_ds_db option \<Rightarrow> status \<times> 'a \<times> 'd \<Rightarrow> (status + 'a) \<times> 'd hm_ds_db option" where
  "ds_result db r =
     (if fst r = HM_SUCCESS then Inr (fst (snd r)) else Inl (fst r),
      Some ((the db)\<lparr>ds_user_data := Some (snd (snd r))\<rparr>))"

subsection \<open>The functions\<close>

definition hm_data_store_create_block ::
    "'d hm_ds_db option \<Rightarrow> cbuf \<Rightarrow> cbuf \<Rightarrow> cbuf \<Rightarrow> bool \<Rightarrow> (status + bytes) \<times> 'd hm_ds_db option" where
  "hm_data_store_create_block db block meta mac want =
     (if db = None \<or> ds_user_data (the db) = None \<or> insert_block (the db) = None \<or> absent block \<or>
        absent meta \<or> absent mac \<or> \<not> want
      then (Inl HM_INVALID_PARAMETER, db)
      else ds_result db
        (the (insert_block (the db)) (the (ds_user_data (the db))) (the block) (the meta) (the mac)))"

definition hm_data_store_create_block_with_id ::
    "'d hm_ds_db option \<Rightarrow> cbuf \<Rightarrow> cbuf \<Rightarrow> cbuf \<Rightarrow> cbuf \<Rightarrow> status \<times> 'd hm_ds_db option" where
  "hm_data_store_create_block_with_id db bid block meta mac =
     (if db = None \<or> ds_user_data (the db) = None \<or> insert_block_with_id (the db) = None \<or>
        absent block \<or> absent meta \<or> absent mac \<or> absent bid
      then (HM_INVALID_PARAMETER, db)
      else ds_done db
        (the (insert_block_with_id (the db)) (the (ds_user_data (the db)))
          (the bid) (the block) (the meta) (the mac)))"

definition hm_data_store_read_block ::
    "'d hm_ds_db option \<Rightarrow> cbuf \<Rightarrow> bool \<Rightarrow> (status + bytes \<times> bytes) \<times> 'd hm_ds_db option" where
  "hm_data_store_read_block db bid want =
     (if db = None \<or> ds_user_data (the db) = None \<or> get_block (the db) = None \<or> absent bid \<or> \<not> want
      then (Inl HM_INVALID_PARAMETER, db)
      else ds_result db (the (get_block (the db)) (the (ds_user_data (the db))) (the bid)))"

definition hm_data_store_update_block ::
    "'d hm_ds_db option \<Rightarrow> cbuf \<Rightarrow> cbuf \<Rightarrow> cbuf \<Rightarrow> cbuf \<Rightarrow> cbuf \<Rightarrow> status \<times> 'd hm_ds_db option" where
  "hm_data_store_update_block db bid block meta mac old_mac =
     (if db = None \<or> ds_user_data (the db) = None \<or> update_block (the db) = None \<or> absent bid \<or>
        absent block \<or> absent meta \<or> absent mac \<or> absent old_mac
      then (HM_INVALID_PARAMETER, db)
      else ds_done db
        (the (update_block (the db)) (the (ds_user_data (the db)))
          (the bid) (the block) (the meta) (the mac) (the old_mac)))"

definition hm_data_store_delete_block ::
    "'d hm_ds_db option \<Rightarrow> cbuf \<Rightarrow> cbuf \<Rightarrow> status \<times> 'd hm_ds_db option" where
  "hm_data_store_delete_block db bid old_mac =
     (if db = None \<or> ds_user_data (the db) = None \<or> rem_block (the db) = None \<or> absent bid \<or>
        absent old_mac
      then (HM_INVALID_PARAMETER, db)
      else ds_done db
        (the (rem_block (the db)) (the (ds_user_data (the db))) (the bid) (the old_mac)))"

subsection \<open>Proxies\<close>

definition hm_data_store_create_block_NAME :: bytes where "hm_data_store_create_block_NAME = c_string ''hm_data_store_create_block''"
definition hm_data_store_create_block_with_id_NAME :: bytes where "hm_data_store_create_block_with_id_NAME = c_string ''hm_data_store_create_block_with_id''"
definition hm_data_store_read_block_NAME :: bytes where "hm_data_store_read_block_NAME = c_string ''hm_data_store_read_block''"
definition hm_data_store_update_block_NAME :: bytes where "hm_data_store_update_block_NAME = c_string ''hm_data_store_update_block''"
definition hm_data_store_delete_block_NAME :: bytes where "hm_data_store_delete_block_NAME = c_string ''hm_data_store_delete_block''"

lemmas data_store_names = hm_data_store_create_block_NAME_def hm_data_store_create_block_with_id_NAME_def hm_data_store_read_block_NAME_def hm_data_store_update_block_NAME_def hm_data_store_delete_block_NAME_def

definition hm_data_store_create_block_sync_proxy ::
    "'t hm_rpc_client_sync option \<Rightarrow> cbuf \<Rightarrow> cbuf \<Rightarrow> cbuf \<Rightarrow> bool \<Rightarrow> ('t, bytes) io" where
  "hm_data_store_create_block_sync_proxy client block meta mac want =
     (if client = None \<or> absent block \<or> absent meta \<or> absent mac \<or> \<not> want
      then io_fail HM_INVALID_PARAMETER
      else io_bind (proxy_call client hm_data_store_create_block_NAME
          [ABufferC (the block), ABufferC (the meta), ABufferC (the mac)] True)
        (\<lambda>(status, out).
          if HM_SUCCESS \<noteq> status then io_fail status
          else (case HM_PARAM_EXTRACT out [HM_PARAM_TYPE_BUFFER] of
                  Inl res \<Rightarrow> io_fail res
                | Inr vs \<Rightarrow> io_ret (the (vbuf vs 0)))))"

definition hm_data_store_create_block_with_id_sync_proxy ::
    "'t hm_rpc_client_sync option \<Rightarrow> cbuf \<Rightarrow> cbuf \<Rightarrow> cbuf \<Rightarrow> cbuf \<Rightarrow> ('t, unit) io" where
  "hm_data_store_create_block_with_id_sync_proxy client bid block meta mac =
     (if client = None \<or> absent block \<or> absent meta \<or> absent mac \<or> absent bid
      then io_fail HM_INVALID_PARAMETER
      else io_bind (proxy_call client hm_data_store_create_block_with_id_NAME
          [ABufferC (the bid), ABufferC (the block), ABufferC (the meta), ABufferC (the mac)] False)
        (\<lambda>(status, _). if HM_SUCCESS \<noteq> status then io_fail status else io_ret ()))"

definition hm_data_store_read_block_sync_proxy ::
    "'t hm_rpc_client_sync option \<Rightarrow> cbuf \<Rightarrow> bool \<Rightarrow> ('t, bytes \<times> bytes) io" where
  "hm_data_store_read_block_sync_proxy client bid want =
     (if client = None \<or> absent bid \<or> \<not> want
      then io_fail HM_INVALID_PARAMETER
      else io_bind (proxy_call client hm_data_store_read_block_NAME
          [ABufferC (the bid)] True)
        (\<lambda>(status, out).
          if HM_SUCCESS \<noteq> status then io_fail status
          else (case HM_PARAM_EXTRACT out [HM_PARAM_TYPE_BUFFER, HM_PARAM_TYPE_BUFFER] of
                  Inl res \<Rightarrow> io_fail res
                | Inr vs \<Rightarrow> io_ret (the (vbuf vs 0), the (vbuf vs 1)))))"

definition hm_data_store_update_block_sync_proxy ::
    "'t hm_rpc_client_sync option \<Rightarrow> cbuf \<Rightarrow> cbuf \<Rightarrow> cbuf \<Rightarrow> cbuf \<Rightarrow> cbuf \<Rightarrow> ('t, unit) io" where
  "hm_data_store_update_block_sync_proxy client bid block meta mac old_mac =
     (if client = None \<or> absent bid \<or> absent block \<or> absent meta \<or> absent mac \<or> absent old_mac
      then io_fail HM_INVALID_PARAMETER
      else io_bind (proxy_call client hm_data_store_update_block_NAME
          [ABufferC (the bid), ABufferC (the block), ABufferC (the meta), ABufferC (the mac), ABufferC (the old_mac)] False)
        (\<lambda>(status, _). if HM_SUCCESS \<noteq> status then io_fail status else io_ret ()))"

definition hm_data_store_delete_block_sync_proxy ::
    "'t hm_rpc_client_sync option \<Rightarrow> cbuf \<Rightarrow> cbuf \<Rightarrow> ('t, unit) io" where
  "hm_data_store_delete_block_sync_proxy client bid old_mac =
     (if client = None \<or> absent bid \<or> absent old_mac
      then io_fail HM_INVALID_PARAMETER
      else io_bind (proxy_call client hm_data_store_delete_block_NAME
          [ABufferC (the bid), ABufferC (the old_mac)] False)
        (\<lambda>(status, _). if HM_SUCCESS \<noteq> status then io_fail status else io_ret ()))"

subsection \<open>Stubs\<close>

definition hm_data_store_create_block_stub :: "'d hm_ds_db hm_server_func" where
  "hm_data_store_create_block_stub in_params user_data =
     (if user_data = None \<or> in_params = None then Some (HM_INVALID_PARAMETER, None, user_data)
      else (case HM_PARAM_EXTRACT in_params [HM_PARAM_TYPE_BUFFER, HM_PARAM_TYPE_BUFFER, HM_PARAM_TYPE_BUFFER] of
              Inl res \<Rightarrow> Some (res, None, user_data)
            | Inr vs \<Rightarrow>
                (case hm_data_store_create_block user_data (vbuf vs 0) (vbuf vs 1) (vbuf vs 2) True of
                   (Inl res, db) \<Rightarrow> Some (res, None, db)
                 | (Inr bid, db) \<Rightarrow>
                     (case HM_PARAM_PACK [ABuffer bid] of
                        None \<Rightarrow> None
                      | Some None \<Rightarrow> Some (HM_FAIL, None, db)
                      | Some (Some out) \<Rightarrow> Some (HM_SUCCESS, Some out, db)))))"

definition hm_data_store_create_block_with_id_stub :: "'d hm_ds_db hm_server_func" where
  "hm_data_store_create_block_with_id_stub in_params user_data =
     (if user_data = None \<or> in_params = None then Some (HM_INVALID_PARAMETER, None, user_data)
      else (case HM_PARAM_EXTRACT in_params [HM_PARAM_TYPE_BUFFER, HM_PARAM_TYPE_BUFFER, HM_PARAM_TYPE_BUFFER, HM_PARAM_TYPE_BUFFER] of
              Inl res \<Rightarrow> Some (res, None, user_data)
            | Inr vs \<Rightarrow>
                (case hm_data_store_create_block_with_id user_data (vbuf vs 0) (vbuf vs 1) (vbuf vs 2) (vbuf vs 3) of
                   (res, db) \<Rightarrow> Some (res, None, db))))"

definition hm_data_store_read_block_stub :: "'d hm_ds_db hm_server_func" where
  "hm_data_store_read_block_stub in_params user_data =
     (if user_data = None \<or> in_params = None then Some (HM_INVALID_PARAMETER, None, user_data)
      else (case HM_PARAM_EXTRACT in_params [HM_PARAM_TYPE_BUFFER] of
              Inl res \<Rightarrow> Some (res, None, user_data)
            | Inr vs \<Rightarrow>
                (case hm_data_store_read_block user_data (vbuf vs 0) True of
                   (Inl res, db) \<Rightarrow> Some (res, None, db)
                 | (Inr (block, meta), db) \<Rightarrow>
                     (case HM_PARAM_PACK [ABuffer block, ABuffer meta] of
                        None \<Rightarrow> None
                      | Some None \<Rightarrow> Some (HM_FAIL, None, db)
                      | Some (Some out) \<Rightarrow> Some (HM_SUCCESS, Some out, db)))))"

definition hm_data_store_update_block_stub :: "'d hm_ds_db hm_server_func" where
  "hm_data_store_update_block_stub in_params user_data =
     (if user_data = None \<or> in_params = None then Some (HM_INVALID_PARAMETER, None, user_data)
      else (case HM_PARAM_EXTRACT in_params [HM_PARAM_TYPE_BUFFER, HM_PARAM_TYPE_BUFFER,
                HM_PARAM_TYPE_BUFFER, HM_PARAM_TYPE_BUFFER, HM_PARAM_TYPE_BUFFER] of
              Inl res \<Rightarrow> Some (res, None, user_data)
            | Inr vs \<Rightarrow>
                (case hm_data_store_update_block user_data (vbuf vs 0) (vbuf vs 1) (vbuf vs 2) (vbuf vs 3) (vbuf vs 4) of
                   (res, db) \<Rightarrow> Some (res, None, db))))"

definition hm_data_store_delete_block_stub :: "'d hm_ds_db hm_server_func" where
  "hm_data_store_delete_block_stub in_params user_data =
     (if user_data = None \<or> in_params = None then Some (HM_INVALID_PARAMETER, None, user_data)
      else (case HM_PARAM_EXTRACT in_params [HM_PARAM_TYPE_BUFFER, HM_PARAM_TYPE_BUFFER] of
              Inl res \<Rightarrow> Some (res, None, user_data)
            | Inr vs \<Rightarrow>
                (case hm_data_store_delete_block user_data (vbuf vs 0) (vbuf vs 1) of
                   (res, db) \<Rightarrow> Some (res, None, db))))"

subsection \<open>Client\<close>

record 't hm_data_store_client_sync =
  ds_c :: "'t hm_rpc_client_sync"

definition hm_data_store_client_sync_create ::
    "'t hm_rpc_transport option \<Rightarrow> 't hm_data_store_client_sync option" where
  "hm_data_store_client_sync_create transport =
     (if transport = None then None
      else (case hm_rpc_client_sync_create transport of
              None \<Rightarrow> None
            | Some c \<Rightarrow> Some \<lparr>ds_c = c\<rparr>))"

definition hm_data_store_client_sync_destroy ::
    "'t hm_data_store_client_sync option \<Rightarrow> status \<times> 't hm_data_store_client_sync option" where
  "hm_data_store_client_sync_destroy client =
     (if client = None then (HM_INVALID_PARAMETER, None) else (HM_SUCCESS, None))"

definition hm_data_store_client_sync_call_create_block ::
    "'t hm_data_store_client_sync option \<Rightarrow> cbuf \<Rightarrow> cbuf \<Rightarrow> cbuf \<Rightarrow> bool \<Rightarrow> ('t, bytes) io" where
  "hm_data_store_client_sync_call_create_block client block meta mac want =
     (if client = None \<or> absent block \<or> absent meta \<or> absent mac \<or> \<not> want
      then io_fail HM_INVALID_PARAMETER
      else hm_data_store_create_block_sync_proxy (Some (ds_c (the client))) block meta mac want)"

definition hm_data_store_client_sync_call_create_block_with_id ::
    "'t hm_data_store_client_sync option \<Rightarrow> cbuf \<Rightarrow> cbuf \<Rightarrow> cbuf \<Rightarrow> cbuf \<Rightarrow> ('t, unit) io" where
  "hm_data_store_client_sync_call_create_block_with_id client bid block meta mac =
     (if client = None \<or> absent block \<or> absent meta \<or> absent mac \<or> absent bid
      then io_fail HM_INVALID_PARAMETER
      else hm_data_store_create_block_with_id_sync_proxy (Some (ds_c (the client))) bid block meta mac)"

definition hm_data_store_client_sync_call_read_block ::
    "'t hm_data_store_client_sync option \<Rightarrow> cbuf \<Rightarrow> bool \<Rightarrow> ('t, bytes \<times> bytes) io" where
  "hm_data_store_client_sync_call_read_block client bid want =
     (if client = None \<or> absent bid \<or> \<not> want
      then io_fail HM_INVALID_PARAMETER
      else hm_data_store_read_block_sync_proxy (Some (ds_c (the client))) bid want)"

definition hm_data_store_client_sync_call_update_block ::
    "'t hm_data_store_client_sync option \<Rightarrow> cbuf \<Rightarrow> cbuf \<Rightarrow> cbuf \<Rightarrow> cbuf \<Rightarrow> cbuf \<Rightarrow> ('t, unit) io" where
  "hm_data_store_client_sync_call_update_block client bid block meta mac old_mac =
     (if client = None \<or> absent bid \<or> absent block \<or> absent meta \<or> absent mac \<or> absent old_mac
      then io_fail HM_INVALID_PARAMETER
      else hm_data_store_update_block_sync_proxy (Some (ds_c (the client))) bid block meta mac old_mac)"

definition hm_data_store_client_sync_call_delete_block ::
    "'t hm_data_store_client_sync option \<Rightarrow> cbuf \<Rightarrow> cbuf \<Rightarrow> ('t, unit) io" where
  "hm_data_store_client_sync_call_delete_block client bid old_mac =
     (if client = None \<or> absent bid \<or> absent old_mac
      then io_fail HM_INVALID_PARAMETER
      else hm_data_store_delete_block_sync_proxy (Some (ds_c (the client))) bid old_mac)"

subsection \<open>Server and service\<close>

record ('t, 'd) hm_data_store_server =
  ds_s :: "('t, 'd hm_ds_db) hm_rpc_server"
  ds_db :: "'d hm_ds_db"

text \<open>The registrations of the server, in order.\<close>

definition hm_data_store_functions :: "(bytes \<times> 'd hm_ds_db hm_server_func) list" where
  "hm_data_store_functions =
     [(hm_data_store_create_block_NAME, hm_data_store_create_block_stub),
      (hm_data_store_create_block_with_id_NAME, hm_data_store_create_block_with_id_stub),
      (hm_data_store_read_block_NAME, hm_data_store_read_block_stub),
      (hm_data_store_update_block_NAME, hm_data_store_update_block_stub),
      (hm_data_store_delete_block_NAME, hm_data_store_delete_block_stub)]"

definition hm_data_store_server_create ::
    "'t hm_rpc_transport option \<Rightarrow> 'd hm_ds_db option \<Rightarrow> ('t, 'd) hm_data_store_server option option" where
  "hm_data_store_server_create transport db =
     (if transport = None \<or> db = None \<or> \<not> hm_data_store_check_backend db then Some None
      else (case hm_rpc_server_create transport of
              None \<Rightarrow> Some None
            | Some s \<Rightarrow>
                (case insert_all reg_func s hm_data_store_functions of
                   None \<Rightarrow> None
                 | Some (res, s) \<Rightarrow>
                     if HM_SUCCESS \<noteq> res then Some None else Some (Some \<lparr>ds_s = s, ds_db = the db\<rparr>))))"

definition hm_data_store_server_destroy ::
    "('t, 'd) hm_data_store_server option \<Rightarrow> status \<times> ('t, 'd) hm_data_store_server option" where
  "hm_data_store_server_destroy server =
     (if server = None then (HM_INVALID_PARAMETER, None) else (HM_SUCCESS, None))"

definition hm_data_store_server_call :: "(('t, 'd) hm_data_store_server, 't) server_call" where
  "hm_data_store_server_call = db_server_call ds_s ds_db (\<lambda>d s. s\<lparr>ds_db := d\<rparr>)"

type_synonym ('t, 'd) hm_data_store_service = "('t, 'd) hm_data_store_server hm_service"

definition hm_data_store_service_create ::
    "'t hm_rpc_transport option \<Rightarrow> 'd hm_ds_db option \<Rightarrow> ('t, 'd) hm_data_store_service option option" where
  "hm_data_store_service_create transport db =
     (if transport = None \<or> db = None then Some None
      else (case hm_data_store_server_create transport db of
              None \<Rightarrow> None
            | Some None \<Rightarrow> Some None
            | Some (Some s) \<Rightarrow> Some (Some \<lparr>service_server = s, finish = False\<rparr>)))"

definition hm_data_store_service_destroy ::
    "('t, 'd) hm_data_store_service option \<Rightarrow> status \<times> ('t, 'd) hm_data_store_service option" where
  "hm_data_store_service_destroy = service_destroy"

definition hm_data_store_service_start ::
    "bool list \<Rightarrow> ('t, 'd) hm_data_store_service option \<Rightarrow> 't \<Rightarrow>
     (status \<times> ('t, 'd) hm_data_store_service option \<times> 't) option" where
  "hm_data_store_service_start = service_start hm_data_store_server_call"

definition hm_data_store_service_stop ::
    "('t, 'd) hm_data_store_service option \<Rightarrow> status \<times> ('t, 'd) hm_data_store_service option" where
  "hm_data_store_service_stop = service_stop"

interpretation ds_pipe: db_server hm_test_transport pipe_link "\<lambda>_. True" ds_s ds_db "\<lambda>d s. s\<lparr>ds_db := d\<rparr>"
  rewrites "\<And>bs. list_all (\<lambda>_. True) bs \<equiv> True" and "\<And>P. (True \<Longrightarrow> PROP P) \<equiv> PROP P"
  by unfold_locales simp_all

lemma data_store_hashes:
  "hm_hash hm_data_store_create_block_NAME = 604"
  "hm_hash hm_data_store_create_block_with_id_NAME = 611"
  "hm_hash hm_data_store_read_block_NAME = 420"
  "hm_hash hm_data_store_update_block_NAME = 363"
  "hm_hash hm_data_store_delete_block_NAME = 827"
  by (simp_all add: data_store_names c_string_def hm_hash_def hm_hash_step_def HM_HASH_TABLE_CAP_def)

subsection \<open>Creating the server\<close>

text \<open>The names fall into buckets of their own.\<close>

lemma data_store_reg_all:
  "\<exists>s. insert_all reg_func (the (hm_rpc_server_create (Some tr))) hm_data_store_functions =
      Some (HM_SUCCESS, s) \<and> server_transport s = tr \<and>
    (\<forall>(k, f) \<in> set hm_data_store_functions. registered s k f)"
proof (rule reg_all_registered)
  show "\<forall>k \<in> fst ` set hm_data_store_functions. \<forall>k' \<in> fst ` set hm_data_store_functions. key_compat k k'"
    by (simp add: hm_data_store_functions_def key_compat_def data_store_hashes)
qed (simp_all add: hm_data_store_functions_def data_store_names c_string_def)

lemma hm_data_store_server_create_ok:
  fixes srv :: "('t, 'd) hm_data_store_server"
  assumes "hm_data_store_server_create (Some tr) (Some db) = Some (Some srv)"
  shows "server_transport (ds_s srv) = tr" "ds_db srv = db"
    "\<forall>(k, f) \<in> set hm_data_store_functions. registered (ds_s srv) k f"
proof -
  obtain s :: "('t, 'd hm_ds_db) hm_rpc_server" where
    "insert_all reg_func (the (hm_rpc_server_create (Some tr))) hm_data_store_functions =
      Some (HM_SUCCESS, s)"
    "server_transport s = tr" "\<forall>(k, f) \<in> set hm_data_store_functions. registered s k f"
    using data_store_reg_all by blast
  with assms show "server_transport (ds_s srv) = tr" "ds_db srv = db"
    "\<forall>(k, f) \<in> set hm_data_store_functions. registered (ds_s srv) k f"
    by (auto simp: hm_data_store_server_create_def hm_rpc_server_create_def split: if_splits)
qed

lemma hm_data_store_server_create_returns:
  fixes db :: "'d hm_ds_db option"
  shows "\<exists>r. hm_data_store_server_create transport db = Some r \<and>
    (r \<noteq> None \<longleftrightarrow> transport \<noteq> None \<and> hm_data_store_check_backend db)"
proof (cases "transport = None \<or> \<not> hm_data_store_check_backend db")
  case True
  then show ?thesis by (auto simp: hm_data_store_server_create_def)
next
  case False
  then obtain tr d where tr: "transport = Some tr" "db = Some d"
    by (auto simp: hm_data_store_check_backend_def)
  obtain s :: "(_, 'd hm_ds_db) hm_rpc_server" where
    "insert_all reg_func (the (hm_rpc_server_create (Some tr))) hm_data_store_functions =
      Some (HM_SUCCESS, s)"
    using data_store_reg_all by blast
  with False tr show ?thesis
    by (auto simp: hm_data_store_server_create_def hm_rpc_server_create_def)
qed

subsection \<open>Remote operations are local operations\<close>

text \<open>
  The operations of the store as data, how a client runs one, and how it runs on the database
  itself.
\<close>

datatype ds_op =
    DsCreate bytes bytes bytes
  | DsCreateWithId bytes bytes bytes bytes
  | DsRead bytes
  | DsUpdate bytes bytes bytes bytes bytes
  | DsDelete bytes bytes

datatype ds_res =
    DsDone "status + unit"
  | DsId "status + bytes"
  | DsBlock "status + bytes \<times> bytes"

fun ds_local :: "'d hm_ds_db option \<Rightarrow> ds_op \<Rightarrow> ds_res \<times> 'd hm_ds_db option" where
  "ds_local db (DsCreate block meta mac) =
     apfst DsId (hm_data_store_create_block db (Some block) (Some meta) (Some mac) True)"
| "ds_local db (DsCreateWithId bid block meta mac) =
     apfst (DsDone \<circ> status_result)
       (hm_data_store_create_block_with_id db (Some bid) (Some block) (Some meta) (Some mac))"
| "ds_local db (DsRead bid) = apfst DsBlock (hm_data_store_read_block db (Some bid) True)"
| "ds_local db (DsUpdate bid block meta mac old_mac) =
     apfst (DsDone \<circ> status_result)
       (hm_data_store_update_block db (Some bid) (Some block) (Some meta) (Some mac) (Some old_mac))"
| "ds_local db (DsDelete bid old_mac) =
     apfst (DsDone \<circ> status_result) (hm_data_store_delete_block db (Some bid) (Some old_mac))"

fun ds_remote :: "'t hm_data_store_client_sync option \<Rightarrow> ds_op \<Rightarrow> 't \<Rightarrow> (ds_res \<times> 't) option" where
  "ds_remote c (DsCreate block meta mac) t =
     map_option (apfst DsId)
       (hm_data_store_client_sync_call_create_block c (Some block) (Some meta) (Some mac) True t)"
| "ds_remote c (DsCreateWithId bid block meta mac) t =
     map_option (apfst DsDone)
       (hm_data_store_client_sync_call_create_block_with_id c (Some bid) (Some block) (Some meta)
         (Some mac) t)"
| "ds_remote c (DsRead bid) t =
     map_option (apfst DsBlock) (hm_data_store_client_sync_call_read_block c (Some bid) True t)"
| "ds_remote c (DsUpdate bid block meta mac old_mac) t =
     map_option (apfst DsDone)
       (hm_data_store_client_sync_call_update_block c (Some bid) (Some block) (Some meta) (Some mac)
         (Some old_mac) t)"
| "ds_remote c (DsDelete bid old_mac) t =
     map_option (apfst DsDone)
       (hm_data_store_client_sync_call_delete_block c (Some bid) (Some old_mac) t)"

fun ds_local_all :: "'d hm_ds_db option \<Rightarrow> ds_op list \<Rightarrow> ds_res list \<times> 'd hm_ds_db option" where
  "ds_local_all db [] = ([], db)"
| "ds_local_all db (op # ops) =
     (let (r, db) = ds_local db op; (rs, db) = ds_local_all db ops in (r # rs, db))"

fun ds_remote_all :: "'t hm_data_store_client_sync option \<Rightarrow> ds_op list \<Rightarrow> 't \<Rightarrow> (ds_res list \<times> 't) option"
where
  "ds_remote_all c [] t = Some ([], t)"
| "ds_remote_all c (op # ops) t =
     (case ds_remote c op t of
        None \<Rightarrow> None
      | Some (r, t) \<Rightarrow> map_option (apfst (Cons r)) (ds_remote_all c ops t))"

text \<open>The arguments and the results can be parameters of a call.\<close>

fun ds_op_ok :: "ds_op \<Rightarrow> bool" where
  "ds_op_ok (DsCreate block meta mac) = list_all param_ok [block, meta, mac]"
| "ds_op_ok (DsCreateWithId bid block meta mac) = list_all param_ok [bid, block, meta, mac]"
| "ds_op_ok (DsRead bid) = param_ok bid"
| "ds_op_ok (DsUpdate bid block meta mac old_mac) = list_all param_ok [bid, block, meta, mac, old_mac]"
| "ds_op_ok (DsDelete bid old_mac) = list_all param_ok [bid, old_mac]"

fun ds_res_ok :: "ds_res \<Rightarrow> bool" where
  "ds_res_ok (DsDone r) = True"
| "ds_res_ok (DsId r) = (case r of Inl _ \<Rightarrow> True | Inr bid \<Rightarrow> param_ok bid)"
| "ds_res_ok (DsBlock r) = (case r of Inl _ \<Rightarrow> True | Inr (block, meta) \<Rightarrow> param_ok block \<and> param_ok meta)"

lemma data_store_names_ok [simp]:
  "name_ok hm_data_store_create_block_NAME"
  "name_ok hm_data_store_create_block_with_id_NAME"
  "name_ok hm_data_store_read_block_NAME"
  "name_ok hm_data_store_update_block_NAME"
  "name_ok hm_data_store_delete_block_NAME"
  by (simp_all add: name_ok_def data_store_names)

lemma create_block_stub [stub_simps]:
  "hm_data_store_create_block_stub (Some (received_pack (arg_pack [ABufferC b, ABufferC m, ABufferC k]))) (Some d) =
    (case hm_data_store_create_block (Some d) (Some b) (Some m) (Some k) True of
       (r, db) \<Rightarrow> (case r of Inl e \<Rightarrow> Some (e, None, db) | Inr i \<Rightarrow> Some (HM_SUCCESS, Some (arg_pack [ABuffer i]), db)))"
  by (simp add: hm_data_store_create_block_stub_def stub_simps split: sum.split prod.split)

lemma create_block_with_id_stub [stub_simps]:
  "hm_data_store_create_block_with_id_stub
      (Some (received_pack (arg_pack [ABufferC i, ABufferC b, ABufferC m, ABufferC k]))) (Some d) =
    (case hm_data_store_create_block_with_id (Some d) (Some i) (Some b) (Some m) (Some k) of
       (res, db) \<Rightarrow> Some (res, None, db))"
  by (simp add: hm_data_store_create_block_with_id_stub_def stub_simps)

lemma read_block_stub [stub_simps]:
  "hm_data_store_read_block_stub (Some (received_pack (arg_pack [ABufferC i]))) (Some d) =
    (case hm_data_store_read_block (Some d) (Some i) True of
       (r, db) \<Rightarrow> (case r of Inl e \<Rightarrow> Some (e, None, db)
         | Inr bm \<Rightarrow> Some (HM_SUCCESS, Some (arg_pack [ABuffer (fst bm), ABuffer (snd bm)]), db)))"
  by (simp add: hm_data_store_read_block_stub_def stub_simps split: sum.split prod.split)

lemma update_block_stub [stub_simps]:
  "hm_data_store_update_block_stub
      (Some (received_pack (arg_pack [ABufferC i, ABufferC b, ABufferC m, ABufferC k, ABufferC k']))) (Some d) =
    (case hm_data_store_update_block (Some d) (Some i) (Some b) (Some m) (Some k) (Some k') of
       (res, db) \<Rightarrow> Some (res, None, db))"
  by (simp add: hm_data_store_update_block_stub_def stub_simps)

lemma delete_block_stub [stub_simps]:
  "hm_data_store_delete_block_stub
      (Some (received_pack (arg_pack [ABufferC i, ABufferC k]))) (Some d) =
    (case hm_data_store_delete_block (Some d) (Some i) (Some k) of (res, db) \<Rightarrow> Some (res, None, db))"
  by (simp add: hm_data_store_delete_block_stub_def stub_simps)

lemma ds_result_never_success: "fst (ds_result db r) \<noteq> Inl HM_SUCCESS"
  by (simp add: ds_result_def)

lemma data_store_never_success:
  "fst (hm_data_store_create_block db b m k w) \<noteq> Inl HM_SUCCESS"
  "fst (hm_data_store_read_block db i w) \<noteq> Inl HM_SUCCESS"
  by (simp_all add: hm_data_store_create_block_def hm_data_store_read_block_def ds_result_never_success)

text \<open>A client of a loop served by a data store server.\<close>

definition data_store_up ::
    "'d hm_ds_db rpc_loop hm_data_store_client_sync \<Rightarrow> 'd hm_ds_db rpc_loop \<Rightarrow> 'd hm_ds_db \<Rightarrow> bool" where
  "data_store_up c L d \<longleftrightarrow>
     hm_data_store_client_sync_create (Some loop_transport) = Some c \<and>
     (\<exists>srv db. hm_data_store_server_create (Some hm_test_transport) (Some db) = Some (Some srv) \<and>
       serving L (ds_s srv) d)"

lemma data_store_up_exists:
  assumes "hm_data_store_check_backend (Some d)"
  shows "\<exists>s. data_store_up \<lparr>ds_c = \<lparr>client_transport = loop_transport\<rparr>\<rparr>
    \<lparr>to_server = [], to_client = [], loop_server = Some s, loop_data = Some d\<rparr> d"
proof -
  obtain srv where srv: "hm_data_store_server_create (Some hm_test_transport) (Some d) = Some (Some srv)"
    using hm_data_store_server_create_returns [of "Some hm_test_transport" "Some d"] assms by auto
  show ?thesis
    by (rule exI [of _ "ds_s srv"])
      (use srv in \<open>auto simp: data_store_up_def serving_def loop_idle_def
        hm_data_store_client_sync_create_def hm_rpc_client_sync_create_def\<close>)
qed

lemma data_store_upE:
  assumes "data_store_up c L d"
  obtains s where "serving L s d" "server_transport s = hm_test_transport"
    "client_transport (ds_c c) = loop_transport"
    "registered s hm_data_store_create_block_NAME hm_data_store_create_block_stub"
    "registered s hm_data_store_create_block_with_id_NAME hm_data_store_create_block_with_id_stub"
    "registered s hm_data_store_read_block_NAME hm_data_store_read_block_stub"
    "registered s hm_data_store_update_block_NAME hm_data_store_update_block_stub"
    "registered s hm_data_store_delete_block_NAME hm_data_store_delete_block_stub"
proof -
  obtain srv db where srv: "hm_data_store_server_create (Some hm_test_transport) (Some db) = Some (Some srv)"
    "serving L (ds_s srv) d"
    using assms by (auto simp: data_store_up_def)
  show ?thesis
    using hm_data_store_server_create_ok [OF srv(1)] srv(2) assms
    by (intro that [of "ds_s srv"])
      (auto simp: data_store_up_def hm_data_store_client_sync_create_def hm_rpc_client_sync_create_def
        hm_data_store_functions_def)
qed

lemma ds_remote_local:
  assumes "data_store_up c L d" "ds_op_ok op" "ds_res_ok (fst (ds_local (Some d) op))"
  shows "ds_remote (Some c) op L =
    Some (fst (ds_local (Some d) op), L\<lparr>loop_data := snd (ds_local (Some d) op)\<rparr>)"
proof -
  obtain s where s: "serving L s d" "server_transport s = hm_test_transport"
    "client_transport (ds_c c) = loop_transport"
    "registered s hm_data_store_create_block_NAME hm_data_store_create_block_stub"
    "registered s hm_data_store_create_block_with_id_NAME hm_data_store_create_block_with_id_stub"
    "registered s hm_data_store_read_block_NAME hm_data_store_read_block_stub"
    "registered s hm_data_store_update_block_NAME hm_data_store_update_block_stub"
    "registered s hm_data_store_delete_block_NAME hm_data_store_delete_block_stub"
    using assms(1) by (rule data_store_upE)
  show ?thesis
  proof (cases op)
    case (DsCreate b m k)
    obtain r db where r: "hm_data_store_create_block (Some d) (Some b) (Some m) (Some k) True = (r, db)"
      by force
    have "\<forall>e. r = Inl e \<longrightarrow> e \<noteq> HM_SUCCESS"
      using data_store_never_success(1) r by (metis fst_conv)
    moreover have "\<forall>v. r = Inr v \<longrightarrow> param_ok v"
      using assms(3) r DsCreate by auto
    ultimately show ?thesis
      using proxy_result [OF s(1-3), where name = hm_data_store_create_block_NAME
        and args = "[ABufferC b, ABufferC m, ABufferC k]" and f = hm_data_store_create_block_stub
        and r = r and d' = db and mk = "\<lambda>i. [ABuffer i]" and tys = "[HM_PARAM_TYPE_BUFFER]"
        and vs = "\<lambda>i. [VBuffer i]" and get = "\<lambda>vs. the (vbuf vs 0)"] s(4) assms(2,3) r DsCreate
      by (auto simp: hm_data_store_client_sync_call_create_block_def
          hm_data_store_create_block_sync_proxy_def stub_simps args_ok_def param_ok_def)
  next
    case (DsCreateWithId i b m k)
    obtain res db where "hm_data_store_create_block_with_id (Some d) (Some i) (Some b) (Some m) (Some k) = (res, db)"
      by force
    with proxy_status [OF s(1-3), of hm_data_store_create_block_with_id_NAME
        "[ABufferC i, ABufferC b, ABufferC m, ABufferC k]" hm_data_store_create_block_with_id_stub res db]
      s(5) assms(2,3) DsCreateWithId show ?thesis
      by (auto simp: hm_data_store_client_sync_call_create_block_with_id_def
          hm_data_store_create_block_with_id_sync_proxy_def stub_simps args_ok_def param_ok_def)
  next
    case (DsRead i)
    obtain r db where r: "hm_data_store_read_block (Some d) (Some i) True = (r, db)"
      by force
    have "\<forall>e. r = Inl e \<longrightarrow> e \<noteq> HM_SUCCESS"
      using data_store_never_success(2) r by (metis fst_conv)
    moreover have "\<forall>v. r = Inr v \<longrightarrow> param_ok (fst v) \<and> param_ok (snd v)"
      using assms(3) r DsRead by auto
    ultimately show ?thesis
      using proxy_result [OF s(1-3), where name = hm_data_store_read_block_NAME
        and args = "[ABufferC i]" and f = hm_data_store_read_block_stub and r = r and d' = db
        and mk = "\<lambda>bm. [ABuffer (fst bm), ABuffer (snd bm)]"
        and tys = "[HM_PARAM_TYPE_BUFFER, HM_PARAM_TYPE_BUFFER]"
        and vs = "\<lambda>bm. [VBuffer (fst bm), VBuffer (snd bm)]"
        and get = "\<lambda>vs. (the (vbuf vs 0), the (vbuf vs 1))"] s(6) assms(2,3) r DsRead
      by (auto simp: hm_data_store_client_sync_call_read_block_def
          hm_data_store_read_block_sync_proxy_def stub_simps args_ok_def param_ok_def)
  next
    case (DsUpdate i b m k k')
    obtain res db where "hm_data_store_update_block (Some d) (Some i) (Some b) (Some m) (Some k) (Some k') = (res, db)"
      by force
    with proxy_status [OF s(1-3), of hm_data_store_update_block_NAME
        "[ABufferC i, ABufferC b, ABufferC m, ABufferC k, ABufferC k']" hm_data_store_update_block_stub res db]
      s(7) assms(2,3) DsUpdate show ?thesis
      by (auto simp: hm_data_store_client_sync_call_update_block_def
          hm_data_store_update_block_sync_proxy_def stub_simps args_ok_def param_ok_def)
  next
    case (DsDelete i k)
    obtain res db where "hm_data_store_delete_block (Some d) (Some i) (Some k) = (res, db)"
      by force
    with proxy_status [OF s(1-3), of hm_data_store_delete_block_NAME
        "[ABufferC i, ABufferC k]" hm_data_store_delete_block_stub res db]
      s(8) assms(2,3) DsDelete show ?thesis
      by (auto simp: hm_data_store_client_sync_call_delete_block_def
          hm_data_store_delete_block_sync_proxy_def stub_simps args_ok_def param_ok_def)
  qed
qed

lemma ds_local_some: "\<exists>r d'. ds_local (Some d) op = (r, Some d')"
  by (cases op) (auto simp: hm_data_store_create_block_def hm_data_store_create_block_with_id_def
      hm_data_store_read_block_def hm_data_store_update_block_def hm_data_store_delete_block_def
      ds_done_def ds_result_def)

lemma data_store_up_step: "data_store_up c L d \<Longrightarrow> data_store_up c (L\<lparr>loop_data := Some d'\<rparr>) d'"
  by (auto simp: data_store_up_def serving_def loop_idle_def)

text \<open>C17. Any program of data store operations run by a client over the pipes, against a server
  created on a database, gives operation by operation the results of the database functions run
  locally in that order, returns, and leaves the database as they leave it and the pipes empty.\<close>

theorem data_store_remote_refines_local:
  assumes "data_store_up c L d" "list_all ds_op_ok ops" "list_all ds_res_ok (fst (ds_local_all (Some d) ops))"
  shows "ds_remote_all (Some c) ops L =
    Some (fst (ds_local_all (Some d) ops), L\<lparr>loop_data := snd (ds_local_all (Some d) ops)\<rparr>)"
  using assms
proof (induction ops arbitrary: L d)
  case Nil
  then show ?case by (auto simp: data_store_up_def serving_def)
next
  case (Cons op ops)
  obtain r d' where r: "ds_local (Some d) op = (r, Some d')"
    using ds_local_some by blast
  with Cons.prems ds_remote_local [of c L d op]
  have "ds_remote (Some c) op L = Some (r, L\<lparr>loop_data := Some d'\<rparr>)"
    by (simp add: case_prod_unfold Let_def)
  moreover have "data_store_up c (L\<lparr>loop_data := Some d'\<rparr>) d'"
    using Cons.prems(1) by (rule data_store_up_step)
  ultimately show ?case
    using Cons.IH [of "L\<lparr>loop_data := Some d'\<rparr>" d'] Cons.prems r by (simp add: case_prod_unfold Let_def)
qed

end
