(* ===== verification/Key_Store.thy ===== *)
theory Key_Store
  imports Service
begin

section \<open>The key store\<close>

text \<open>
  \<^verbatim>\<open>src/key_store\<close>: the read and write tokens of the users of a block.  A token of a user is set by
  an owner; the functions decide who may do so before they call the application's database
  (\<^verbatim>\<open>hm_ks_db_t\<close>).  The conventions are those of \<open>Credential_Store\<close>.  Two functions call a callback
  their own guard does not test (\<^verbatim>\<open>get_wtoken\<close> in \<^verbatim>\<open>hm_key_store_del_rtoken\<close> and
  \<^verbatim>\<open>get_indexed_rights\<close> in \<^verbatim>\<open>hm_key_store_get_indexed_rights\<close>), so their runs can be undefined;
  \<^verbatim>\<open>hm_key_store_server_create\<close> excludes it with \<^verbatim>\<open>hm_key_store_check_backend\<close>.
\<close>

subsection \<open>The database\<close>

type_synonym 'd hm_ks_db_set_token = "'d \<Rightarrow> bytes \<Rightarrow> bytes \<Rightarrow> bytes \<Rightarrow> bytes \<Rightarrow> status \<times> 'd"
type_synonym 'd hm_ks_db_get_token = "'d \<Rightarrow> bytes \<Rightarrow> bytes \<Rightarrow> status \<times> (bytes \<times> bytes) \<times> 'd"
type_synonym 'd hm_ks_db_del_token = "'d \<Rightarrow> bytes \<Rightarrow> bytes \<Rightarrow> bytes \<Rightarrow> status \<times> 'd"
type_synonym 'd hm_ks_db_get_indexed_rights = "'d \<Rightarrow> bytes \<Rightarrow> u64 \<Rightarrow> status \<times> (bytes \<times> u32) \<times> 'd"

record 'd hm_ks_db =
  ks_user_data :: "'d option"
  set_rtoken :: "'d hm_ks_db_set_token option"
  set_wtoken :: "'d hm_ks_db_set_token option"
  get_rtoken :: "'d hm_ks_db_get_token option"
  get_wtoken :: "'d hm_ks_db_get_token option"
  get_indexed_rights :: "'d hm_ks_db_get_indexed_rights option"
  del_rtoken :: "'d hm_ks_db_del_token option"
  del_wtoken :: "'d hm_ks_db_del_token option"

definition hm_key_store_check_backend :: "'d hm_ks_db option \<Rightarrow> bool" where
  "hm_key_store_check_backend db =
     (\<not> (db = None \<or> set_rtoken (the db) = None \<or> set_wtoken (the db) = None \<or>
        get_rtoken (the db) = None \<or> get_wtoken (the db) = None \<or> del_rtoken (the db) = None \<or>
        del_wtoken (the db) = None \<or> get_indexed_rights (the db) = None))"

text \<open>The results of a callback, put back in the database.\<close>

definition ks_done :: "'d hm_ks_db option \<Rightarrow> status \<times> 'd \<Rightarrow> status \<times> 'd hm_ks_db option" where
  "ks_done db r = (fst r, Some ((the db)\<lparr>ks_user_data := Some (snd r)\<rparr>))"

definition ks_result ::
    "'d hm_ks_db option \<Rightarrow> status \<times> 'a \<times> 'd \<Rightarrow> (status + 'a) \<times> 'd hm_ks_db option" where
  "ks_result db r =
     (if fst r = HM_SUCCESS then Inr (fst (snd r)) else Inl (fst r),
      Some ((the db)\<lparr>ks_user_data := Some (snd (snd r))\<rparr>))"

text \<open>\<^verbatim>\<open>user_id_length != owner_id_length || 0 != memcmp(user_id, owner_id, user_id_length)\<close>\<close>

definition other_user :: "bytes \<Rightarrow> bytes \<Rightarrow> bool" where
  "other_user user_id owner_id =
     (length user_id \<noteq> length owner_id \<or> Some 0 \<noteq> c_memcmp user_id owner_id (length user_id))"

subsection \<open>The functions\<close>

definition hm_key_store_set_rtoken ::
    "'d hm_ks_db option \<Rightarrow> cbuf \<Rightarrow> cbuf \<Rightarrow> cbuf \<Rightarrow> cbuf \<Rightarrow> status \<times> 'd hm_ks_db option" where
  "hm_key_store_set_rtoken db block_id user_id owner_id read_token =
     (if db = None \<or> ks_user_data (the db) = None \<or> get_rtoken (the db) = None \<or>
        set_rtoken (the db) = None \<or> absent block_id \<or> absent user_id \<or> absent owner_id \<or>
        absent read_token
      then (HM_INVALID_PARAMETER, db)
      else if other_user (the user_id) (the owner_id) then
        (case the (get_rtoken (the db)) (the (ks_user_data (the db))) (the block_id) (the owner_id) of
           (res, _, d) \<Rightarrow>
             if HM_SUCCESS \<noteq> res then (HM_FAIL, Some ((the db)\<lparr>ks_user_data := Some d\<rparr>))
             else ks_done db
               (the (set_rtoken (the db)) d (the block_id) (the user_id) (the owner_id) (the read_token)))
      else ks_done db
        (the (set_rtoken (the db)) (the (ks_user_data (the db)))
          (the block_id) (the user_id) (the owner_id) (the read_token)))"

definition hm_key_store_set_wtoken ::
    "'d hm_ks_db option \<Rightarrow> cbuf \<Rightarrow> cbuf \<Rightarrow> cbuf \<Rightarrow> cbuf \<Rightarrow> status \<times> 'd hm_ks_db option" where
  "hm_key_store_set_wtoken db block_id user_id owner_id wtoken =
     (if db = None \<or> ks_user_data (the db) = None \<or> get_wtoken (the db) = None \<or>
        set_wtoken (the db) = None \<or> absent block_id \<or> absent user_id \<or> absent owner_id \<or>
        absent wtoken
      then (HM_INVALID_PARAMETER, db)
      else if other_user (the user_id) (the owner_id) then
        (case the (get_wtoken (the db)) (the (ks_user_data (the db))) (the block_id) (the owner_id) of
           (res, _, d) \<Rightarrow>
             if HM_SUCCESS \<noteq> res then (HM_FAIL, Some ((the db)\<lparr>ks_user_data := Some d\<rparr>))
             else ks_done db
               (the (set_wtoken (the db)) d (the block_id) (the user_id) (the owner_id) (the wtoken)))
      else ks_done db
        (the (set_wtoken (the db)) (the (ks_user_data (the db)))
          (the block_id) (the user_id) (the owner_id) (the wtoken)))"

definition hm_key_store_get_rtoken ::
    "'d hm_ks_db option \<Rightarrow> cbuf \<Rightarrow> cbuf \<Rightarrow> bool \<Rightarrow> (status + bytes \<times> bytes) \<times> 'd hm_ks_db option" where
  "hm_key_store_get_rtoken db block_id user_id want =
     (if db = None \<or> ks_user_data (the db) = None \<or> get_rtoken (the db) = None \<or> absent block_id \<or>
        absent user_id \<or> \<not> want
      then (Inl HM_INVALID_PARAMETER, db)
      else ks_result db
        (the (get_rtoken (the db)) (the (ks_user_data (the db))) (the block_id) (the user_id)))"

definition hm_key_store_get_wtoken ::
    "'d hm_ks_db option \<Rightarrow> cbuf \<Rightarrow> cbuf \<Rightarrow> bool \<Rightarrow> (status + bytes \<times> bytes) \<times> 'd hm_ks_db option" where
  "hm_key_store_get_wtoken db block_id user_id want =
     (if db = None \<or> ks_user_data (the db) = None \<or> get_wtoken (the db) = None \<or> absent block_id \<or>
        absent user_id \<or> \<not> want
      then (Inl HM_INVALID_PARAMETER, db)
      else ks_result db
        (the (get_wtoken (the db)) (the (ks_user_data (the db))) (the block_id) (the user_id)))"

definition hm_key_store_del_rtoken ::
    "'d hm_ks_db option \<Rightarrow> cbuf \<Rightarrow> cbuf \<Rightarrow> cbuf \<Rightarrow> (status \<times> 'd hm_ks_db option) option" where
  "hm_key_store_del_rtoken db block_id user_id owner_id =
     (if db = None \<or> ks_user_data (the db) = None \<or> get_rtoken (the db) = None \<or>
        del_rtoken (the db) = None \<or> absent block_id \<or> absent user_id \<or> absent owner_id
      then Some (HM_INVALID_PARAMETER, db)
      else (case get_wtoken (the db) of
              None \<Rightarrow> None
            | Some get \<Rightarrow>
                (case get (the (ks_user_data (the db))) (the block_id) (the owner_id) of
                   (res, _, d) \<Rightarrow>
                     if HM_SUCCESS \<noteq> res then Some (HM_FAIL, Some ((the db)\<lparr>ks_user_data := Some d\<rparr>))
                     else Some (ks_done db
                       (the (del_rtoken (the db)) d (the block_id) (the user_id) (the owner_id))))))"

definition hm_key_store_del_wtoken ::
    "'d hm_ks_db option \<Rightarrow> cbuf \<Rightarrow> cbuf \<Rightarrow> cbuf \<Rightarrow> status \<times> 'd hm_ks_db option" where
  "hm_key_store_del_wtoken db block_id user_id owner_id =
     (if db = None \<or> ks_user_data (the db) = None \<or> get_wtoken (the db) = None \<or>
        del_wtoken (the db) = None \<or> absent block_id \<or> absent user_id \<or> absent owner_id
      then (HM_INVALID_PARAMETER, db)
      else (case the (get_wtoken (the db)) (the (ks_user_data (the db))) (the block_id) (the owner_id) of
              (res, _, d) \<Rightarrow>
                if HM_SUCCESS \<noteq> res then (HM_FAIL, Some ((the db)\<lparr>ks_user_data := Some d\<rparr>))
                else ks_done db
                  (the (del_wtoken (the db)) d (the block_id) (the user_id) (the owner_id))))"

definition hm_key_store_get_indexed_rights ::
    "'d hm_ks_db option \<Rightarrow> cbuf \<Rightarrow> u64 \<Rightarrow> bool \<Rightarrow>
     ((status + bytes \<times> u32) \<times> 'd hm_ks_db option) option" where
  "hm_key_store_get_indexed_rights db block_id index want =
     (if db = None \<or> ks_user_data (the db) = None \<or> get_wtoken (the db) = None \<or>
        del_wtoken (the db) = None \<or> absent block_id \<or> \<not> want
      then Some (Inl HM_INVALID_PARAMETER, db)
      else (case get_indexed_rights (the db) of
              None \<Rightarrow> None
            | Some get \<Rightarrow>
                Some (ks_result db (get (the (ks_user_data (the db))) (the block_id) index))))"

subsection \<open>Proxies\<close>

definition hm_key_store_set_rtoken_NAME :: bytes where "hm_key_store_set_rtoken_NAME = c_string ''hm_key_store_set_rtoken''"
definition hm_key_store_set_wtoken_NAME :: bytes where "hm_key_store_set_wtoken_NAME = c_string ''hm_key_store_set_wtoken''"
definition hm_key_store_get_rtoken_NAME :: bytes where "hm_key_store_get_rtoken_NAME = c_string ''hm_key_store_get_rtoken''"
definition hm_key_store_get_wtoken_NAME :: bytes where "hm_key_store_get_wtoken_NAME = c_string ''hm_key_store_get_wtoken''"
definition hm_key_store_del_rtoken_NAME :: bytes where "hm_key_store_del_rtoken_NAME = c_string ''hm_key_store_del_rtoken''"
definition hm_key_store_del_wtoken_NAME :: bytes where "hm_key_store_del_wtoken_NAME = c_string ''hm_key_store_del_wtoken''"
definition hm_key_store_get_indexed_rights_NAME :: bytes where "hm_key_store_get_indexed_rights_NAME = c_string ''hm_key_store_get_indexed_rights''"

lemmas key_store_names = hm_key_store_set_rtoken_NAME_def
  hm_key_store_set_wtoken_NAME_def
  hm_key_store_get_rtoken_NAME_def
  hm_key_store_get_wtoken_NAME_def
  hm_key_store_del_rtoken_NAME_def
  hm_key_store_del_wtoken_NAME_def
  hm_key_store_get_indexed_rights_NAME_def

definition hm_key_store_set_rtoken_sync_proxy ::
    "'t hm_rpc_client_sync option \<Rightarrow> cbuf \<Rightarrow> cbuf \<Rightarrow> cbuf \<Rightarrow> cbuf \<Rightarrow> ('t, unit) io" where
  "hm_key_store_set_rtoken_sync_proxy client block_id user_id owner_id read_token =
     (if client = None \<or> absent block_id \<or> absent user_id \<or> absent owner_id \<or> absent read_token
      then io_fail HM_INVALID_PARAMETER
      else io_bind (proxy_call client hm_key_store_set_rtoken_NAME
          [ABufferC (the block_id), ABufferC (the user_id), ABufferC (the owner_id), ABufferC (the read_token)] False)
        (\<lambda>(status, _). if HM_SUCCESS \<noteq> status then io_fail status else io_ret ()))"

definition hm_key_store_set_wtoken_sync_proxy ::
    "'t hm_rpc_client_sync option \<Rightarrow> cbuf \<Rightarrow> cbuf \<Rightarrow> cbuf \<Rightarrow> cbuf \<Rightarrow> ('t, unit) io" where
  "hm_key_store_set_wtoken_sync_proxy client block_id user_id owner_id write_token =
     (if client = None \<or> absent block_id \<or> absent user_id \<or> absent owner_id \<or> absent write_token
      then io_fail HM_INVALID_PARAMETER
      else io_bind (proxy_call client hm_key_store_set_wtoken_NAME
          [ABufferC (the block_id), ABufferC (the user_id), ABufferC (the owner_id), ABufferC (the write_token)] False)
        (\<lambda>(status, _). if HM_SUCCESS \<noteq> status then io_fail status else io_ret ()))"

definition hm_key_store_get_rtoken_sync_proxy ::
    "'t hm_rpc_client_sync option \<Rightarrow> cbuf \<Rightarrow> cbuf \<Rightarrow> ('t, bytes \<times> bytes) io" where
  "hm_key_store_get_rtoken_sync_proxy client block_id user_id =
     (if client = None \<or> absent block_id \<or> absent user_id then io_fail HM_INVALID_PARAMETER
      else io_bind (proxy_call client hm_key_store_get_rtoken_NAME
          [ABufferC (the block_id), ABufferC (the user_id)] True)
        (\<lambda>(status, out).
          if HM_SUCCESS \<noteq> status then io_fail status
          else (case HM_PARAM_EXTRACT out [HM_PARAM_TYPE_BUFFER, HM_PARAM_TYPE_BUFFER] of
                  Inl res \<Rightarrow> io_fail res
                | Inr vs \<Rightarrow> io_ret (the (vbuf vs 0), the (vbuf vs 1)))))"

definition hm_key_store_get_wtoken_sync_proxy ::
    "'t hm_rpc_client_sync option \<Rightarrow> cbuf \<Rightarrow> cbuf \<Rightarrow> ('t, bytes \<times> bytes) io" where
  "hm_key_store_get_wtoken_sync_proxy client block_id user_id =
     (if client = None \<or> absent block_id \<or> absent user_id then io_fail HM_INVALID_PARAMETER
      else io_bind (proxy_call client hm_key_store_get_wtoken_NAME
          [ABufferC (the block_id), ABufferC (the user_id)] True)
        (\<lambda>(status, out).
          if HM_SUCCESS \<noteq> status then io_fail status
          else (case HM_PARAM_EXTRACT out [HM_PARAM_TYPE_BUFFER, HM_PARAM_TYPE_BUFFER] of
                  Inl res \<Rightarrow> io_fail res
                | Inr vs \<Rightarrow> io_ret (the (vbuf vs 0), the (vbuf vs 1)))))"

definition hm_key_store_del_rtoken_sync_proxy ::
    "'t hm_rpc_client_sync option \<Rightarrow> cbuf \<Rightarrow> cbuf \<Rightarrow> cbuf \<Rightarrow> ('t, unit) io" where
  "hm_key_store_del_rtoken_sync_proxy client block_id user_id owner_id =
     (if client = None \<or> absent block_id \<or> absent user_id \<or> absent owner_id
      then io_fail HM_INVALID_PARAMETER
      else io_bind (proxy_call client hm_key_store_del_rtoken_NAME
          [ABufferC (the block_id), ABufferC (the user_id), ABufferC (the owner_id)] False)
        (\<lambda>(status, _). if HM_SUCCESS \<noteq> status then io_fail status else io_ret ()))"

definition hm_key_store_del_wtoken_sync_proxy ::
    "'t hm_rpc_client_sync option \<Rightarrow> cbuf \<Rightarrow> cbuf \<Rightarrow> cbuf \<Rightarrow> ('t, unit) io" where
  "hm_key_store_del_wtoken_sync_proxy client block_id user_id owner_id =
     (if client = None \<or> absent block_id \<or> absent user_id \<or> absent owner_id
      then io_fail HM_INVALID_PARAMETER
      else io_bind (proxy_call client hm_key_store_del_wtoken_NAME
          [ABufferC (the block_id), ABufferC (the user_id), ABufferC (the owner_id)] False)
        (\<lambda>(status, _). if HM_SUCCESS \<noteq> status then io_fail status else io_ret ()))"

text \<open>The index, a \<^verbatim>\<open>size_t\<close>, is sent as an \<^verbatim>\<open>int32_t\<close>.\<close>

definition hm_key_store_get_indexed_rights_proxy ::
    "'t hm_rpc_client_sync option \<Rightarrow> cbuf \<Rightarrow> u64 \<Rightarrow> bool \<Rightarrow> ('t, bytes \<times> u32) io" where
  "hm_key_store_get_indexed_rights_proxy client block_id index want =
     (if client = None \<or> absent block_id \<or> \<not> want then io_fail HM_INVALID_PARAMETER
      else io_bind (proxy_call client hm_key_store_get_indexed_rights_NAME
          [ABufferC (the block_id), AInt32 (ucast index)] True)
        (\<lambda>(status, out).
          if HM_SUCCESS \<noteq> status then io_fail status
          else (case HM_PARAM_EXTRACT out [HM_PARAM_TYPE_BUFFER, HM_PARAM_TYPE_INT32] of
                  Inl res \<Rightarrow> io_fail res
                | Inr vs \<Rightarrow> io_ret (the (vbuf vs 0), vint vs 1))))"

subsection \<open>Stubs\<close>

definition hm_key_store_set_rtoken_stub :: "'d hm_ks_db hm_server_func" where
  "hm_key_store_set_rtoken_stub in_params user_data =
     (if user_data = None \<or> in_params = None then Some (HM_INVALID_PARAMETER, None, user_data)
      else (case HM_PARAM_EXTRACT in_params [HM_PARAM_TYPE_BUFFER, HM_PARAM_TYPE_BUFFER, HM_PARAM_TYPE_BUFFER, HM_PARAM_TYPE_BUFFER] of
              Inl res \<Rightarrow> Some (res, None, user_data)
            | Inr vs \<Rightarrow>
                (case hm_key_store_set_rtoken user_data (vbuf vs 0) (vbuf vs 1) (vbuf vs 2) (vbuf vs 3) of
                   (res, db) \<Rightarrow> Some (res, None, db))))"

definition hm_key_store_set_wtoken_stub :: "'d hm_ks_db hm_server_func" where
  "hm_key_store_set_wtoken_stub in_params user_data =
     (if user_data = None \<or> in_params = None then Some (HM_INVALID_PARAMETER, None, user_data)
      else (case HM_PARAM_EXTRACT in_params [HM_PARAM_TYPE_BUFFER, HM_PARAM_TYPE_BUFFER, HM_PARAM_TYPE_BUFFER, HM_PARAM_TYPE_BUFFER] of
              Inl res \<Rightarrow> Some (res, None, user_data)
            | Inr vs \<Rightarrow>
                (case hm_key_store_set_wtoken user_data (vbuf vs 0) (vbuf vs 1) (vbuf vs 2) (vbuf vs 3) of
                   (res, db) \<Rightarrow> Some (res, None, db))))"

definition hm_key_store_get_rtoken_stub :: "'d hm_ks_db hm_server_func" where
  "hm_key_store_get_rtoken_stub in_params user_data =
     (if user_data = None \<or> in_params = None then Some (HM_INVALID_PARAMETER, None, user_data)
      else (case HM_PARAM_EXTRACT in_params [HM_PARAM_TYPE_BUFFER, HM_PARAM_TYPE_BUFFER] of
              Inl res \<Rightarrow> Some (res, None, user_data)
            | Inr vs \<Rightarrow>
                (case hm_key_store_get_rtoken user_data (vbuf vs 0) (vbuf vs 1) True of
                   (Inl res, db) \<Rightarrow> Some (res, None, db)
                 | (Inr (token, owner_id), db) \<Rightarrow>
                     (case HM_PARAM_PACK [ABuffer token, ABuffer owner_id] of
                        None \<Rightarrow> None
                      | Some None \<Rightarrow> Some (HM_FAIL, None, db)
                      | Some (Some out) \<Rightarrow> Some (HM_SUCCESS, Some out, db)))))"

definition hm_key_store_get_wtoken_stub :: "'d hm_ks_db hm_server_func" where
  "hm_key_store_get_wtoken_stub in_params user_data =
     (if user_data = None \<or> in_params = None then Some (HM_INVALID_PARAMETER, None, user_data)
      else (case HM_PARAM_EXTRACT in_params [HM_PARAM_TYPE_BUFFER, HM_PARAM_TYPE_BUFFER] of
              Inl res \<Rightarrow> Some (res, None, user_data)
            | Inr vs \<Rightarrow>
                (case hm_key_store_get_wtoken user_data (vbuf vs 0) (vbuf vs 1) True of
                   (Inl res, db) \<Rightarrow> Some (res, None, db)
                 | (Inr (token, owner_id), db) \<Rightarrow>
                     (case HM_PARAM_PACK [ABuffer token, ABuffer owner_id] of
                        None \<Rightarrow> None
                      | Some None \<Rightarrow> Some (HM_FAIL, None, db)
                      | Some (Some out) \<Rightarrow> Some (HM_SUCCESS, Some out, db)))))"

definition hm_key_store_del_rtoken_stub :: "'d hm_ks_db hm_server_func" where
  "hm_key_store_del_rtoken_stub in_params user_data =
     (if user_data = None \<or> in_params = None then Some (HM_INVALID_PARAMETER, None, user_data)
      else (case HM_PARAM_EXTRACT in_params
                [HM_PARAM_TYPE_BUFFER, HM_PARAM_TYPE_BUFFER, HM_PARAM_TYPE_BUFFER] of
              Inl res \<Rightarrow> Some (res, None, user_data)
            | Inr vs \<Rightarrow>
                map_option (\<lambda>(res, db). (res, None, db))
                  (hm_key_store_del_rtoken user_data (vbuf vs 0) (vbuf vs 1) (vbuf vs 2))))"

definition hm_key_store_del_wtoken_stub :: "'d hm_ks_db hm_server_func" where
  "hm_key_store_del_wtoken_stub in_params user_data =
     (if user_data = None \<or> in_params = None then Some (HM_INVALID_PARAMETER, None, user_data)
      else (case HM_PARAM_EXTRACT in_params
                [HM_PARAM_TYPE_BUFFER, HM_PARAM_TYPE_BUFFER, HM_PARAM_TYPE_BUFFER] of
              Inl res \<Rightarrow> Some (res, None, user_data)
            | Inr vs \<Rightarrow>
                (case hm_key_store_del_wtoken user_data (vbuf vs 0) (vbuf vs 1) (vbuf vs 2) of
                   (res, db) \<Rightarrow> Some (res, None, db))))"

text \<open>The received \<^verbatim>\<open>int32_t\<close> is converted to \<^verbatim>\<open>size_t\<close>, which extends its sign.\<close>

definition hm_key_store_get_indexed_rights_stub :: "'d hm_ks_db hm_server_func" where
  "hm_key_store_get_indexed_rights_stub in_params user_data =
     (if user_data = None \<or> in_params = None then Some (HM_INVALID_PARAMETER, None, user_data)
      else (case HM_PARAM_EXTRACT in_params [HM_PARAM_TYPE_BUFFER, HM_PARAM_TYPE_INT32] of
              Inl res \<Rightarrow> Some (res, None, user_data)
            | Inr vs \<Rightarrow>
                (case hm_key_store_get_indexed_rights user_data (vbuf vs 0) (scast (vint vs 1)) True of
                   None \<Rightarrow> None
                 | Some (Inl res, db) \<Rightarrow> Some (res, None, db)
                 | Some (Inr (user_id, rights_mask), db) \<Rightarrow>
                     (case HM_PARAM_PACK [ABuffer user_id, AInt32 rights_mask] of
                        None \<Rightarrow> None
                      | Some None \<Rightarrow> Some (HM_FAIL, None, db)
                      | Some (Some out) \<Rightarrow> Some (HM_SUCCESS, Some out, db)))))"

subsection \<open>Client\<close>

record 't hm_key_store_client_sync =
  ks_c :: "'t hm_rpc_client_sync"

definition hm_key_store_client_sync_create ::
    "'t hm_rpc_transport option \<Rightarrow> 't hm_key_store_client_sync option" where
  "hm_key_store_client_sync_create transport =
     (if transport = None then None
      else (case hm_rpc_client_sync_create transport of
              None \<Rightarrow> None
            | Some c \<Rightarrow> Some \<lparr>ks_c = c\<rparr>))"

definition hm_key_store_client_sync_destroy ::
    "'t hm_key_store_client_sync option \<Rightarrow> status \<times> 't hm_key_store_client_sync option" where
  "hm_key_store_client_sync_destroy client =
     (if client = None then (HM_INVALID_PARAMETER, None) else (HM_SUCCESS, None))"

definition hm_key_store_client_sync_call_set_rtoken ::
    "'t hm_key_store_client_sync option \<Rightarrow> cbuf \<Rightarrow> cbuf \<Rightarrow> cbuf \<Rightarrow> cbuf \<Rightarrow> ('t, unit) io" where
  "hm_key_store_client_sync_call_set_rtoken client block_id user_id owner_id read_token =
     (if client = None then io_fail HM_INVALID_PARAMETER
      else hm_key_store_set_rtoken_sync_proxy (Some (ks_c (the client))) block_id user_id owner_id read_token)"

definition hm_key_store_client_sync_call_set_wtoken ::
    "'t hm_key_store_client_sync option \<Rightarrow> cbuf \<Rightarrow> cbuf \<Rightarrow> cbuf \<Rightarrow> cbuf \<Rightarrow> ('t, unit) io" where
  "hm_key_store_client_sync_call_set_wtoken client block_id user_id owner_id write_token =
     (if client = None then io_fail HM_INVALID_PARAMETER
      else hm_key_store_set_wtoken_sync_proxy (Some (ks_c (the client))) block_id user_id owner_id write_token)"

definition hm_key_store_client_sync_call_get_rtoken ::
    "'t hm_key_store_client_sync option \<Rightarrow> cbuf \<Rightarrow> cbuf \<Rightarrow> ('t, bytes \<times> bytes) io" where
  "hm_key_store_client_sync_call_get_rtoken client block_id user_id =
     (if client = None then io_fail HM_INVALID_PARAMETER
      else hm_key_store_get_rtoken_sync_proxy (Some (ks_c (the client))) block_id user_id)"

definition hm_key_store_client_sync_call_get_wtoken ::
    "'t hm_key_store_client_sync option \<Rightarrow> cbuf \<Rightarrow> cbuf \<Rightarrow> ('t, bytes \<times> bytes) io" where
  "hm_key_store_client_sync_call_get_wtoken client block_id user_id =
     (if client = None then io_fail HM_INVALID_PARAMETER
      else hm_key_store_get_wtoken_sync_proxy (Some (ks_c (the client))) block_id user_id)"

definition hm_key_store_client_sync_call_del_rtoken ::
    "'t hm_key_store_client_sync option \<Rightarrow> cbuf \<Rightarrow> cbuf \<Rightarrow> cbuf \<Rightarrow> ('t, unit) io" where
  "hm_key_store_client_sync_call_del_rtoken client block_id user_id owner_id =
     (if client = None then io_fail HM_INVALID_PARAMETER
      else hm_key_store_del_rtoken_sync_proxy (Some (ks_c (the client))) block_id user_id owner_id)"

definition hm_key_store_client_sync_call_del_wtoken ::
    "'t hm_key_store_client_sync option \<Rightarrow> cbuf \<Rightarrow> cbuf \<Rightarrow> cbuf \<Rightarrow> ('t, unit) io" where
  "hm_key_store_client_sync_call_del_wtoken client block_id user_id owner_id =
     (if client = None then io_fail HM_INVALID_PARAMETER
      else hm_key_store_del_wtoken_sync_proxy (Some (ks_c (the client))) block_id user_id owner_id)"

definition hm_key_store_client_sync_call_get_indexed_rights ::
    "'t hm_key_store_client_sync option \<Rightarrow> cbuf \<Rightarrow> u64 \<Rightarrow> bool \<Rightarrow> ('t, bytes \<times> u32) io" where
  "hm_key_store_client_sync_call_get_indexed_rights client block_id index want =
     (if client = None then io_fail HM_INVALID_PARAMETER
      else hm_key_store_get_indexed_rights_proxy (Some (ks_c (the client))) block_id index want)"

subsection \<open>Server and service\<close>

record ('t, 'd) hm_key_store_server =
  ks_s :: "('t, 'd hm_ks_db) hm_rpc_server"
  ks_db :: "'d hm_ks_db"

text \<open>The registrations of the server, in order.\<close>

definition hm_key_store_functions :: "(bytes \<times> 'd hm_ks_db hm_server_func) list" where
  "hm_key_store_functions =
     [(hm_key_store_set_rtoken_NAME, hm_key_store_set_rtoken_stub),
      (hm_key_store_set_wtoken_NAME, hm_key_store_set_wtoken_stub),
      (hm_key_store_get_rtoken_NAME, hm_key_store_get_rtoken_stub),
      (hm_key_store_get_wtoken_NAME, hm_key_store_get_wtoken_stub),
      (hm_key_store_del_rtoken_NAME, hm_key_store_del_rtoken_stub),
      (hm_key_store_del_wtoken_NAME, hm_key_store_del_wtoken_stub),
      (hm_key_store_get_indexed_rights_NAME, hm_key_store_get_indexed_rights_stub)]"

definition hm_key_store_server_create ::
    "'t hm_rpc_transport option \<Rightarrow> 'd hm_ks_db option \<Rightarrow> ('t, 'd) hm_key_store_server option option" where
  "hm_key_store_server_create transport db =
     (if transport = None \<or> db = None \<or> \<not> hm_key_store_check_backend db then Some None
      else (case hm_rpc_server_create transport of
              None \<Rightarrow> Some None
            | Some s \<Rightarrow>
                (case insert_all reg_func s hm_key_store_functions of
                   None \<Rightarrow> None
                 | Some (res, s) \<Rightarrow>
                     if HM_SUCCESS \<noteq> res then Some None else Some (Some \<lparr>ks_s = s, ks_db = the db\<rparr>))))"

definition hm_key_store_server_destroy ::
    "('t, 'd) hm_key_store_server option \<Rightarrow> status \<times> ('t, 'd) hm_key_store_server option" where
  "hm_key_store_server_destroy server =
     (if server = None then (HM_INVALID_PARAMETER, None) else (HM_SUCCESS, None))"

definition hm_key_store_server_call :: "(('t, 'd) hm_key_store_server, 't) server_call" where
  "hm_key_store_server_call = db_server_call ks_s ks_db (\<lambda>d s. s\<lparr>ks_db := d\<rparr>)"

type_synonym ('t, 'd) hm_key_store_service = "('t, 'd) hm_key_store_server hm_service"

definition hm_key_store_service_create ::
    "'t hm_rpc_transport option \<Rightarrow> 'd hm_ks_db option \<Rightarrow> ('t, 'd) hm_key_store_service option option" where
  "hm_key_store_service_create transport db =
     (if transport = None \<or> db = None then Some None
      else (case hm_key_store_server_create transport db of
              None \<Rightarrow> None
            | Some None \<Rightarrow> Some None
            | Some (Some s) \<Rightarrow> Some (Some \<lparr>service_server = s, finish = False\<rparr>)))"

definition hm_key_store_service_destroy ::
    "('t, 'd) hm_key_store_service option \<Rightarrow> status \<times> ('t, 'd) hm_key_store_service option" where
  "hm_key_store_service_destroy = service_destroy"

definition hm_key_store_service_start ::
    "bool list \<Rightarrow> ('t, 'd) hm_key_store_service option \<Rightarrow> 't \<Rightarrow>
     (status \<times> ('t, 'd) hm_key_store_service option \<times> 't) option" where
  "hm_key_store_service_start = service_start hm_key_store_server_call"

definition hm_key_store_service_stop ::
    "('t, 'd) hm_key_store_service option \<Rightarrow> status \<times> ('t, 'd) hm_key_store_service option" where
  "hm_key_store_service_stop = service_stop"

interpretation ks_pipe: db_server hm_test_transport pipe_link "\<lambda>_. True" ks_s ks_db "\<lambda>d s. s\<lparr>ks_db := d\<rparr>"
  rewrites "\<And>bs. list_all (\<lambda>_. True) bs \<equiv> True" and "\<And>P. (True \<Longrightarrow> PROP P) \<equiv> PROP P"
  by unfold_locales simp_all

lemma key_store_hashes:
  "hm_hash hm_key_store_set_rtoken_NAME = 395"
  "hm_hash hm_key_store_set_wtoken_NAME = 336"
  "hm_hash hm_key_store_get_rtoken_NAME = 639"
  "hm_hash hm_key_store_get_wtoken_NAME = 580"
  "hm_hash hm_key_store_del_rtoken_NAME = 692"
  "hm_hash hm_key_store_del_wtoken_NAME = 633"
  "hm_hash hm_key_store_get_indexed_rights_NAME = 61"
  by (simp_all add: key_store_names c_string_def hm_hash_def hm_hash_step_def HM_HASH_TABLE_CAP_def)

subsection \<open>Creating the server\<close>

text \<open>The names fall into buckets of their own.\<close>

lemma key_store_reg_all:
  "\<exists>s. insert_all reg_func (the (hm_rpc_server_create (Some tr))) hm_key_store_functions =
      Some (HM_SUCCESS, s) \<and> server_transport s = tr \<and>
    (\<forall>(k, f) \<in> set hm_key_store_functions. registered s k f)"
proof (rule reg_all_registered)
  show "\<forall>k \<in> fst ` set hm_key_store_functions. \<forall>k' \<in> fst ` set hm_key_store_functions. key_compat k k'"
    by (simp add: hm_key_store_functions_def key_compat_def key_store_hashes)
qed (simp_all add: hm_key_store_functions_def key_store_names c_string_def)

lemma hm_key_store_server_create_ok:
  fixes srv :: "('t, 'd) hm_key_store_server"
  assumes "hm_key_store_server_create (Some tr) (Some db) = Some (Some srv)"
  shows "server_transport (ks_s srv) = tr" "ks_db srv = db"
    "\<forall>(k, f) \<in> set hm_key_store_functions. registered (ks_s srv) k f"
proof -
  obtain s :: "('t, 'd hm_ks_db) hm_rpc_server" where
    "insert_all reg_func (the (hm_rpc_server_create (Some tr))) hm_key_store_functions =
      Some (HM_SUCCESS, s)"
    "server_transport s = tr" "\<forall>(k, f) \<in> set hm_key_store_functions. registered s k f"
    using key_store_reg_all by blast
  with assms show "server_transport (ks_s srv) = tr" "ks_db srv = db"
    "\<forall>(k, f) \<in> set hm_key_store_functions. registered (ks_s srv) k f"
    by (auto simp: hm_key_store_server_create_def hm_rpc_server_create_def split: if_splits)
qed

lemma hm_key_store_server_create_returns:
  fixes db :: "'d hm_ks_db option"
  shows "\<exists>r. hm_key_store_server_create transport db = Some r \<and>
    (r \<noteq> None \<longleftrightarrow> transport \<noteq> None \<and> hm_key_store_check_backend db)"
proof (cases "transport = None \<or> \<not> hm_key_store_check_backend db")
  case True
  then show ?thesis by (auto simp: hm_key_store_server_create_def)
next
  case False
  then obtain tr d where tr: "transport = Some tr" "db = Some d"
    by (auto simp: hm_key_store_check_backend_def)
  obtain s :: "(_, 'd hm_ks_db) hm_rpc_server" where
    "insert_all reg_func (the (hm_rpc_server_create (Some tr))) hm_key_store_functions =
      Some (HM_SUCCESS, s)"
    using key_store_reg_all by blast
  with False tr show ?thesis
    by (auto simp: hm_key_store_server_create_def hm_rpc_server_create_def)
qed

lemma other_user_iff: "other_user u w \<longleftrightarrow> u \<noteq> w"
proof (cases "length u = length w")
  case True
  with bytes_cmp_eq_0 [of u w] show ?thesis by (simp add: other_user_def c_memcmp_def)
qed (auto simp: other_user_def)

subsection \<open>Safety of a served backend\<close>

lemma ks_done_checked:
  "hm_key_store_check_backend (Some d) \<Longrightarrow>
   \<exists>res d'. ks_done (Some d) r = (res, Some d') \<and> hm_key_store_check_backend (Some d')"
  "hm_key_store_check_backend (Some d) \<Longrightarrow>
   \<exists>res d'. ks_result (Some d) r' = (res, Some d') \<and> hm_key_store_check_backend (Some d')"
  "hm_key_store_check_backend (Some d) \<Longrightarrow> hm_key_store_check_backend (Some (d\<lparr>ks_user_data := u\<rparr>))"
  by (simp_all add: ks_done_def ks_result_def hm_key_store_check_backend_def)

lemma key_store_functions_checked:
  assumes "hm_key_store_check_backend (Some d)"
  shows "\<exists>res d'. hm_key_store_set_rtoken (Some d) b u w t = (res, Some d') \<and> hm_key_store_check_backend (Some d')"
    "\<exists>res d'. hm_key_store_set_wtoken (Some d) b u w t = (res, Some d') \<and> hm_key_store_check_backend (Some d')"
    "\<exists>r d'. hm_key_store_get_rtoken (Some d) b u v = (r, Some d') \<and> hm_key_store_check_backend (Some d')"
    "\<exists>r d'. hm_key_store_get_wtoken (Some d) b u v = (r, Some d') \<and> hm_key_store_check_backend (Some d')"
    "\<exists>res d'. hm_key_store_del_rtoken (Some d) b u w = Some (res, Some d') \<and> hm_key_store_check_backend (Some d')"
    "\<exists>res d'. hm_key_store_del_wtoken (Some d) b u w = (res, Some d') \<and> hm_key_store_check_backend (Some d')"
    "\<exists>r d'. hm_key_store_get_indexed_rights (Some d) b i v = Some (r, Some d') \<and> hm_key_store_check_backend (Some d')"
  using assms ks_done_checked [OF assms] ks_done_checked(3)
  by (auto simp: hm_key_store_check_backend_def hm_key_store_set_rtoken_def hm_key_store_set_wtoken_def
      hm_key_store_get_rtoken_def hm_key_store_get_wtoken_def hm_key_store_del_rtoken_def
      hm_key_store_del_wtoken_def hm_key_store_get_indexed_rights_def ks_done_def ks_result_def
      split: prod.split)

definition ks_safe :: "(status \<times> hm_param_pack option \<times> 'd hm_ks_db option) option \<Rightarrow> bool" where
  "ks_safe r \<longleftrightarrow> (\<exists>res out d. r = Some (res, out, Some d) \<and> hm_key_store_check_backend (Some d))"

lemma set_rtoken_stub_safe:
  assumes "hm_key_store_check_backend (Some d)"
  shows "ks_safe (hm_key_store_set_rtoken_stub (Some p) (Some d))"
proof -
  have "ks_safe (case hm_key_store_set_rtoken (Some d) x y z v of (res, db) \<Rightarrow> Some (res, None, db))" for x y z v
    using key_store_functions_checked(1) [OF assms, of x y z v]
    by (auto simp: ks_safe_def pack_results split: sum.split)
  then show ?thesis
    using assms by (simp add: hm_key_store_set_rtoken_stub_def ks_safe_def split: sum.split)
qed

lemma set_wtoken_stub_safe:
  assumes "hm_key_store_check_backend (Some d)"
  shows "ks_safe (hm_key_store_set_wtoken_stub (Some p) (Some d))"
proof -
  have "ks_safe (case hm_key_store_set_wtoken (Some d) x y z v of (res, db) \<Rightarrow> Some (res, None, db))" for x y z v
    using key_store_functions_checked(2) [OF assms, of x y z v]
    by (auto simp: ks_safe_def pack_results split: sum.split)
  then show ?thesis
    using assms by (simp add: hm_key_store_set_wtoken_stub_def ks_safe_def split: sum.split)
qed

lemma get_rtoken_stub_safe:
  assumes "hm_key_store_check_backend (Some d)"
  shows "ks_safe (hm_key_store_get_rtoken_stub (Some p) (Some d))"
proof -
  have "ks_safe (case hm_key_store_get_rtoken (Some d) x y True of
       (Inl res, db) \<Rightarrow> Some (res, None, db)
     | (Inr (t, w), db) \<Rightarrow>
         (case HM_PARAM_PACK [ABuffer t, ABuffer w] of None \<Rightarrow> None
          | Some None \<Rightarrow> Some (HM_FAIL, None, db) | Some (Some out) \<Rightarrow> Some (HM_SUCCESS, Some out, db)))" for x y
    using key_store_functions_checked(3) [OF assms, of x y True]
    by (auto simp: ks_safe_def pack_results split: sum.split)
  then show ?thesis
    using assms by (simp add: hm_key_store_get_rtoken_stub_def ks_safe_def split: sum.split)
qed

lemma get_wtoken_stub_safe:
  assumes "hm_key_store_check_backend (Some d)"
  shows "ks_safe (hm_key_store_get_wtoken_stub (Some p) (Some d))"
proof -
  have "ks_safe (case hm_key_store_get_wtoken (Some d) x y True of
       (Inl res, db) \<Rightarrow> Some (res, None, db)
     | (Inr (t, w), db) \<Rightarrow>
         (case HM_PARAM_PACK [ABuffer t, ABuffer w] of None \<Rightarrow> None
          | Some None \<Rightarrow> Some (HM_FAIL, None, db) | Some (Some out) \<Rightarrow> Some (HM_SUCCESS, Some out, db)))" for x y
    using key_store_functions_checked(4) [OF assms, of x y True]
    by (auto simp: ks_safe_def pack_results split: sum.split)
  then show ?thesis
    using assms by (simp add: hm_key_store_get_wtoken_stub_def ks_safe_def split: sum.split)
qed

lemma del_rtoken_stub_safe:
  assumes "hm_key_store_check_backend (Some d)"
  shows "ks_safe (hm_key_store_del_rtoken_stub (Some p) (Some d))"
proof -
  have "ks_safe (map_option (\<lambda>(res, db). (res, None, db)) (hm_key_store_del_rtoken (Some d) x y z))" for x y z
    using key_store_functions_checked(5) [OF assms, of x y z]
    by (auto simp: ks_safe_def pack_results split: sum.split)
  then show ?thesis
    using assms by (simp add: hm_key_store_del_rtoken_stub_def ks_safe_def split: sum.split)
qed

lemma del_wtoken_stub_safe:
  assumes "hm_key_store_check_backend (Some d)"
  shows "ks_safe (hm_key_store_del_wtoken_stub (Some p) (Some d))"
proof -
  have "ks_safe (case hm_key_store_del_wtoken (Some d) x y z of (res, db) \<Rightarrow> Some (res, None, db))" for x y z
    using key_store_functions_checked(6) [OF assms, of x y z]
    by (auto simp: ks_safe_def pack_results split: sum.split)
  then show ?thesis
    using assms by (simp add: hm_key_store_del_wtoken_stub_def ks_safe_def split: sum.split)
qed

lemma get_indexed_rights_stub_safe:
  assumes "hm_key_store_check_backend (Some d)"
  shows "ks_safe (hm_key_store_get_indexed_rights_stub (Some p) (Some d))"
proof -
  have "ks_safe (case hm_key_store_get_indexed_rights (Some d) x i True of
       None \<Rightarrow> None | Some (Inl res, db) \<Rightarrow> Some (res, None, db)
     | Some (Inr (u, m), db) \<Rightarrow>
         (case HM_PARAM_PACK [ABuffer u, AInt32 m] of None \<Rightarrow> None
          | Some None \<Rightarrow> Some (HM_FAIL, None, db) | Some (Some out) \<Rightarrow> Some (HM_SUCCESS, Some out, db)))" for x i
    using key_store_functions_checked(7) [OF assms, of x i True]
    by (auto simp: ks_safe_def pack_results split: sum.split)
  then show ?thesis
    using assms by (simp add: hm_key_store_get_indexed_rights_stub_def ks_safe_def split: sum.split)
qed

text \<open>C26. A key store server that could be created never calls a NULL callback: on every received
  parameter pack, well formed or not, every registered function returns, and leaves a database that
  still has all its callbacks.\<close>

theorem key_store_functions_return:
  assumes "hm_key_store_server_create (Some tr) (Some db) = Some (Some srv)"
    and "(name, f) \<in> set hm_key_store_functions"
  shows "\<exists>res out db'. f (Some pack) (Some (ks_db srv)) = Some (res, out, Some db') \<and>
    hm_key_store_check_backend (Some db')"
proof -
  have "hm_key_store_check_backend (Some (ks_db srv))"
    using assms(1) hm_key_store_server_create_ok(2) [OF assms(1)]
    by (auto simp: hm_key_store_server_create_def split: if_splits)
  then have "ks_safe (f (Some pack) (Some (ks_db srv)))"
    using assms(2) by (auto simp: hm_key_store_functions_def intro: set_rtoken_stub_safe
      set_wtoken_stub_safe
      get_rtoken_stub_safe
      get_wtoken_stub_safe
      del_rtoken_stub_safe
      del_wtoken_stub_safe
      get_indexed_rights_stub_safe)
  then show ?thesis by (simp add: ks_safe_def)
qed


subsection \<open>Remote operations are local operations\<close>

datatype ks_op =
    KsSetR bytes bytes bytes bytes
  | KsSetW bytes bytes bytes bytes
  | KsGetR bytes bytes
  | KsGetW bytes bytes
  | KsDelR bytes bytes bytes
  | KsDelW bytes bytes bytes
  | KsRights bytes u64

datatype ks_res =
    KsDone "status + unit"
  | KsToken "status + bytes \<times> bytes"
  | KsUser "status + bytes \<times> u32"

fun ks_local :: "'d hm_ks_db option \<Rightarrow> ks_op \<Rightarrow> (ks_res \<times> 'd hm_ks_db option) option" where
  "ks_local db (KsSetR b u w t) =
     Some (apfst (KsDone \<circ> status_result) (hm_key_store_set_rtoken db (Some b) (Some u) (Some w) (Some t)))"
| "ks_local db (KsSetW b u w t) =
     Some (apfst (KsDone \<circ> status_result) (hm_key_store_set_wtoken db (Some b) (Some u) (Some w) (Some t)))"
| "ks_local db (KsGetR b u) = Some (apfst KsToken (hm_key_store_get_rtoken db (Some b) (Some u) True))"
| "ks_local db (KsGetW b u) = Some (apfst KsToken (hm_key_store_get_wtoken db (Some b) (Some u) True))"
| "ks_local db (KsDelR b u w) =
     map_option (apfst (KsDone \<circ> status_result)) (hm_key_store_del_rtoken db (Some b) (Some u) (Some w))"
| "ks_local db (KsDelW b u w) =
     Some (apfst (KsDone \<circ> status_result) (hm_key_store_del_wtoken db (Some b) (Some u) (Some w)))"
| "ks_local db (KsRights b i) = map_option (apfst KsUser) (hm_key_store_get_indexed_rights db (Some b) i True)"

fun ks_remote :: "'t hm_key_store_client_sync option \<Rightarrow> ks_op \<Rightarrow> 't \<Rightarrow> (ks_res \<times> 't) option" where
  "ks_remote c (KsSetR b u w t) s = map_option (apfst KsDone)
     (hm_key_store_client_sync_call_set_rtoken c (Some b) (Some u) (Some w) (Some t) s)"
| "ks_remote c (KsSetW b u w t) s = map_option (apfst KsDone)
     (hm_key_store_client_sync_call_set_wtoken c (Some b) (Some u) (Some w) (Some t) s)"
| "ks_remote c (KsGetR b u) s = map_option (apfst KsToken)
     (hm_key_store_client_sync_call_get_rtoken c (Some b) (Some u) s)"
| "ks_remote c (KsGetW b u) s = map_option (apfst KsToken)
     (hm_key_store_client_sync_call_get_wtoken c (Some b) (Some u) s)"
| "ks_remote c (KsDelR b u w) s = map_option (apfst KsDone)
     (hm_key_store_client_sync_call_del_rtoken c (Some b) (Some u) (Some w) s)"
| "ks_remote c (KsDelW b u w) s = map_option (apfst KsDone)
     (hm_key_store_client_sync_call_del_wtoken c (Some b) (Some u) (Some w) s)"
| "ks_remote c (KsRights b i) s = map_option (apfst KsUser)
     (hm_key_store_client_sync_call_get_indexed_rights c (Some b) i True s)"

fun ks_local_all :: "'d hm_ks_db option \<Rightarrow> ks_op list \<Rightarrow> (ks_res list \<times> 'd hm_ks_db option) option" where
  "ks_local_all db [] = Some ([], db)"
| "ks_local_all db (op # ops) =
     (case ks_local db op of
        None \<Rightarrow> None
      | Some (r, db) \<Rightarrow> map_option (apfst (Cons r)) (ks_local_all db ops))"

fun ks_remote_all :: "'t hm_key_store_client_sync option \<Rightarrow> ks_op list \<Rightarrow> 't \<Rightarrow> (ks_res list \<times> 't) option"
where
  "ks_remote_all c [] t = Some ([], t)"
| "ks_remote_all c (op # ops) t =
     (case ks_remote c op t of
        None \<Rightarrow> None
      | Some (r, t) \<Rightarrow> map_option (apfst (Cons r)) (ks_remote_all c ops t))"

text \<open>
  The arguments and the results can be parameters of a call.  An index has to survive the passage
  through \<^verbatim>\<open>int32_t\<close>.
\<close>

fun ks_op_ok :: "ks_op \<Rightarrow> bool" where
  "ks_op_ok (KsSetR b u w t) = list_all param_ok [b, u, w, t]"
| "ks_op_ok (KsSetW b u w t) = list_all param_ok [b, u, w, t]"
| "ks_op_ok (KsGetR b u) = list_all param_ok [b, u]"
| "ks_op_ok (KsGetW b u) = list_all param_ok [b, u]"
| "ks_op_ok (KsDelR b u w) = list_all param_ok [b, u, w]"
| "ks_op_ok (KsDelW b u w) = list_all param_ok [b, u, w]"
| "ks_op_ok (KsRights b i) = (param_ok b \<and> unat i < 2 ^ 31)"

fun ks_res_ok :: "ks_res \<Rightarrow> bool" where
  "ks_res_ok (KsDone r) = True"
| "ks_res_ok (KsToken r) = (case r of Inl _ \<Rightarrow> True | Inr (t, w) \<Rightarrow> param_ok t \<and> param_ok w)"
| "ks_res_ok (KsUser r) = (case r of Inl _ \<Rightarrow> True | Inr (u, m) \<Rightarrow> param_ok u)"

lemma int32_index: "unat (i :: u64) < 2 ^ 31 \<Longrightarrow> scast (ucast i :: u32) = i"
proof -
  assume i: "unat i < 2 ^ 31"
  have "unat (take_bit 31 i) = take_bit 31 (unat i)"
    by (rule unsigned_take_bit_eq)
  also have "\<dots> = unat i"
    using i by (simp add: take_bit_nat_eq_self_iff)
  finally have "take_bit 31 i = i" by (rule unsigned_word_eqI)
  then have high: "\<not> bit i n" if "31 \<le> n" for n
    using that by (metis bit_take_bit_iff linorder_not_less)
  show ?thesis
  proof (rule bit_word_eqI)
    fix n assume n: "n < LENGTH(64)"
    show "bit (scast (ucast i :: u32) :: u64) n = bit i n"
      using n high [of n] high [of 31]
      by (cases "31 \<le> n") (auto simp: bit_simps min_def split: if_splits)
  qed
qed

lemma key_store_names_ok [simp]:
  "name_ok hm_key_store_set_rtoken_NAME"
  "name_ok hm_key_store_set_wtoken_NAME"
  "name_ok hm_key_store_get_rtoken_NAME"
  "name_ok hm_key_store_get_wtoken_NAME"
  "name_ok hm_key_store_del_rtoken_NAME"
  "name_ok hm_key_store_del_wtoken_NAME"
  "name_ok hm_key_store_get_indexed_rights_NAME"
  by (simp_all add: name_ok_def key_store_names)

lemma set_rtoken_stub [stub_simps]:
  "hm_key_store_set_rtoken_stub
      (Some (received_pack (arg_pack [ABufferC b, ABufferC u, ABufferC w, ABufferC t]))) (Some d) =
    (case hm_key_store_set_rtoken (Some d) (Some b) (Some u) (Some w) (Some t) of (res, db) \<Rightarrow> Some (res, None, db))"
  by (simp add: hm_key_store_set_rtoken_stub_def stub_simps)

lemma set_wtoken_stub [stub_simps]:
  "hm_key_store_set_wtoken_stub
      (Some (received_pack (arg_pack [ABufferC b, ABufferC u, ABufferC w, ABufferC t]))) (Some d) =
    (case hm_key_store_set_wtoken (Some d) (Some b) (Some u) (Some w) (Some t) of (res, db) \<Rightarrow> Some (res, None, db))"
  by (simp add: hm_key_store_set_wtoken_stub_def stub_simps)

lemma get_rtoken_stub [stub_simps]:
  "hm_key_store_get_rtoken_stub (Some (received_pack (arg_pack [ABufferC b, ABufferC u]))) (Some d) =
    (case hm_key_store_get_rtoken (Some d) (Some b) (Some u) True of
       (r, db) \<Rightarrow> (case r of Inl e \<Rightarrow> Some (e, None, db)
         | Inr tw \<Rightarrow> Some (HM_SUCCESS, Some (arg_pack [ABuffer (fst tw), ABuffer (snd tw)]), db)))"
  by (simp add: hm_key_store_get_rtoken_stub_def stub_simps split: sum.split prod.split)

lemma get_wtoken_stub [stub_simps]:
  "hm_key_store_get_wtoken_stub (Some (received_pack (arg_pack [ABufferC b, ABufferC u]))) (Some d) =
    (case hm_key_store_get_wtoken (Some d) (Some b) (Some u) True of
       (r, db) \<Rightarrow> (case r of Inl e \<Rightarrow> Some (e, None, db)
         | Inr tw \<Rightarrow> Some (HM_SUCCESS, Some (arg_pack [ABuffer (fst tw), ABuffer (snd tw)]), db)))"
  by (simp add: hm_key_store_get_wtoken_stub_def stub_simps split: sum.split prod.split)

lemma del_rtoken_stub [stub_simps]:
  "hm_key_store_del_rtoken_stub (Some (received_pack (arg_pack [ABufferC b, ABufferC u, ABufferC w]))) (Some d) =
    map_option (\<lambda>(res, db). (res, None, db)) (hm_key_store_del_rtoken (Some d) (Some b) (Some u) (Some w))"
  by (simp add: hm_key_store_del_rtoken_stub_def stub_simps)

lemma del_wtoken_stub [stub_simps]:
  "hm_key_store_del_wtoken_stub (Some (received_pack (arg_pack [ABufferC b, ABufferC u, ABufferC w]))) (Some d) =
    (case hm_key_store_del_wtoken (Some d) (Some b) (Some u) (Some w) of (res, db) \<Rightarrow> Some (res, None, db))"
  by (simp add: hm_key_store_del_wtoken_stub_def stub_simps)

lemma get_indexed_rights_stub [stub_simps]:
  "hm_key_store_get_indexed_rights_stub (Some (received_pack (arg_pack [ABufferC b, AInt32 i]))) (Some d) =
    (case hm_key_store_get_indexed_rights (Some d) (Some b) (scast i) True of
       None \<Rightarrow> None
     | Some (r, db) \<Rightarrow> (case r of Inl e \<Rightarrow> Some (e, None, db)
         | Inr um \<Rightarrow> Some (HM_SUCCESS, Some (arg_pack [ABuffer (fst um), AInt32 (snd um)]), db)))"
  by (simp add: hm_key_store_get_indexed_rights_stub_def stub_simps split: option.split sum.split prod.split)

lemma ks_result_never_success: "fst (ks_result db r) \<noteq> Inl HM_SUCCESS"
  by (simp add: ks_result_def)

lemma key_store_never_success:
  "fst (hm_key_store_get_rtoken db b u v) \<noteq> Inl HM_SUCCESS"
  "fst (hm_key_store_get_wtoken db b u v) \<noteq> Inl HM_SUCCESS"
  "hm_key_store_get_indexed_rights db b i v = Some (Inl e, db') \<Longrightarrow> e \<noteq> HM_SUCCESS"
  by (auto simp: hm_key_store_get_rtoken_def hm_key_store_get_wtoken_def hm_key_store_get_indexed_rights_def
      ks_result_never_success split: if_splits option.splits)
    (metis fst_conv ks_result_never_success)

text \<open>A client of a loop served by a key store server.\<close>

definition key_store_up ::
    "'d hm_ks_db rpc_loop hm_key_store_client_sync \<Rightarrow> 'd hm_ks_db rpc_loop \<Rightarrow> 'd hm_ks_db \<Rightarrow> bool" where
  "key_store_up c L d \<longleftrightarrow>
     hm_key_store_client_sync_create (Some loop_transport) = Some c \<and>
     (\<exists>srv db. hm_key_store_server_create (Some hm_test_transport) (Some db) = Some (Some srv) \<and>
       serving L (ks_s srv) d)"

lemma key_store_up_exists:
  assumes "hm_key_store_check_backend (Some d)"
  shows "\<exists>s. key_store_up \<lparr>ks_c = \<lparr>client_transport = loop_transport\<rparr>\<rparr>
    \<lparr>to_server = [], to_client = [], loop_server = Some s, loop_data = Some d\<rparr> d"
proof -
  obtain srv where srv: "hm_key_store_server_create (Some hm_test_transport) (Some d) = Some (Some srv)"
    using hm_key_store_server_create_returns [of "Some hm_test_transport" "Some d"] assms by auto
  show ?thesis
    by (rule exI [of _ "ks_s srv"])
      (use srv in \<open>auto simp: key_store_up_def serving_def loop_idle_def
        hm_key_store_client_sync_create_def hm_rpc_client_sync_create_def\<close>)
qed

lemma key_store_upE:
  assumes "key_store_up c L d"
  obtains s where "serving L s d" "server_transport s = hm_test_transport"
    "client_transport (ks_c c) = loop_transport"
    "registered s hm_key_store_set_rtoken_NAME hm_key_store_set_rtoken_stub"
    "registered s hm_key_store_set_wtoken_NAME hm_key_store_set_wtoken_stub"
    "registered s hm_key_store_get_rtoken_NAME hm_key_store_get_rtoken_stub"
    "registered s hm_key_store_get_wtoken_NAME hm_key_store_get_wtoken_stub"
    "registered s hm_key_store_del_rtoken_NAME hm_key_store_del_rtoken_stub"
    "registered s hm_key_store_del_wtoken_NAME hm_key_store_del_wtoken_stub"
    "registered s hm_key_store_get_indexed_rights_NAME hm_key_store_get_indexed_rights_stub"
proof -
  obtain srv db where srv: "hm_key_store_server_create (Some hm_test_transport) (Some db) = Some (Some srv)"
    "serving L (ks_s srv) d"
    using assms by (auto simp: key_store_up_def)
  show ?thesis
    using hm_key_store_server_create_ok [OF srv(1)] srv(2) assms
    by (intro that [of "ks_s srv"])
      (auto simp: key_store_up_def hm_key_store_client_sync_create_def hm_rpc_client_sync_create_def
        hm_key_store_functions_def)
qed

lemma ks_remote_local:
  assumes "key_store_up c L d" "ks_op_ok op" "ks_local (Some d) op = Some (kr, kdb)" "ks_res_ok kr"
  shows "ks_remote (Some c) op L = Some (kr, L\<lparr>loop_data := kdb\<rparr>)"
proof -
  obtain s where s: "serving L s d" "server_transport s = hm_test_transport"
    "client_transport (ks_c c) = loop_transport"
    "registered s hm_key_store_set_rtoken_NAME hm_key_store_set_rtoken_stub"
    "registered s hm_key_store_set_wtoken_NAME hm_key_store_set_wtoken_stub"
    "registered s hm_key_store_get_rtoken_NAME hm_key_store_get_rtoken_stub"
    "registered s hm_key_store_get_wtoken_NAME hm_key_store_get_wtoken_stub"
    "registered s hm_key_store_del_rtoken_NAME hm_key_store_del_rtoken_stub"
    "registered s hm_key_store_del_wtoken_NAME hm_key_store_del_wtoken_stub"
    "registered s hm_key_store_get_indexed_rights_NAME hm_key_store_get_indexed_rights_stub"
    using assms(1) by (rule key_store_upE)
  show ?thesis
  proof (cases op)
    case (KsSetR b u w t)
    obtain res db where "hm_key_store_set_rtoken (Some d) (Some b) (Some u) (Some w) (Some t) = (res, db)"
      by force
    with proxy_status [OF s(1-3), of hm_key_store_set_rtoken_NAME "[ABufferC b, ABufferC u, ABufferC w, ABufferC t]"
        hm_key_store_set_rtoken_stub res db] s(4) assms(2-4) KsSetR
    show ?thesis
      by (auto simp: hm_key_store_client_sync_call_set_rtoken_def hm_key_store_set_rtoken_sync_proxy_def
          stub_simps args_ok_def param_ok_def)
  next
    case (KsSetW b u w t)
    obtain res db where "hm_key_store_set_wtoken (Some d) (Some b) (Some u) (Some w) (Some t) = (res, db)"
      by force
    with proxy_status [OF s(1-3), of hm_key_store_set_wtoken_NAME "[ABufferC b, ABufferC u, ABufferC w, ABufferC t]"
        hm_key_store_set_wtoken_stub res db] s(5) assms(2-4) KsSetW
    show ?thesis
      by (auto simp: hm_key_store_client_sync_call_set_wtoken_def hm_key_store_set_wtoken_sync_proxy_def
          stub_simps args_ok_def param_ok_def)
  next
    case (KsGetR b u)
    obtain r db where r: "hm_key_store_get_rtoken (Some d) (Some b) (Some u) True = (r, db)"
      by force
    have "\<forall>e. r = Inl e \<longrightarrow> e \<noteq> HM_SUCCESS"
      using key_store_never_success(1) r by (metis fst_conv)
    moreover have "\<forall>v. r = Inr v \<longrightarrow> param_ok (fst v) \<and> param_ok (snd v)"
      using assms(3,4) r KsGetR by auto
    ultimately show ?thesis
      using proxy_result [OF s(1-3), where name = hm_key_store_get_rtoken_NAME
        and args = "[ABufferC b, ABufferC u]" and f = hm_key_store_get_rtoken_stub and r = r and d' = db
        and mk = "\<lambda>v. [ABuffer (fst v), ABuffer (snd v)]"
        and tys = "[HM_PARAM_TYPE_BUFFER, HM_PARAM_TYPE_BUFFER]"
        and vs = "\<lambda>v. [VBuffer (fst v), VBuffer (snd v)]"
        and get = "\<lambda>vs. (the (vbuf vs 0), the (vbuf vs 1))"] s(6) assms(2-4) r KsGetR
      by (auto simp: hm_key_store_client_sync_call_get_rtoken_def hm_key_store_get_rtoken_sync_proxy_def
          stub_simps args_ok_def param_ok_def)
  next
    case (KsGetW b u)
    obtain r db where r: "hm_key_store_get_wtoken (Some d) (Some b) (Some u) True = (r, db)"
      by force
    have "\<forall>e. r = Inl e \<longrightarrow> e \<noteq> HM_SUCCESS"
      using key_store_never_success(2) r by (metis fst_conv)
    moreover have "\<forall>v. r = Inr v \<longrightarrow> param_ok (fst v) \<and> param_ok (snd v)"
      using assms(3,4) r KsGetW by auto
    ultimately show ?thesis
      using proxy_result [OF s(1-3), where name = hm_key_store_get_wtoken_NAME
        and args = "[ABufferC b, ABufferC u]" and f = hm_key_store_get_wtoken_stub and r = r and d' = db
        and mk = "\<lambda>v. [ABuffer (fst v), ABuffer (snd v)]"
        and tys = "[HM_PARAM_TYPE_BUFFER, HM_PARAM_TYPE_BUFFER]"
        and vs = "\<lambda>v. [VBuffer (fst v), VBuffer (snd v)]"
        and get = "\<lambda>vs. (the (vbuf vs 0), the (vbuf vs 1))"] s(7) assms(2-4) r KsGetW
      by (auto simp: hm_key_store_client_sync_call_get_wtoken_def hm_key_store_get_wtoken_sync_proxy_def
          stub_simps args_ok_def param_ok_def)
  next
    case (KsDelR b u w)
    obtain res db where "hm_key_store_del_rtoken (Some d) (Some b) (Some u) (Some w) = Some (res, db)"
      using assms(3) KsDelR by auto
    with proxy_status [OF s(1-3), of hm_key_store_del_rtoken_NAME "[ABufferC b, ABufferC u, ABufferC w]"
        hm_key_store_del_rtoken_stub res db] s(8) assms(2-4) KsDelR
    show ?thesis
      by (auto simp: hm_key_store_client_sync_call_del_rtoken_def hm_key_store_del_rtoken_sync_proxy_def
          stub_simps args_ok_def param_ok_def)
  next
    case (KsDelW b u w)
    obtain res db where "hm_key_store_del_wtoken (Some d) (Some b) (Some u) (Some w) = (res, db)"
      by force
    with proxy_status [OF s(1-3), of hm_key_store_del_wtoken_NAME "[ABufferC b, ABufferC u, ABufferC w]"
        hm_key_store_del_wtoken_stub res db] s(9) assms(2-4) KsDelW
    show ?thesis
      by (auto simp: hm_key_store_client_sync_call_del_wtoken_def hm_key_store_del_wtoken_sync_proxy_def
          stub_simps args_ok_def param_ok_def)
  next
    case (KsRights b i)
    obtain r db where r: "hm_key_store_get_indexed_rights (Some d) (Some b) i True = Some (r, db)"
      using assms(3) KsRights by auto
    have i: "scast (ucast i :: u32) = i"
      using assms(2) KsRights by (intro int32_index) simp
    have "\<forall>e. r = Inl e \<longrightarrow> e \<noteq> HM_SUCCESS"
      using key_store_never_success(3) r by metis
    moreover have "\<forall>v. r = Inr v \<longrightarrow> param_ok (fst v)"
      using assms(3,4) r KsRights by auto
    ultimately show ?thesis
      using proxy_result [OF s(1-3), where name = hm_key_store_get_indexed_rights_NAME
        and args = "[ABufferC b, AInt32 (ucast i)]" and f = hm_key_store_get_indexed_rights_stub and r = r
        and d' = db and mk = "\<lambda>v. [ABuffer (fst v), AInt32 (snd v)]"
        and tys = "[HM_PARAM_TYPE_BUFFER, HM_PARAM_TYPE_INT32]"
        and vs = "\<lambda>v. [VBuffer (fst v), VInt32 (snd v)]"
        and get = "\<lambda>vs. (the (vbuf vs 0), vint vs 1)"] s(10) assms(2-4) r i KsRights
      by (auto simp: hm_key_store_client_sync_call_get_indexed_rights_def hm_key_store_get_indexed_rights_proxy_def
          stub_simps args_ok_def param_ok_def)
  qed
qed

text \<open>The same database, but for its data.\<close>

lemma ks_local_checked:
  assumes "hm_key_store_check_backend (Some d)"
  shows "\<exists>r d'. ks_local (Some d) op = Some (r, Some d') \<and> hm_key_store_check_backend (Some d')"
  using assms
  by (cases op) (auto simp: hm_key_store_check_backend_def
      hm_key_store_set_rtoken_def hm_key_store_set_wtoken_def hm_key_store_get_rtoken_def
      hm_key_store_get_wtoken_def hm_key_store_del_rtoken_def hm_key_store_del_wtoken_def
      hm_key_store_get_indexed_rights_def ks_done_def ks_result_def split: prod.splits)

lemma key_store_up_step: "key_store_up c L d \<Longrightarrow> key_store_up c (L\<lparr>loop_data := Some d'\<rparr>) d'"
  by (auto simp: key_store_up_def serving_def loop_idle_def)

text \<open>C16. Any program of key store operations run by a client over the pipes, against a server created
  on a database with all callbacks, gives operation by operation the results of the functions of the
  store run locally in that order, returns, and leaves the database as they leave it and the pipes
  empty.\<close>

theorem key_store_remote_refines_local:
  assumes "key_store_up c L d" "list_all ks_op_ok ops" "hm_key_store_check_backend (Some d)"
    and "ks_local_all (Some d) ops = Some (rs, db)" "list_all ks_res_ok rs"
  shows "ks_remote_all (Some c) ops L = Some (rs, L\<lparr>loop_data := db\<rparr>)"
  using assms
proof (induction ops arbitrary: L d rs)
  case Nil
  then show ?case by (auto simp: key_store_up_def serving_def)
next
  case (Cons op ops)
  obtain r d' where r: "ks_local (Some d) op = Some (r, Some d')" "hm_key_store_check_backend (Some d')"
    using ks_local_checked [OF Cons.prems(3)] by blast
  with Cons.prems(4) obtain rs' where rs': "ks_local_all (Some d') ops = Some (rs', db)" "rs = r # rs'"
    by auto
  with Cons.prems r ks_remote_local [of c L d op]
  have "ks_remote (Some c) op L = Some (r, L\<lparr>loop_data := Some d'\<rparr>)" by simp
  moreover have "key_store_up c (L\<lparr>loop_data := Some d'\<rparr>) d'"
    using Cons.prems(1) by (rule key_store_up_step)
  ultimately show ?case
    using Cons.IH [of "L\<lparr>loop_data := Some d'\<rparr>" d' rs'] Cons.prems r rs' by simp
qed

subsection \<open>The service\<close>

text \<open>C21. The key store service, started on a pipe that holds a queue of requests, answers all of them, in
  order, as the registered functions answer when run one after the other on its database; a stop
  requested after the last of them ends the service with \<open>HM_SUCCESS\<close>.\<close>

theorem key_store_service_answers_in_order:
  assumes "server_transport (ks_s srv) = hm_test_transport" "requests_ok rs"
    and "run_handlers (ks_s srv) rs (ks_db srv) = Some (os, d')" "\<forall>(res, out) \<in> set os. out_ok out"
  shows "hm_key_store_service_start (replicate (length rs) False @ [True])
      (Some \<lparr>service_server = srv, finish = False\<rparr>)
      \<lparr>read_pipe = concat (request_stream rs), write_pipe = []\<rparr> =
    Some (HM_SUCCESS, Some \<lparr>service_server = srv\<lparr>ks_db := d'\<rparr>, finish = True\<rparr>,
      \<lparr>read_pipe = [], write_pipe = concat (response_stream os)\<rparr>)"
proof -
  have "pipe_link \<lparr>read_pipe = concat (request_stream rs), write_pipe = []\<rparr> (request_stream rs @ []) []"
    by (simp add: pipe_link_def)
  from ks_pipe.serve_requests [OF assms this] show ?thesis
    by (auto simp: hm_key_store_service_start_def service_start_def hm_key_store_server_call_def
        pipe_link_def)
qed

text \<open>One request under a name that is not registered ends the key store service with \<open>HM_FAIL\<close>, and
  what follows in its pipe is never served.\<close>

lemma key_store_service_killed_by_unknown_name:
  assumes "server_transport (ks_s srv) = hm_test_transport" "name_ok name"
    and "hm_hash_table_get (Some (func_table (ks_s srv))) (Some name) = Some (Inl e)"
  shows "hm_key_store_service_start (False # sched) (Some \<lparr>service_server = srv, finish = False\<rparr>)
      \<lparr>read_pipe = concat (request_frames name p) @ rest, write_pipe = []\<rparr> =
    Some (HM_FAIL, Some \<lparr>service_server = srv, finish = False\<rparr>,
      \<lparr>read_pipe = concat (pack_frames p) @ rest, write_pipe = u32_le HM_FAIL\<rparr>)"
proof -
  have "pipe_link \<lparr>read_pipe = concat (request_frames name p) @ rest, write_pipe = []\<rparr>
    (request_frames name p @ [rest]) []"
    by (simp add: pipe_link_def)
  from ks_pipe.unregistered_ends_service [OF assms this, of sched] show ?thesis
    by (auto simp: hm_key_store_service_start_def service_start_def hm_key_store_server_call_def
        pipe_link_def)
qed

end
