(* ===== verification/Mid_Stores.thy ===== *)
theory Mid_Stores
  imports Ll_Block_Store Credential_Store Data_Store Key_Store
begin

section \<open>The stores over RPC\<close>

text \<open>
  \<^verbatim>\<open>src/mid_hermes/credential_store_impl.c\<close>, \<^verbatim>\<open>data_store_impl.c\<close> and \<^verbatim>\<open>key_store_impl.c\<close>: the
  store interfaces of Mid-Hermes over the RPC clients.  The state a store changes is the one behind
  its transport.  \<open>*_interface\<close> is the store object as \<open>Ll_Stores\<close> wants it: its functions, with
  this client.  Out pointers are non-NULL in every call of the library.
\<close>

subsection \<open>Credential store\<close>

record 't hermes_credential_store_type =
  cs_cl :: "'t hm_credential_store_client_sync"

definition hermes_credential_store_create ::
    "'t hm_rpc_transport option \<Rightarrow> 't hermes_credential_store_type option" where
  "hermes_credential_store_create transport =
     (if transport = None then None
      else map_option (\<lambda>c. \<lparr>cs_cl = c\<rparr>) (hm_credential_store_client_sync_create transport))"

definition hermes_credential_store_get_public_key ::
    "'t hermes_credential_store_type option \<Rightarrow> cbuf \<Rightarrow> ('t, status + bytes) act" where
  "hermes_credential_store_get_public_key credential_store uid =
     (if credential_store = None \<or> absent uid then act_ret (Inl HM_INVALID_PARAMETER)
      else hm_credential_store_client_sync_call_get_pub_key_by_id
        (Some (cs_cl (the credential_store))) uid True)"

definition hermes_credential_store_destroy ::
    "'t hermes_credential_store_type option option \<Rightarrow> status \<times> 't hermes_credential_store_type option option" where
  "hermes_credential_store_destroy s =
     (case s of Some (Some _) \<Rightarrow> (HM_SUCCESS, Some None) | _ \<Rightarrow> (HM_INVALID_PARAMETER, s))"

definition credential_store_interface ::
    "'t hermes_credential_store_type \<Rightarrow> 't hermes_credential_store" where
  "credential_store_interface s = \<lparr>cs_get_public_key = hermes_credential_store_get_public_key (Some s)\<rparr>"

subsection \<open>Data store\<close>

text \<open>The status of a call without results.\<close>

definition status_of :: "('t, unit) io \<Rightarrow> ('t, status) act" where
  "status_of m = (\<lambda>t. map_option (\<lambda>(r, t). (case r of Inl e \<Rightarrow> e | Inr _ \<Rightarrow> HM_SUCCESS, t)) (m t))"

record 't hermes_data_store_type =
  ds_cl :: "'t hm_data_store_client_sync"

definition hermes_data_store_create ::
    "'t hm_rpc_transport option \<Rightarrow> 't hermes_data_store_type option" where
  "hermes_data_store_create transport =
     (if transport = None then None
      else map_option (\<lambda>c. \<lparr>ds_cl = c\<rparr>) (hm_data_store_client_sync_create transport))"

text \<open>The result is the status and \<^verbatim>\<open>*id\<close> afterwards.\<close>

definition hermes_data_store_set_block ::
    "'t hermes_data_store_type option \<Rightarrow> cbuf \<Rightarrow> cbuf \<Rightarrow> cbuf \<Rightarrow> cbuf \<Rightarrow> cbuf \<Rightarrow> ('t, status \<times> cbuf) act" where
  "hermes_data_store_set_block data_store i dat meta mac old_mac =
     (if data_store = None \<or> absent dat \<or> absent meta \<or> absent mac
      then act_ret (HM_INVALID_PARAMETER, i)
      else let cl = Some (ds_cl (the data_store)) in
        if old_mac = None then
          if i = None then
            act_bind (hm_data_store_client_sync_call_create_block cl dat meta mac True) (\<lambda>res.
              act_ret (case res of Inl e \<Rightarrow> (e, i) | Inr new_id \<Rightarrow> (HM_SUCCESS, Some new_id)))
          else act_bind (status_of (hm_data_store_client_sync_call_create_block_with_id cl i dat meta mac))
            (\<lambda>st. act_ret (st, i))
        else act_bind (status_of (hm_data_store_client_sync_call_update_block cl i dat meta mac old_mac))
          (\<lambda>st. act_ret (st, i)))"

definition hermes_data_store_get_block ::
    "'t hermes_data_store_type option \<Rightarrow> cbuf \<Rightarrow> ('t, status + bytes \<times> bytes) act" where
  "hermes_data_store_get_block data_store i =
     (if data_store = None \<or> absent i then act_ret (Inl HM_INVALID_PARAMETER)
      else hm_data_store_client_sync_call_read_block (Some (ds_cl (the data_store))) i True)"

definition hermes_data_store_rem_block ::
    "'t hermes_data_store_type option \<Rightarrow> cbuf \<Rightarrow> cbuf \<Rightarrow> ('t, status) act" where
  "hermes_data_store_rem_block data_store i old_mac =
     (if data_store = None \<or> absent i \<or> absent old_mac then act_ret HM_INVALID_PARAMETER
      else status_of (hm_data_store_client_sync_call_delete_block (Some (ds_cl (the data_store))) i old_mac))"

definition hermes_data_store_destroy ::
    "'t hermes_data_store_type option option \<Rightarrow> status \<times> 't hermes_data_store_type option option" where
  "hermes_data_store_destroy s =
     (case s of Some (Some _) \<Rightarrow> (HM_SUCCESS, Some None) | _ \<Rightarrow> (HM_INVALID_PARAMETER, s))"

definition data_store_interface :: "'t hermes_data_store_type \<Rightarrow> 't hermes_data_store" where
  "data_store_interface s =
     \<lparr>ds_set_block = hermes_data_store_set_block (Some s),
      ds_get_block = hermes_data_store_get_block (Some s),
      ds_rem_block = hermes_data_store_rem_block (Some s)\<rparr>"

subsection \<open>Key store\<close>

record 't hermes_key_store_type =
  ks_cl :: "'t hm_key_store_client_sync"

definition hermes_key_store_create ::
    "'t hm_rpc_transport option \<Rightarrow> 't hermes_key_store_type option" where
  "hermes_key_store_create transport =
     (if transport = None then None
      else map_option (\<lambda>c. \<lparr>ks_cl = c\<rparr>) (hm_key_store_client_sync_create transport))"

definition hermes_key_store_get_rtoken ::
    "'t hermes_key_store_type option \<Rightarrow> cbuf \<Rightarrow> cbuf \<Rightarrow> ('t, status + bytes \<times> bytes) act" where
  "hermes_key_store_get_rtoken key_store uid bid =
     (if key_store = None \<or> absent uid \<or> absent bid then act_ret (Inl HM_INVALID_PARAMETER)
      else hm_key_store_client_sync_call_get_rtoken (Some (ks_cl (the key_store))) bid uid)"

definition hermes_key_store_get_wtoken ::
    "'t hermes_key_store_type option \<Rightarrow> cbuf \<Rightarrow> cbuf \<Rightarrow> ('t, status + bytes \<times> bytes) act" where
  "hermes_key_store_get_wtoken key_store uid bid =
     (if key_store = None \<or> absent uid \<or> absent bid then act_ret (Inl HM_INVALID_PARAMETER)
      else hm_key_store_client_sync_call_get_wtoken (Some (ks_cl (the key_store))) bid uid)"

definition hermes_key_store_set_rtoken ::
    "'t hermes_key_store_type option \<Rightarrow> cbuf \<Rightarrow> cbuf \<Rightarrow> cbuf \<Rightarrow> cbuf \<Rightarrow> ('t, status) act" where
  "hermes_key_store_set_rtoken key_store uid bid token oid =
     (if key_store = None \<or> absent uid \<or> absent bid then act_ret HM_INVALID_PARAMETER
      else let cl = Some (ks_cl (the key_store)) in
        if \<not> absent token then status_of (hm_key_store_client_sync_call_set_rtoken cl bid uid oid token)
        else status_of (hm_key_store_client_sync_call_del_rtoken cl bid uid oid))"

definition hermes_key_store_set_wtoken ::
    "'t hermes_key_store_type option \<Rightarrow> cbuf \<Rightarrow> cbuf \<Rightarrow> cbuf \<Rightarrow> cbuf \<Rightarrow> ('t, status) act" where
  "hermes_key_store_set_wtoken key_store uid bid token oid =
     (if key_store = None \<or> absent uid \<or> absent bid then act_ret HM_INVALID_PARAMETER
      else let cl = Some (ks_cl (the key_store)) in
        if \<not> absent token then status_of (hm_key_store_client_sync_call_set_wtoken cl bid uid oid token)
        else status_of (hm_key_store_client_sync_call_del_wtoken cl bid uid oid))"

definition hermes_key_store_destroy ::
    "'t hermes_key_store_type option option \<Rightarrow> status \<times> 't hermes_key_store_type option option" where
  "hermes_key_store_destroy s =
     (case s of Some (Some _) \<Rightarrow> (HM_SUCCESS, Some None) | _ \<Rightarrow> (HM_INVALID_PARAMETER, s))"

definition hermes_key_store_iterator_create ::
    "'t hermes_key_store_type option \<Rightarrow> cbuf \<Rightarrow> ('t, hermes_key_store_iterator option) act" where
  "hermes_key_store_iterator_create key_store bid =
     (if key_store = None \<or> absent bid then act_ret None
      else act_bind (hm_key_store_client_sync_call_get_indexed_rights (Some (ks_cl (the key_store))) bid 0 True)
        (\<lambda>res. act_ret (case res of
             Inl _ \<Rightarrow> None
           | Inr (uid, msk) \<Rightarrow>
               Some \<lparr>it_block_id = the bid, current_user_id = Some uid, current_rights_mask = msk,
                     current_index = 0\<rparr>)))"

definition hermes_key_store_iterator_next ::
    "'t hermes_key_store_type \<Rightarrow> hermes_key_store_iterator \<Rightarrow> ('t, status \<times> hermes_key_store_iterator) act" where
  "hermes_key_store_iterator_next key_store i =
     (let i = i\<lparr>current_user_id := None, current_index := current_index i + 1\<rparr> in
      act_bind (hm_key_store_client_sync_call_get_indexed_rights (Some (ks_cl key_store))
          (Some (it_block_id i)) (current_index i) True)
        (\<lambda>res. act_ret (case res of
             Inl _ \<Rightarrow> (HM_FAIL, i)
           | Inr (uid, msk) \<Rightarrow> (HM_SUCCESS, i\<lparr>current_user_id := Some uid, current_rights_mask := msk\<rparr>))))"

definition key_store_interface :: "'t hermes_key_store_type \<Rightarrow> 't hermes_key_store" where
  "key_store_interface s =
     \<lparr>ks_get_rtoken = hermes_key_store_get_rtoken (Some s),
      ks_get_wtoken = hermes_key_store_get_wtoken (Some s),
      ks_set_rtoken = hermes_key_store_set_rtoken (Some s),
      ks_set_wtoken = hermes_key_store_set_wtoken (Some s),
      ks_iterator_create = hermes_key_store_iterator_create (Some s),
      ks_iterator_next = hermes_key_store_iterator_next s\<rparr>"

end
