(* ===== verification/Mid_Hermes.thy ===== *)
theory Mid_Hermes
  imports Mid_Stores
begin

section \<open>Mid-Hermes\<close>

text \<open>
  \<^verbatim>\<open>src/mid_hermes/mid_hermes.c\<close>: the operations of a user on blocks.  Every operation but creation
  starts by loading the block; \<open>with_loaded\<close> is that common beginning.

  When \<^verbatim>\<open>mid_hermes_ll_block_create\<close> fails it has freed the user it was given, and
  \<^verbatim>\<open>mid_hermes_create_block\<close> frees it a second time: the run has no defined result.
\<close>

record ('k, 'd, 'c) mid_hermes =
  mh_ks :: "'k hermes_key_store option"
  mh_cs :: "'c hermes_credential_store option"
  mh_ds :: "'d hermes_data_store option"
  mh_user :: user_ptr

subsection \<open>Creation\<close>

definition mid_hermes_create ::
    "cbuf \<Rightarrow> cbuf \<Rightarrow> 'k hm_rpc_transport option \<Rightarrow> 'd hm_rpc_transport option \<Rightarrow>
     'c hm_rpc_transport option \<Rightarrow> (('r, 'k, 'd, 'c) world, ('k, 'd, 'c) mid_hermes option) act" where
  "mid_hermes_create uid private_key key_store_transport data_store_transport credential_store_transport =
     (if absent uid \<or> absent private_key \<or> key_store_transport = None \<or> data_store_transport = None \<or>
        credential_store_transport = None
      then act_ret None
      else (case (hermes_credential_store_create credential_store_transport,
                  hermes_key_store_create key_store_transport,
                  hermes_data_store_create data_store_transport) of
              (Some cs, Some ks, Some ds) \<Rightarrow>
                act_some (on_creds (mid_hermes_ll_local_user_load_c uid private_key
                    (Some (credential_store_interface cs)))) (\<lambda>u.
                  act_ret (Some \<lparr>mh_ks = Some (key_store_interface ks),
                    mh_cs = Some (credential_store_interface cs),
                    mh_ds = Some (data_store_interface ds), mh_user = Some u\<rparr>))
            | _ \<Rightarrow> act_ret None))"

definition mid_hermes_create_with_services ::
    "cbuf \<Rightarrow> cbuf \<Rightarrow> 'k hermes_key_store option \<Rightarrow> 'd hermes_data_store option \<Rightarrow>
     'c hermes_credential_store option \<Rightarrow> (('r, 'k, 'd, 'c) world, ('k, 'd, 'c) mid_hermes option) act" where
  "mid_hermes_create_with_services uid private_key key_store data_store credential_store =
     (if absent uid \<or> absent private_key \<or> (key_store = None \<and> data_store = None \<and> credential_store = None)
      then act_ret None
      else act_some (on_creds (mid_hermes_ll_local_user_load_c uid private_key credential_store)) (\<lambda>u.
        act_ret (Some \<lparr>mh_ks = key_store, mh_cs = credential_store, mh_ds = data_store, mh_user = Some u\<rparr>)))"

definition mid_hermes_destroy ::
    "('k, 'd, 'c) mid_hermes option option \<Rightarrow> status \<times> ('k, 'd, 'c) mid_hermes option option" where
  "mid_hermes_destroy mh =
     (case mh of Some (Some _) \<Rightarrow> (HM_SUCCESS, Some None) | _ \<Rightarrow> (HM_INVALID_PARAMETER, mh))"

subsection \<open>Blocks\<close>

text \<open>The result is the status and \<^verbatim>\<open>*id\<close> afterwards.\<close>

definition mid_hermes_create_block ::
    "('r, 'h) themis \<Rightarrow> ('k, 'd, 'c) mid_hermes option \<Rightarrow> cbuf \<Rightarrow> cbuf \<Rightarrow> cbuf \<Rightarrow>
     (('r, 'k, 'd, 'c) world, status \<times> cbuf) act" where
  "mid_hermes_create_block T mid_hermes i block meta =
     (if mid_hermes = None \<or> absent block \<or> absent meta then act_ret (HM_INVALID_PARAMETER, i)
      else let mh = the mid_hermes;
               buf_id = (if i \<noteq> None then Some (mid_hermes_ll_buffer_create i) else None) in
        (case mid_hermes_ll_user_copy (mh_user mh) of
           None \<Rightarrow> act_undefined
         | Some None \<Rightarrow> act_ret (HM_FAIL, i)
         | Some u \<Rightarrow>
             act_bind (on_rand (mid_hermes_ll_block_create T u buf_id
                 (Some (mid_hermes_ll_buffer_create block)) (Some (mid_hermes_ll_buffer_create meta))
                 None None)) (\<lambda>bl.
               case bl of
                 None \<Rightarrow> act_undefined
               | Some bl \<Rightarrow>
                   act_bind (mid_hermes_ll_block_save (Some bl) None (mh_ds mh) (mh_ks mh)) (\<lambda>(ok, bl).
                     if \<not> ok then act_ret (HM_FAIL, i)
                     else if i = None then
                       (case bl_id (the bl) of
                          None \<Rightarrow> act_undefined
                        | Some b \<Rightarrow> act_ret (HM_SUCCESS, Some (case_option [] (\<lambda>d. d) (bdata b))))
                     else act_ret (HM_SUCCESS, i)))))"

definition with_loaded ::
    "('r, 'h) themis \<Rightarrow> ('k, 'd, 'c) mid_hermes \<Rightarrow> cbuf \<Rightarrow> 'b \<Rightarrow> 'b \<Rightarrow>
     (mid_hermes_ll_block \<Rightarrow> (('r, 'k, 'd, 'c) world, 'b) act) \<Rightarrow> (('r, 'k, 'd, 'c) world, 'b) act" where
  "with_loaded T mh block_id no_user not_loaded k =
     (case mid_hermes_ll_user_copy (mh_user mh) of
        None \<Rightarrow> act_undefined
      | Some None \<Rightarrow> act_ret no_user
      | Some u \<Rightarrow>
          act_bind (mid_hermes_ll_block_load T (Some (mid_hermes_ll_block_create_empty u))
              (Some (mid_hermes_ll_buffer_create block_id)) (mh_ds mh) (mh_ks mh) (mh_cs mh)) (\<lambda>(ok, bl).
            if \<not> ok then act_ret not_loaded else k (the bl)))"

definition mid_hermes_read_block ::
    "('r, 'h) themis \<Rightarrow> ('k, 'd, 'c) mid_hermes option \<Rightarrow> cbuf \<Rightarrow>
     (('r, 'k, 'd, 'c) world, status + cbuf \<times> cbuf) act" where
  "mid_hermes_read_block T mid_hermes block_id =
     (if mid_hermes = None \<or> absent block_id then act_ret (Inl HM_INVALID_PARAMETER)
      else with_loaded T (the mid_hermes) block_id (Inl HM_FAIL) (Inl HM_FAIL) (\<lambda>bl.
        (case (bl_data bl, bl_meta bl) of
           (Some d, Some m) \<Rightarrow> act_ret (Inr (bdata d, bdata m))
         | _ \<Rightarrow> act_undefined)))"

definition mid_hermes_update_block ::
    "('r, 'h) themis \<Rightarrow> ('k, 'd, 'c) mid_hermes option \<Rightarrow> cbuf \<Rightarrow> cbuf \<Rightarrow> cbuf \<Rightarrow>
     (('r, 'k, 'd, 'c) world, status) act" where
  "mid_hermes_update_block T mid_hermes block_id block meta =
     (if mid_hermes = None \<or> absent block_id \<or> absent block \<or> absent meta then act_ret HM_INVALID_PARAMETER
      else let mh = the mid_hermes in
        with_loaded T mh block_id HM_FAIL 1 (\<lambda>bl.
          act_bind (on_rand (mid_hermes_ll_block_update T (Some bl)
              (Some (mid_hermes_ll_buffer_create block)) (Some (mid_hermes_ll_buffer_create meta)))) (\<lambda>(ok, bl).
            if \<not> ok then act_ret 1
            else act_bind (mid_hermes_ll_block_save bl None (mh_ds mh) (mh_ks mh)) (\<lambda>(ok, bl).
              act_ret (if \<not> ok then 1 else 0)))))"

definition mid_hermes_delete_block ::
    "('r, 'h) themis \<Rightarrow> ('k, 'd, 'c) mid_hermes option \<Rightarrow> cbuf \<Rightarrow> (('r, 'k, 'd, 'c) world, status) act" where
  "mid_hermes_delete_block T mid_hermes block_id =
     (if mid_hermes = None \<or> absent block_id then act_ret HM_INVALID_PARAMETER
      else let mh = the mid_hermes in
        with_loaded T mh block_id HM_FAIL 1 (\<lambda>bl.
          act_bind (mid_hermes_ll_block_access_rights (Some bl) (mh_ks mh) (mh_cs mh)) (\<lambda>rights.
          act_bind (mid_hermes_ll_block_delete (Some bl) rights (mh_ds mh) (mh_ks mh)) (\<lambda>(ok, bl).
            act_ret (if \<not> ok then HM_FAIL else HM_SUCCESS)))))"

definition mid_hermes_rotate_block ::
    "('r, 'h) themis \<Rightarrow> ('k, 'd, 'c) mid_hermes option \<Rightarrow> cbuf \<Rightarrow> (('r, 'k, 'd, 'c) world, status) act" where
  "mid_hermes_rotate_block T mid_hermes block_id =
     (if mid_hermes = None \<or> absent block_id then act_ret HM_INVALID_PARAMETER
      else let mh = the mid_hermes in
        with_loaded T mh block_id HM_FAIL HM_FAIL (\<lambda>bl.
          act_bind (mid_hermes_ll_block_access_rights (Some bl) (mh_ks mh) (mh_cs mh)) (\<lambda>rights.
            if rights = None then act_ret HM_FAIL
            else act_bind (on_rand (mid_hermes_ll_block_rotate T (Some bl) rights)) (\<lambda>(ok, bl, rights).
              if \<not> ok then act_ret HM_FAIL
              else act_bind (mid_hermes_ll_block_save bl rights (mh_ds mh) (mh_ks mh)) (\<lambda>(ok, bl).
                act_ret (if \<not> ok then HM_FAIL else HM_SUCCESS))))))"

subsection \<open>Access\<close>

text \<open>
  Granting and denying differ in the token and in what is done with it: \<open>token_for\<close> wraps it for the
  user named, \<open>act\<close> stores or deletes it.
\<close>

definition change_access ::
    "('r, 'h) themis \<Rightarrow> ('k, 'd, 'c) mid_hermes option \<Rightarrow> cbuf \<Rightarrow> cbuf \<Rightarrow>
     (mid_hermes_ll_block option \<Rightarrow> user_ptr \<Rightarrow> ('r, token_ptr) act) \<Rightarrow>
     (mid_hermes_ll_block \<Rightarrow> user_ptr \<Rightarrow> token_ptr \<Rightarrow> ('k, status) act) \<Rightarrow>
     (('r, 'k, 'd, 'c) world, status) act" where
  "change_access T mid_hermes block_id for_user_id token_for change =
     (if mid_hermes = None \<or> absent block_id \<or> absent for_user_id then act_ret HM_INVALID_PARAMETER
      else let mh = the mid_hermes in
        with_loaded T mh block_id HM_FAIL HM_FAIL (\<lambda>bl.
          act_bind (on_creds (mid_hermes_ll_user_load_c for_user_id (mh_cs mh))) (\<lambda>for_user.
            if for_user = None then act_ret HM_FAIL
            else act_bind (on_rand (token_for (Some bl) for_user)) (\<lambda>token.
              if token = None then act_ret HM_FAIL
              else act_bind (on_keys (change bl for_user token)) (\<lambda>st.
                act_ret (if HM_SUCCESS \<noteq> st then HM_FAIL else HM_SUCCESS))))))"

definition mid_hermes_grant_read_access ::
    "('r, 'h) themis \<Rightarrow> ('k, 'd, 'c) mid_hermes option \<Rightarrow> cbuf \<Rightarrow> cbuf \<Rightarrow> (('r, 'k, 'd, 'c) world, status) act" where
  "mid_hermes_grant_read_access T mh block_id for_user_id =
     change_access T mh block_id for_user_id (mid_hermes_ll_block_rtoken_for T) (\<lambda>bl for_user read_token.
       mid_hermes_ll_token_save (bl_user bl) (bl_id bl) read_token (mh_ks (the mh)) False)"

definition mid_hermes_grant_update_access ::
    "('r, 'h) themis \<Rightarrow> ('k, 'd, 'c) mid_hermes option \<Rightarrow> cbuf \<Rightarrow> cbuf \<Rightarrow> (('r, 'k, 'd, 'c) world, status) act" where
  "mid_hermes_grant_update_access T mh block_id for_user_id =
     change_access T mh block_id for_user_id (mid_hermes_ll_block_wtoken_for T) (\<lambda>bl for_user write_token.
       mid_hermes_ll_token_save (bl_user bl) (bl_id bl) write_token (mh_ks (the mh)) True)"

definition mid_hermes_deny_read_access ::
    "('r, 'h) themis \<Rightarrow> ('k, 'd, 'c) mid_hermes option \<Rightarrow> cbuf \<Rightarrow> cbuf \<Rightarrow> (('r, 'k, 'd, 'c) world, status) act" where
  "mid_hermes_deny_read_access T mh block_id for_user_id =
     change_access T mh block_id for_user_id (mid_hermes_ll_block_wtoken_for T) (\<lambda>bl for_user wtoken.
       mid_hermes_ll_token_del for_user (bl_user bl) (bl_id bl) (mh_ks (the mh)) False)"

definition mid_hermes_deny_update_access ::
    "('r, 'h) themis \<Rightarrow> ('k, 'd, 'c) mid_hermes option \<Rightarrow> cbuf \<Rightarrow> cbuf \<Rightarrow> (('r, 'k, 'd, 'c) world, status) act" where
  "mid_hermes_deny_update_access T mh block_id for_user_id =
     change_access T mh block_id for_user_id (mid_hermes_ll_block_wtoken_for T) (\<lambda>bl for_user write_token.
       mid_hermes_ll_token_del for_user (bl_user bl) (bl_id bl) (mh_ks (the mh)) True)"

subsection \<open>A creation that fails\<close>

text \<open>C12. Creating a block is undefined when no random bytes can be drawn for its keys: the block that fails
  frees the user it was given, and the error path of the creation frees him again.\<close>

theorem create_block_frees_user_twice:
  assumes "mh_user mh = Some (local_user u sk pk)" "u \<noteq> []" "pk \<noteq> []" "d \<noteq> []" "m \<noteq> []"
    and "fst (soter_rand T HM_TOKEN_LEN (rand_state w)) \<noteq> THEMIS_SUCCESS"
  shows "mid_hermes_create_block T (Some mh) i (Some d) (Some m) w = None"
proof -
  have "generate_for T (Some (local_user u sk pk)) (rand_state w) =
      Some (None, snd (snd (soter_rand T HM_TOKEN_LEN (rand_state w))))"
    using assms(2,3,6)
    by (auto simp: generate_for_def user_copy_eq mid_hermes_ll_token_generate_def split: prod.splits)
  then show ?thesis
    using assms(1-5)
    by (auto simp: mid_hermes_create_block_def absent_def user_copy_eq on_rand_def mid_hermes_ll_block_create_def
        mid_hermes_ll_block_init_def act_bind_run act_simps Let_def split: option.splits)
qed

end
