(* ===== verification/Ll_Block_Props.thy ===== *)
theory Ll_Block_Props
  imports Ll_Block_Store
begin

section \<open>What blocks and tokens promise\<close>

text \<open>
  \<open>sealed T bl kr kw d m\<close>: the block \<open>bl\<close> holds the data \<open>d\<close> and the meta data \<open>m\<close>, its sealed form
  opens to \<open>d\<close> under the key \<open>kr\<close> its read token opens to, and its MAC is the one under the key \<open>kw\<close>
  its write token opens to.  Creating, opening, updating and rotating establish it.  \<open>held_mac\<close> is
  the MAC the data store holds for the block, the one an update has to present.
\<close>

definition sealed ::
    "('r, 'h) themis \<Rightarrow> mid_hermes_ll_block \<Rightarrow> bytes \<Rightarrow> bytes \<Rightarrow> bytes \<Rightarrow> bytes \<Rightarrow> bool" where
  "sealed T bl kr kw d m \<longleftrightarrow>
     token_opens T (bl_rtoken bl) kr \<and> token_opens T (bl_wtoken bl) kw \<and>
     bl_data bl = new_buffer d \<and> bl_meta bl = new_buffer m \<and>
     (\<exists>e mac. bl_block bl = new_buffer e \<and> bl_mac bl = new_buffer mac \<and>
        hm_decrypt T (Some kr) (Some e) (Some m) True = Inr d \<and>
        hm_mac_create T (Some kw) (Some d) (Some m) True = Inr mac)"

definition held_mac :: "mid_hermes_ll_block \<Rightarrow> buffer_ptr" where
  "held_mac bl = (case bl_old_mac bl of None \<Rightarrow> bl_mac bl | Some mac \<Rightarrow> Some mac)"

lemma new_buffer_sel [simp]: "bdata (the (new_buffer d)) = Some d" "new_buffer d \<noteq> None"
  "new_buffer d = Some b \<longleftrightarrow> b = \<lparr>bdata = Some d\<rparr>" "new_buffer d = new_buffer e \<longleftrightarrow> d = e"
  by (auto simp: new_buffer_def mid_hermes_ll_buffer_create_def)

lemma new_buffer_eq: "Some \<lparr>bdata = Some d\<rparr> = new_buffer d"
  by (simp add: new_buffer_def mid_hermes_ll_buffer_create_def)

lemma replace_mac_sel [simp]:
  "bl_rtoken (replace_mac bl mac) = bl_rtoken bl" "bl_wtoken (replace_mac bl mac) = bl_wtoken bl"
  "bl_data (replace_mac bl mac) = bl_data bl" "bl_meta (replace_mac bl mac) = bl_meta bl"
  "bl_block (replace_mac bl mac) = bl_block bl" "bl_mac (replace_mac bl mac) = new_buffer mac"
  "bl_id (replace_mac bl mac) = bl_id bl" "bl_user (replace_mac bl mac) = bl_user bl"
  by (simp_all add: replace_mac_def)

lemma old_mac_replace [simp]: "bl_old_mac (replace_mac bl mac) = held_mac bl"
  by (auto simp: replace_mac_def held_mac_def split: option.splits)

lemma held_mac_replace:
  "held_mac bl \<noteq> None \<Longrightarrow> held_mac (replace_mac bl mac) = held_mac bl"
  by (subst held_mac_def) (auto split: option.splits)

subsection \<open>Sharing\<close>

text \<open>\<open>opens_for T key_pair pko t pku k\<close>: the token data \<open>t\<close> wrapped by the owner of \<open>pko\<close> opens to \<open>k\<close> for
  the user of \<open>pku\<close>.\<close>

definition opens_for ::
    "('r, 'h) themis \<Rightarrow> (bytes \<Rightarrow> bytes \<Rightarrow> bool) \<Rightarrow> bytes \<Rightarrow> bytes \<Rightarrow> bytes \<Rightarrow> bytes \<Rightarrow> bool" where
  "opens_for T key_pair pko t pku k \<longleftrightarrow> t \<noteq> [] \<and>
     (\<forall>sk. sk \<noteq> [] \<longrightarrow> key_pair sk pku \<longrightarrow>
        hm_asym_decrypt T (Some sk) (Some pko) (Some t) True = Some (Inr k))"

lemma opens_for_wrapped:
  assumes "wraps T key_pair" "key_pair sk pk" "pk \<noteq> []"
    and "hm_asym_encrypt T (Some sk) (Some pk') (Some k) True r = (Inr e, r')"
  shows "opens_for T key_pair pk e pk' k"
proof -
  obtain n where w: "message_wrap T sk pk' k n r = (THEMIS_SUCCESS, e, r')"
    using assms(4) by (auto simp: hm_asym_encrypt_def split: if_splits prod.splits)
  then have "e \<noteq> []" using assms(1,2) unfolding wraps_def by blast
  then show ?thesis
    using assms asym_encrypt_decrypt(1) [OF assms(1,2)] by (auto simp: opens_for_def)
qed

lemma not_opens_None [simp]: "\<not> token_opens T None k"
  by (simp add: token_opens_def mid_hermes_ll_token_get_data_def)

lemma opens_for_token:
  "opens_for T key_pair pko t pku k \<Longrightarrow> key_pair sk pku \<Longrightarrow> sk \<noteq> [] \<Longrightarrow>
   user_sk u = Some \<lparr>bdata = Some sk\<rparr> \<Longrightarrow> user_pk w = Some \<lparr>bdata = Some pko\<rparr> \<Longrightarrow>
   token_opens T (Some (wrapped_for u w t)) k"
  by (simp add: opens_for_def token_opens_def mid_hermes_ll_token_get_data_def mid_hermes_ll_buffer_create_def)

text \<open>Wrapping a token the local user opens for another user.\<close>

lemma token_for_user_form:
  assumes "wraps T key_pair" "key_pair sk pk" "u \<noteq> []" "pk \<noteq> []"
    and "token_opens T (Some t) k" "token_user t = Some (local_user u sk pk)"
    and "user_pk v = Some \<lparr>bdata = Some pk'\<rparr>"
    and "mid_hermes_ll_token_get_token_for_user T (Some t) (Some v) r = Some (Some t', r')"
  shows "\<exists>e. t' = wrapped_for v (local_user u sk pk) e \<and> opens_for T key_pair pk e pk' k \<and>
    hm_asym_encrypt T (Some sk) (Some pk') (Some k) True r = (Inr e, r')"
proof -
  obtain e where "hm_asym_encrypt T (Some sk) (Some pk') (Some k) True r = (Inr e, r')"
      "t' = wrapped_for v (local_user u sk pk) e"
    using assms(8) unfolding token_for_user_run [OF assms(5,6,3,4,7)]
    by (auto split: prod.splits sum.splits)
  then show ?thesis using opens_for_wrapped [OF assms(1,2,4)] by blast
qed

lemma token_for_user_opens:
  assumes "wraps T key_pair" "key_pair sk pk" "u \<noteq> []" "pk \<noteq> []"
    and "token_opens T (Some t) k" "token_user t = Some (local_user u sk pk)"
    and "user_pk v = Some \<lparr>bdata = Some pk'\<rparr>"
    and "mid_hermes_ll_token_get_token_for_user T (Some t) (Some v) r = Some (Some t', r')"
  shows "\<exists>e. t' = wrapped_for v (local_user u sk pk) e \<and> opens_for T key_pair pk e pk' k"
  using token_for_user_form [OF assms] by blast

subsection \<open>Creating\<close>

lemma user_copy_local [simp]:
  "i \<noteq> [] \<Longrightarrow> pk \<noteq> [] \<Longrightarrow> mid_hermes_ll_user_copy (Some (local_user i sk pk)) = Some (Some (local_user i sk pk))"
  by (rule user_copy_eq)

lemma generate_for_local:
  "i \<noteq> [] \<Longrightarrow> pk \<noteq> [] \<Longrightarrow>
   generate_for T (Some (local_user i sk pk)) = mid_hermes_ll_token_generate T (Some (local_user i sk pk))"
  by (simp add: generate_for_def fun_eq_iff)

lemma block_create_run:
  assumes "u \<noteq> []" "pk \<noteq> []"
  shows "mid_hermes_ll_block_create T (Some (local_user u sk pk)) i bd mt None None r =
    (case mid_hermes_ll_token_generate T (Some (local_user u sk pk)) r of
       None \<Rightarrow> None
     | Some (rt, r1) \<Rightarrow>
         (case mid_hermes_ll_token_generate T (Some (local_user u sk pk)) r1 of
            None \<Rightarrow> None
          | Some (wt, r2) \<Rightarrow>
              if rt = None \<or> wt = None then Some (None, r2)
              else map_option (\<lambda>((ok, bl), r). (if ok then Some bl else None, r))
                (init_data T (calloc_block\<lparr>bl_user := Some (local_user u sk pk), bl_rtoken := rt,
                   bl_wtoken := wt\<rparr>) i bd mt None None r2)))"
  using assms
  by (auto simp: mid_hermes_ll_block_create_def mid_hermes_ll_block_init_def act_simps generate_for_local
      split: option.splits prod.splits)

text \<open>Themis when nothing fails.\<close>

definition works :: "('r, 'h) themis \<Rightarrow> (bytes \<Rightarrow> bytes \<Rightarrow> bool) \<Rightarrow> bool" where
  "works T key_pair \<longleftrightarrow> (\<forall>n r. \<exists>k r'. soter_rand T n r = (THEMIS_SUCCESS, k, r')) \<and>
     (\<forall>sk pk sk' pk' d r. key_pair sk pk \<longrightarrow> key_pair sk' pk' \<longrightarrow> sk \<noteq> [] \<longrightarrow> pk' \<noteq> [] \<longrightarrow> d \<noteq> [] \<longrightarrow>
        (\<exists>e r'. hm_asym_encrypt T (Some sk) (Some pk') (Some d) True r = (Inr e, r'))) \<and>
     (\<forall>k d c r. k \<noteq> [] \<longrightarrow> d \<noteq> [] \<longrightarrow> (\<exists>e r'. hm_encrypt T (Some k) (Some d) c True r = (Inr e, r'))) \<and>
     (\<forall>k d c. k \<noteq> [] \<longrightarrow> d \<noteq> [] \<longrightarrow> (\<exists>mac. hm_mac_create T (Some k) (Some d) c True = Inr mac))"

lemma worksD:
  assumes "works T key_pair"
  shows "\<exists>k r'. soter_rand T n r = (THEMIS_SUCCESS, k, r')"
    and "key_pair sk pk \<Longrightarrow> key_pair sk' pk' \<Longrightarrow> sk \<noteq> [] \<Longrightarrow> pk' \<noteq> [] \<Longrightarrow> d \<noteq> [] \<Longrightarrow>
      \<exists>e r'. hm_asym_encrypt T (Some sk) (Some pk') (Some d) True r = (Inr e, r')"
    and "k \<noteq> [] \<Longrightarrow> d \<noteq> [] \<Longrightarrow> \<exists>e r'. hm_encrypt T (Some k) (Some d) c True r = (Inr e, r')"
    and "k \<noteq> [] \<Longrightarrow> d \<noteq> [] \<Longrightarrow> \<exists>mac. hm_mac_create T (Some k) (Some d) c True = Inr mac"
proof -
  show "\<exists>k r'. soter_rand T n r = (THEMIS_SUCCESS, k, r')" using assms by (simp add: works_def)
  show "\<exists>e r'. hm_asym_encrypt T (Some sk) (Some pk') (Some d) True r = (Inr e, r')"
    if "key_pair sk pk" "key_pair sk' pk'" "sk \<noteq> []" "pk' \<noteq> []" "d \<noteq> []"
    using assms that unfolding works_def by metis
  show "\<exists>e r'. hm_encrypt T (Some k) (Some d) c True r = (Inr e, r')"
    if "k \<noteq> []" "d \<noteq> []" using assms that by (simp add: works_def)
  show "\<exists>mac. hm_mac_create T (Some k) (Some d) c True = Inr mac"
    if "k \<noteq> []" "d \<noteq> []" using assms that by (simp add: works_def)
qed

text \<open>Themis with outputs that the stores accept: keys of the length asked for, tokens and MACs of
  acceptable sizes, and an acceptable sealed form of the data in \<open>plain_ok\<close>.\<close>

definition outputs_ok ::
    "('r, 'h) themis \<Rightarrow> (bytes \<Rightarrow> bool) \<Rightarrow> (bytes \<Rightarrow> bool) \<Rightarrow> (bytes \<Rightarrow> bool) \<Rightarrow> bool" where
  "outputs_ok T tok_ok plain_ok dat_ok \<longleftrightarrow>
     (\<forall>sk pk k r e r'. length k = HM_TOKEN_LEN \<longrightarrow>
        hm_asym_encrypt T sk pk (Some k) True r = (Inr e, r') \<longrightarrow> tok_ok e) \<and>
     (\<forall>k d c r e r'. plain_ok d \<longrightarrow> hm_encrypt T k (Some d) c True r = (Inr e, r') \<longrightarrow> dat_ok e) \<and>
     (\<forall>k d c mac. hm_mac_create T k d c True = Inr mac \<longrightarrow> dat_ok mac) \<and>
     (\<forall>n r k r'. soter_rand T n r = (THEMIS_SUCCESS, k, r') \<longrightarrow> length k = n)"

lemma outputs_okD:
  assumes "outputs_ok T tok_ok plain_ok dat_ok"
  shows "length k = HM_TOKEN_LEN \<Longrightarrow> hm_asym_encrypt T s p (Some k) True r = (Inr e, r') \<Longrightarrow> tok_ok e"
    and "plain_ok d \<Longrightarrow> hm_encrypt T ko (Some d) c True r = (Inr e, r') \<Longrightarrow> dat_ok e"
    and "hm_mac_create T ko dd c True = Inr mac \<Longrightarrow> dat_ok mac"
    and "soter_rand T n r = (THEMIS_SUCCESS, k, r') \<Longrightarrow> length k = n"
  using assms unfolding outputs_ok_def by blast+

text \<open>Whatever the data is sealed to can be stored.\<close>

definition seals_fit :: "(bytes \<Rightarrow> bytes \<Rightarrow> bytes \<Rightarrow> bool) \<Rightarrow> ('r, 'h) themis \<Rightarrow> bytes \<Rightarrow> bytes \<Rightarrow> bool" where
  "seals_fit fits T d m \<longleftrightarrow> (\<forall>k k' r e r' mac. hm_encrypt T (Some k) (Some d) (Some m) True r = (Inr e, r') \<longrightarrow>
     hm_mac_create T (Some k') (Some d) (Some m) True = Inr mac \<longrightarrow> fits e m mac)"

lemma seals_fitD:
  "seals_fit fits T d m \<Longrightarrow> hm_encrypt T (Some k) (Some d) (Some m) True r = (Inr e, r') \<Longrightarrow>
   hm_mac_create T (Some k') (Some d) (Some m) True = Inr mac \<Longrightarrow> fits e m mac"
  unfolding seals_fit_def by blast

lemma block_create_form:
  assumes "themis_laws T key_pair" "key_pair sk pk" "u \<noteq> []" "sk \<noteq> []" "pk \<noteq> []"
    and "outputs_ok T tok_ok plain_ok dat_ok" "plain_ok d"
    and "mid_hermes_ll_block_create T (Some (local_user u sk pk)) i (new_buffer d) (new_buffer m) None None r =
      Some (Some bl, r')"
  obtains kr kw er ew e mac where
    "bl = \<lparr>bl_user = Some (local_user u sk pk), bl_id = i, bl_block = new_buffer e, bl_data = new_buffer d,
      bl_meta = new_buffer m, bl_old_mac = None, bl_mac = new_buffer mac,
      bl_rtoken = Some (wrapped_for (local_user u sk pk) (local_user u sk pk) er),
      bl_wtoken = Some (wrapped_for (local_user u sk pk) (local_user u sk pk) ew)\<rparr>"
    "sealed T bl kr kw d m" "hm_decrypt T (Some kr) (Some e) (Some m) True = Inr d"
    "hm_mac_create T (Some kw) (Some d) (Some m) True = Inr mac"
    "length kr = HM_TOKEN_LEN" "length kw = HM_TOKEN_LEN" "tok_ok er" "tok_ok ew" "dat_ok e" "dat_ok mac"
    "opens_for T key_pair pk er pk kr" "opens_for T key_pair pk ew pk kw" "\<exists>r0 r1. hm_encrypt T (Some kr) (Some d) (Some m) True r0 = (Inr e, r1)"
proof -
  let ?u = "local_user u sk pk"
  have laws: "wraps T key_pair" "seals T" using assms(1) by (auto simp: themis_laws_def)
  obtain rt wt r1 r2 where gr: "mid_hermes_ll_token_generate T (Some ?u) r = Some (Some rt, r1)"
    and gw: "mid_hermes_ll_token_generate T (Some ?u) r1 = Some (Some wt, r2)"
    and init: "init_data T (calloc_block\<lparr>bl_user := Some ?u, bl_rtoken := Some rt, bl_wtoken := Some wt\<rparr>) i
        (new_buffer d) (new_buffer m) None None r2 = Some ((True, bl), r')"
    using assms(8) unfolding block_create_run [OF assms(3,5)]
    by (auto split: option.splits prod.splits if_splits)
  obtain kr er r01 where kr: "rt = wrapped_for ?u ?u er" "token_opens T (Some rt) kr"
      "soter_rand T HM_TOKEN_LEN r = (THEMIS_SUCCESS, kr, r01)"
      "hm_asym_encrypt T (Some sk) (Some pk) (Some kr) True r01 = (Inr er, r1)"
    using opens_generated [OF laws(1) assms(2,4,5) gr] by blast
  obtain kw ew r02 where kw: "wt = wrapped_for ?u ?u ew" "token_opens T (Some wt) kw"
      "soter_rand T HM_TOKEN_LEN r1 = (THEMIS_SUCCESS, kw, r02)"
      "hm_asym_encrypt T (Some sk) (Some pk) (Some kw) True r02 = (Inr ew, r2)"
    using opens_generated [OF laws(1) assms(2,4,5) gw] by blast
  let ?bl = "\<lambda>e mac. \<lparr>bl_user = Some ?u, bl_id = i, bl_block = new_buffer e, bl_data = new_buffer d,
      bl_meta = new_buffer m, bl_old_mac = None, bl_mac = new_buffer mac, bl_rtoken = Some rt, bl_wtoken = Some wt\<rparr>"
  obtain e mac where e: "hm_encrypt T (Some kr) (Some d) (Some m) True r2 = (Inr e, r')"
    and mac: "hm_mac_create T (Some kw) (Some d) (Some m) True = Inr mac" and bl: "bl = ?bl e mac"
    using init kr(2) kw(2)
    by (auto simp: init_data_def init_mac_def token_opensD calloc_block_def new_buffer_def
        mid_hermes_ll_buffer_create_def Let_def split: sum.splits prod.splits)
  note dec = encrypt_decrypt(1) [OF laws(2) e]
  have "sealed T bl kr kw d m"
    using dec mac kr(2) kw(2) by (auto simp: sealed_def bl)
  moreover note ok = outputs_okD [OF assms(6)]
  have lens: "length kr = HM_TOKEN_LEN" "length kw = HM_TOKEN_LEN"
    using ok(4) [OF kr(3)] ok(4) [OF kw(3)] .
  ultimately show ?thesis
    using that [OF bl [unfolded kr(1) kw(1)] _ dec mac lens ok(1) [OF lens(1) kr(4)] ok(1) [OF lens(2) kw(4)]
        ok(2) [OF assms(7) e] ok(3) [OF mac] opens_for_wrapped [OF laws(1) assms(2,5) kr(4)]
        opens_for_wrapped [OF laws(1) assms(2,5) kw(4)]] e by blast
qed

lemma generate_works:
  assumes "works T key_pair" "outputs_ok T tok_ok plain_ok dat_ok" "key_pair sk pk" "sk \<noteq> []" "pk \<noteq> []"
  obtains t r' where "mid_hermes_ll_token_generate T (Some (local_user u sk pk)) r = Some (Some t, r')"
proof -
  obtain k r0 where k: "soter_rand T HM_TOKEN_LEN r = (THEMIS_SUCCESS, k, r0)"
    using worksD(1) [OF assms(1)] by blast
  then have "k \<noteq> []" using outputs_okD(4) [OF assms(2) k] by (auto simp: HM_TOKEN_LEN_def)
  then obtain e r1 where "hm_asym_encrypt T (Some sk) (Some pk) (Some k) True r0 = (Inr e, r1)"
    using worksD(2) [OF assms(1,3,3,4,5)] by blast
  then show ?thesis
    using that k by (auto simp: mid_hermes_ll_token_generate_def mid_hermes_ll_token_create_def)
qed

lemma block_create_works:
  assumes "works T key_pair" "outputs_ok T tok_ok plain_ok dat_ok" "themis_laws T key_pair" "key_pair sk pk"
    and "u \<noteq> []" "sk \<noteq> []" "pk \<noteq> []" "d \<noteq> []"
  obtains bl r' where "mid_hermes_ll_block_create T (Some (local_user u sk pk)) i (new_buffer d) (new_buffer m)
      None None r = Some (Some bl, r')"
proof -
  let ?u = "local_user u sk pk"
  have laws: "wraps T key_pair" using assms(3) by (auto simp: themis_laws_def)
  obtain rt r1 where gr: "mid_hermes_ll_token_generate T (Some ?u) r = Some (Some rt, r1)"
    by (rule generate_works [OF assms(1,2,4,6,7)])
  obtain wt r2 where gw: "mid_hermes_ll_token_generate T (Some ?u) r1 = Some (Some wt, r2)"
    by (rule generate_works [OF assms(1,2,4,6,7)])
  obtain kr where kr: "token_opens T (Some rt) kr" "kr \<noteq> []"
    using opens_generated [OF laws assms(4,6,7) gr] by blast
  obtain kw where kw: "token_opens T (Some wt) kw" "kw \<noteq> []"
    using opens_generated [OF laws assms(4,6,7) gw] by blast
  obtain e r3 where "hm_encrypt T (Some kr) (Some d) (Some m) True r2 = (Inr e, r3)"
    using worksD(3) [OF assms(1) kr(2) assms(8)] by blast
  moreover obtain mac where "hm_mac_create T (Some kw) (Some d) (Some m) True = Inr mac"
    using worksD(4) [OF assms(1) kw(2) assms(8)] by blast
  ultimately obtain bl where "init_data T (calloc_block\<lparr>bl_user := Some ?u, bl_rtoken := Some rt,
      bl_wtoken := Some wt\<rparr>) i (new_buffer d) (new_buffer m) None None r2 = Some ((True, bl), r3)"
    using token_opensD [OF kr(1)] token_opensD [OF kw(1)]
    by (simp add: init_data_def init_mac_def new_buffer_def mid_hermes_ll_buffer_create_def Let_def)
  then show ?thesis
    using that gr gw by (simp add: block_create_run [OF assms(5,7)])
qed

subsection \<open>Opening\<close>

lemma block_init_opens:
  assumes "token_opens T (Some rt) kr" "hm_decrypt T (Some kr) (Some e) (Some m) True = Inr d"
    and "case wt of None \<Rightarrow> bl_wtoken bl = None | Some t \<Rightarrow> token_opens T (Some t) kw \<and>
      hm_mac_create T (Some kw) (Some d) (Some m) True = Inr mac"
  shows "mid_hermes_ll_block_init T bl user i (new_buffer e) (new_buffer m) (Some rt) wt r =
    Some ((True, (case wt of None \<Rightarrow> bl | Some t \<Rightarrow> bl\<lparr>bl_mac := new_buffer mac\<rparr>)
      \<lparr>bl_user := user, bl_data := new_buffer d, bl_id := i, bl_meta := new_buffer m,
       bl_block := new_buffer e, bl_rtoken := Some rt, bl_wtoken := wt\<rparr>), r)"
  using assms
  by (cases wt)
    (auto simp: mid_hermes_ll_block_init_def init_data_def init_mac_def token_opensD new_buffer_def
      mid_hermes_ll_buffer_create_def Let_def)

subsection \<open>Updating\<close>

lemma block_update_sealed:
  assumes "seals T" "sealed T bl kr kw d m"
    and "mid_hermes_ll_block_update T (Some bl) (new_buffer d') (new_buffer m') r = Some ((True, bl'), r')"
  shows "\<exists>b. bl' = Some b \<and> sealed T b kr kw d' m' \<and> held_mac b = held_mac bl \<and>
    bl_old_mac b = held_mac bl \<and> bl_rtoken b = bl_rtoken bl \<and> bl_wtoken b = bl_wtoken bl \<and>
    bl_id b = bl_id bl \<and> bl_user b = bl_user bl"
proof -
  have mac: "held_mac bl \<noteq> None" using assms(2) by (auto simp: sealed_def held_mac_def split: option.splits)
  obtain e mac r1 where e: "hm_encrypt T (Some kr) (Some d') (Some m') True r = (Inr e, r1)"
    and m: "hm_mac_create T (Some kw) (Some d') (Some m') True = Inr mac"
    and b: "bl' = Some (replace_mac (bl\<lparr>bl_meta := new_buffer m', bl_data := new_buffer d',
        bl_block := new_buffer e\<rparr>) mac)"
    using assms(2,3)
    by (auto simp: mid_hermes_ll_block_update_def sealed_def token_opensD Let_def
        split: if_splits sum.splits prod.splits)
  have held: "held_mac (bl\<lparr>bl_meta := x, bl_data := y, bl_block := z\<rparr>) = held_mac bl" for x y z
    by (cases "bl_old_mac bl") (simp_all add: held_mac_def)
  show ?thesis
    using b m encrypt_decrypt(1) [OF assms(1) e] assms(2) held mac
    by (auto simp: sealed_def held_mac_replace)
qed

lemma block_update_form:
  assumes "works T key_pair" "seals T" "sealed T bl kr kw d m" "outputs_ok T tok_ok plain_ok dat_ok" "plain_ok d'" "d' \<noteq> []"
    and "kr \<noteq> []" "kw \<noteq> []"
  obtains e mac r' where
    "mid_hermes_ll_block_update T (Some bl) (new_buffer d') (new_buffer m') r =
      Some ((True, Some (replace_mac (bl\<lparr>bl_meta := new_buffer m', bl_data := new_buffer d',
        bl_block := new_buffer e\<rparr>) mac)), r')"
    "hm_decrypt T (Some kr) (Some e) (Some m') True = Inr d'"
    "hm_mac_create T (Some kw) (Some d') (Some m') True = Inr mac" "dat_ok e" "dat_ok mac"
    "\<exists>r0 r1. hm_encrypt T (Some kr) (Some d') (Some m') True r0 = (Inr e, r1)"
proof -
  obtain e r' where e: "hm_encrypt T (Some kr) (Some d') (Some m') True r = (Inr e, r')"
    using worksD(3) [OF assms(1,7,6)] by blast
  moreover obtain mac where mac: "hm_mac_create T (Some kw) (Some d') (Some m') True = Inr mac"
    using worksD(4) [OF assms(1,8,6)] by blast
  moreover have "bl_rtoken bl \<noteq> None" "bl_wtoken bl \<noteq> None"
    using assms(3) by (metis not_opens_None sealed_def)+
  ultimately have "mid_hermes_ll_block_update T (Some bl) (new_buffer d') (new_buffer m') r =
      Some ((True, Some (replace_mac (bl\<lparr>bl_meta := new_buffer m', bl_data := new_buffer d',
        bl_block := new_buffer e\<rparr>) mac)), r')"
    using assms(3) by (auto simp: mid_hermes_ll_block_update_def sealed_def token_opensD Let_def)
  then show ?thesis
    using that encrypt_decrypt(1) [OF assms(2) e] mac outputs_okD(2) [OF assms(4,5) e]
      outputs_okD(3) [OF assms(4) mac] e by blast
qed

subsection \<open>Rotating\<close>

definition rewrapped ::
    "('r, 'h) themis \<Rightarrow> (bytes \<Rightarrow> bytes \<Rightarrow> bool) \<Rightarrow> mid_hermes_ll_user \<Rightarrow> bytes \<Rightarrow> bytes \<Rightarrow> bytes \<Rightarrow>
     rights_entry \<Rightarrow> rights_entry \<Rightarrow> bool" where
  "rewrapped T key_pair owner pko kr kw e e' \<longleftrightarrow> re_user e' = re_user e \<and>
     (\<forall>v pkv. re_user e = Some v \<and> user_pk v = Some \<lparr>bdata = Some pkv\<rparr> \<longrightarrow>
       (\<exists>tr. re_rtoken e' = Some (wrapped_for v owner tr) \<and> opens_for T key_pair pko tr pkv kr) \<and>
       (re_wtoken e = None \<longrightarrow> re_wtoken e' = None) \<and>
       (\<forall>t. re_wtoken e' = Some t \<longrightarrow>
          (\<exists>tw. t = wrapped_for v owner tw \<and> opens_for T key_pair pko tw pkv kw)))"

definition entry_ok :: "rights_entry \<Rightarrow> bool" where
  "entry_ok e \<longleftrightarrow> (\<exists>v pkv. v \<noteq> [] \<and> pkv \<noteq> [] \<and> re_user e = Some (remote_user v pkv))"

lemma rotate_loop_rewraps:
  assumes "wraps T key_pair" "key_pair sk pk" "u \<noteq> []" "pk \<noteq> []"
    and "token_opens T (Some rt) kr" "token_user rt = Some (local_user u sk pk)"
    and "token_opens T (Some wt) kw" "token_user wt = Some (local_user u sk pk)"
  shows "list_all entry_ok es \<Longrightarrow> rotate_loop T (Some rt) (Some wt) es r = Some ((True, es'), r') \<Longrightarrow>
    list_all2 (rewrapped T key_pair (local_user u sk pk) pk kr kw) es es'"
proof (induction es arbitrary: r es')
  case (Cons e es)
  from Cons.prems(1) obtain v pkv where v: "v \<noteq> []" "pkv \<noteq> []" "re_user e = Some (remote_user v pkv)"
    by (auto simp: entry_ok_def)
  have copy: "token_for_copy T token (re_user e) = mid_hermes_ll_token_get_token_for_user T token (Some (remote_user v pkv))"
    for token :: token_ptr
    by (simp add: token_for_copy_def v user_copy_eq fun_eq_iff)
  obtain nrt nwt r1 r2 es2 where
    nr: "mid_hermes_ll_token_get_token_for_user T (Some rt) (Some (remote_user v pkv)) r = Some (Some nrt, r1)"
    and nw: "(if re_wtoken e \<noteq> None then mid_hermes_ll_token_get_token_for_user T (Some wt) (Some (remote_user v pkv)) r1
        else Some (None, r1)) = Some (nwt, r2)"
    and rest: "rotate_loop T (Some rt) (Some wt) es r2 = Some ((True, es2), r')"
    and es': "es' = e\<lparr>re_rtoken := Some nrt, re_wtoken := nwt\<rparr> # es2"
    using Cons.prems(2)
    by (auto simp: act_simps copy split: option.splits prod.splits if_splits)
  have tl: "list_all2 (rewrapped T key_pair (local_user u sk pk) pk kr kw) es es2"
    using Cons.IH Cons.prems(1) rest by simp
  obtain er where er: "nrt = wrapped_for (remote_user v pkv) (local_user u sk pk) er"
      "opens_for T key_pair pk er pkv kr"
    using token_for_user_opens [OF assms(1-6) _ nr] by auto
  moreover have "\<forall>t. nwt = Some t \<longrightarrow> (\<exists>tw. t = wrapped_for (remote_user v pkv) (local_user u sk pk) tw \<and>
      opens_for T key_pair pk tw pkv kw)"
    using nw token_for_user_opens [OF assms(1-4,7,8)] by (auto split: if_splits)
  moreover have "re_wtoken e = None \<longrightarrow> nwt = None" using nw by auto
  ultimately have "rewrapped T key_pair (local_user u sk pk) pk kr kw e (e\<lparr>re_rtoken := Some nrt, re_wtoken := nwt\<rparr>)"
    using v by (auto simp: rewrapped_def)
  with tl show ?case by (simp add: es')
qed simp

lemma block_rotate_sealed:
  assumes "themis_laws T key_pair" "key_pair sk pk" "u \<noteq> []" "sk \<noteq> []" "pk \<noteq> []"
    and "bl_user bl = Some (local_user u sk pk)" "bl_data bl = new_buffer d" "bl_meta bl = new_buffer m"
    and "held_mac bl \<noteq> None" "list_all entry_ok es"
    and "mid_hermes_ll_block_rotate T (Some bl) (Some es) r = Some ((True, bl', es'), r')"
  shows "\<exists>b kr kw rs. bl' = Some b \<and> es' = Some rs \<and> sealed T b kr kw d m \<and> held_mac b = held_mac bl \<and>
    bl_id b = bl_id bl \<and> bl_user b = bl_user bl \<and>
    list_all2 (rewrapped T key_pair (local_user u sk pk) pk kr kw) es rs"
proof -
  let ?u = "local_user u sk pk"
  have laws: "wraps T key_pair" "seals T" using assms(1) by (auto simp: themis_laws_def)
  have "bl_rtoken bl \<noteq> None \<and> bl_wtoken bl \<noteq> None"
    using assms(11) by (auto simp: mid_hermes_ll_block_rotate_def split: if_splits)
  then obtain nrt nwt r1 r2 where gr: "mid_hermes_ll_token_generate T (Some ?u) r = Some (nrt, r1)"
    and gw: "mid_hermes_ll_token_generate T (Some ?u) r1 = Some (nwt, r2)"
    using assms(6,11)
    by (auto simp: mid_hermes_ll_block_rotate_def Let_def act_simps generate_for_local assms(3,5)
        split: option.splits prod.splits)
  show ?thesis
  proof (cases "nrt = None \<or> nwt = None")
    case True
    then show ?thesis
      using assms(6,11) \<open>bl_rtoken bl \<noteq> None \<and> bl_wtoken bl \<noteq> None\<close> gr gw
      by (auto simp: mid_hermes_ll_block_rotate_def Let_def act_simps generate_for_local assms(3,5)
          mid_hermes_ll_token_get_data_def split: option.splits prod.splits)
  next
    case False
    then obtain rt wt where t: "nrt = Some rt" "nwt = Some wt" by auto
    obtain kr er where kr: "rt = wrapped_for ?u ?u er" "token_opens T (Some rt) kr"
      using opens_generated [OF laws(1) assms(2,4,5)] gr t by blast
    obtain kw ew where kw: "wt = wrapped_for ?u ?u ew" "token_opens T (Some wt) kw"
      using opens_generated [OF laws(1) assms(2,4,5)] gw t by blast
    obtain e mac r3 rs where e: "hm_encrypt T (Some kr) (Some d) (Some m) True r2 = (Inr e, r3)"
      and mac: "hm_mac_create T (Some kw) (Some d) (Some m) True = Inr mac"
      and rs: "rotate_loop T (Some rt) (Some wt) es r3 = Some ((True, rs), r')" "es' = Some rs"
      and b: "bl' = Some (replace_mac (bl\<lparr>bl_rtoken := Some rt, bl_wtoken := Some wt,
          bl_block := new_buffer e\<rparr>) mac)"
      using assms(6,7,8,11) \<open>bl_rtoken bl \<noteq> None \<and> bl_wtoken bl \<noteq> None\<close> gr gw t
        token_opensD [OF kr(2)] token_opensD [OF kw(2)]
      by (auto simp: mid_hermes_ll_block_rotate_def Let_def act_simps generate_for_local assms(3,5)
          new_buffer_def mid_hermes_ll_buffer_create_def split: option.splits prod.splits sum.splits)
    have "list_all2 (rewrapped T key_pair ?u pk kr kw) es rs"
      using rotate_loop_rewraps [OF laws(1) assms(2,3,5) kr(2) _ kw(2) _ assms(10) rs(1)] kr(1) kw(1) by simp
    moreover have "held_mac (bl\<lparr>bl_rtoken := x, bl_wtoken := y, bl_block := z\<rparr>) = held_mac bl" for x y z
      by (cases "bl_old_mac bl") (simp_all add: held_mac_def)
    ultimately show ?thesis
      using b rs(2) mac kr(2) kw(2) encrypt_decrypt(1) [OF laws(2) e] assms(7,8,9)
      by (auto simp: sealed_def held_mac_replace)
  qed
qed

end
