(* ===== verification/Key_Store_Db.thy ===== *)
theory Key_Store_Db
  imports Key_Store
begin

section \<open>Key store databases and who may hold a token\<close>

text \<open>
  What a key store promises about access, whatever its database.  \<open>acl_step\<close> is the abstract
  specification: the read and write tokens per block and user, and which change an operation may
  make to them.  The locale \<open>key_db\<close> is the contract of a database (\<^verbatim>\<open>hm_ks_db_t\<close>); under it, the
  functions of \<open>Key_Store\<close> refine the specification.  The database of
  \<^verbatim>\<open>tests/common/test_key_store_db.c\<close> is modelled at the end and shown to keep the contract.
\<close>

subsection \<open>The abstract specification\<close>

type_synonym tokens = "bytes \<times> bytes \<Rightarrow> (bytes \<times> bytes) option"

record acl =
  rtokens :: tokens
  wtokens :: tokens

definition lost_at :: "bytes \<times> bytes \<Rightarrow> tokens \<Rightarrow> tokens \<Rightarrow> bool" where
  "lost_at p m m' \<longleftrightarrow> (\<forall>q. q \<noteq> p \<longrightarrow> m' q = m q) \<and> (m' p = None \<or> m' p = m p)"

inductive acl_step :: "acl \<Rightarrow> ks_op \<Rightarrow> acl \<Rightarrow> bool" where
  keep: "acl_step a op a"
| set_r: "u = w \<or> rtokens a (b, w) \<noteq> None \<Longrightarrow>
    acl_step a (KsSetR b u w t) (a\<lparr>rtokens := (rtokens a)((b, u) \<mapsto> (t, w))\<rparr>)"
| set_w: "u = w \<or> wtokens a (b, w) \<noteq> None \<Longrightarrow>
    acl_step a (KsSetW b u w t) (a\<lparr>wtokens := (wtokens a)((b, u) \<mapsto> (t, w))\<rparr>)"
| del_r: "wtokens a (b, w) \<noteq> None \<Longrightarrow> lost_at (b, u) (rtokens a) (rtokens a') \<Longrightarrow>
    lost_at (b, u) (wtokens a) (wtokens a') \<Longrightarrow> acl_step a (KsDelR b u w) a'"
| del_w: "wtokens a (b, w) \<noteq> None \<Longrightarrow> lost_at (b, u) (rtokens a) (rtokens a') \<Longrightarrow>
    lost_at (b, u) (wtokens a) (wtokens a') \<Longrightarrow> acl_step a (KsDelW b u w) a'"

inductive_cases acl_stepE: "acl_step a op a'"

inductive acl_run :: "acl \<Rightarrow> ks_op list \<Rightarrow> acl \<Rightarrow> bool" where
  stop: "acl_run a [] a"
| step: "acl_step a op a1 \<Longrightarrow> acl_run a1 ops a' \<Longrightarrow> acl_run a (op # ops) a'"

text \<open>
  \<open>U\<close> is a group of users that holds every token of block \<open>b\<close>; an operation respects the group
  when it does not give a token of \<open>b\<close> to somebody outside in the name of that user or of a
  member.
\<close>

definition confined :: "bytes \<Rightarrow> bytes set \<Rightarrow> acl \<Rightarrow> bool" where
  "confined b U a \<longleftrightarrow> (\<forall>u. rtokens a (b, u) \<noteq> None \<or> wtokens a (b, u) \<noteq> None \<longrightarrow> u \<in> U)"

fun acl_respects :: "bytes \<Rightarrow> bytes set \<Rightarrow> ks_op \<Rightarrow> bool" where
  "acl_respects b U (KsSetR b' u w t) = (b' = b \<and> (w = u \<or> w \<in> U) \<longrightarrow> u \<in> U)"
| "acl_respects b U (KsSetW b' u w t) = (b' = b \<and> (w = u \<or> w \<in> U) \<longrightarrow> u \<in> U)"
| "acl_respects b U _ = True"

lemma lost_at_Some: "lost_at p m m' \<Longrightarrow> m' q \<noteq> None \<Longrightarrow> m q \<noteq> None"
  unfolding lost_at_def by metis

lemma lost_at_other: "lost_at p m m' \<Longrightarrow> q \<noteq> p \<Longrightarrow> m' q = m q"
  unfolding lost_at_def by metis

lemma acl_step_confined:
  assumes "acl_step a op a'" "confined b U a" "acl_respects b U op"
  shows "confined b U a'"
  using assms by (cases rule: acl_step.cases) (auto simp: confined_def dest: lost_at_Some)

lemma acl_run_confined:
  "acl_run a ops a' \<Longrightarrow> confined b U a \<Longrightarrow> list_all (acl_respects b U) ops \<Longrightarrow> confined b U a'"
  by (induction rule: acl_run.induct) (auto intro: acl_step_confined)

text \<open>Only the operations that name a holder of a write token as owner take tokens away.\<close>

lemma acl_step_kept:
  assumes "acl_step a op a'"
    and "\<forall>w. wtokens a (b, w) \<noteq> None \<longrightarrow> op \<noteq> KsDelR b u w \<and> op \<noteq> KsDelW b u w"
  shows "(rtokens a (b, u) \<noteq> None \<longrightarrow> rtokens a' (b, u) \<noteq> None) \<and>
    (wtokens a (b, u) \<noteq> None \<longrightarrow> wtokens a' (b, u) \<noteq> None)"
  using assms(1)
proof (cases rule: acl_step.cases)
  case (del_r b' w u')
  then have "(b, u) \<noteq> (b', u')" using assms(2) by auto
  with del_r show ?thesis by (simp add: lost_at_other [of "(b', u')"])
next
  case (del_w b' w u')
  then have "(b, u) \<noteq> (b', u')" using assms(2) by auto
  with del_w show ?thesis by (simp add: lost_at_other [of "(b', u')"])
qed auto

subsection \<open>The contract of a database\<close>

fun op_tokens :: "ks_op \<Rightarrow> bytes list" where
  "op_tokens (KsSetR b u w t) = [t]"
| "op_tokens (KsSetW b u w t) = [t]"
| "op_tokens _ = []"

text \<open>The ids an operation looks up: a database may keep apart only some of them (\<open>named\<close>).\<close>

fun op_ids :: "ks_op \<Rightarrow> bytes list" where
  "op_ids (KsSetR b u w t) = [b, u, w]"
| "op_ids (KsSetW b u w t) = [b, u, w]"
| "op_ids (KsGetR b u) = [b, u]"
| "op_ids (KsGetW b u) = [b, u]"
| "op_ids (KsDelR b u w) = [b, u, w]"
| "op_ids (KsDelW b u w) = [b, u, w]"
| "op_ids (KsRights b i) = [b]"

locale key_db =
  fixes ops :: "'d hm_ks_db"
    and rt wt :: "'d \<Rightarrow> tokens"
    and inv :: "'d \<Rightarrow> bool"
    and named tok full ufull :: "bytes \<Rightarrow> bool"
  assumes checked: "hm_key_store_check_backend (Some ops)"
    and get_r_law: "inv d \<Longrightarrow> named b \<Longrightarrow> named u \<Longrightarrow> the (get_rtoken ops) d b u = (st, tw, d') \<Longrightarrow>
      d' = d \<and> rt d (b, u) = (if st = HM_SUCCESS then Some tw else None)"
    and get_w_law: "inv d \<Longrightarrow> named b \<Longrightarrow> named u \<Longrightarrow> the (get_wtoken ops) d b u = (st, tw, d') \<Longrightarrow>
      d' = d \<and> wt d (b, u) = (if st = HM_SUCCESS then Some tw else None)"
    and set_r_law: "inv d \<Longrightarrow> named b \<Longrightarrow> named u \<Longrightarrow> named w \<Longrightarrow> tok t \<Longrightarrow> the (set_rtoken ops) d b u w t = (st, d') \<Longrightarrow>
      inv d' \<and> wt d' = wt d \<and> rt d' = (if st = HM_SUCCESS then (rt d)((b, u) \<mapsto> (t, w)) else rt d) \<and>
      (full b \<and> ufull u \<and> ufull w \<longrightarrow> st = HM_SUCCESS)"
    and set_w_law: "inv d \<Longrightarrow> named b \<Longrightarrow> named u \<Longrightarrow> named w \<Longrightarrow> tok t \<Longrightarrow> the (set_wtoken ops) d b u w t = (st, d') \<Longrightarrow>
      inv d' \<and> rt d' = rt d \<and> wt d' = (if st = HM_SUCCESS then (wt d)((b, u) \<mapsto> (t, w)) else wt d) \<and>
      (full b \<and> ufull u \<and> ufull w \<longrightarrow> (st = HM_SUCCESS \<longleftrightarrow> rt d (b, u) \<noteq> None))"
    and del_r_law: "inv d \<Longrightarrow> named b \<Longrightarrow> named u \<Longrightarrow> named w \<Longrightarrow> the (del_rtoken ops) d b u w = (st, d') \<Longrightarrow>
      inv d' \<and> lost_at (b, u) (rt d) (rt d') \<and> lost_at (b, u) (wt d) (wt d') \<and>
      (st = HM_SUCCESS \<longrightarrow> rt d' (b, u) = None) \<and>
      (full b \<and> ufull u \<and> ufull w \<longrightarrow> (st = HM_SUCCESS \<longleftrightarrow> rt d (b, u) \<noteq> None))"
    and del_w_law: "inv d \<Longrightarrow> named b \<Longrightarrow> named u \<Longrightarrow> named w \<Longrightarrow> the (del_wtoken ops) d b u w = (st, d') \<Longrightarrow>
      inv d' \<and> rt d' = rt d \<and> lost_at (b, u) (wt d) (wt d') \<and>
      (st = HM_SUCCESS \<longrightarrow> wt d' (b, u) = None)"
    and rights_law: "inv d \<Longrightarrow> named b \<Longrightarrow> snd (snd (the (get_indexed_rights ops) d b i)) = d"
begin

definition db :: "'d \<Rightarrow> 'd hm_ks_db" where
  "db d = ops\<lparr>ks_user_data := Some d\<rparr>"

definition acl_of :: "'d \<Rightarrow> acl" where
  "acl_of d = \<lparr>rtokens = rt d, wtokens = wt d\<rparr>"

lemma db_simps [simp]:
  "ks_user_data (db d) = Some d" "set_rtoken (db d) = set_rtoken ops" "set_wtoken (db d) = set_wtoken ops"
  "get_rtoken (db d) = get_rtoken ops" "get_wtoken (db d) = get_wtoken ops"
  "del_rtoken (db d) = del_rtoken ops" "del_wtoken (db d) = del_wtoken ops"
  "get_indexed_rights (db d) = get_indexed_rights ops" "db d\<lparr>ks_user_data := Some d'\<rparr> = db d'"
  by (simp_all add: db_def)

lemma callbacks:
  "set_rtoken ops \<noteq> None" "set_wtoken ops \<noteq> None" "get_rtoken ops \<noteq> None" "get_wtoken ops \<noteq> None"
  "del_rtoken ops \<noteq> None" "del_wtoken ops \<noteq> None" "get_indexed_rights ops \<noteq> None"
  using checked by (auto simp: hm_key_store_check_backend_def)

lemma acl_of_simps [simp]: "rtokens (acl_of d) = rt d" "wtokens (acl_of d) = wt d"
  by (simp_all add: acl_of_def)

definition stepped :: "'d \<Rightarrow> ks_op \<Rightarrow> 'd hm_ks_db option \<Rightarrow> bool" where
  "stepped d op r \<longleftrightarrow> (\<exists>d'. r = Some (db d') \<and> inv d' \<and> acl_step (acl_of d) op (acl_of d'))"

lemma stepped_keep: "inv d \<Longrightarrow> stepped d op (Some (db d))"
  by (auto simp: stepped_def intro: keep)

lemma stepped_done:
  assumes "inv (snd r)" "acl_step (acl_of d) op (acl_of (snd r))"
  shows "stepped d op (snd (ks_done (Some (db d1)) r))"
  using assms by (auto simp: stepped_def ks_done_def)

lemma set_rtoken_stepped:
  assumes "inv d" "named b" "named u" "named w" "tok t"
  shows "stepped d (KsSetR b u w t) (snd (hm_key_store_set_rtoken (Some (db d)) (Some b) (Some u) (Some w) (Some t)))"
proof -
  obtain st d' where set: "the (set_rtoken ops) d b u w t = (st, d')" by force
  note law = set_r_law [OF assms set]
  have acl: "acl_of d' = (if st = HM_SUCCESS then (acl_of d)\<lparr>rtokens := (rt d)((b, u) \<mapsto> (t, w))\<rparr> else acl_of d)"
    using law by (simp add: acl_of_def)
  obtain st' tw d1 where get: "the (get_rtoken ops) d b w = (st', tw, d1)"
    by (metis prod_cases3)
  note g = get_r_law [OF assms(1,2,4) get]
  have "stepped d (KsSetR b u w t) (snd (ks_done (Some (db d)) (st, d')))"
    if "u = w \<or> st' = HM_SUCCESS"
  proof (rule stepped_done)
    have "u = w \<or> rtokens (acl_of d) (b, w) \<noteq> None" using that g by auto
    from set_r [of u w "acl_of d" b t, OF this]
    show "acl_step (acl_of d) (KsSetR b u w t) (acl_of (snd (st, d')))"
      unfolding snd_conv acl by (simp add: keep)
  qed (use law in simp)
  then show ?thesis
    using set get g assms(1)
    by (auto simp: hm_key_store_set_rtoken_def other_user_iff stepped_keep)
qed

lemma set_wtoken_stepped:
  assumes "inv d" "named b" "named u" "named w" "tok t"
  shows "stepped d (KsSetW b u w t) (snd (hm_key_store_set_wtoken (Some (db d)) (Some b) (Some u) (Some w) (Some t)))"
proof -
  obtain st d' where set: "the (set_wtoken ops) d b u w t = (st, d')" by force
  note law = set_w_law [OF assms set]
  have acl: "acl_of d' = (if st = HM_SUCCESS then (acl_of d)\<lparr>wtokens := (wt d)((b, u) \<mapsto> (t, w))\<rparr> else acl_of d)"
    using law by (simp add: acl_of_def)
  obtain st' tw d1 where get: "the (get_wtoken ops) d b w = (st', tw, d1)"
    by (metis prod_cases3)
  note g = get_w_law [OF assms(1,2,4) get]
  have "stepped d (KsSetW b u w t) (snd (ks_done (Some (db d)) (st, d')))"
    if "u = w \<or> st' = HM_SUCCESS"
  proof (rule stepped_done)
    have "u = w \<or> wtokens (acl_of d) (b, w) \<noteq> None" using that g by auto
    from set_w [of u w "acl_of d" b t, OF this]
    show "acl_step (acl_of d) (KsSetW b u w t) (acl_of (snd (st, d')))"
      unfolding snd_conv acl by (simp add: keep)
  qed (use law in simp)
  then show ?thesis
    using set get g assms(1)
    by (auto simp: hm_key_store_set_wtoken_def other_user_iff stepped_keep)
qed

lemma del_rtoken_stepped:
  assumes "inv d" "named b" "named u" "named w"
  shows "\<exists>st r. hm_key_store_del_rtoken (Some (db d)) (Some b) (Some u) (Some w) = Some (st, r) \<and>
    stepped d (KsDelR b u w) r"
proof -
  obtain st d' where del: "the (del_rtoken ops) d b u w = (st, d')" by force
  note law = del_r_law [OF assms del]
  obtain st' tw d1 where get: "the (get_wtoken ops) d b w = (st', tw, d1)"
    by (metis prod_cases3)
  note g = get_w_law [OF assms(1,2,4) get]
  have "stepped d (KsDelR b u w) (snd (ks_done (Some (db d)) (st, d')))" if "st' = HM_SUCCESS"
    using law that g by (intro stepped_done) (auto intro!: del_r)
  then show ?thesis
    using del get g assms callbacks
    by (cases "get_wtoken ops")
      (auto simp: hm_key_store_del_rtoken_def stepped_keep simp del: split_paired_Ex
        intro: prod.collapse [symmetric])
qed

lemma del_wtoken_stepped:
  assumes "inv d" "named b" "named u" "named w"
  shows "stepped d (KsDelW b u w) (snd (hm_key_store_del_wtoken (Some (db d)) (Some b) (Some u) (Some w)))"
proof -
  obtain st d' where del: "the (del_wtoken ops) d b u w = (st, d')" by force
  have law: "inv d'" "lost_at (b, u) (rt d) (rt d')" "lost_at (b, u) (wt d) (wt d')"
    using del_w_law [OF assms del] by (simp_all add: lost_at_def)
  obtain st' tw d1 where get: "the (get_wtoken ops) d b w = (st', tw, d1)"
    by (metis prod_cases3)
  note g = get_w_law [OF assms(1,2,4) get]
  have "stepped d (KsDelW b u w) (snd (ks_done (Some (db d)) (st, d')))" if "st' = HM_SUCCESS"
    using law that g by (intro stepped_done) (auto intro!: del_w)
  then show ?thesis
    using del get g assms by (auto simp: hm_key_store_del_wtoken_def stepped_keep)
qed

lemma get_stepped:
  assumes "inv d" "named b"
  shows "named u \<Longrightarrow> stepped d op (snd (hm_key_store_get_rtoken (Some (db d)) (Some b) (Some u) v))"
    "named u \<Longrightarrow> stepped d op (snd (hm_key_store_get_wtoken (Some (db d)) (Some b) (Some u) v))"
    "\<exists>x r. hm_key_store_get_indexed_rights (Some (db d)) (Some b) i v = Some (x, r) \<and> stepped d op r"
proof -
  obtain st tw d1 where get: "the (get_rtoken ops) d b u = (st, tw, d1)" by (metis prod_cases3)
  show "stepped d op (snd (hm_key_store_get_rtoken (Some (db d)) (Some b) (Some u) v))" if "named u"
    using get get_r_law [OF assms that get] assms
    by (auto simp: hm_key_store_get_rtoken_def ks_result_def stepped_keep)
  obtain st tw d1 where get: "the (get_wtoken ops) d b u = (st, tw, d1)" by (metis prod_cases3)
  show "stepped d op (snd (hm_key_store_get_wtoken (Some (db d)) (Some b) (Some u) v))" if "named u"
    using get get_w_law [OF assms that get] assms
    by (auto simp: hm_key_store_get_wtoken_def ks_result_def stepped_keep)
  show "\<exists>x r. hm_key_store_get_indexed_rights (Some (db d)) (Some b) i v = Some (x, r) \<and> stepped d op r"
    using rights_law [of d b i] assms callbacks
    by (cases "get_indexed_rights ops")
      (auto simp: hm_key_store_get_indexed_rights_def ks_result_def stepped_keep)
qed

lemma local_step:
  assumes "inv d" "list_all named (op_ids op)" "list_all tok (op_tokens op)"
  obtains r d' where "ks_local (Some (db d)) op = Some (r, Some (db d'))" "inv d'"
    "acl_step (acl_of d) op (acl_of d')"
proof -
  have "\<exists>r x. ks_local (Some (db d)) op = Some (r, x) \<and> stepped d op x"
  proof (cases op)
    case (KsDelR b u w)
    with assms del_rtoken_stepped [of d b u w] show ?thesis by auto
  next
    case (KsRights b i)
    with assms get_stepped(3) [of d b i True op] show ?thesis by auto
  qed (use assms in \<open>auto simp: apfst_def map_prod_def case_prod_unfold set_rtoken_stepped
      set_wtoken_stepped del_wtoken_stepped get_stepped\<close>)
  then show ?thesis using that by (auto simp: stepped_def)
qed

lemma local_run:
  assumes "inv d" "\<forall>op \<in> set ks. list_all named (op_ids op) \<and> list_all tok (op_tokens op)"
  shows "\<exists>rs d'. ks_local_all (Some (db d)) ks = Some (rs, Some (db d')) \<and> inv d' \<and>
    acl_run (acl_of d) ks (acl_of d')"
  using assms
proof (induction ks arbitrary: d)
  case Nil
  then show ?case by (auto intro: stop)
next
  case (Cons op ks)
  then obtain r d1 where d1: "ks_local (Some (db d)) op = Some (r, Some (db d1))" "inv d1"
    "acl_step (acl_of d) op (acl_of d1)"
    using local_step [of d op] by auto
  with Cons.IH [of d1] Cons.prems obtain rs d' where
    "ks_local_all (Some (db d1)) ks = Some (rs, Some (db d'))" "inv d'"
    "acl_run (acl_of d1) ks (acl_of d')" by auto
  with d1 show ?case by (auto intro: step)
qed

text \<open>A group of users cannot be extended by the operations of others.\<close>

lemma run_confined:
  assumes "inv d" "\<forall>op \<in> set ks. list_all named (op_ids op) \<and> list_all tok (op_tokens op)"
    and "confined b U (acl_of d)" "list_all (acl_respects b U) ks"
  shows "\<exists>rs d'. ks_local_all (Some (db d)) ks = Some (rs, Some (db d')) \<and> inv d' \<and>
    confined b U (acl_of d')"
  using local_run [OF assms(1,2)] acl_run_confined assms(3,4) by blast

end

end
