(* ===== verification/Mid_Contract.thy ===== *)
theory Mid_Contract
  imports Mid_Hermes Ll_Block_Props Key_Store_Db
begin

section \<open>Mid-Hermes over any three stores\<close>

text \<open>
  What the operations of Mid-Hermes achieve, for every three stores that keep the contracts
  \<open>credential_iface\<close>, \<open>key_iface\<close> and \<open>data_iface\<close>.  \<open>block_state\<close> is the abstract state of a block: its
  data \<open>d\<close> and \<open>m\<close>, the keys \<open>kr\<close> and \<open>kw\<close>; it says that the stored block opens to the data, and that
  every token stored for a user opens to the key for whoever has the private key of that user.
  The operations that succeed keep it, and reading is reading \<open>d\<close> and \<open>m\<close>.
\<close>

subsection \<open>The contracts\<close>

locale credential_iface =
  fixes cs :: "'c hermes_credential_store"
    and cinv :: "'c \<Rightarrow> bool"
    and pub :: "'c \<Rightarrow> bytes \<Rightarrow> bytes option"
    and uid_ok :: "bytes \<Rightarrow> bool"
  assumes get_pub: "cinv c \<Longrightarrow> uid_ok u \<Longrightarrow>
      \<exists>e. cs_get_public_key cs (Some u) c = Some (case pub c u of None \<Rightarrow> Inl e | Some pk \<Rightarrow> Inr pk, c)"
    and pub_ok: "cinv c \<Longrightarrow> pub c u = Some pk \<Longrightarrow> pk \<noteq> []"
    and uid_nonempty: "uid_ok u \<Longrightarrow> u \<noteq> []"
begin

lemma user_load:
  "cinv c \<Longrightarrow> uid_ok u \<Longrightarrow>
   mid_hermes_ll_user_load_c (Some u) (Some cs) c = Some (map_option (remote_user u) (pub c u), c)"
  using get_pub [of c u] uid_nonempty [of u] pub_ok [of c u]
  by (auto simp: user_load_c_run user_load_run split: option.splits)

end

locale key_iface =
  fixes ks :: "'k hermes_key_store"
    and kinv :: "'k \<Rightarrow> bool"
    and rt wt :: "'k \<Rightarrow> tokens"
    and uid_ok bid_ok tok_ok full ufull :: "bytes \<Rightarrow> bool"
  assumes get_r: "kinv s \<Longrightarrow> uid_ok u \<Longrightarrow> bid_ok b \<Longrightarrow>
      \<exists>e. ks_get_rtoken ks (Some u) (Some b) s = Some (case rt s (b, u) of None \<Rightarrow> Inl e | Some tw \<Rightarrow> Inr tw, s)"
    and get_w: "kinv s \<Longrightarrow> uid_ok u \<Longrightarrow> bid_ok b \<Longrightarrow>
      \<exists>e. ks_get_wtoken ks (Some u) (Some b) s = Some (case wt s (b, u) of None \<Rightarrow> Inl e | Some tw \<Rightarrow> Inr tw, s)"
    and set_r: "kinv s \<Longrightarrow> uid_ok u \<Longrightarrow> bid_ok b \<Longrightarrow> tok_ok t \<Longrightarrow> uid_ok w \<Longrightarrow>
      \<exists>st s'. ks_set_rtoken ks (Some u) (Some b) (Some t) (Some w) s = Some (st, s') \<and> kinv s' \<and>
        wt s' = wt s \<and> rt s' = (if st = HM_SUCCESS then (rt s)((b, u) \<mapsto> (t, w)) else rt s) \<and>
        (ufull u \<and> full b \<and> ufull w \<longrightarrow> (st = HM_SUCCESS \<longleftrightarrow> u = w \<or> rt s (b, w) \<noteq> None))"
    and set_w: "kinv s \<Longrightarrow> uid_ok u \<Longrightarrow> bid_ok b \<Longrightarrow> tok_ok t \<Longrightarrow> uid_ok w \<Longrightarrow>
      \<exists>st s'. ks_set_wtoken ks (Some u) (Some b) (Some t) (Some w) s = Some (st, s') \<and> kinv s' \<and>
        rt s' = rt s \<and> wt s' = (if st = HM_SUCCESS then (wt s)((b, u) \<mapsto> (t, w)) else wt s) \<and>
        (ufull u \<and> full b \<and> ufull w \<longrightarrow>
           (st = HM_SUCCESS \<longleftrightarrow> (u = w \<or> wt s (b, w) \<noteq> None) \<and> rt s (b, u) \<noteq> None))"
    and del_r: "kinv s \<Longrightarrow> uid_ok u \<Longrightarrow> bid_ok b \<Longrightarrow> uid_ok w \<Longrightarrow>
      \<exists>st s'. ks_set_rtoken ks (Some u) (Some b) None (Some w) s = Some (st, s') \<and> kinv s' \<and>
        lost_at (b, u) (rt s) (rt s') \<and> lost_at (b, u) (wt s) (wt s') \<and>
        (st = HM_SUCCESS \<longrightarrow> rt s' (b, u) = None) \<and>
        (ufull u \<and> full b \<and> ufull w \<longrightarrow> (st = HM_SUCCESS \<longleftrightarrow> wt s (b, w) \<noteq> None \<and> rt s (b, u) \<noteq> None))"
    and del_w: "kinv s \<Longrightarrow> uid_ok u \<Longrightarrow> bid_ok b \<Longrightarrow> uid_ok w \<Longrightarrow>
      \<exists>st s'. ks_set_wtoken ks (Some u) (Some b) None (Some w) s = Some (st, s') \<and> kinv s' \<and>
        rt s' = rt s \<and> lost_at (b, u) (wt s) (wt s') \<and>
        (st = HM_SUCCESS \<longrightarrow> wt s' (b, u) = None)"
    and stored_r: "kinv s \<Longrightarrow> rt s (b, u) = Some (t, w) \<Longrightarrow> tok_ok t \<and> uid_ok w"
    and stored_w: "kinv s \<Longrightarrow> wt s (b, u) = Some (t, w) \<Longrightarrow> tok_ok t \<and> uid_ok w"
    and tok_nonempty: "tok_ok t \<Longrightarrow> t \<noteq> []"

locale data_iface =
  fixes ds :: "'d hermes_data_store"
    and dinv :: "'d \<Rightarrow> bool"
    and blk :: "'d \<Rightarrow> bytes \<Rightarrow> (bytes \<times> bytes \<times> bytes) option"
    and bid_ok dat_ok full :: "bytes \<Rightarrow> bool"
    and fits :: "bytes \<Rightarrow> bytes \<Rightarrow> bytes \<Rightarrow> bool"
    and fresh :: "'d \<Rightarrow> bytes option"
  assumes set_new: "dinv s \<Longrightarrow> dat_ok e \<Longrightarrow> dat_ok m \<Longrightarrow> dat_ok mac \<Longrightarrow>
      \<exists>st i s'. ds_set_block ds None (Some e) (Some m) (Some mac) None s = Some ((st, i), s') \<and> dinv s' \<and>
        (if st = HM_SUCCESS
         then \<exists>j. i = Some j \<and> bid_ok j \<and> blk s j = None \<and> blk s' = (blk s)(j \<mapsto> (e, m, mac))
         else blk s' = blk s) \<and>
        (fits e m mac \<and> fresh s \<noteq> None \<longrightarrow> st = HM_SUCCESS \<and> i = fresh s)"
    and set_old: "dinv s \<Longrightarrow> blk s i \<noteq> None \<Longrightarrow> bid_ok i \<Longrightarrow> dat_ok e \<Longrightarrow> dat_ok m \<Longrightarrow> dat_ok mac \<Longrightarrow> dat_ok old \<Longrightarrow>
      \<exists>st s'. ds_set_block ds (Some i) (Some e) (Some m) (Some mac) (Some old) s = Some ((st, Some i), s') \<and>
        dinv s' \<and>
        (if st = HM_SUCCESS
         then (\<exists>e0 m0. blk s i = Some (e0, m0, old)) \<and> blk s' = (blk s)(i \<mapsto> (e, m, mac))
         else blk s' = blk s) \<and>
        (fits e m mac \<and> (\<exists>e0 m0. blk s i = Some (e0, m0, old)) \<longrightarrow> st = HM_SUCCESS)"
    and get_b: "dinv s \<Longrightarrow> bid_ok i \<Longrightarrow>
      \<exists>e. ds_get_block ds (Some i) s =
        Some (case blk s i of None \<Rightarrow> Inl e | Some (b, m, mac) \<Rightarrow> Inr (b, m), s)"
    and stored_b: "dinv s \<Longrightarrow> blk s i = Some (b, m, mac) \<Longrightarrow> dat_ok b \<and> dat_ok m \<and> dat_ok mac"
    and stored_full: "dinv s \<Longrightarrow> blk s i \<noteq> None \<Longrightarrow> full i"
    and dat_nonempty: "dat_ok e \<Longrightarrow> e \<noteq> []"
    and bid_nonempty: "bid_ok i \<Longrightarrow> i \<noteq> []"

subsection \<open>The abstract state of a block\<close>

definition opens_all ::
    "('r, 'h) themis \<Rightarrow> (bytes \<Rightarrow> bytes \<Rightarrow> bool) \<Rightarrow> (bytes \<Rightarrow> bytes option) \<Rightarrow> tokens \<Rightarrow> bytes \<Rightarrow> bytes \<Rightarrow> bool" where
  "opens_all T key_pair keys tm i k \<longleftrightarrow> (\<forall>u t w pku. tm (i, u) = Some (t, w) \<longrightarrow> keys u = Some pku \<longrightarrow>
     (\<exists>pko. keys w = Some pko \<and> opens_for T key_pair pko t pku k))"

definition block_state ::
    "('r, 'h) themis \<Rightarrow> (bytes \<Rightarrow> bytes \<Rightarrow> bool) \<Rightarrow> (bytes \<Rightarrow> bytes option) \<Rightarrow> tokens \<Rightarrow> tokens \<Rightarrow>
     (bytes \<times> bytes \<times> bytes) option \<Rightarrow> bytes \<Rightarrow> bytes \<Rightarrow> bytes \<Rightarrow> bytes \<Rightarrow> bytes \<Rightarrow> bool" where
  "block_state T key_pair keys rtm wtm stored i kr kw d m \<longleftrightarrow>
     length kr = HM_TOKEN_LEN \<and> length kw = HM_TOKEN_LEN \<and>
     (\<exists>e mac. stored = Some (e, m, mac) \<and> hm_decrypt T (Some kr) (Some e) (Some m) True = Inr d \<and>
        hm_mac_create T (Some kw) (Some d) (Some m) True = Inr mac) \<and>
     opens_all T key_pair keys rtm i kr \<and> opens_all T key_pair keys wtm i kw"

lemma block_stateD:
  assumes "block_state T key_pair keys rtm wtm stored i kr kw d m"
  obtains e mac where "stored = Some (e, m, mac)" "hm_decrypt T (Some kr) (Some e) (Some m) True = Inr d"
    "hm_mac_create T (Some kw) (Some d) (Some m) True = Inr mac"
    "length kr = HM_TOKEN_LEN" "length kw = HM_TOKEN_LEN"
    "opens_all T key_pair keys rtm i kr" "opens_all T key_pair keys wtm i kw"
  using assms unfolding block_state_def by blast

text \<open>A user with keys, as the credential store knows him.\<close>

definition known ::
    "(bytes \<Rightarrow> bytes \<Rightarrow> bool) \<Rightarrow> (bytes \<Rightarrow> bytes option) \<Rightarrow> bytes \<Rightarrow> bytes \<Rightarrow> bytes \<Rightarrow> bool" where
  "known key_pair keys u sk pk \<longleftrightarrow> keys u = Some pk \<and> key_pair sk pk \<and> sk \<noteq> [] \<and> pk \<noteq> [] \<and> u \<noteq> []"

lemma opens_all_token:
  assumes "opens_all T key_pair keys tm i k" "tm (i, u) = Some (t, w)" "known key_pair keys u sk pk"
  obtains pko where "keys w = Some pko" "opens_for T key_pair pko t pk k"
    "token_opens T (Some (wrapped_for (local_user u sk pk) (remote_user w pko) t)) k"
proof -
  have u: "keys u = Some pk" "key_pair sk pk" "sk \<noteq> []" using assms(3) by (simp_all add: known_def)
  obtain pko where pko: "keys w = Some pko" "opens_for T key_pair pko t pk k"
    using assms(1,2) u(1) unfolding opens_all_def by blast
  show ?thesis
    using that [OF pko opens_for_token [OF pko(2) u(2,3)]] by simp
qed

lemma opens_all_upd:
  assumes "opens_all T key_pair keys tm i k"
    and "keys u \<noteq> None \<Longrightarrow> \<exists>pko. keys w = Some pko \<and> opens_for T key_pair pko t (the (keys u)) k"
  shows "opens_all T key_pair keys (tm((i, u) \<mapsto> (t, w))) i k"
  using assms unfolding opens_all_def by auto

subsection \<open>Loading\<close>

locale mid_stores =
  credential_iface cs cinv pub uid_ok +
  key_iface ks kinv rt wt uid_ok bid_ok tok_ok full ufull +
  data_iface ds dinv blk bid_ok dat_ok full fits fresh
  for cs :: "'c hermes_credential_store" and cinv pub uid_ok
    and ks :: "'k hermes_key_store" and kinv rt wt bid_ok tok_ok full ufull
    and ds :: "'d hermes_data_store" and dinv blk dat_ok fits fresh
begin

definition winv :: "('r, 'k, 'd, 'c) world \<Rightarrow> bool" where
  "winv w \<longleftrightarrow> cinv (cred_state w) \<and> kinv (key_state w) \<and> dinv (data_state w)"

definition state_at ::
    "('r, 'h) themis \<Rightarrow> (bytes \<Rightarrow> bytes \<Rightarrow> bool) \<Rightarrow> ('r, 'k, 'd, 'c) world \<Rightarrow> bytes \<Rightarrow>
     bytes \<Rightarrow> bytes \<Rightarrow> bytes \<Rightarrow> bytes \<Rightarrow> bool" where
  "state_at T key_pair w i kr kw d m \<longleftrightarrow>
     block_state T key_pair (pub (cred_state w)) (rt (key_state w)) (wt (key_state w)) (blk (data_state w) i) i kr kw d m"

definition stores :: "mid_hermes_ll_user \<Rightarrow> ('k, 'd, 'c) mid_hermes" where
  "stores u = \<lparr>mh_ks = Some ks, mh_cs = Some cs, mh_ds = Some ds, mh_user = Some u\<rparr>"

lemma stores_sel [simp]:
  "mh_ks (stores u) = Some ks" "mh_cs (stores u) = Some cs" "mh_ds (stores u) = Some ds"
  "mh_user (stores u) = Some u"
  by (simp_all add: stores_def)

lemma winvD: "winv w \<Longrightarrow> cinv (cred_state w)" "winv w \<Longrightarrow> kinv (key_state w)" "winv w \<Longrightarrow> dinv (data_state w)"
  by (simp_all add: winv_def)

definition loaded_token :: "('k \<Rightarrow> tokens) \<Rightarrow> ('r, 'k, 'd, 'c) world \<Rightarrow> mid_hermes_ll_user \<Rightarrow> bytes \<Rightarrow> bytes \<Rightarrow> token_ptr" where
  "loaded_token tm w u uid i =
     (case tm (key_state w) (i, uid) of
        None \<Rightarrow> None
      | Some (t, o') \<Rightarrow> map_option (\<lambda>pko. wrapped_for u (remote_user o' pko) t) (pub (cred_state w) o'))"

lemma token_load_run:
  assumes "winv w" "uid_ok uid" "bid_ok i" "user_id u = Some \<lparr>bdata = Some uid\<rparr>"
  shows "mid_hermes_ll_token_load (Some u) (Some \<lparr>bdata = Some i\<rparr>) (Some ks) (Some cs) False w =
      Some (loaded_token rt w u uid i, w)"
    and "mid_hermes_ll_token_load (Some u) (Some \<lparr>bdata = Some i\<rparr>) (Some ks) (Some cs) True w =
      Some (loaded_token wt w u uid i, w)"
proof -
  have owner: "act_ok (on_creds (cs_get_public_key cs (Some o'))) (\<lambda>owner_pub_key.
      case mid_hermes_ll_user_create (new_buffer o') (new_buffer owner_pub_key) of
        None \<Rightarrow> act_ret None
      | Some owner \<Rightarrow> act_ret (mid_hermes_ll_token_create (Some u) (Some owner) (new_buffer t))) w =
    Some (map_option (\<lambda>pko. wrapped_for u (remote_user o' pko) t) (pub (cred_state w) o'), w)"
    if "uid_ok o'" for o' t
    using get_pub [OF winvD(1) [OF assms(1)] that] pub_ok [OF winvD(1) [OF assms(1)], of o']
      uid_nonempty [OF that]
    by (auto simp: act_simps new_buffer_def user_create_eq wrapped_for_def mid_hermes_ll_token_create_def
        mid_hermes_ll_buffer_create_def split: option.splits)
  show "mid_hermes_ll_token_load (Some u) (Some \<lparr>bdata = Some i\<rparr>) (Some ks) (Some cs) False w =
      Some (loaded_token rt w u uid i, w)"
    using get_r [OF winvD(2) [OF assms(1)] assms(2,3)] owner assms(4)
      stored_r [OF winvD(2) [OF assms(1)], of i uid]
    by (auto simp: mid_hermes_ll_token_load_def get_token_fn_def act_ok_run [of "on_keys _"] on_run(2) loaded_token_def
        split: option.splits prod.splits)
  show "mid_hermes_ll_token_load (Some u) (Some \<lparr>bdata = Some i\<rparr>) (Some ks) (Some cs) True w =
      Some (loaded_token wt w u uid i, w)"
    using get_w [OF winvD(2) [OF assms(1)] assms(2,3)] owner assms(4)
      stored_w [OF winvD(2) [OF assms(1)], of i uid]
    by (auto simp: mid_hermes_ll_token_load_def get_token_fn_def act_ok_run [of "on_keys _"] on_run(2) loaded_token_def
        split: option.splits prod.splits)
qed

lemma loaded_rtoken:
  assumes "state_at T key_pair w i kr kw d m" "known key_pair (pub (cred_state w)) u sk pk"
    and "rt (key_state w) (i, u) = Some (t, o')"
  obtains pko where "pub (cred_state w) o' = Some pko" "opens_for T key_pair pko t pk kr"
    "loaded_token rt w (local_user u sk pk) u i = Some (wrapped_for (local_user u sk pk) (remote_user o' pko) t)"
    "token_opens T (loaded_token rt w (local_user u sk pk) u i) kr"
proof -
  have "opens_all T key_pair (pub (cred_state w)) (rt (key_state w)) i kr"
    using assms(1) unfolding state_at_def by (rule block_stateD)
  then obtain pko where "pub (cred_state w) o' = Some pko" "opens_for T key_pair pko t pk kr"
    "token_opens T (Some (wrapped_for (local_user u sk pk) (remote_user o' pko) t)) kr"
    using assms(3,2) by (rule opens_all_token)
  then show ?thesis using that [of pko] assms(3) by (simp add: loaded_token_def)
qed

lemma loaded_wtoken:
  assumes "state_at T key_pair w i kr kw d m" "known key_pair (pub (cred_state w)) u sk pk"
    and "wt (key_state w) (i, u) = Some (t, o')"
  obtains pko where "pub (cred_state w) o' = Some pko" "opens_for T key_pair pko t pk kw"
    "loaded_token wt w (local_user u sk pk) u i = Some (wrapped_for (local_user u sk pk) (remote_user o' pko) t)"
    "token_opens T (loaded_token wt w (local_user u sk pk) u i) kw"
proof -
  have "opens_all T key_pair (pub (cred_state w)) (wt (key_state w)) i kw"
    using assms(1) unfolding state_at_def by (rule block_stateD)
  then obtain pko where "pub (cred_state w) o' = Some pko" "opens_for T key_pair pko t pk kw"
    "token_opens T (Some (wrapped_for (local_user u sk pk) (remote_user o' pko) t)) kw"
    using assms(3,2) by (rule opens_all_token)
  then show ?thesis using that [of pko] assms(3) by (simp add: loaded_token_def)
qed

lemma load_none:
  assumes "winv w" "uid_ok u" "bid_ok i" "pk \<noteq> []" "rt (key_state w) (i, u) = None"
  shows "mid_hermes_ll_block_load T (Some (mid_hermes_ll_block_create_empty (Some (local_user u sk pk))))
      (Some \<lparr>bdata = Some i\<rparr>) (Some ds) (Some ks) (Some cs) w =
    Some ((False, Some (mid_hermes_ll_block_create_empty (Some (local_user u sk pk)))), w)"
  using assms uid_nonempty [OF assms(2)]
  by (simp add: mid_hermes_ll_block_load_def Let_def mid_hermes_ll_block_create_empty_def
      mid_hermes_ll_block_init_empty_def act_bind_run token_load_run loaded_token_def)

text \<open>The block as it is loaded.\<close>

definition loaded ::
    "('r, 'k, 'd, 'c) world \<Rightarrow> bytes \<Rightarrow> mid_hermes_ll_user \<Rightarrow> bytes \<Rightarrow> bytes \<Rightarrow> bytes \<Rightarrow> bytes \<Rightarrow> bytes \<Rightarrow>
     mid_hermes_ll_block" where
  "loaded w u usr i e mac d m =
     \<lparr>bl_user = Some usr, bl_id = Some \<lparr>bdata = Some i\<rparr>, bl_block = new_buffer e, bl_data = new_buffer d,
      bl_meta = new_buffer m, bl_old_mac = None,
      bl_mac = (if wt (key_state w) (i, u) = None then None else new_buffer mac),
      bl_rtoken = loaded_token rt w usr u i, bl_wtoken = loaded_token wt w usr u i\<rparr>"

lemma load_some:
  assumes "winv w" "uid_ok u" "bid_ok i" "state_at T key_pair w i kr kw d m"
    and "known key_pair (pub (cred_state w)) u sk pk" "rt (key_state w) (i, u) \<noteq> None"
    and "blk (data_state w) i = Some (e, m', mac)"
  shows "m' = m"
    and "mid_hermes_ll_block_load T (Some (mid_hermes_ll_block_create_empty (Some (local_user u sk pk))))
      (Some \<lparr>bdata = Some i\<rparr>) (Some ds) (Some ks) (Some cs) w =
    Some ((True, Some (loaded w u (local_user u sk pk) i e mac d m)), w)"
    and "wt (key_state w) (i, u) \<noteq> None \<Longrightarrow> sealed T (loaded w u (local_user u sk pk) i e mac d m) kr kw d m"
proof -
  let ?u = "local_user u sk pk" and ?bl = "mid_hermes_ll_block_create_empty (Some (local_user u sk pk))"
  have st: "m' = m" "hm_decrypt T (Some kr) (Some e) (Some m) True = Inr d"
    "hm_mac_create T (Some kw) (Some d) (Some m) True = Inr mac"
    using assms(4,7) unfolding state_at_def block_state_def by auto
  then show "m' = m" by simp
  have pk: "pk \<noteq> []" "sk \<noteq> []" "u \<noteq> []" using assms(5) by (simp_all add: known_def)
  obtain rtk where r: "loaded_token rt w ?u u i = Some rtk" "token_opens T (Some rtk) kr"
    using assms(6) loaded_rtoken [OF assms(4,5)] by (metis not_None_eq old.prod.exhaust)
  have wopen: "case loaded_token wt w ?u u i of None \<Rightarrow> bl_wtoken ?bl = None
    | Some t \<Rightarrow> token_opens T (Some t) kw \<and> hm_mac_create T (Some kw) (Some d) (Some m) True = Inr mac"
    and wnone: "wt (key_state w) (i, u) = None \<longleftrightarrow> loaded_token wt w ?u u i = None"
  proof -
    show "wt (key_state w) (i, u) = None \<longleftrightarrow> loaded_token wt w ?u u i = None"
    proof (cases "wt (key_state w) (i, u)")
      case (Some to')
      then show ?thesis using loaded_wtoken [OF assms(4,5)] by (cases to') fastforce
    qed (simp add: loaded_token_def)
    show "case loaded_token wt w ?u u i of None \<Rightarrow> bl_wtoken ?bl = None
      | Some t \<Rightarrow> token_opens T (Some t) kw \<and> hm_mac_create T (Some kw) (Some d) (Some m) True = Inr mac"
    proof (cases "wt (key_state w) (i, u)")
      case None
      then show ?thesis
        by (simp add: loaded_token_def mid_hermes_ll_block_create_empty_def mid_hermes_ll_block_init_empty_def
            calloc_block_def)
    next
      case (Some to')
      then show ?thesis using loaded_wtoken [OF assms(4,5)] st(3)
        by (cases to') (fastforce split: option.splits)
    qed
  qed
  have init: "mid_hermes_ll_block_init T ?bl (Some ?u) (Some \<lparr>bdata = Some i\<rparr>) (new_buffer e) (new_buffer m)
      (Some rtk) (loaded_token wt w ?u u i) s =
    Some ((True, loaded w u ?u i e mac d m), s)" for s
    using block_init_opens [OF r(2) st(2) wopen] r(1) wnone
    by (auto simp: loaded_def mid_hermes_ll_block_create_empty_def mid_hermes_ll_block_init_empty_def
        calloc_block_def split: option.splits)
  have get: "ds_get_block ds (Some i) (data_state w) = Some (Inr (e, m), data_state w)"
    using get_b [OF winvD(3) [OF assms(1)] assms(3)] assms(7) st(1) by auto
  have same: "w\<lparr>data_state := data_state w\<rparr> = w" "w\<lparr>rand_state := rand_state w\<rparr> = w" by simp_all
  have usr: "bl_user ?bl = Some ?u"
    by (simp add: mid_hermes_ll_block_create_empty_def mid_hermes_ll_block_init_empty_def)
  show "mid_hermes_ll_block_load T (Some ?bl) (Some \<lparr>bdata = Some i\<rparr>) (Some ds) (Some ks) (Some cs) w =
    Some ((True, Some (loaded w u ?u i e mac d m)), w)"
    using pk assms(1,2,3) r(1)
    by (simp add: mid_hermes_ll_block_load_def Let_def usr act_bind_run token_load_run on_run get init same)
  show "wt (key_state w) (i, u) \<noteq> None \<Longrightarrow> sealed T (loaded w u ?u i e mac d m) kr kw d m"
    using st(2,3) r wopen wnone by (auto simp: sealed_def loaded_def split: option.splits)
qed

end

end
