(* ===== verification/Mid_Ops.thy ===== *)
theory Mid_Ops
  imports Mid_Contract
begin

section \<open>What the operations do to the stores\<close>

text \<open>
  Each operation of \<open>Mid_Hermes\<close> run by a user whose keys match what the credential store holds, over
  any three stores that keep their contracts: its result, and what it leaves in the stores, on every
  branch.  \<open>acting\<close> is the situation they all start from.  The lemmas serve the refinement of
  \<open>Mid_Spec\<close>.
\<close>

context mid_stores
begin

definition acting ::
    "(bytes \<Rightarrow> bytes \<Rightarrow> bool) \<Rightarrow> ('r, 'k, 'd, 'c) world \<Rightarrow> bytes \<Rightarrow> bytes \<Rightarrow> bytes \<Rightarrow> bool" where
  "acting key_pair w u sk pk \<longleftrightarrow> winv w \<and> uid_ok u \<and> known key_pair (pub (cred_state w)) u sk pk"

lemma actingD:
  assumes "acting key_pair w u sk pk"
  shows "winv w" "uid_ok u" "known key_pair (pub (cred_state w)) u sk pk" "u \<noteq> []" "sk \<noteq> []" "pk \<noteq> []"
    "key_pair sk pk" "pub (cred_state w) u = Some pk"
  using assms by (auto simp: acting_def known_def)

lemma world_same [simp]:
  "w\<lparr>key_state := key_state w\<rparr> = w" "w\<lparr>data_state := data_state w\<rparr> = w" "w\<lparr>cred_state := cred_state w\<rparr> = w"
  "w\<lparr>rand_state := rand_state w\<rparr> = w" for w :: "('r, 'k, 'd, 'c) world"
  by simp_all

lemma state_at_stored:
  assumes "state_at T key_pair w i kr kw d m"
  obtains e mac where "blk (data_state w) i = Some (e, m, mac)"
    "hm_mac_create T (Some kw) (Some d) (Some m) True = Inr mac"
  using assms unfolding state_at_def by (blast elim: block_stateD)

subsection \<open>The common beginning\<close>

lemma with_loaded_denied:
  assumes "acting key_pair w u sk pk" "bid_ok i" "rt (key_state w) (i, u) = None"
  shows "with_loaded T (stores (local_user u sk pk)) (Some i) a b k w = Some (b, w)"
  using load_none [of w u i pk, OF _ _ _ _ assms(3), of T sk] actingD [OF assms(1)] assms(2)
  by (simp add: with_loaded_def act_bind_run mid_hermes_ll_buffer_create_def)

lemma with_loaded_run:
  assumes "acting key_pair w u sk pk" "bid_ok i" "state_at T key_pair w i kr kw d m"
    and "rt (key_state w) (i, u) \<noteq> None" "blk (data_state w) i = Some (e, m', mac)"
  shows "with_loaded T (stores (local_user u sk pk)) (Some i) a b k w =
    k (loaded w u (local_user u sk pk) i e mac d m) w"
  using load_some(2) [OF _ _ assms(2,3) _ assms(4,5)] actingD [OF assms(1)]
  by (simp add: with_loaded_def act_bind_run mid_hermes_ll_buffer_create_def)

lemma bid_present: "bid_ok i \<Longrightarrow> \<not> absent (Some i)"
  using bid_nonempty [of i] by simp

lemma uid_present: "uid_ok u \<Longrightarrow> \<not> absent (Some u)"
  using uid_nonempty [of u] by simp

lemma loaded_sel [simp]:
  "bl_user (loaded w u usr i e mac d m) = Some usr" "bl_id (loaded w u usr i e mac d m) = Some \<lparr>bdata = Some i\<rparr>"
  "bl_data (loaded w u usr i e mac d m) = new_buffer d" "bl_meta (loaded w u usr i e mac d m) = new_buffer m"
  "bl_rtoken (loaded w u usr i e mac d m) = loaded_token rt w usr u i"
  "bl_wtoken (loaded w u usr i e mac d m) = loaded_token wt w usr u i"
  "bl_old_mac (loaded w u usr i e mac d m) = None"
  by (simp_all add: loaded_def)

subsection \<open>Reading\<close>

lemma read_run:
  assumes "acting key_pair w u sk pk" "bid_ok i" "state_at T key_pair w i kr kw d m"
    and "rt (key_state w) (i, u) \<noteq> None"
  shows "mid_hermes_read_block T (Some (stores (local_user u sk pk))) (Some i) w = Some (Inr (Some d, Some m), w)"
proof -
  obtain e mac where "blk (data_state w) i = Some (e, m, mac)"
    using assms(3) by (rule state_at_stored)
  then show ?thesis
    using bid_present [OF assms(2)]
    by (simp add: mid_hermes_read_block_def with_loaded_run [OF assms] new_buffer_def
        mid_hermes_ll_buffer_create_def)
qed

lemma read_denied:
  assumes "acting key_pair w u sk pk" "bid_ok i" "rt (key_state w) (i, u) = None"
  shows "mid_hermes_read_block T (Some (stores (local_user u sk pk))) (Some i) w = Some (Inl HM_FAIL, w)"
  using with_loaded_denied [OF assms] bid_present [OF assms(2)] by (simp add: mid_hermes_read_block_def)

subsection \<open>Saving tokens\<close>

lemma save_keys_run:
  assumes "kinv s" "uid_ok u" "bid_ok i" "tok_ok tr" "uid_ok o1" "tok_ok tw" "uid_ok o2"
    and "bl_id bl = Some \<lparr>bdata = Some i\<rparr>"
    and "bl_rtoken bl = Some (wrapped_for usr w1 tr)" "user_id usr = Some \<lparr>bdata = Some u\<rparr>"
      "user_id w1 = Some \<lparr>bdata = Some o1\<rparr>"
    and "bl_wtoken bl = Some (wrapped_for usr w2 tw)" "user_id w2 = Some \<lparr>bdata = Some o2\<rparr>"
  obtains ok s' where "save_keys bl None (Some ks) s = Some ((ok, bl), s')" "kinv s'"
    "rt s' = rt s \<and> wt s' = wt s \<and> \<not> ok \<or> rt s' = (rt s)((i, u) \<mapsto> (tr, o1)) \<and> wt s' = wt s \<and> \<not> ok \<or>
     rt s' = (rt s)((i, u) \<mapsto> (tr, o1)) \<and> wt s' = (wt s)((i, u) \<mapsto> (tw, o2)) \<and> ok"
    "ufull u \<and> full i \<and> ufull o1 \<and> ufull o2 \<longrightarrow>
       (ok \<longleftrightarrow> (u = o1 \<or> rt s (i, o1) \<noteq> None) \<and> (u = o2 \<or> wt s (i, o2) \<noteq> None))"
proof -
  obtain st s1 where r: "ks_set_rtoken ks (Some u) (Some i) (Some tr) (Some o1) s = Some (st, s1)" "kinv s1"
      "wt s1 = wt s" "rt s1 = (if st = HM_SUCCESS then (rt s)((i, u) \<mapsto> (tr, o1)) else rt s)"
      "ufull u \<and> full i \<and> ufull o1 \<longrightarrow> (st = HM_SUCCESS \<longleftrightarrow> u = o1 \<or> rt s (i, o1) \<noteq> None)"
    using set_r [OF assms(1-5)] by blast
  obtain st2 s2 where w: "ks_set_wtoken ks (Some u) (Some i) (Some tw) (Some o2) s1 = Some (st2, s2)" "kinv s2"
      "rt s2 = rt s1" "wt s2 = (if st2 = HM_SUCCESS then (wt s1)((i, u) \<mapsto> (tw, o2)) else wt s1)"
      "ufull u \<and> full i \<and> ufull o2 \<longrightarrow>
         (st2 = HM_SUCCESS \<longleftrightarrow> (u = o2 \<or> wt s1 (i, o2) \<noteq> None) \<and> rt s1 (i, u) \<noteq> None)"
    using set_w [OF r(2) assms(2,3,6,7)] by blast
  have run: "save_keys bl None (Some ks) s =
      (if st \<noteq> HM_SUCCESS then Some ((False, bl), s1) else Some ((st2 = HM_SUCCESS, bl), s2))"
    using assms(8-13) r(1) w(1)
    by (simp add: save_keys_def act_check_def act_bind_run mid_hermes_ll_rtoken_save_def
        mid_hermes_ll_wtoken_save_def save_token_def)
  show ?thesis
  proof (cases "st = HM_SUCCESS")
    case True
    then have r1: "rt s1 (i, u) \<noteq> None" using r(4) by simp
    show ?thesis
    proof (rule that [of "st2 = HM_SUCCESS" s2])
      show "ufull u \<and> full i \<and> ufull o1 \<and> ufull o2 \<longrightarrow> ((st2 = HM_SUCCESS) \<longleftrightarrow>
          (u = o1 \<or> rt s (i, o1) \<noteq> None) \<and> (u = o2 \<or> wt s (i, o2) \<noteq> None))"
        using True r(3,5) w(5) r1 by simp
    qed (use True run r(3,4) w(2-4) in \<open>auto split: if_splits\<close>)
  next
    case False
    then show ?thesis using run r by (intro that [of False s1]) simp_all
  qed
qed

subsection \<open>Updating\<close>

lemma save_data_old:
  assumes "dinv s" "blk s i \<noteq> None" "bid_ok i" "dat_ok e" "dat_ok m" "dat_ok mac" "dat_ok old"
    and "bl_id bl = Some \<lparr>bdata = Some i\<rparr>" "bl_block bl = new_buffer e" "bl_meta bl = new_buffer m"
    "bl_mac bl = new_buffer mac" "bl_old_mac bl = Some \<lparr>bdata = Some old\<rparr>"
  obtains ok s' where
    "save_data bl ds s = Some ((ok, if ok then bl\<lparr>bl_old_mac := None\<rparr> else bl), s')" "dinv s'"
    "if ok then (\<exists>e0 m0. blk s i = Some (e0, m0, old)) \<and> blk s' = (blk s)(i \<mapsto> (e, m, mac)) else blk s' = blk s"
    "fits e m mac \<and> (\<exists>e0 m0. blk s i = Some (e0, m0, old)) \<longrightarrow> ok"
proof -
  obtain st s' where r: "ds_set_block ds (Some i) (Some e) (Some m) (Some mac) (Some old) s = Some ((st, Some i), s')"
      "dinv s'" "if st = HM_SUCCESS then (\<exists>e0 m0. blk s i = Some (e0, m0, old)) \<and> blk s' = (blk s)(i \<mapsto> (e, m, mac))
        else blk s' = blk s" "fits e m mac \<and> (\<exists>e0 m0. blk s i = Some (e0, m0, old)) \<longrightarrow> st = HM_SUCCESS"
    using set_old [OF assms(1-7)] by blast
  have bl: "bl\<lparr>bl_id := Some \<lparr>bdata = Some i\<rparr>\<rparr> = bl" using assms(8) by (cases bl) simp
  have "save_data bl ds s = Some ((st = HM_SUCCESS, if st = HM_SUCCESS then bl\<lparr>bl_old_mac := None\<rparr> else bl), s')"
    using assms(8-12) r(1) bl
    by (simp add: save_data_def Let_def act_bind_run new_buffer_def mid_hermes_ll_buffer_create_def)
  then show ?thesis using that [of "st = HM_SUCCESS" s'] r(2-4) by simp
qed

lemma token_at:
  assumes "acting key_pair w u sk pk" "state_at T key_pair w i kr kw d m"
  shows "rt (key_state w) (i, u) = Some (t, o') \<Longrightarrow>
      \<exists>pko. pub (cred_state w) o' = Some pko \<and> opens_for T key_pair pko t pk kr \<and> tok_ok t \<and> uid_ok o' \<and>
        loaded_token rt w (local_user u sk pk) u i = Some (wrapped_for (local_user u sk pk) (remote_user o' pko) t)"
    and "wt (key_state w) (i, u) = Some (t, o') \<Longrightarrow>
      \<exists>pko. pub (cred_state w) o' = Some pko \<and> opens_for T key_pair pko t pk kw \<and> tok_ok t \<and> uid_ok o' \<and>
        loaded_token wt w (local_user u sk pk) u i = Some (wrapped_for (local_user u sk pk) (remote_user o' pko) t)"
proof -
  note k = actingD(3) [OF assms(1)] and inv = winvD(2) [OF actingD(1) [OF assms(1)]]
  show "\<exists>pko. pub (cred_state w) o' = Some pko \<and> opens_for T key_pair pko t pk kr \<and> tok_ok t \<and> uid_ok o' \<and>
        loaded_token rt w (local_user u sk pk) u i = Some (wrapped_for (local_user u sk pk) (remote_user o' pko) t)"
    if "rt (key_state w) (i, u) = Some (t, o')"
    using loaded_rtoken [OF assms(2) k that] stored_r [OF inv that] by metis
  show "\<exists>pko. pub (cred_state w) o' = Some pko \<and> opens_for T key_pair pko t pk kw \<and> tok_ok t \<and> uid_ok o' \<and>
        loaded_token wt w (local_user u sk pk) u i = Some (wrapped_for (local_user u sk pk) (remote_user o' pko) t)"
    if "wt (key_state w) (i, u) = Some (t, o')"
    using loaded_wtoken [OF assms(2) k that] stored_w [OF inv that] by metis
qed

lemma state_at_keys:
  assumes "state_at T key_pair w i kr kw d m"
  shows "kr \<noteq> []" "kw \<noteq> []" "length kr = HM_TOKEN_LEN" "length kw = HM_TOKEN_LEN"
  using assms by (auto simp: state_at_def block_state_def HM_TOKEN_LEN_def)

lemma save_run:
  assumes "bl_id bl = Some \<lparr>bdata = Some i\<rparr>" "save_data bl ds (data_state w) = Some ((ok, bl'), sd)"
    and "ok \<Longrightarrow> save_keys bl' None (Some ks) (key_state w) = Some ((ok', bl'), sk')"
  shows "mid_hermes_ll_block_save (Some bl) None (Some ds) (Some ks) w =
    Some ((ok \<and> ok', Some bl'), if ok then w\<lparr>data_state := sd, key_state := sk'\<rparr> else w\<lparr>data_state := sd\<rparr>)"
  using assms by (auto simp: mid_hermes_ll_block_save_def act_bind_run on_run)

lemma update_denied:
  assumes "acting key_pair w u sk pk" "bid_ok i" "state_at T key_pair w i kr kw d m"
    and "wt (key_state w) (i, u) = None" "d' \<noteq> []" "m' \<noteq> []"
  shows "mid_hermes_update_block T (Some (stores (local_user u sk pk))) (Some i) (Some d') (Some m') w = Some (1, w)"
proof (cases "rt (key_state w) (i, u) = None")
  case True
  then show ?thesis
    using with_loaded_denied [OF assms(1,2) True] bid_present [OF assms(2)] assms(5,6)
    by (simp add: mid_hermes_update_block_def Let_def)
next
  case False
  obtain e mac where "blk (data_state w) i = Some (e, m, mac)"
    using assms(3) by (rule state_at_stored)
  then show ?thesis
    using bid_present [OF assms(2)] assms(4,5,6)
    by (simp add: mid_hermes_update_block_def Let_def with_loaded_run [OF assms(1-3) False] act_bind_run on_run
        mid_hermes_ll_block_update_def loaded_token_def)
qed

text \<open>Saving a block that exists, by a user who holds both of its tokens: the tokens are stored again
  as they are, which the key store refuses when their owner has no token any more.\<close>

lemma save_existing_run:
  assumes "winv w" "uid_ok u" "bid_ok i"
    and "rt (key_state w) (i, u) = Some (tr, o1)" "wt (key_state w) (i, u) = Some (tw, o2)"
    and "dat_ok e" "dat_ok m" "dat_ok mac" "blk (data_state w) i = Some (e0, m0, old)"
    and "bl_id bl = Some \<lparr>bdata = Some i\<rparr>" "bl_block bl = new_buffer e" "bl_meta bl = new_buffer m"
      "bl_mac bl = new_buffer mac" "bl_old_mac bl = Some \<lparr>bdata = Some old\<rparr>"
    and "bl_rtoken bl = Some (wrapped_for usr w1 tr)" "user_id usr = Some \<lparr>bdata = Some u\<rparr>"
      "user_id w1 = Some \<lparr>bdata = Some o1\<rparr>"
    and "bl_wtoken bl = Some (wrapped_for usr w2 tw)" "user_id w2 = Some \<lparr>bdata = Some o2\<rparr>"
  obtains ok bl' w' where "mid_hermes_ll_block_save (Some bl) None (Some ds) (Some ks) w = Some ((ok, Some bl'), w')"
    "winv w'" "cred_state w' = cred_state w" "rt (key_state w') = rt (key_state w)" "wt (key_state w') = wt (key_state w)"
    "blk (data_state w') = blk (data_state w) \<and> \<not> ok \<or> blk (data_state w') = (blk (data_state w))(i \<mapsto> (e, m, mac))"
    "fits e m mac \<longrightarrow> blk (data_state w') = (blk (data_state w))(i \<mapsto> (e, m, mac))"
    "fits e m mac \<and> ufull u \<and> ufull o1 \<and> ufull o2 \<longrightarrow> (ok \<longleftrightarrow>
       (u = o1 \<or> rt (key_state w) (i, o1) \<noteq> None) \<and> (u = o2 \<or> wt (key_state w) (i, o2) \<noteq> None))"
proof -
  note ws = winvD [OF assms(1)]
  have old: "dat_ok old" and full: "full i" using stored_b [OF ws(3) assms(9)] stored_full [OF ws(3)] assms(9) by simp_all
  obtain sok sd where sd: "save_data bl ds (data_state w) = Some ((sok, if sok then bl\<lparr>bl_old_mac := None\<rparr> else bl), sd)"
      "dinv sd" "if sok then (\<exists>e0 m0. blk (data_state w) i = Some (e0, m0, old)) \<and> blk sd = (blk (data_state w))(i \<mapsto> (e, m, mac))
        else blk sd = blk (data_state w)"
      "fits e m mac \<and> (\<exists>e0 m0. blk (data_state w) i = Some (e0, m0, old)) \<longrightarrow> sok"
    by (rule save_data_old [OF ws(3) _ assms(3,6-8) old assms(10-14)]) (simp add: assms(9))
  let ?bl = "bl\<lparr>bl_old_mac := None\<rparr>"
  have t: "bl_id ?bl = Some \<lparr>bdata = Some i\<rparr>" "bl_rtoken ?bl = Some (wrapped_for usr w1 tr)"
      "bl_wtoken ?bl = Some (wrapped_for usr w2 tw)" using assms by simp_all
  have tok: "tok_ok tr" "uid_ok o1" "tok_ok tw" "uid_ok o2"
    using stored_r [OF ws(2) assms(4)] stored_w [OF ws(2) assms(5)] by simp_all
  obtain kok sk' where sk': "save_keys ?bl None (Some ks) (key_state w) = Some ((kok, ?bl), sk')" "kinv sk'"
    and upd: "rt sk' = rt (key_state w) \<and> wt sk' = wt (key_state w) \<and> \<not> kok \<or>
      rt sk' = (rt (key_state w))((i, u) \<mapsto> (tr, o1)) \<and> wt sk' = wt (key_state w) \<and> \<not> kok \<or>
      rt sk' = (rt (key_state w))((i, u) \<mapsto> (tr, o1)) \<and> wt sk' = (wt (key_state w))((i, u) \<mapsto> (tw, o2)) \<and> kok"
    and exact: "ufull u \<and> full i \<and> ufull o1 \<and> ufull o2 \<longrightarrow>
      (kok \<longleftrightarrow> (u = o1 \<or> rt (key_state w) (i, o1) \<noteq> None) \<and> (u = o2 \<or> wt (key_state w) (i, o2) \<noteq> None))"
    by (rule save_keys_run [OF ws(2) assms(2,3) tok t(1,2) assms(16,17) t(3) assms(19)])
  have keys: "rt sk' = rt (key_state w)" "wt sk' = wt (key_state w)"
    using upd assms(4,5) by (auto simp: fun_upd_idem)
  let ?w' = "if sok then w\<lparr>data_state := sd, key_state := sk'\<rparr> else w\<lparr>data_state := sd\<rparr>"
  show ?thesis
  proof (rule that [of "sok \<and> kok" "if sok then ?bl else bl" ?w'])
    show "mid_hermes_ll_block_save (Some bl) None (Some ds) (Some ks) w =
        Some ((sok \<and> kok, Some (if sok then ?bl else bl)), ?w')"
      using save_run [OF assms(10), of w] sd(1) sk'(1) by simp
    show "fits e m mac \<and> ufull u \<and> ufull o1 \<and> ufull o2 \<longrightarrow> (sok \<and> kok \<longleftrightarrow>
       (u = o1 \<or> rt (key_state w) (i, o1) \<noteq> None) \<and> (u = o2 \<or> wt (key_state w) (i, o2) \<noteq> None))"
      using sd(4) exact full assms(9) by blast
  qed (use ws sd(2-4) sk'(2) keys assms(9) in \<open>auto simp: winv_def split: if_splits\<close>)
qed

text \<open>The stored block after an update: the new data under the keys it had.\<close>

definition sealed_as :: "('r, 'h) themis \<Rightarrow> bytes \<Rightarrow> bytes \<Rightarrow> bytes \<Rightarrow> bytes \<Rightarrow> bytes \<times> bytes \<times> bytes \<Rightarrow> bool" where
  "sealed_as T kr kw d m x \<longleftrightarrow> (\<exists>e mac. x = (e, m, mac) \<and>
     hm_decrypt T (Some kr) (Some e) (Some m) True = Inr d \<and>
     hm_mac_create T (Some kw) (Some d) (Some m) True = Inr mac)"

lemma update_run:
  assumes "acting key_pair w u sk pk" "bid_ok i" "state_at T key_pair w i kr kw d m"
    and rd: "rt (key_state w) (i, u) = Some (tr, o1)" and wr: "wt (key_state w) (i, u) = Some (tw, o2)"
    and "works T key_pair" "themis_laws T key_pair" "outputs_ok T tok_ok plain_ok dat_ok"
    and "plain_ok d'" "d' \<noteq> []" "dat_ok m'"
  obtains st w' where
    "mid_hermes_update_block T (Some (stores (local_user u sk pk))) (Some i) (Some d') (Some m') w = Some (st, w')"
    "winv w'" "cred_state w' = cred_state w" "rt (key_state w') = rt (key_state w)"
    "wt (key_state w') = wt (key_state w)"
    "blk (data_state w') = blk (data_state w) \<and> st \<noteq> HM_SUCCESS \<or>
     (\<exists>x. blk (data_state w') = (blk (data_state w))(i \<mapsto> x) \<and> sealed_as T kr kw d' m' x)"
    "seals_fit fits T d' m' \<longrightarrow> (\<exists>x. blk (data_state w') = (blk (data_state w))(i \<mapsto> x) \<and> sealed_as T kr kw d' m' x)"
    "seals_fit fits T d' m' \<and> ufull u \<and> ufull o1 \<and> ufull o2 \<longrightarrow> (st = HM_SUCCESS \<longleftrightarrow>
       (u = o1 \<or> rt (key_state w) (i, o1) \<noteq> None) \<and> (u = o2 \<or> wt (key_state w) (i, o2) \<noteq> None))"
proof -
  let ?u = "local_user u sk pk"
  note a = actingD [OF assms(1)]
  have ne: "rt (key_state w) (i, u) \<noteq> None" "wt (key_state w) (i, u) \<noteq> None" using rd wr by simp_all
  obtain e mac where st: "blk (data_state w) i = Some (e, m, mac)"
    using assms(3) by (rule state_at_stored)
  obtain pk1 where tr: "loaded_token rt w ?u u i = Some (wrapped_for ?u (remote_user o1 pk1) tr)"
    using token_at(1) [OF assms(1,3) rd] by blast
  obtain pk2 where tw: "loaded_token wt w ?u u i = Some (wrapped_for ?u (remote_user o2 pk2) tw)"
    using token_at(2) [OF assms(1,3) wr] by blast
  let ?l = "loaded w u ?u i e mac d m"
  have seal: "sealed T ?l kr kw d m"
    by (rule load_some(3) [OF a(1,2) assms(2,3) a(3) ne(1) st ne(2)])
  have "seals T" using assms(7) by (simp add: themis_laws_def)
  then obtain e' mac' r' where up: "mid_hermes_ll_block_update T (Some ?l) (new_buffer d') (new_buffer m') (rand_state w) =
      Some ((True, Some (replace_mac (?l\<lparr>bl_meta := new_buffer m', bl_data := new_buffer d',
        bl_block := new_buffer e'\<rparr>) mac')), r')"
    and dec: "hm_decrypt T (Some kr) (Some e') (Some m') True = Inr d'"
    and mac: "hm_mac_create T (Some kw) (Some d') (Some m') True = Inr mac'" and ok: "dat_ok e'" "dat_ok mac'"
    and enc: "\<exists>r0 r1. hm_encrypt T (Some kr) (Some d') (Some m') True r0 = (Inr e', r1)"
    using block_update_form [OF assms(6) _ seal assms(8,9,10) state_at_keys(1,2) [OF assms(3)]] by metis
  have fit: "seals_fit fits T d' m' \<longrightarrow> fits e' m' mac'" using seals_fitD [OF _ _ mac] enc by blast
  let ?b = "replace_mac (?l\<lparr>bl_meta := new_buffer m', bl_data := new_buffer d', bl_block := new_buffer e'\<rparr>) mac'"
  have b: "bl_id ?b = Some \<lparr>bdata = Some i\<rparr>" "bl_block ?b = new_buffer e'" "bl_meta ?b = new_buffer m'"
      "bl_mac ?b = new_buffer mac'" "bl_rtoken ?b = Some (wrapped_for ?u (remote_user o1 pk1) tr)"
      "bl_wtoken ?b = Some (wrapped_for ?u (remote_user o2 pk2) tw)" using tr tw by simp_all
  have old: "bl_old_mac ?b = Some \<lparr>bdata = Some mac\<rparr>"
    using ne(2) by (simp add: replace_mac_def loaded_def new_buffer_def mid_hermes_ll_buffer_create_def)
  have w: "winv (w\<lparr>rand_state := r'\<rparr>)" using a(1) by (simp add: winv_def)
  obtain sok bl' w' where run: "mid_hermes_ll_block_save (Some ?b) None (Some ds) (Some ks) (w\<lparr>rand_state := r'\<rparr>) =
      Some ((sok, Some bl'), w')" and w': "winv w'" "cred_state w' = cred_state w" "rt (key_state w') = rt (key_state w)"
      "wt (key_state w') = wt (key_state w)"
    and d: "blk (data_state w') = blk (data_state w) \<and> \<not> sok \<or> blk (data_state w') = (blk (data_state w))(i \<mapsto> (e', m', mac'))"
      "fits e' m' mac' \<longrightarrow> blk (data_state w') = (blk (data_state w))(i \<mapsto> (e', m', mac'))"
      "fits e' m' mac' \<and> ufull u \<and> ufull o1 \<and> ufull o2 \<longrightarrow> (sok \<longleftrightarrow>
         (u = o1 \<or> rt (key_state w) (i, o1) \<noteq> None) \<and> (u = o2 \<or> wt (key_state w) (i, o2) \<noteq> None))"
    by (rule save_existing_run [OF w a(2) assms(2) _ _ ok(1) assms(11) ok(2) _ b(1-4) old b(5) _ _ b(6),
          of o1 o2 e m]) (use rd wr st in simp_all)
  have res: "mid_hermes_update_block T (Some (stores ?u)) (Some i) (Some d') (Some m') w =
      Some (if sok then HM_SUCCESS else 1, w')"
    using bid_present [OF assms(2)] assms(10) dat_nonempty [OF assms(11)] up run
    by (simp add: mid_hermes_update_block_def Let_def with_loaded_run [OF assms(1-3) ne(1) st] act_bind_run on_run
        HM_SUCCESS_def new_buffer_def)
  have sealed: "sealed_as T kr kw d' m' (e', m', mac')" using dec mac by (simp add: sealed_as_def)
  show ?thesis
    by (rule that [OF res w']) (use d sealed fit in \<open>auto simp: HM_SUCCESS_def\<close>)
qed

subsection \<open>Creating\<close>

lemma save_data_new:
  assumes "dinv s" "dat_ok e" "dat_ok m" "dat_ok mac"
    and "bl_id bl = None" "bl_block bl = new_buffer e" "bl_meta bl = new_buffer m"
    "bl_mac bl = new_buffer mac" "bl_old_mac bl = None"
  obtains ok j s' where
    "save_data bl ds s = Some ((ok, bl\<lparr>bl_id := Some \<lparr>bdata = j\<rparr>\<rparr>), s')" "dinv s'"
    "if ok then (\<exists>i. j = Some i \<and> bid_ok i \<and> blk s i = None \<and> blk s' = (blk s)(i \<mapsto> (e, m, mac))) else blk s' = blk s"
    "fits e m mac \<and> fresh s \<noteq> None \<longrightarrow> ok \<and> j = fresh s"
proof -
  obtain st j s' where r: "ds_set_block ds None (Some e) (Some m) (Some mac) None s = Some ((st, j), s')"
      "dinv s'" "if st = HM_SUCCESS
        then \<exists>i. j = Some i \<and> bid_ok i \<and> blk s i = None \<and> blk s' = (blk s)(i \<mapsto> (e, m, mac)) else blk s' = blk s"
      "fits e m mac \<and> fresh s \<noteq> None \<longrightarrow> st = HM_SUCCESS \<and> j = fresh s"
    using set_new [OF assms(1-4)] by blast
  have bl: "bl\<lparr>bl_id := Some \<lparr>bdata = j\<rparr>, bl_old_mac := None\<rparr> = bl\<lparr>bl_id := Some \<lparr>bdata = j\<rparr>\<rparr>"
    using assms(9) by (cases bl) simp
  have "save_data bl ds s = Some ((st = HM_SUCCESS, bl\<lparr>bl_id := Some \<lparr>bdata = j\<rparr>\<rparr>), s')"
    using assms(5-9) r(1) bl
    by (simp add: save_data_def Let_def act_bind_run new_buffer_def mid_hermes_ll_buffer_create_def)
  then show ?thesis using that [of "st = HM_SUCCESS" j s'] r(2-4) by simp
qed

text \<open>The block \<open>i\<close> appears with the data, and with it its tokens or, on failure, fewer of them.\<close>

definition created ::
    "('r, 'h) themis \<Rightarrow> (bytes \<Rightarrow> bytes \<Rightarrow> bool) \<Rightarrow> bytes \<Rightarrow> bytes \<Rightarrow> bytes \<Rightarrow> bytes \<Rightarrow>
     ('r, 'k, 'd, 'c) world \<Rightarrow> ('r, 'k, 'd, 'c) world \<Rightarrow> bytes \<Rightarrow> bool \<Rightarrow> bool" where
  "created T key_pair u pk d m w w' i ok \<longleftrightarrow>
     bid_ok i \<and> blk (data_state w) i = None \<and>
     (\<exists>kr kw tr tw x. blk (data_state w') = (blk (data_state w))(i \<mapsto> x) \<and> sealed_as T kr kw d m x \<and>
        length kr = HM_TOKEN_LEN \<and> length kw = HM_TOKEN_LEN \<and>
        opens_for T key_pair pk tr pk kr \<and> opens_for T key_pair pk tw pk kw \<and>
        (rt (key_state w') = rt (key_state w) \<and> wt (key_state w') = wt (key_state w) \<and> \<not> ok \<or>
         rt (key_state w') = (rt (key_state w))((i, u) \<mapsto> (tr, u)) \<and> wt (key_state w') = wt (key_state w) \<and> \<not> ok \<or>
         rt (key_state w') = (rt (key_state w))((i, u) \<mapsto> (tr, u)) \<and>
           wt (key_state w') = (wt (key_state w))((i, u) \<mapsto> (tw, u)) \<and> ok))"

lemma save_created_run:
  assumes "acting key_pair w u sk pk"
    and form: "bl = \<lparr>bl_user = Some (local_user u sk pk), bl_id = j, bl_block = new_buffer e, bl_data = new_buffer d,
      bl_meta = new_buffer m, bl_old_mac = None, bl_mac = new_buffer mac,
      bl_rtoken = Some (wrapped_for (local_user u sk pk) (local_user u sk pk) er),
      bl_wtoken = Some (wrapped_for (local_user u sk pk) (local_user u sk pk) ew)\<rparr>"
    and sealed: "hm_decrypt T (Some kr) (Some e) (Some m) True = Inr d"
      "hm_mac_create T (Some kw) (Some d) (Some m) True = Inr mac"
      "length kr = HM_TOKEN_LEN" "length kw = HM_TOKEN_LEN"
    and ok: "tok_ok er" "tok_ok ew"
    and opens: "opens_for T key_pair pk er pk kr" "opens_for T key_pair pk ew pk kw"
    and sd: "save_data bl ds (data_state w) = Some ((True, bl\<lparr>bl_id := Some \<lparr>bdata = Some i\<rparr>\<rparr>), sd)" "dinv sd"
    and i: "bid_ok i" "blk (data_state w) i = None" "blk sd = (blk (data_state w))(i \<mapsto> (e, m, mac))"
  obtains ok w' where "mid_hermes_ll_block_save (Some bl) None (Some ds) (Some ks) (w\<lparr>rand_state := r'\<rparr>) =
      Some ((ok, Some (bl\<lparr>bl_id := Some \<lparr>bdata = Some i\<rparr>\<rparr>)), w')"
    "winv w'" "cred_state w' = cred_state w" "created T key_pair u pk d m w w' i ok" "ufull u \<longrightarrow> ok"
proof -
  let ?u = "local_user u sk pk" and ?bl = "bl\<lparr>bl_id := Some \<lparr>bdata = Some i\<rparr>\<rparr>"
  note ws = winvD [OF actingD(1) [OF assms(1)]] and a = actingD [OF assms(1)]
  obtain kok sk' where sk': "save_keys ?bl None (Some ks) (key_state w) = Some ((kok, ?bl), sk')" "kinv sk'"
    and upd: "rt sk' = rt (key_state w) \<and> wt sk' = wt (key_state w) \<and> \<not> kok \<or>
      rt sk' = (rt (key_state w))((i, u) \<mapsto> (er, u)) \<and> wt sk' = wt (key_state w) \<and> \<not> kok \<or>
      rt sk' = (rt (key_state w))((i, u) \<mapsto> (er, u)) \<and> wt sk' = (wt (key_state w))((i, u) \<mapsto> (ew, u)) \<and> kok"
    and exact: "ufull u \<and> full i \<and> ufull u \<and> ufull u \<longrightarrow>
      (kok \<longleftrightarrow> (u = u \<or> rt (key_state w) (i, u) \<noteq> None) \<and> (u = u \<or> wt (key_state w) (i, u) \<noteq> None))"
    by (rule save_keys_run [OF ws(2) a(2) i(1) ok(1) a(2) ok(2) a(2), of ?bl ?u ?u ?u]) (simp_all add: form)
  let ?w' = "w\<lparr>rand_state := r', data_state := sd, key_state := sk'\<rparr>"
  have "created T key_pair u pk d m w ?w' i kok"
    unfolding created_def using i upd sealed opens
    by (intro conjI exI [of _ kr] exI [of _ kw] exI [of _ er] exI [of _ ew] exI [of _ "(e, m, mac)"])
      (simp_all add: sealed_as_def)
  moreover have "ufull u \<longrightarrow> kok" using exact stored_full [OF sd(2), of i] i(3) by simp
  ultimately show ?thesis
    using that [of kok ?w'] sd sk'(1,2) ws by (simp add: mid_hermes_ll_block_save_def act_bind_run on_run winv_def)
qed

lemma create_run:
  assumes "acting key_pair w u sk pk"
    and "works T key_pair" "themis_laws T key_pair" "outputs_ok T tok_ok plain_ok dat_ok"
    and "plain_ok d" "d \<noteq> []" "dat_ok m"
  obtains
    (failed) st w' where
      "mid_hermes_create_block T (Some (stores (local_user u sk pk))) None (Some d) (Some m) w = Some ((st, None), w')"
      "winv w'" "cred_state w' = cred_state w" "st \<noteq> HM_SUCCESS" "key_state w' = key_state w"
      "blk (data_state w') = blk (data_state w)" "\<not> (seals_fit fits T d m \<and> fresh (data_state w) \<noteq> None)"
  | (stored) i ok w' where
      "mid_hermes_create_block T (Some (stores (local_user u sk pk))) None (Some d) (Some m) w =
        Some (if ok then (HM_SUCCESS, Some i) else (HM_FAIL, None), w')"
      "winv w'" "cred_state w' = cred_state w" "created T key_pair u pk d m w w' i ok" "ufull u \<longrightarrow> ok"
      "seals_fit fits T d m \<and> fresh (data_state w) \<noteq> None \<longrightarrow> fresh (data_state w) = Some i"
proof -
  let ?u = "local_user u sk pk"
  note ws = winvD [OF actingD(1) [OF assms(1)]] and a = actingD [OF assms(1)]
  obtain bl r' where bl: "mid_hermes_ll_block_create T (Some ?u) None (new_buffer d) (new_buffer m) None None (rand_state w) =
      Some (Some bl, r')"
    by (rule block_create_works [OF assms(2,4,3) a(7,4,5,6) assms(6)])
  obtain kr kw er ew e mac where form:
    "bl = \<lparr>bl_user = Some ?u, bl_id = None, bl_block = new_buffer e, bl_data = new_buffer d,
      bl_meta = new_buffer m, bl_old_mac = None, bl_mac = new_buffer mac,
      bl_rtoken = Some (wrapped_for ?u ?u er), bl_wtoken = Some (wrapped_for ?u ?u ew)\<rparr>"
    and sealed: "hm_decrypt T (Some kr) (Some e) (Some m) True = Inr d"
      "hm_mac_create T (Some kw) (Some d) (Some m) True = Inr mac"
      "length kr = HM_TOKEN_LEN" "length kw = HM_TOKEN_LEN"
    and ok: "tok_ok er" "tok_ok ew" "dat_ok e" "dat_ok mac"
    and opens: "opens_for T key_pair pk er pk kr" "opens_for T key_pair pk ew pk kw"
    and enc: "\<exists>r0 r1. hm_encrypt T (Some kr) (Some d) (Some m) True r0 = (Inr e, r1)"
    by (rule block_create_form [OF assms(3) a(7,4,5,6) assms(4,5) bl]) blast
  obtain dok j sd where sd: "save_data bl ds (data_state w) = Some ((dok, bl\<lparr>bl_id := Some \<lparr>bdata = j\<rparr>\<rparr>), sd)" "dinv sd"
      "if dok then (\<exists>i. j = Some i \<and> bid_ok i \<and> blk (data_state w) i = None \<and>
         blk sd = (blk (data_state w))(i \<mapsto> (e, m, mac))) else blk sd = blk (data_state w)"
      "fits e m mac \<and> fresh (data_state w) \<noteq> None \<longrightarrow> dok \<and> j = fresh (data_state w)"
    by (rule save_data_new [OF ws(3) ok(3) assms(7) ok(4), of bl]) (simp_all add: form)
  have fit: "seals_fit fits T d m \<longrightarrow> fits e m mac" using seals_fitD [OF _ _ sealed(2)] enc by blast
  have run: "mid_hermes_create_block T (Some (stores ?u)) None (Some d) (Some m) w =
      Some (if ok then (HM_SUCCESS, bdata (the (bl_id bl'))) else (HM_FAIL, None), w')"
    if "mid_hermes_ll_block_save (Some bl) None (Some ds) (Some ks) (w\<lparr>rand_state := r'\<rparr>) = Some ((ok, Some bl'), w')"
      "ok \<longrightarrow> (\<exists>i. bl_id bl' = Some \<lparr>bdata = Some i\<rparr>)" for ok bl' w'
    using that bl a(4,6) assms(6) dat_nonempty [OF assms(7)]
    by (auto simp: mid_hermes_create_block_def Let_def act_bind_run on_run new_buffer_def)
  show ?thesis
  proof (cases dok)
    case False
    then show ?thesis
      using failed [of HM_FAIL "w\<lparr>rand_state := r', data_state := sd\<rparr>"] sd ws
        run [of False "bl\<lparr>bl_id := Some \<lparr>bdata = j\<rparr>\<rparr>" "w\<lparr>rand_state := r', data_state := sd\<rparr>"] fit
      by (simp add: mid_hermes_ll_block_save_def act_bind_run on_run winv_def)
  next
    case True
    then obtain i where i: "j = Some i" "bid_ok i" "blk (data_state w) i = None"
        "blk sd = (blk (data_state w))(i \<mapsto> (e, m, mac))" using sd(3) by auto
    obtain kok w' where save: "mid_hermes_ll_block_save (Some bl) None (Some ds) (Some ks) (w\<lparr>rand_state := r'\<rparr>) =
        Some ((kok, Some (bl\<lparr>bl_id := Some \<lparr>bdata = Some i\<rparr>\<rparr>)), w')"
      "winv w'" "cred_state w' = cred_state w" "created T key_pair u pk d m w w' i kok" "ufull u \<longrightarrow> kok"
      by (rule save_created_run [OF assms(1) form sealed ok(1,2) opens _ sd(2) i(2,3,4), of r']) (use sd(1) True i(1) in simp_all)
    moreover have "seals_fit fits T d m \<and> fresh (data_state w) \<noteq> None \<longrightarrow> fresh (data_state w) = Some i"
      using sd(4) fit i(1) by auto
    ultimately show ?thesis
      using stored [of kok i w'] run [OF save(1)] by simp
  qed
qed

subsection \<open>Granting and denying\<close>

lemma change_access_denied:
  assumes "acting key_pair w u sk pk" "bid_ok i" "uid_ok v" "rt (key_state w) (i, u) = None"
  shows "change_access T (Some (stores (local_user u sk pk))) (Some i) (Some v) tf ch w = Some (HM_FAIL, w)"
  using with_loaded_denied [OF assms(1,2,4)] bid_present [OF assms(2)] uid_present [OF assms(3)]
  by (simp add: change_access_def Let_def)

lemma change_access_run:
  assumes "acting key_pair w u sk pk" "bid_ok i" "uid_ok v" "state_at T key_pair w i kr kw d m"
    and "rt (key_state w) (i, u) \<noteq> None" "blk (data_state w) i = Some (e, m', mac)"
  shows "change_access T (Some (stores (local_user u sk pk))) (Some i) (Some v) tf ch w =
    (case pub (cred_state w) v of
       None \<Rightarrow> Some (HM_FAIL, w)
     | Some pkv \<Rightarrow>
         (case tf (Some (loaded w u (local_user u sk pk) i e mac d m)) (Some (remote_user v pkv)) (rand_state w) of
            None \<Rightarrow> None
          | Some (None, r) \<Rightarrow> Some (HM_FAIL, w\<lparr>rand_state := r\<rparr>)
          | Some (Some t, r) \<Rightarrow>
              map_option (\<lambda>(st, s). (if st \<noteq> HM_SUCCESS then HM_FAIL else HM_SUCCESS, w\<lparr>rand_state := r, key_state := s\<rparr>))
                (ch (loaded w u (local_user u sk pk) i e mac d m) (Some (remote_user v pkv)) (Some t) (key_state w))))"
  using bid_present [OF assms(2)] uid_present [OF assms(3)]
    user_load [OF winvD(1) [OF actingD(1) [OF assms(1)]] assms(3)]
  by (auto simp: change_access_def Let_def with_loaded_run [OF assms(1,2,4-6)] act_bind_run on_run
      split: option.splits)

lemma token_for_cases:
  assumes "themis_laws T key_pair" "outputs_ok T tok_ok plain_ok dat_ok" "acting key_pair w u sk pk"
    and "token_opens T (Some t) k" "token_user t = Some (local_user u sk pk)" "length k = HM_TOKEN_LEN"
  obtains
    (failed) r' where "mid_hermes_ll_token_get_token_for_user T (Some t) (Some (remote_user v pkv)) r = Some (None, r')"
      "\<not> (works T key_pair \<and> (\<exists>skv. key_pair skv pkv) \<and> pkv \<noteq> [])"
  | (made) e r' where "mid_hermes_ll_token_get_token_for_user T (Some t) (Some (remote_user v pkv)) r =
      Some (Some (wrapped_for (remote_user v pkv) (local_user u sk pk) e), r')"
      "opens_for T key_pair pk e pkv k" "tok_ok e"
proof -
  note a = actingD [OF assms(3)]
  have w: "wraps T key_pair" using assms(1) by (simp add: themis_laws_def)
  have run: "mid_hermes_ll_token_get_token_for_user T (Some t) (Some (remote_user v pkv)) r =
    (case hm_asym_encrypt T (Some sk) (Some pkv) (Some k) True r of
       (Inl _, r) \<Rightarrow> Some (None, r)
     | (Inr e, r) \<Rightarrow> Some (Some (wrapped_for (remote_user v pkv) (local_user u sk pk) e), r))"
    by (rule token_for_user_run [OF assms(4,5) a(4,6)]) simp
  obtain x r' where x: "hm_asym_encrypt T (Some sk) (Some pkv) (Some k) True r = (x, r')" by force
  show ?thesis
  proof (cases x)
    case Inl
    have "k \<noteq> []" using assms(6) by (auto simp: HM_TOKEN_LEN_def)
    then have "\<not> (works T key_pair \<and> (\<exists>skv. key_pair skv pkv) \<and> pkv \<noteq> [])"
      using worksD(2) [where T = T and key_pair = key_pair and sk = sk and pk' = pkv and d = k and r = r] a(5,7) x Inl
      by fastforce
    then show ?thesis using failed run x Inl by simp
  next
    case (Inr e)
    then show ?thesis
      using made [of e r'] run x opens_for_wrapped [OF w a(7,6)] outputs_okD(1) [OF assms(2,6)] by simp
  qed
qed

text \<open>What is common to the four operations once the block is loaded: either nothing is stored, or a
  token that opens for \<open>v\<close> to the key of the token rewrapped was made, and \<open>ch\<close> has used it.\<close>

lemma change_access_keys:
  assumes "acting key_pair w u sk pk" "bid_ok i" "uid_ok v" "state_at T key_pair w i kr kw d m"
    and "rt (key_state w) (i, u) \<noteq> None" "blk (data_state w) i = Some (e, m, mac)"
    and "themis_laws T key_pair" "outputs_ok T tok_ok plain_ok dat_ok"
    and "\<And>for r. tf (Some (loaded w u (local_user u sk pk) i e mac d m)) (Some for) r =
      mid_hermes_ll_token_get_token_for_user T (Some t) (Some for) r"
    and "token_opens T (Some t) k" "token_user t = Some (local_user u sk pk)" "length k = HM_TOKEN_LEN"
    and ch: "\<And>x pkv. tok_ok x \<Longrightarrow> \<exists>st s'. ch (loaded w u (local_user u sk pk) i e mac d m) (Some (remote_user v pkv))
        (Some (wrapped_for (remote_user v pkv) (local_user u sk pk) x)) (key_state w) = Some (st, s') \<and>
      kinv s' \<and> Q x st s'"
  obtains st w' where
    "change_access T (Some (stores (local_user u sk pk))) (Some i) (Some v) tf ch w = Some (st, w')"
    "winv w'" "cred_state w' = cred_state w" "data_state w' = data_state w"
    "key_state w' = key_state w \<and> st = HM_FAIL \<and>
       \<not> (works T key_pair \<and> (\<exists>skv pkv. known key_pair (pub (cred_state w)) v skv pkv)) \<or>
     (\<exists>x pkv st'. pub (cred_state w) v = Some pkv \<and> opens_for T key_pair pk x pkv k \<and> Q x st' (key_state w') \<and>
        st = (if st' \<noteq> HM_SUCCESS then HM_FAIL else HM_SUCCESS))"
proof -
  let ?u = "local_user u sk pk"
  note ws = winvD [OF actingD(1) [OF assms(1)]] and run = change_access_run [OF assms(1-6), of tf ch]
  show ?thesis
  proof (cases "pub (cred_state w) v")
    case None
    then show ?thesis using that [of HM_FAIL w] actingD(1) [OF assms(1)] run by (simp add: known_def)
  next
    case (Some pkv)
    show ?thesis
    proof (rule token_for_cases [OF assms(7,8,1,10,11,12), of v pkv "rand_state w"])
      fix r' assume r: "mid_hermes_ll_token_get_token_for_user T (Some t) (Some (remote_user v pkv)) (rand_state w) = Some (None, r')"
        "\<not> (works T key_pair \<and> (\<exists>skv. key_pair skv pkv) \<and> pkv \<noteq> [])"
      have "\<not> (works T key_pair \<and> (\<exists>skv pkv. known key_pair (pub (cred_state w)) v skv pkv))"
        using r(2) Some by (auto simp: known_def)
      then show ?thesis
        using that [of HM_FAIL "w\<lparr>rand_state := r'\<rparr>"] ws Some run r(1) assms(9) by (simp add: winv_def)
    next
      fix x r' assume x: "mid_hermes_ll_token_get_token_for_user T (Some t) (Some (remote_user v pkv)) (rand_state w) =
          Some (Some (wrapped_for (remote_user v pkv) ?u x), r')" "opens_for T key_pair pk x pkv k" "tok_ok x"
      obtain st s' where s: "ch (loaded w u ?u i e mac d m) (Some (remote_user v pkv))
          (Some (wrapped_for (remote_user v pkv) ?u x)) (key_state w) = Some (st, s')" "kinv s'" "Q x st s'"
        using ch [OF x(3)] by blast
      show ?thesis
        using that [of "if st \<noteq> HM_SUCCESS then HM_FAIL else HM_SUCCESS" "w\<lparr>rand_state := r', key_state := s'\<rparr>"]
          ws Some run assms(9) x s by (auto simp: winv_def)
    qed
  qed
qed

lemma loaded_opens:
  assumes "acting key_pair w u sk pk" "state_at T key_pair w i kr kw d m"
  shows "rt (key_state w) (i, u) \<noteq> None \<Longrightarrow> \<exists>t. loaded_token rt w (local_user u sk pk) u i = Some t \<and>
      token_opens T (Some t) kr \<and> token_user t = Some (local_user u sk pk)"
    and "wt (key_state w) (i, u) \<noteq> None \<Longrightarrow> \<exists>t. loaded_token wt w (local_user u sk pk) u i = Some t \<and>
      token_opens T (Some t) kw \<and> token_user t = Some (local_user u sk pk)"
proof -
  show "\<exists>t. loaded_token rt w (local_user u sk pk) u i = Some t \<and> token_opens T (Some t) kr \<and>
      token_user t = Some (local_user u sk pk)" if "rt (key_state w) (i, u) \<noteq> None"
    using that loaded_rtoken [OF assms(2) actingD(3) [OF assms(1)]]
    by (metis not_None_eq old.prod.exhaust wrapped_sel(1))
  show "\<exists>t. loaded_token wt w (local_user u sk pk) u i = Some t \<and> token_opens T (Some t) kw \<and>
      token_user t = Some (local_user u sk pk)" if "wt (key_state w) (i, u) \<noteq> None"
    using that loaded_wtoken [OF assms(2) actingD(3) [OF assms(1)]]
    by (metis not_None_eq old.prod.exhaust wrapped_sel(1))
qed

lemma grant_read_run:
  assumes "acting key_pair w u sk pk" "bid_ok i" "uid_ok v" "state_at T key_pair w i kr kw d m"
    and "rt (key_state w) (i, u) \<noteq> None" "themis_laws T key_pair" "outputs_ok T tok_ok plain_ok dat_ok"
  obtains st w' where
    "mid_hermes_grant_read_access T (Some (stores (local_user u sk pk))) (Some i) (Some v) w = Some (st, w')"
    "winv w'" "cred_state w' = cred_state w" "data_state w' = data_state w"
    "wt (key_state w') = wt (key_state w)"
    "rt (key_state w') = rt (key_state w) \<and> st \<noteq> HM_SUCCESS \<or>
     (\<exists>t pkv. pub (cred_state w) v = Some pkv \<and> opens_for T key_pair pk t pkv kr \<and>
        rt (key_state w') = (rt (key_state w))((i, v) \<mapsto> (t, u)) \<and> st = HM_SUCCESS)"
    "works T key_pair \<and> (\<exists>skv pkv. known key_pair (pub (cred_state w)) v skv pkv) \<and> ufull u \<and> ufull v \<longrightarrow> st = HM_SUCCESS"
proof -
  obtain e mac where st: "blk (data_state w) i = Some (e, m, mac)"
    using assms(4) by (rule state_at_stored)
  obtain t where t: "loaded_token rt w (local_user u sk pk) u i = Some t" "token_opens T (Some t) kr"
      "token_user t = Some (local_user u sk pk)"
    using loaded_opens(1) [OF assms(1,4,5)] by blast
  show ?thesis
  proof (rule change_access_keys [OF assms(1-5) st assms(6,7) _ t(2,3) state_at_keys(3) [OF assms(4)],
        of "mid_hermes_ll_block_rtoken_for T" "\<lambda>bl for_user read_token. mid_hermes_ll_token_save (bl_user bl)
          (bl_id bl) read_token (mh_ks (the (Some (stores (local_user u sk pk))))) False"
        "\<lambda>x st s'. wt s' = wt (key_state w) \<and> rt s' =
          (if st = HM_SUCCESS then (rt (key_state w))((i, v) \<mapsto> (x, u)) else rt (key_state w)) \<and>
          (ufull u \<and> ufull v \<longrightarrow> st = HM_SUCCESS)"], goal_cases)
    case (2 x pkv)
    have "full i" using stored_full [OF winvD(3) [OF actingD(1) [OF assms(1)]]] st by simp
    then show ?case
      using set_r [OF winvD(2) [OF actingD(1) [OF assms(1)]] assms(3,2) 2 actingD(2) [OF assms(1)]] assms(5)
      by (auto simp: mid_hermes_ll_token_save_def set_token_fn_def)
  next
    case (3 st w')
    show ?case
      by (rule that [of st w'])
        (use 3 in \<open>auto simp: mid_hermes_grant_read_access_def split: if_splits\<close>)
  qed (simp add: mid_hermes_ll_block_rtoken_for_def t(1))
qed

lemma no_wtoken_denied:
  assumes "acting key_pair w u sk pk" "bid_ok i" "uid_ok v" "state_at T key_pair w i kr kw d m"
    and "wt (key_state w) (i, u) = None"
  shows "change_access T (Some (stores (local_user u sk pk))) (Some i) (Some v) (mid_hermes_ll_block_wtoken_for T) ch w =
    Some (HM_FAIL, w)"
proof (cases "rt (key_state w) (i, u) = None")
  case True
  then show ?thesis by (rule change_access_denied [OF assms(1-3)])
next
  case False
  obtain e mac where "blk (data_state w) i = Some (e, m, mac)"
    using assms(4) by (rule state_at_stored)
  then show ?thesis
    using assms(5)
    by (simp add: change_access_run [OF assms(1-4) False] mid_hermes_ll_block_wtoken_for_def loaded_token_def
        split: option.split)
qed

lemma grant_update_run:
  assumes "acting key_pair w u sk pk" "bid_ok i" "uid_ok v" "state_at T key_pair w i kr kw d m"
    and "rt (key_state w) (i, u) \<noteq> None" "wt (key_state w) (i, u) \<noteq> None"
    and "themis_laws T key_pair" "outputs_ok T tok_ok plain_ok dat_ok"
  obtains st w' where
    "mid_hermes_grant_update_access T (Some (stores (local_user u sk pk))) (Some i) (Some v) w = Some (st, w')"
    "winv w'" "cred_state w' = cred_state w" "data_state w' = data_state w"
    "rt (key_state w') = rt (key_state w)"
    "wt (key_state w') = wt (key_state w) \<and> st \<noteq> HM_SUCCESS \<or>
     (\<exists>t pkv. pub (cred_state w) v = Some pkv \<and> opens_for T key_pair pk t pkv kw \<and>
        wt (key_state w') = (wt (key_state w))((i, v) \<mapsto> (t, u)) \<and> st = HM_SUCCESS)"
    "works T key_pair \<and> (\<exists>skv pkv. known key_pair (pub (cred_state w)) v skv pkv) \<and> ufull u \<and> ufull v \<longrightarrow>
       (st = HM_SUCCESS \<longleftrightarrow> rt (key_state w) (i, v) \<noteq> None)"
proof -
  obtain e mac where st: "blk (data_state w) i = Some (e, m, mac)"
    using assms(4) by (rule state_at_stored)
  obtain t where t: "loaded_token wt w (local_user u sk pk) u i = Some t" "token_opens T (Some t) kw"
      "token_user t = Some (local_user u sk pk)"
    using loaded_opens(2) [OF assms(1,4,6)] by blast
  show ?thesis
  proof (rule change_access_keys [OF assms(1-5) st assms(7,8) _ t(2,3) state_at_keys(4) [OF assms(4)],
        of "mid_hermes_ll_block_wtoken_for T" "\<lambda>bl for_user write_token. mid_hermes_ll_token_save (bl_user bl)
          (bl_id bl) write_token (mh_ks (the (Some (stores (local_user u sk pk))))) True"
        "\<lambda>x st s'. rt s' = rt (key_state w) \<and> wt s' =
          (if st = HM_SUCCESS then (wt (key_state w))((i, v) \<mapsto> (x, u)) else wt (key_state w)) \<and>
          (ufull u \<and> ufull v \<longrightarrow> (st = HM_SUCCESS \<longleftrightarrow> rt (key_state w) (i, v) \<noteq> None))"], goal_cases)
    case (2 x pkv)
    have "full i" using stored_full [OF winvD(3) [OF actingD(1) [OF assms(1)]]] st by simp
    then show ?case
      using set_w [OF winvD(2) [OF actingD(1) [OF assms(1)]] assms(3,2) 2 actingD(2) [OF assms(1)]] assms(6)
      by (auto simp: mid_hermes_ll_token_save_def set_token_fn_def)
  next
    case (3 st w')
    show ?case
      by (rule that [of st w'])
        (use 3 in \<open>auto simp: mid_hermes_grant_update_access_def split: if_splits\<close>)
  qed (simp add: mid_hermes_ll_block_wtoken_for_def t(1))
qed

text \<open>Both denials delete the write token; \<open>mid_hermes_deny_read_access\<close> then deletes the read token.\<close>

lemma lost_at_trans: "lost_at p a b \<Longrightarrow> lost_at p b c \<Longrightarrow> lost_at p a c"
  unfolding lost_at_def by metis

lemma token_del_run:
  assumes "kinv s" "uid_ok v" "bid_ok i" "uid_ok u"
  obtains st s' where "mid_hermes_ll_token_del (Some (remote_user v pkv)) (Some (local_user u sk pk))
      (Some \<lparr>bdata = Some i\<rparr>) (Some ks) is_update s = Some (st, s')" "kinv s'"
    "lost_at (i, v) (rt s) (rt s')" "lost_at (i, v) (wt s) (wt s')"
    "st = HM_SUCCESS \<longrightarrow> (if is_update then wt s' (i, v) = None else rt s' (i, v) = None)"
    "ufull v \<and> full i \<and> ufull u \<and> u \<noteq> v \<and> wt s (i, u) \<noteq> None \<and> rt s (i, v) \<noteq> None \<and> \<not> is_update \<longrightarrow> st = HM_SUCCESS"
proof -
  obtain st1 s1 where w: "ks_set_wtoken ks (Some v) (Some i) None (Some u) s = Some (st1, s1)" "kinv s1"
      "rt s1 = rt s" "lost_at (i, v) (wt s) (wt s1)" "st1 = HM_SUCCESS \<longrightarrow> wt s1 (i, v) = None"
    using del_w [OF assms] by blast
  obtain st2 s2 where r: "ks_set_rtoken ks (Some v) (Some i) None (Some u) s1 = Some (st2, s2)" "kinv s2"
      "lost_at (i, v) (rt s1) (rt s2)" "lost_at (i, v) (wt s1) (wt s2)" "st2 = HM_SUCCESS \<longrightarrow> rt s2 (i, v) = None"
      "ufull v \<and> full i \<and> ufull u \<longrightarrow> (st2 = HM_SUCCESS \<longleftrightarrow> wt s1 (i, u) \<noteq> None \<and> rt s1 (i, v) \<noteq> None)"
    using del_r [OF w(2) assms(2-4)] by blast
  show ?thesis
  proof (cases is_update)
    case True
    then show ?thesis using that [of st1 s1] w by (simp add: mid_hermes_ll_token_del_def act_bind_run lost_at_def)
  next
    case False
    have "wt s1 (i, u) = wt s (i, u)" if "u \<noteq> v" using w(4) that by (simp add: lost_at_def)
    then show ?thesis
      using False that [of st2 s2] w r lost_at_trans [OF w(4) r(4)]
      by (simp add: mid_hermes_ll_token_del_def act_bind_run)
  qed
qed

lemma deny_run:
  assumes "acting key_pair w u sk pk" "bid_ok i" "uid_ok v" "state_at T key_pair w i kr kw d m"
    and "rt (key_state w) (i, u) \<noteq> None" "wt (key_state w) (i, u) \<noteq> None"
    and "themis_laws T key_pair" "outputs_ok T tok_ok plain_ok dat_ok"
  obtains st w' where
    "change_access T (Some (stores (local_user u sk pk))) (Some i) (Some v) (mid_hermes_ll_block_wtoken_for T)
       (\<lambda>bl for_user token. mid_hermes_ll_token_del for_user (bl_user bl) (bl_id bl)
          (mh_ks (the (Some (stores (local_user u sk pk))))) is_update) w = Some (st, w')"
    "winv w'" "cred_state w' = cred_state w" "data_state w' = data_state w"
    "lost_at (i, v) (rt (key_state w)) (rt (key_state w'))" "lost_at (i, v) (wt (key_state w)) (wt (key_state w'))"
    "st = HM_SUCCESS \<longrightarrow> (if is_update then wt (key_state w') (i, v) = None else rt (key_state w') (i, v) = None)"
    "works T key_pair \<and> (\<exists>skv pkv. known key_pair (pub (cred_state w)) v skv pkv) \<and> ufull u \<and> ufull v \<and> u \<noteq> v \<and>
       rt (key_state w) (i, v) \<noteq> None \<and> \<not> is_update \<longrightarrow> st = HM_SUCCESS"
proof -
  obtain e mac where st: "blk (data_state w) i = Some (e, m, mac)"
    using assms(4) by (rule state_at_stored)
  obtain t where t: "loaded_token wt w (local_user u sk pk) u i = Some t" "token_opens T (Some t) kw"
      "token_user t = Some (local_user u sk pk)"
    using loaded_opens(2) [OF assms(1,4,6)] by blast
  show ?thesis
  proof (rule change_access_keys [OF assms(1-5) st assms(7,8) _ t(2,3) state_at_keys(4) [OF assms(4)],
        of "mid_hermes_ll_block_wtoken_for T" "\<lambda>bl for_user token. mid_hermes_ll_token_del for_user (bl_user bl)
          (bl_id bl) (mh_ks (the (Some (stores (local_user u sk pk))))) is_update"
        "\<lambda>x st s'. lost_at (i, v) (rt (key_state w)) (rt s') \<and> lost_at (i, v) (wt (key_state w)) (wt s') \<and>
          (st = HM_SUCCESS \<longrightarrow> (if is_update then wt s' (i, v) = None else rt s' (i, v) = None)) \<and>
          (ufull u \<and> ufull v \<and> u \<noteq> v \<and> rt (key_state w) (i, v) \<noteq> None \<and> \<not> is_update \<longrightarrow> st = HM_SUCCESS)"], goal_cases)
    case (2 x pkv)
    have full: "full i" using stored_full [OF winvD(3) [OF actingD(1) [OF assms(1)]]] st by simp
    obtain st s' where d: "mid_hermes_ll_token_del (Some (remote_user v pkv)) (Some (local_user u sk pk))
        (Some \<lparr>bdata = Some i\<rparr>) (Some ks) is_update (key_state w) = Some (st, s')" "kinv s'"
      "lost_at (i, v) (rt (key_state w)) (rt s')" "lost_at (i, v) (wt (key_state w)) (wt s')"
      "st = HM_SUCCESS \<longrightarrow> (if is_update then wt s' (i, v) = None else rt s' (i, v) = None)"
      "ufull v \<and> full i \<and> ufull u \<and> u \<noteq> v \<and> wt (key_state w) (i, u) \<noteq> None \<and> rt (key_state w) (i, v) \<noteq> None \<and>
        \<not> is_update \<longrightarrow> st = HM_SUCCESS"
      by (rule token_del_run [OF winvD(2) [OF actingD(1) [OF assms(1)]] assms(3,2) actingD(2) [OF assms(1)],
            of pkv sk pk is_update])
    show ?case
      using d full assms(6) by (intro exI [of _ st] exI [of _ s'] conjI) simp_all
  next
    case (3 st w')
    have same: "lost_at p tm tm" for p and tm :: tokens by (simp add: lost_at_def)
    show ?case
      by (rule that [OF 3(1-4)]) (use 3(5) same in \<open>elim disjE exE conjE; simp split: if_splits\<close>)+
  qed (simp add: mid_hermes_ll_block_wtoken_for_def t(1))
qed

end

end
