(* ===== verification/Mid_Spec.thy ===== *)
theory Mid_Spec
  imports Mid_Ops
begin

section \<open>The promise of Mid-Hermes\<close>

text \<open>
  \<open>mid_step\<close> is the abstract specification: blocks hold data and meta data, and who may read and who
  may update is a relation between blocks and users.  Nothing of keys, tokens, MACs or messages is
  left in it.  An operation that fails may leave a block without all of its rights (creation), or
  with the new data (update): the code changes the data store first and the key store afterwards.

  \<open>mid_program\<close> runs operations in the name of their users, each with an own \<^verbatim>\<open>mid_hermes_t\<close>.
  \<open>refines\<close> is the simulation: over any three stores that keep their contracts, every program of
  users whose keys the credential store knows runs to its end, and its results and the stores are
  those of a run of the specification.
\<close>

subsection \<open>Operations\<close>

datatype mid_op =
    MCreate bytes bytes
  | MRead bytes
  | MUpdate bytes bytes bytes
  | MGrantRead bytes bytes
  | MGrantUpdate bytes bytes
  | MDenyRead bytes bytes
  | MDenyUpdate bytes bytes

datatype mid_res = MStatus status | MId "status \<times> cbuf" | MBlock "status + cbuf \<times> cbuf"

definition act_map :: "('a \<Rightarrow> 'b) \<Rightarrow> ('w, 'a) act \<Rightarrow> ('w, 'b) act" where
  "act_map f m = act_bind m (\<lambda>x. act_ret (f x))"

lemma act_map_run [act_simps]: "act_map f m w = map_option (\<lambda>(x, w). (f x, w)) (m w)"
  by (auto simp: act_map_def act_bind_run split: option.split)

fun mid_exec ::
    "('r, 'h) themis \<Rightarrow> ('k, 'd, 'c) mid_hermes option \<Rightarrow> mid_op \<Rightarrow> (('r, 'k, 'd, 'c) world, mid_res) act" where
  "mid_exec T mh (MCreate d m) = act_map MId (mid_hermes_create_block T mh None (Some d) (Some m))"
| "mid_exec T mh (MRead i) = act_map MBlock (mid_hermes_read_block T mh (Some i))"
| "mid_exec T mh (MUpdate i d m) = act_map MStatus (mid_hermes_update_block T mh (Some i) (Some d) (Some m))"
| "mid_exec T mh (MGrantRead i v) = act_map MStatus (mid_hermes_grant_read_access T mh (Some i) (Some v))"
| "mid_exec T mh (MGrantUpdate i v) = act_map MStatus (mid_hermes_grant_update_access T mh (Some i) (Some v))"
| "mid_exec T mh (MDenyRead i v) = act_map MStatus (mid_hermes_deny_read_access T mh (Some i) (Some v))"
| "mid_exec T mh (MDenyUpdate i v) = act_map MStatus (mid_hermes_deny_update_access T mh (Some i) (Some v))"

text \<open>An operation by the user \<open>u\<close>, whose private key is \<open>sks u\<close>.\<close>

definition mid_as ::
    "('r, 'h) themis \<Rightarrow> 'k hermes_key_store \<Rightarrow> 'd hermes_data_store \<Rightarrow> 'c hermes_credential_store \<Rightarrow>
     (bytes \<Rightarrow> bytes) \<Rightarrow> bytes \<Rightarrow> mid_op \<Rightarrow> (('r, 'k, 'd, 'c) world, mid_res) act" where
  "mid_as T ks ds cs sks u op =
     act_bind (mid_hermes_create_with_services (Some u) (Some (sks u)) (Some ks) (Some ds) (Some cs))
       (\<lambda>mh. mid_exec T mh op)"

fun mid_program ::
    "('r, 'h) themis \<Rightarrow> 'k hermes_key_store \<Rightarrow> 'd hermes_data_store \<Rightarrow> 'c hermes_credential_store \<Rightarrow>
     (bytes \<Rightarrow> bytes) \<Rightarrow> (bytes \<times> mid_op) list \<Rightarrow> (('r, 'k, 'd, 'c) world, mid_res list) act" where
  "mid_program T ks ds cs sks [] = act_ret []"
| "mid_program T ks ds cs sks ((u, op) # ops) =
     act_bind (mid_as T ks ds cs sks u op) (\<lambda>r. act_map (\<lambda>rs. r # rs) (mid_program T ks ds cs sks ops))"

text \<open>Operations whose inputs the stores take: ids, data that seals to data of an acceptable size.\<close>

fun mid_op_ok :: "(bytes \<Rightarrow> bool) \<Rightarrow> (bytes \<Rightarrow> bool) \<Rightarrow> (bytes \<Rightarrow> bool) \<Rightarrow> (bytes \<Rightarrow> bool) \<Rightarrow> mid_op \<Rightarrow> bool" where
  "mid_op_ok bid_ok uid_ok plain_ok dat_ok (MCreate d m) = (plain_ok d \<and> d \<noteq> [] \<and> dat_ok m)"
| "mid_op_ok bid_ok uid_ok plain_ok dat_ok (MRead i) = bid_ok i"
| "mid_op_ok bid_ok uid_ok plain_ok dat_ok (MUpdate i d m) = (bid_ok i \<and> plain_ok d \<and> d \<noteq> [] \<and> dat_ok m)"
| "mid_op_ok bid_ok uid_ok plain_ok dat_ok (MGrantRead i v) = (bid_ok i \<and> uid_ok v)"
| "mid_op_ok bid_ok uid_ok plain_ok dat_ok (MGrantUpdate i v) = (bid_ok i \<and> uid_ok v)"
| "mid_op_ok bid_ok uid_ok plain_ok dat_ok (MDenyRead i v) = (bid_ok i \<and> uid_ok v)"
| "mid_op_ok bid_ok uid_ok plain_ok dat_ok (MDenyUpdate i v) = (bid_ok i \<and> uid_ok v)"

subsection \<open>The specification\<close>

record mid_spec =
  content :: "bytes \<Rightarrow> (bytes \<times> bytes) option"
  readers :: "(bytes \<times> bytes) set"
  writers :: "(bytes \<times> bytes) set"

definition lost_from :: "'a \<Rightarrow> 'a set \<Rightarrow> 'a set \<Rightarrow> bool" where
  "lost_from p A B \<longleftrightarrow> B \<subseteq> A \<and> A - {p} \<subseteq> B"

inductive mid_step :: "mid_spec \<Rightarrow> bytes \<Rightarrow> mid_op \<Rightarrow> mid_res \<Rightarrow> mid_spec \<Rightarrow> bool" where
  create: "content s i = None \<Longrightarrow> mid_step s u (MCreate d m) (MId (HM_SUCCESS, Some i))
    \<lparr>content = (content s)(i \<mapsto> (d, m)), readers = insert (i, u) (readers s), writers = insert (i, u) (writers s)\<rparr>"
| create_failed: "st \<noteq> HM_SUCCESS \<Longrightarrow> mid_step s u (MCreate d m) (MId (st, None)) s"
| create_half: "st \<noteq> HM_SUCCESS \<Longrightarrow> content s i = None \<Longrightarrow> R = {} \<or> R = {(i, u)} \<Longrightarrow>
    mid_step s u (MCreate d m) (MId (st, None))
      (s\<lparr>content := (content s)(i \<mapsto> (d, m)), readers := readers s \<union> R\<rparr>)"
| read: "(i, u) \<in> readers s \<Longrightarrow> content s i = Some (d, m) \<Longrightarrow>
    mid_step s u (MRead i) (MBlock (Inr (Some d, Some m))) s"
| read_denied: "(i, u) \<notin> readers s \<Longrightarrow> mid_step s u (MRead i) (MBlock (Inl HM_FAIL)) s"
| update: "(i, u) \<in> readers s \<Longrightarrow> (i, u) \<in> writers s \<Longrightarrow>
    mid_step s u (MUpdate i d m) (MStatus st) (s\<lparr>content := (content s)(i \<mapsto> (d, m))\<rparr>)"
| update_failed: "st \<noteq> HM_SUCCESS \<Longrightarrow> mid_step s u (MUpdate i d m) (MStatus st) s"
| grant_read: "(i, u) \<in> readers s \<Longrightarrow>
    mid_step s u (MGrantRead i v) (MStatus HM_SUCCESS) (s\<lparr>readers := insert (i, v) (readers s)\<rparr>)"
| grant_read_failed: "st \<noteq> HM_SUCCESS \<Longrightarrow> mid_step s u (MGrantRead i v) (MStatus st) s"
| grant_update: "(i, u) \<in> readers s \<Longrightarrow> (i, u) \<in> writers s \<Longrightarrow>
    mid_step s u (MGrantUpdate i v) (MStatus HM_SUCCESS) (s\<lparr>writers := insert (i, v) (writers s)\<rparr>)"
| grant_update_failed: "st \<noteq> HM_SUCCESS \<Longrightarrow> mid_step s u (MGrantUpdate i v) (MStatus st) s"
| deny_read: "(i, u) \<in> readers s \<Longrightarrow> (i, u) \<in> writers s \<Longrightarrow> lost_from (i, v) (readers s) R \<Longrightarrow>
    lost_from (i, v) (writers s) W \<Longrightarrow> (st = HM_SUCCESS \<longrightarrow> (i, v) \<notin> R) \<Longrightarrow>
    mid_step s u (MDenyRead i v) (MStatus st) (s\<lparr>readers := R, writers := W\<rparr>)"
| deny_read_failed: "st \<noteq> HM_SUCCESS \<Longrightarrow> mid_step s u (MDenyRead i v) (MStatus st) s"
| deny_update: "(i, u) \<in> readers s \<Longrightarrow> (i, u) \<in> writers s \<Longrightarrow> lost_from (i, v) (readers s) R \<Longrightarrow>
    lost_from (i, v) (writers s) W \<Longrightarrow> (st = HM_SUCCESS \<longrightarrow> (i, v) \<notin> W) \<Longrightarrow>
    mid_step s u (MDenyUpdate i v) (MStatus st) (s\<lparr>readers := R, writers := W\<rparr>)"
| deny_update_failed: "st \<noteq> HM_SUCCESS \<Longrightarrow> mid_step s u (MDenyUpdate i v) (MStatus st) s"

inductive mid_run :: "mid_spec \<Rightarrow> (bytes \<times> mid_op) list \<Rightarrow> mid_res list \<Rightarrow> mid_spec \<Rightarrow> bool" where
  stop: "mid_run s [] [] s"
| step: "mid_step s u op r s1 \<Longrightarrow> mid_run s1 ops rs s' \<Longrightarrow> mid_run s ((u, op) # ops) (r # rs) s'"

inductive_simps mid_step_read: "mid_step s u (MRead i) r s'"
inductive_simps mid_run_Nil: "mid_run s [] rs s'"
inductive_simps mid_run_Cons: "mid_run s (x # ops) rs s'"

subsection \<open>What the specification allows\<close>

text \<open>Rights come only from a reader who grants them; data changes only through a writer.\<close>

lemma mid_step_content:
  "mid_step s u op r s' \<Longrightarrow> content s i = Some x \<Longrightarrow> \<exists>y. content s' i = Some y"
  by (cases rule: mid_step.cases) auto

lemma mid_step_new_reader:
  "mid_step s u op r s' \<Longrightarrow> content s i \<noteq> None \<Longrightarrow> (i, v) \<in> readers s' \<Longrightarrow> (i, v) \<notin> readers s \<Longrightarrow>
   op = MGrantRead i v \<and> (i, u) \<in> readers s"
  by (cases rule: mid_step.cases) (auto simp: lost_from_def)

lemma mid_step_new_writer:
  "mid_step s u op r s' \<Longrightarrow> content s i \<noteq> None \<Longrightarrow> (i, v) \<in> writers s' \<Longrightarrow> (i, v) \<notin> writers s \<Longrightarrow>
   op = MGrantUpdate i v \<and> (i, u) \<in> writers s"
  by (cases rule: mid_step.cases) (auto simp: lost_from_def)

lemma mid_step_changed:
  "mid_step s u op r s' \<Longrightarrow> content s i = Some x \<Longrightarrow> content s' i \<noteq> Some x \<Longrightarrow>
   (\<exists>d m. op = MUpdate i d m) \<and> (i, u) \<in> writers s"
  by (cases rule: mid_step.cases) (auto split: if_splits)

lemma mid_run_append:
  "mid_run s (xs @ ys) rs s' \<longleftrightarrow> (\<exists>rs1 rs2 s1. rs = rs1 @ rs2 \<and> mid_run s xs rs1 s1 \<and> mid_run s1 ys rs2 s')"
proof (induction xs arbitrary: s rs)
  case Nil
  then show ?case by (auto simp: mid_run_Nil)
next
  case (Cons x xs)
  show ?case unfolding append_Cons mid_run_Cons Cons.IH
    by (auto; metis append_Cons)
qed

text \<open>\<open>respects_readers\<close>: no member of the group \<open>U\<close> shares block \<open>i\<close> with somebody outside;
  \<open>respects_writers\<close> the same for updating, \<open>leaves\<close>: no member updates it.\<close>

fun respects_readers :: "bytes \<Rightarrow> bytes set \<Rightarrow> bytes \<times> mid_op \<Rightarrow> bool" where
  "respects_readers i U (u, MGrantRead j v) = (j = i \<and> u \<in> U \<longrightarrow> v \<in> U)"
| "respects_readers i U _ = True"

fun respects_writers :: "bytes \<Rightarrow> bytes set \<Rightarrow> bytes \<times> mid_op \<Rightarrow> bool" where
  "respects_writers i U (u, MGrantUpdate j v) = (j = i \<and> u \<in> U \<longrightarrow> v \<in> U)"
| "respects_writers i U _ = True"

fun leaves :: "bytes \<Rightarrow> bytes set \<Rightarrow> bytes \<times> mid_op \<Rightarrow> bool" where
  "leaves i U (u, MUpdate j d m) = (j = i \<longrightarrow> u \<notin> U)"
| "leaves i U _ = True"

lemma respects_readers_iff:
  "respects_readers i U (u, op) \<longleftrightarrow> (\<forall>v. op = MGrantRead i v \<and> u \<in> U \<longrightarrow> v \<in> U)"
  by (cases op) auto

lemma mid_run_readers:
  "mid_run s ops rs s' \<Longrightarrow> content s i \<noteq> None \<Longrightarrow> {u. (i, u) \<in> readers s} \<subseteq> U \<Longrightarrow>
   list_all (respects_readers i U) ops \<Longrightarrow> {u. (i, u) \<in> readers s'} \<subseteq> U"
proof (induction rule: mid_run.induct)
  case (step s u op r s1 ops rs s')
  have "{u. (i, u) \<in> readers s1} \<subseteq> U"
  proof safe
    fix v assume "(i, v) \<in> readers s1"
    then show "v \<in> U"
      using mid_step_new_reader [OF step.hyps(1) step.prems(1), of v] step.prems(2,3) by fastforce
  qed
  moreover have "content s1 i \<noteq> None" using mid_step_content [OF step.hyps(1)] step.prems(1) by fastforce
  ultimately show ?case using step.IH step.prems(3) by simp
qed

lemma mid_run_content:
  "mid_run s ops rs s' \<Longrightarrow> content s i = Some x \<Longrightarrow> {u. (i, u) \<in> writers s} \<subseteq> U \<Longrightarrow>
   list_all (respects_writers i U) ops \<Longrightarrow> list_all (leaves i U) ops \<Longrightarrow>
   content s' i = Some x \<and> {u. (i, u) \<in> writers s'} \<subseteq> U"
proof (induction rule: mid_run.induct)
  case (step s u op r s1 ops rs s')
  have "{u. (i, u) \<in> writers s1} \<subseteq> U"
  proof safe
    fix v assume "(i, v) \<in> writers s1"
    then show "v \<in> U"
      using mid_step_new_writer [OF step.hyps(1), of i v] step.prems(1,2,3) by fastforce
  qed
  moreover have "content s1 i = Some x"
    using mid_step_changed [OF step.hyps(1) step.prems(1)] step.prems(2,4) by fastforce
  ultimately show ?case using step.IH step.prems(3,4) by simp
qed simp

text \<open>Rights exist for blocks only.\<close>

definition spec_wf :: "mid_spec \<Rightarrow> bool" where
  "spec_wf s \<longleftrightarrow> (\<forall>i u. (i, u) \<in> readers s \<or> (i, u) \<in> writers s \<longrightarrow> content s i \<noteq> None)"

lemma mid_step_wf: "mid_step s u op r s' \<Longrightarrow> spec_wf s \<Longrightarrow> spec_wf s'"
  by (cases rule: mid_step.cases) (auto simp: spec_wf_def lost_from_def)

lemma mid_run_wf: "mid_run s ops rs s' \<Longrightarrow> spec_wf s \<Longrightarrow> spec_wf s'"
  by (induction rule: mid_run.induct) (auto intro: mid_step_wf)

lemma mid_run_length: "mid_run s ops rs s' \<Longrightarrow> length rs = length ops"
  by (induction rule: mid_run.induct) auto

inductive_cases createdE: "mid_step s u (MCreate d m) (MId (HM_SUCCESS, Some i)) s'"
inductive_cases readE: "mid_step s u (MRead i) r s'"

text \<open>A program that creates a block, goes on and reads it at its end.\<close>

lemma mid_run_create_read:
  assumes "mid_run s (pre @ (u, MCreate d m) # post @ [(v, MRead i)]) rs s'" "spec_wf s"
    and "rs ! length pre = MId (HM_SUCCESS, Some i)"
  obtains s2 rs2 s3 where "mid_run s2 post rs2 s3" "content s2 i = Some (d, m)"
    "{x. (i, x) \<in> readers s2} = {u}" "{x. (i, x) \<in> writers s2} = {u}" "mid_step s3 v (MRead i) (last rs) s'"
proof -
  obtain rs1 r s1 s2 rs2 s3 x where run: "mid_run s pre rs1 s1" "mid_step s1 u (MCreate d m) r s2" "mid_run s2 post rs2 s3"
      "mid_step s3 v (MRead i) x s'" "rs = rs1 @ r # rs2 @ [x]"
    using assms(1) by (auto simp: mid_run_append mid_run_Cons mid_run_Nil)
  have r: "r = MId (HM_SUCCESS, Some i)" using assms(3) mid_run_length [OF run(1)] run(5) by (simp add: nth_append)
  have wf: "spec_wf s1" using mid_run_wf [OF run(1) assms(2)] .
  have "content s1 i = None \<and> s2 = \<lparr>content = (content s1)(i \<mapsto> (d, m)), readers = insert (i, u) (readers s1),
      writers = insert (i, u) (writers s1)\<rparr>"
    using run(2) unfolding r by (rule createdE) simp
  then have fresh: "content s1 i = None" and s2: "s2 = \<lparr>content = (content s1)(i \<mapsto> (d, m)),
      readers = insert (i, u) (readers s1), writers = insert (i, u) (writers s1)\<rparr>" by simp_all
  have no: "(i, x) \<notin> readers s1 \<and> (i, x) \<notin> writers s1" for x using wf fresh unfolding spec_wf_def by blast
  show ?thesis
  proof (rule that [OF run(3)])
    show "content s2 i = Some (d, m)" "{x. (i, x) \<in> readers s2} = {u}" "{x. (i, x) \<in> writers s2} = {u}"
      using no by (auto simp: s2)
    show "mid_step s3 v (MRead i) (last rs) s'" using run(4,5) by simp
  qed
qed

inductive_cases deniedE: "mid_step s u (MDenyRead i v) (MStatus HM_SUCCESS) s'"

text \<open>A program that denies a user reading, goes on and lets him read at its end.\<close>

lemma mid_run_deny_read:
  assumes "mid_run s (pre @ (u, MDenyRead i v) # post @ [(v, MRead i)]) rs s'" "spec_wf s"
    and "rs ! length pre = MStatus HM_SUCCESS"
  obtains s2 rs2 s3 where "mid_run s2 post rs2 s3" "content s2 i \<noteq> None" "(i, v) \<notin> readers s2"
    "mid_step s3 v (MRead i) (last rs) s'"
proof -
  obtain rs1 r s1 s2 rs2 s3 x where run: "mid_run s pre rs1 s1" "mid_step s1 u (MDenyRead i v) r s2"
      "mid_run s2 post rs2 s3" "mid_step s3 v (MRead i) x s'" "rs = rs1 @ r # rs2 @ [x]"
    using assms(1) by (auto simp: mid_run_append mid_run_Cons mid_run_Nil)
  have r: "r = MStatus HM_SUCCESS" using assms(3) mid_run_length [OF run(1)] run(5) by (simp add: nth_append)
  have "(i, u) \<in> readers s1 \<and> content s2 = content s1 \<and> (i, v) \<notin> readers s2"
    using run(2) unfolding r by (rule deniedE) simp_all
  then have "content s2 i \<noteq> None" "(i, v) \<notin> readers s2"
    using mid_run_wf [OF run(1) assms(2)] unfolding spec_wf_def by auto
  then show ?thesis using that [OF run(3)] run(4,5) by simp
qed

subsection \<open>The simulation\<close>

context mid_stores
begin

text \<open>The rights are the tokens the key store holds, and every block holds its content, sealed.\<close>

definition mid_inv ::
    "('r, 'h) themis \<Rightarrow> (bytes \<Rightarrow> bytes \<Rightarrow> bool) \<Rightarrow> ('r, 'k, 'd, 'c) world \<Rightarrow> mid_spec \<Rightarrow> bool" where
  "mid_inv T key_pair w s \<longleftrightarrow> winv w \<and>
     readers s = dom (rt (key_state w)) \<and> writers s = dom (wt (key_state w)) \<and>
     (\<forall>i. case content s i of
        None \<Rightarrow> blk (data_state w) i = None \<and> (\<forall>u. rt (key_state w) (i, u) = None \<and> wt (key_state w) (i, u) = None)
      | Some (d, m) \<Rightarrow> \<exists>kr kw. state_at T key_pair w i kr kw d m)"

lemma mid_invD:
  assumes "mid_inv T key_pair w s"
  shows "winv w" "readers s = dom (rt (key_state w))" "writers s = dom (wt (key_state w))"
    "content s i = None \<Longrightarrow> blk (data_state w) i = None \<and>
       (\<forall>u. rt (key_state w) (i, u) = None \<and> wt (key_state w) (i, u) = None)"
    "content s i = Some (d, m) \<Longrightarrow> \<exists>kr kw. state_at T key_pair w i kr kw d m"
proof -
  show "winv w" "readers s = dom (rt (key_state w))" "writers s = dom (wt (key_state w))"
    using assms by (simp_all add: mid_inv_def)
  have i: "case content s i of
        None \<Rightarrow> blk (data_state w) i = None \<and> (\<forall>u. rt (key_state w) (i, u) = None \<and> wt (key_state w) (i, u) = None)
      | Some (d, m) \<Rightarrow> \<exists>kr kw. state_at T key_pair w i kr kw d m"
    using assms by (simp add: mid_inv_def)
  show "blk (data_state w) i = None \<and> (\<forall>u. rt (key_state w) (i, u) = None \<and> wt (key_state w) (i, u) = None)"
    if "content s i = None" using i that by simp
  show "\<exists>kr kw. state_at T key_pair w i kr kw d m" if "content s i = Some (d, m)"
    using i that by simp
qed

lemma state_at_iff:
  "state_at T key_pair w i kr kw d m \<longleftrightarrow> length kr = HM_TOKEN_LEN \<and> length kw = HM_TOKEN_LEN \<and>
     (\<exists>x. blk (data_state w) i = Some x \<and> sealed_as T kr kw d m x) \<and>
     opens_all T key_pair (pub (cred_state w)) (rt (key_state w)) i kr \<and>
     opens_all T key_pair (pub (cred_state w)) (wt (key_state w)) i kw"
  by (auto simp: state_at_def block_state_def sealed_as_def)

lemma opens_all_sub:
  assumes "opens_all T key_pair keys tm i k" "\<And>u. tm' (i, u) = None \<or> tm' (i, u) = tm (i, u)"
  shows "opens_all T key_pair keys tm' i k"
  unfolding opens_all_def
proof (intro allI impI)
  fix u t w pku assume "tm' (i, u) = Some (t, w)" "keys u = Some pku"
  with assms(2) [of u] assms(1) show "\<exists>pko. keys w = Some pko \<and> opens_for T key_pair pko t pku k"
    unfolding opens_all_def by auto
qed

lemma state_at_frame:
  assumes "state_at T key_pair w i kr kw d m" "cred_state w' = cred_state w"
    and "blk (data_state w') i = blk (data_state w) i"
    and "\<And>u. rt (key_state w') (i, u) = None \<or> rt (key_state w') (i, u) = rt (key_state w) (i, u)"
    and "\<And>u. wt (key_state w') (i, u) = None \<or> wt (key_state w') (i, u) = wt (key_state w) (i, u)"
  shows "state_at T key_pair w' i kr kw d m"
  using assms(1,2,3) opens_all_sub [of T key_pair _ "rt (key_state w)" i kr "rt (key_state w')", OF _ assms(4)]
    opens_all_sub [of T key_pair _ "wt (key_state w)" i kw "wt (key_state w')", OF _ assms(5)]
  unfolding state_at_iff by simp

lemma mid_inv_same:
  assumes "mid_inv T key_pair w s" "winv w'" "cred_state w' = cred_state w"
    and "blk (data_state w') = blk (data_state w)" "rt (key_state w') = rt (key_state w)"
    "wt (key_state w') = wt (key_state w)"
  shows "mid_inv T key_pair w' s"
  using assms(1,2) unfolding mid_inv_def state_at_def assms(3-6) by simp

lemma mid_inv_at:
  assumes "mid_inv T key_pair w s" "winv w'" "cred_state w' = cred_state w"
    and "state_at T key_pair w' i kr kw d m"
    and "\<And>j. j \<noteq> i \<Longrightarrow> blk (data_state w') j = blk (data_state w) j"
    and "\<And>j u. j \<noteq> i \<Longrightarrow> rt (key_state w') (j, u) = rt (key_state w) (j, u)"
    and "\<And>j u. j \<noteq> i \<Longrightarrow> wt (key_state w') (j, u) = wt (key_state w) (j, u)"
  shows "mid_inv T key_pair w' \<lparr>content = (content s)(i \<mapsto> (d, m)),
    readers = dom (rt (key_state w')), writers = dom (wt (key_state w'))\<rparr>"
  unfolding mid_inv_def
proof (intro conjI allI)
  fix j
  show "case content \<lparr>content = (content s)(i \<mapsto> (d, m)),
      readers = dom (rt (key_state w')), writers = dom (wt (key_state w'))\<rparr> j of
    None \<Rightarrow> blk (data_state w') j = None \<and> (\<forall>u. rt (key_state w') (j, u) = None \<and> wt (key_state w') (j, u) = None)
  | Some (d, m) \<Rightarrow> \<exists>kr kw. state_at T key_pair w' j kr kw d m"
  proof (cases "j = i")
    case True
    then show ?thesis using assms(4) by auto
  next
    case j: False
    show ?thesis
    proof (cases "content s j")
      case None
      then show ?thesis using mid_invD(4) [OF assms(1) None] assms(5-7) [OF j] j by simp
    next
      case (Some dm)
      obtain d' m' where dm: "dm = (d', m')" by force
      obtain kr' kw' where "state_at T key_pair w j kr' kw' d' m'"
        using mid_invD(5) [OF assms(1)] Some dm by blast
      then have "state_at T key_pair w' j kr' kw' d' m'"
        by (rule state_at_frame) (use assms(5-7) [OF j] in \<open>simp_all add: assms(3)\<close>)
      then show ?thesis using Some dm j by auto
    qed
  qed
qed (use assms(2) in simp_all)

text \<open>What \<open>u\<close> does to the block \<open>i\<close> is one step of the specification.\<close>

definition steps ::
    "('r, 'h) themis \<Rightarrow> (bytes \<Rightarrow> bytes \<Rightarrow> bool) \<Rightarrow> ('r, 'k, 'd, 'c) world \<Rightarrow> mid_spec \<Rightarrow> bytes \<Rightarrow> mid_op \<Rightarrow>
     (mid_res \<times> ('r, 'k, 'd, 'c) world) option \<Rightarrow> bool" where
  "steps T key_pair w s u op res \<longleftrightarrow> (\<exists>r w' s'. res = Some (r, w') \<and> cred_state w' = cred_state w \<and>
     mid_step s u op r s' \<and> mid_inv T key_pair w' s')"

lemma stepsI:
  "mid_inv T key_pair w' s' \<Longrightarrow> cred_state w' = cred_state w \<Longrightarrow> mid_step s u op r s' \<Longrightarrow>
   steps T key_pair w s u op (Some (r, w'))"
  unfolding steps_def by blast

lemma mid_inv_block:
  assumes "mid_inv T key_pair w s" "rt (key_state w) (i, u) \<noteq> None \<or> wt (key_state w) (i, u) \<noteq> None"
  obtains d m kr kw where "content s i = Some (d, m)" "state_at T key_pair w i kr kw d m"
proof -
  obtain d m where c: "content s i = Some (d, m)"
    using mid_invD(4) [OF assms(1)] assms(2) by (cases "content s i") auto
  then show ?thesis using that mid_invD(5) [OF assms(1) c] by blast
qed

lemma step_read:
  assumes "mid_inv T key_pair w s" "acting key_pair w u sk pk" "bid_ok i"
  shows "steps T key_pair w s u (MRead i) (mid_exec T (Some (stores (local_user u sk pk))) (MRead i) w)"
proof (cases "rt (key_state w) (i, u) = None")
  case True
  then show ?thesis
    using mid_invD(2) [OF assms(1)] assms(1)
    by (auto simp: act_map_run read_denied [OF assms(2,3) True] intro!: stepsI mid_step.read_denied)
next
  case False
  then obtain d m kr kw where "content s i = Some (d, m)" "state_at T key_pair w i kr kw d m"
    using mid_inv_block [OF assms(1)] by blast
  then show ?thesis
    using mid_invD(2) [OF assms(1)] assms(1) False
    by (auto simp: act_map_run read_run [OF assms(2,3) _ False] intro!: stepsI mid_step.read)
qed

definition crypto_ok :: "('r, 'h) themis \<Rightarrow> (bytes \<Rightarrow> bytes \<Rightarrow> bool) \<Rightarrow> (bytes \<Rightarrow> bool) \<Rightarrow> bool" where
  "crypto_ok T key_pair plain_ok \<longleftrightarrow>
     works T key_pair \<and> themis_laws T key_pair \<and> outputs_ok T tok_ok plain_ok dat_ok"

lemma spec_upd:
  "s\<lparr>content := c\<rparr> = \<lparr>content = c, readers = readers s, writers = writers s\<rparr>"
  "s\<lparr>readers := r\<rparr> = \<lparr>content = content s, readers = r, writers = writers s\<rparr>"
  "s\<lparr>writers := x\<rparr> = \<lparr>content = content s, readers = readers s, writers = x\<rparr>" for s :: mid_spec
  by simp_all

lemma state_at_updated:
  assumes "state_at T key_pair w i kr kw d m" "sealed_as T kr kw d' m' x" "cred_state w' = cred_state w"
    and "blk (data_state w') i = Some x" "rt (key_state w') = rt (key_state w)" "wt (key_state w') = wt (key_state w)"
  shows "state_at T key_pair w' i kr kw d' m'"
  using assms unfolding state_at_iff by simp

lemma step_update:
  assumes "mid_inv T key_pair w s" "acting key_pair w u sk pk" "crypto_ok T key_pair plain_ok"
    and "bid_ok i" "plain_ok d'" "d' \<noteq> []" "dat_ok m'"
  shows "steps T key_pair w s u (MUpdate i d' m') (mid_exec T (Some (stores (local_user u sk pk))) (MUpdate i d' m') w)"
proof (cases "rt (key_state w) (i, u) = None \<or> wt (key_state w) (i, u) = None")
  case True
  have "mid_hermes_update_block T (Some (stores (local_user u sk pk))) (Some i) (Some d') (Some m') w = Some (1, w)"
  proof (cases "rt (key_state w) (i, u) = None")
    case True
    then show ?thesis
      using with_loaded_denied [OF assms(2,4) True] bid_present [OF assms(4)] assms(6) dat_nonempty [OF assms(7)]
      by (simp add: mid_hermes_update_block_def Let_def)
  next
    case False
    with True have wt: "wt (key_state w) (i, u) = None" by simp
    obtain d m kr kw where "state_at T key_pair w i kr kw d m"
      by (rule mid_inv_block [OF assms(1) disjI1 [OF False]])
    from update_denied [OF assms(2,4) this wt assms(6) dat_nonempty [OF assms(7)]] show ?thesis .
  qed
  then show ?thesis
    using assms(1) by (auto simp: act_map_run HM_SUCCESS_def intro!: stepsI mid_step.update_failed)
next
  case False
  then have ne: "rt (key_state w) (i, u) \<noteq> None" "wt (key_state w) (i, u) \<noteq> None" by simp_all
  obtain d m kr kw where c: "content s i = Some (d, m)" "state_at T key_pair w i kr kw d m"
    by (rule mid_inv_block [OF assms(1) disjI1 [OF ne(1)]])
  have T: "works T key_pair" "themis_laws T key_pair" "outputs_ok T tok_ok plain_ok dat_ok"
    using assms(3) by (simp_all add: crypto_ok_def)
  obtain tr o1 tw o2 where held: "rt (key_state w) (i, u) = Some (tr, o1)" "wt (key_state w) (i, u) = Some (tw, o2)"
    using ne by (metis not_None_eq old.prod.exhaust)
  obtain st w' where run:
    "mid_hermes_update_block T (Some (stores (local_user u sk pk))) (Some i) (Some d') (Some m') w = Some (st, w')"
    and w': "winv w'" "cred_state w' = cred_state w" "rt (key_state w') = rt (key_state w)"
    "wt (key_state w') = wt (key_state w)"
    and d: "blk (data_state w') = blk (data_state w) \<and> st \<noteq> HM_SUCCESS \<or>
     (\<exists>x. blk (data_state w') = (blk (data_state w))(i \<mapsto> x) \<and> sealed_as T kr kw d' m' x)"
    by (rule update_run [OF assms(2,4) c(2) held T assms(5,6,7)])
  have st: "\<exists>s'. mid_step s u (MUpdate i d' m') (MStatus st) s' \<and> mid_inv T key_pair w' s'"
  proof (cases "blk (data_state w') = blk (data_state w) \<and> st \<noteq> HM_SUCCESS")
    case True
    then show ?thesis using mid_inv_same [OF assms(1) w'(1,2) _ w'(3,4)] by (blast intro: mid_step.update_failed)
  next
    case upd: False
    then obtain x where x: "blk (data_state w') = (blk (data_state w))(i \<mapsto> x)" "sealed_as T kr kw d' m' x"
      using d by blast
    have at: "state_at T key_pair w' i kr kw d' m'"
      by (rule state_at_updated [OF c(2) x(2) w'(2) _ w'(3,4)]) (simp add: x(1))
    have "mid_inv T key_pair w' \<lparr>content = (content s)(i \<mapsto> (d', m')),
        readers = dom (rt (key_state w')), writers = dom (wt (key_state w'))\<rparr>"
      by (rule mid_inv_at [OF assms(1) w'(1,2) at]) (simp_all add: x(1) w'(3,4))
    moreover have "mid_step s u (MUpdate i d' m') (MStatus st) (s\<lparr>content := (content s)(i \<mapsto> (d', m'))\<rparr>)"
      using False mid_invD(2,3) [OF assms(1)] by (auto intro!: mid_step.update)
    ultimately show ?thesis
      using mid_invD(2,3) [OF assms(1)] w'(3,4) by (auto simp: spec_upd)
  qed
  then show ?thesis using run w'(2) by (auto simp: act_map_run intro: stepsI)
qed

lemma mid_inv_new:
  assumes "mid_inv T key_pair w s" "blk (data_state w) i = None"
  shows "content s i = None" "rt (key_state w) (i, u) = None" "wt (key_state w) (i, u) = None"
proof -
  show c: "content s i = None"
  proof (cases "content s i")
    case (Some dm)
    then obtain d m kr kw where "state_at T key_pair w i kr kw d m"
      using mid_invD(5) [OF assms(1), of i "fst dm" "snd dm"] by auto
    then show ?thesis using assms(2) by (auto simp: state_at_iff)
  qed simp
  show "rt (key_state w) (i, u) = None" "wt (key_state w) (i, u) = None"
    using mid_invD(4) [OF assms(1) c] by simp_all
qed

lemma opens_all_none: "(\<And>u. tm (i, u) = None) \<Longrightarrow> opens_all T key_pair keys tm i k"
  by (simp add: opens_all_def)

lemma created_state:
  assumes "mid_inv T key_pair w s" "acting key_pair w u sk pk" "created T key_pair u pk d m w w' i ok"
    and "cred_state w' = cred_state w"
  shows "\<exists>kr kw. state_at T key_pair w' i kr kw d m"
proof -
  obtain kr kw tr tw x where x: "blk (data_state w) i = None" "blk (data_state w') = (blk (data_state w))(i \<mapsto> x)"
      "sealed_as T kr kw d m x" "length kr = HM_TOKEN_LEN" "length kw = HM_TOKEN_LEN"
      "opens_for T key_pair pk tr pk kr" "opens_for T key_pair pk tw pk kw"
    and keys: "rt (key_state w') = rt (key_state w) \<and> wt (key_state w') = wt (key_state w) \<and> \<not> ok \<or>
      rt (key_state w') = (rt (key_state w))((i, u) \<mapsto> (tr, u)) \<and> wt (key_state w') = wt (key_state w) \<and> \<not> ok \<or>
      rt (key_state w') = (rt (key_state w))((i, u) \<mapsto> (tr, u)) \<and>
        wt (key_state w') = (wt (key_state w))((i, u) \<mapsto> (tw, u)) \<and> ok"
    using assms(3) unfolding created_def by blast
  have pub: "pub (cred_state w) u = Some pk" using actingD(8) [OF assms(2)] .
  have r0: "opens_all T key_pair (pub (cred_state w)) (rt (key_state w)) i kr"
    and w0: "opens_all T key_pair (pub (cred_state w)) (wt (key_state w)) i kw"
    using mid_inv_new(2,3) [OF assms(1) x(1)] by (auto intro: opens_all_none)
  have r1: "opens_all T key_pair (pub (cred_state w)) ((rt (key_state w))((i, u) \<mapsto> (tr, u))) i kr"
    by (rule opens_all_upd [OF r0]) (use pub x(6) in simp)
  have w1: "opens_all T key_pair (pub (cred_state w)) ((wt (key_state w))((i, u) \<mapsto> (tw, u))) i kw"
    by (rule opens_all_upd [OF w0]) (use pub x(7) in simp)
  have "opens_all T key_pair (pub (cred_state w)) (rt (key_state w')) i kr"
    "opens_all T key_pair (pub (cred_state w)) (wt (key_state w')) i kw"
    using keys r0 r1 w0 w1 by metis+
  then have "state_at T key_pair w' i kr kw d m" using x(2-5) assms(4) unfolding state_at_iff by simp
  then show ?thesis by blast
qed

text \<open>A created block, and what the specification says of it.\<close>

lemma created_step:
  assumes "mid_inv T key_pair w s" "acting key_pair w u sk pk" "winv w'" "cred_state w' = cred_state w"
    and "created T key_pair u pk d m w w' i ok"
  obtains s' where "mid_inv T key_pair w' s'"
    "mid_step s u (MCreate d m) (MId (if ok then (HM_SUCCESS, Some i) else (HM_FAIL, None))) s'"
    "content s i = None" "content s' = (content s)(i \<mapsto> (d, m))"
    "ok \<Longrightarrow> readers s' = insert (i, u) (readers s) \<and> writers s' = insert (i, u) (writers s)"
proof -
  have new: "blk (data_state w) i = None" using assms(5) by (simp add: created_def)
  obtain tr tw x where x: "blk (data_state w') = (blk (data_state w))(i \<mapsto> x)"
    and keys: "rt (key_state w') = rt (key_state w) \<and> wt (key_state w') = wt (key_state w) \<and> \<not> ok \<or>
      rt (key_state w') = (rt (key_state w))((i, u) \<mapsto> (tr, u)) \<and> wt (key_state w') = wt (key_state w) \<and> \<not> ok \<or>
      rt (key_state w') = (rt (key_state w))((i, u) \<mapsto> (tr, u)) \<and>
        wt (key_state w') = (wt (key_state w))((i, u) \<mapsto> (tw, u)) \<and> ok"
    using assms(5) unfolding created_def by blast
  obtain kr kw where at: "state_at T key_pair w' i kr kw d m"
    using created_state [OF assms(1,2,5,4)] by blast
  let ?s = "\<lparr>content = (content s)(i \<mapsto> (d, m)), readers = dom (rt (key_state w')), writers = dom (wt (key_state w'))\<rparr>"
  have inv: "mid_inv T key_pair w' ?s"
    by (rule mid_inv_at [OF assms(1,3,4) at]) (use x keys in auto)
  note fresh = mid_inv_new(1) [OF assms(1) new]
  show ?thesis
  proof (cases ok)
    case True
    then have s: "?s = \<lparr>content = (content s)(i \<mapsto> (d, m)), readers = insert (i, u) (readers s),
        writers = insert (i, u) (writers s)\<rparr>"
      using keys mid_invD(2,3) [OF assms(1)] by auto
    show ?thesis using that [OF inv] True fresh mid_step.create [OF fresh] unfolding s by simp
  next
    case False
    define R where "R = (if rt (key_state w') = rt (key_state w) then {} else {(i, u)})"
    have "rt (key_state w') = rt (key_state w) \<and> wt (key_state w') = wt (key_state w) \<or>
      rt (key_state w') = (rt (key_state w))((i, u) \<mapsto> (tr, u)) \<and> wt (key_state w') = wt (key_state w)"
      using keys False by blast
    then have "dom (rt (key_state w')) = readers s \<union> R" "dom (wt (key_state w')) = writers s"
      using mid_invD(2,3) [OF assms(1)] by (auto simp: R_def)
    then have s: "?s = s\<lparr>content := (content s)(i \<mapsto> (d, m)), readers := readers s \<union> R\<rparr>" by simp
    have "R = {} \<or> R = {(i, u)}" by (simp add: R_def)
    then show ?thesis
      using that [OF inv] False fresh mid_step.create_half [OF _ fresh, of HM_FAIL R] unfolding s by simp
  qed
qed

lemma step_create:
  assumes "mid_inv T key_pair w s" "acting key_pair w u sk pk" "crypto_ok T key_pair plain_ok"
    and "plain_ok d" "d \<noteq> []" "dat_ok m"
  shows "steps T key_pair w s u (MCreate d m) (mid_exec T (Some (stores (local_user u sk pk))) (MCreate d m) w)"
proof -
  have T: "works T key_pair" "themis_laws T key_pair" "outputs_ok T tok_ok plain_ok dat_ok"
    using assms(3) by (simp_all add: crypto_ok_def)
  show ?thesis
  proof (rule create_run [OF assms(2) T assms(4,5,6)])
    fix st w' assume run: "mid_hermes_create_block T (Some (stores (local_user u sk pk))) None (Some d) (Some m) w =
        Some ((st, None), w')" and w': "winv w'" "cred_state w' = cred_state w" "st \<noteq> HM_SUCCESS"
      "key_state w' = key_state w" "blk (data_state w') = blk (data_state w)"
    have "mid_inv T key_pair w' s" by (rule mid_inv_same [OF assms(1) w'(1,2,5)]) (simp_all add: w'(4))
    then show ?thesis using run w'(2,3) by (auto simp: act_map_run intro!: stepsI mid_step.create_failed)
  next
    fix i ok w' assume run: "mid_hermes_create_block T (Some (stores (local_user u sk pk))) None (Some d) (Some m) w =
        Some (if ok then (HM_SUCCESS, Some i) else (HM_FAIL, None), w')" "winv w'"
      and w': "cred_state w' = cred_state w" "created T key_pair u pk d m w w' i ok"
    obtain s' where "mid_inv T key_pair w' s'"
      "mid_step s u (MCreate d m) (MId (if ok then (HM_SUCCESS, Some i) else (HM_FAIL, None))) s'"
      by (rule created_step [OF assms(1,2) run(2) w'])
    then show ?thesis using run(1) w'(1) by (auto simp: act_map_run intro: stepsI)
  qed
qed

subsubsection \<open>Rights\<close>

text \<open>Tokens of one block change, its stored form does not.\<close>

lemma mid_inv_tokens:
  assumes "mid_inv T key_pair w s" "winv w'" "cred_state w' = cred_state w" "data_state w' = data_state w"
    and "content s i = Some (d, m)" "state_at T key_pair w i kr kw d m"
    and "opens_all T key_pair (pub (cred_state w)) (rt (key_state w')) i kr"
    and "opens_all T key_pair (pub (cred_state w)) (wt (key_state w')) i kw"
    and "\<And>j u. j \<noteq> i \<Longrightarrow> rt (key_state w') (j, u) = rt (key_state w) (j, u)"
    and "\<And>j u. j \<noteq> i \<Longrightarrow> wt (key_state w') (j, u) = wt (key_state w) (j, u)"
  shows "mid_inv T key_pair w' (s\<lparr>readers := dom (rt (key_state w')), writers := dom (wt (key_state w'))\<rparr>)"
proof -
  have "state_at T key_pair w' i kr kw d m"
    using assms(3,4,6,7,8) unfolding state_at_iff by simp
  from mid_inv_at [OF assms(1-3) this _ assms(9,10)]
  have "mid_inv T key_pair w' \<lparr>content = (content s)(i \<mapsto> (d, m)), readers = dom (rt (key_state w')),
      writers = dom (wt (key_state w'))\<rparr>"
    by (simp add: assms(4))
  then show ?thesis using assms(5) by (simp add: fun_upd_idem spec_upd)
qed

lemma state_at_opens:
  assumes "state_at T key_pair w i kr kw d m"
  shows "opens_all T key_pair (pub (cred_state w)) (rt (key_state w)) i kr"
    and "opens_all T key_pair (pub (cred_state w)) (wt (key_state w)) i kw"
  using assms by (simp_all add: state_at_iff)

lemma step_grant_read:
  assumes "mid_inv T key_pair w s" "acting key_pair w u sk pk" "crypto_ok T key_pair plain_ok" "bid_ok i" "uid_ok v"
  shows "steps T key_pair w s u (MGrantRead i v) (mid_exec T (Some (stores (local_user u sk pk))) (MGrantRead i v) w)"
proof (cases "rt (key_state w) (i, u) = None")
  case True
  have "mid_hermes_grant_read_access T (Some (stores (local_user u sk pk))) (Some i) (Some v) w = Some (HM_FAIL, w)"
    unfolding mid_hermes_grant_read_access_def by (rule change_access_denied [OF assms(2,4,5) True])
  then show ?thesis using assms(1) by (auto simp: act_map_run intro!: stepsI mid_step.grant_read_failed)
next
  case False
  obtain d m kr kw where c: "content s i = Some (d, m)" "state_at T key_pair w i kr kw d m"
    by (rule mid_inv_block [OF assms(1) disjI1 [OF False]])
  have T: "themis_laws T key_pair" "outputs_ok T tok_ok plain_ok dat_ok"
    using assms(3) by (simp_all add: crypto_ok_def)
  obtain st w' where run:
    "mid_hermes_grant_read_access T (Some (stores (local_user u sk pk))) (Some i) (Some v) w = Some (st, w')"
    and w': "winv w'" "cred_state w' = cred_state w" "data_state w' = data_state w" "wt (key_state w') = wt (key_state w)"
    and r: "rt (key_state w') = rt (key_state w) \<and> st \<noteq> HM_SUCCESS \<or>
     (\<exists>t pkv. pub (cred_state w) v = Some pkv \<and> opens_for T key_pair pk t pkv kr \<and>
        rt (key_state w') = (rt (key_state w))((i, v) \<mapsto> (t, u)) \<and> st = HM_SUCCESS)"
    by (rule grant_read_run [OF assms(2,4,5) c(2) False T])
  from r show ?thesis
  proof (elim disjE exE conjE)
    assume "rt (key_state w') = rt (key_state w)" "st \<noteq> HM_SUCCESS"
    then show ?thesis
      using run w' mid_inv_same [OF assms(1) w'(1,2)]
      by (auto simp: act_map_run intro!: stepsI mid_step.grant_read_failed)
  next
    fix t pkv assume t: "pub (cred_state w) v = Some pkv" "opens_for T key_pair pk t pkv kr"
      "rt (key_state w') = (rt (key_state w))((i, v) \<mapsto> (t, u))" "st = HM_SUCCESS"
    have "opens_all T key_pair (pub (cred_state w)) (rt (key_state w')) i kr"
      unfolding t(3) by (rule opens_all_upd [OF state_at_opens(1) [OF c(2)]]) (use t actingD(8) [OF assms(2)] in simp)
    moreover have "opens_all T key_pair (pub (cred_state w)) (wt (key_state w')) i kw"
      unfolding w'(4) by (rule state_at_opens(2) [OF c(2)])
    ultimately have "mid_inv T key_pair w' (s\<lparr>readers := dom (rt (key_state w')), writers := dom (wt (key_state w'))\<rparr>)"
      by (rule mid_inv_tokens [OF assms(1) w'(1-3) c]) (simp_all add: t(3) w'(4))
    moreover have "s\<lparr>readers := dom (rt (key_state w')), writers := dom (wt (key_state w'))\<rparr> =
        s\<lparr>readers := insert (i, v) (readers s)\<rparr>"
      using mid_invD(2,3) [OF assms(1)] t(3) w'(4) by (simp add: spec_upd)
    moreover have "(i, u) \<in> readers s" using False mid_invD(2) [OF assms(1)] by auto
    ultimately show ?thesis
      using run w'(2) t(4) by (auto simp: act_map_run intro!: stepsI mid_step.grant_read)
  qed
qed

lemma no_rights_denied:
  assumes "mid_inv T key_pair w s" "acting key_pair w u sk pk" "bid_ok i" "uid_ok v"
    and "rt (key_state w) (i, u) = None \<or> wt (key_state w) (i, u) = None"
  shows "change_access T (Some (stores (local_user u sk pk))) (Some i) (Some v) (mid_hermes_ll_block_wtoken_for T) ch w =
    Some (HM_FAIL, w)"
proof (cases "rt (key_state w) (i, u) = None")
  case True
  then show ?thesis by (rule change_access_denied [OF assms(2-4)])
next
  case False
  obtain d m kr kw where "state_at T key_pair w i kr kw d m"
    by (rule mid_inv_block [OF assms(1) disjI1 [OF False]])
  then show ?thesis using assms(5) False no_wtoken_denied [OF assms(2-4)] by blast
qed

lemma step_grant_update:
  assumes "mid_inv T key_pair w s" "acting key_pair w u sk pk" "crypto_ok T key_pair plain_ok" "bid_ok i" "uid_ok v"
  shows "steps T key_pair w s u (MGrantUpdate i v) (mid_exec T (Some (stores (local_user u sk pk))) (MGrantUpdate i v) w)"
proof (cases "rt (key_state w) (i, u) = None \<or> wt (key_state w) (i, u) = None")
  case True
  have "mid_hermes_grant_update_access T (Some (stores (local_user u sk pk))) (Some i) (Some v) w = Some (HM_FAIL, w)"
    unfolding mid_hermes_grant_update_access_def by (rule no_rights_denied [OF assms(1,2,4,5) True])
  then show ?thesis using assms(1) by (auto simp: act_map_run intro!: stepsI mid_step.grant_update_failed)
next
  case False
  then have ne: "rt (key_state w) (i, u) \<noteq> None" "wt (key_state w) (i, u) \<noteq> None" by simp_all
  obtain d m kr kw where c: "content s i = Some (d, m)" "state_at T key_pair w i kr kw d m"
    by (rule mid_inv_block [OF assms(1) disjI1 [OF ne(1)]])
  have T: "themis_laws T key_pair" "outputs_ok T tok_ok plain_ok dat_ok"
    using assms(3) by (simp_all add: crypto_ok_def)
  obtain st w' where run:
    "mid_hermes_grant_update_access T (Some (stores (local_user u sk pk))) (Some i) (Some v) w = Some (st, w')"
    and w': "winv w'" "cred_state w' = cred_state w" "data_state w' = data_state w" "rt (key_state w') = rt (key_state w)"
    and r: "wt (key_state w') = wt (key_state w) \<and> st \<noteq> HM_SUCCESS \<or>
     (\<exists>t pkv. pub (cred_state w) v = Some pkv \<and> opens_for T key_pair pk t pkv kw \<and>
        wt (key_state w') = (wt (key_state w))((i, v) \<mapsto> (t, u)) \<and> st = HM_SUCCESS)"
    by (rule grant_update_run [OF assms(2,4,5) c(2) ne T])
  from r show ?thesis
  proof (elim disjE exE conjE)
    assume "wt (key_state w') = wt (key_state w)" "st \<noteq> HM_SUCCESS"
    then show ?thesis
      using run w' mid_inv_same [OF assms(1) w'(1,2)]
      by (auto simp: act_map_run intro!: stepsI mid_step.grant_update_failed)
  next
    fix t pkv assume t: "pub (cred_state w) v = Some pkv" "opens_for T key_pair pk t pkv kw"
      "wt (key_state w') = (wt (key_state w))((i, v) \<mapsto> (t, u))" "st = HM_SUCCESS"
    have "opens_all T key_pair (pub (cred_state w)) (rt (key_state w')) i kr"
      unfolding w'(4) by (rule state_at_opens(1) [OF c(2)])
    moreover have "opens_all T key_pair (pub (cred_state w)) (wt (key_state w')) i kw"
      unfolding t(3) by (rule opens_all_upd [OF state_at_opens(2) [OF c(2)]]) (use t actingD(8) [OF assms(2)] in simp)
    ultimately have "mid_inv T key_pair w' (s\<lparr>readers := dom (rt (key_state w')), writers := dom (wt (key_state w'))\<rparr>)"
      by (rule mid_inv_tokens [OF assms(1) w'(1-3) c]) (simp_all add: t(3) w'(4))
    moreover have "s\<lparr>readers := dom (rt (key_state w')), writers := dom (wt (key_state w'))\<rparr> =
        s\<lparr>writers := insert (i, v) (writers s)\<rparr>"
      using mid_invD(2,3) [OF assms(1)] t(3) w'(4) by (simp add: spec_upd)
    moreover have "(i, u) \<in> readers s" "(i, u) \<in> writers s" using ne mid_invD(2,3) [OF assms(1)] by auto
    ultimately show ?thesis
      using run w'(2) t(4) by (auto simp: act_map_run intro!: stepsI mid_step.grant_update)
  qed
qed

lemma lost_opens_all:
  "opens_all T key_pair keys tm i k \<Longrightarrow> lost_at p tm tm' \<Longrightarrow> opens_all T key_pair keys tm' i k"
  by (erule opens_all_sub) (metis lost_at_def)

lemma lost_dom: "lost_at p tm tm' \<Longrightarrow> lost_from p (dom tm) (dom tm')"
  unfolding lost_at_def lost_from_def by (auto simp: dom_def; metis option.distinct(1))

lemma step_deny_run:
  assumes "mid_inv T key_pair w s" "acting key_pair w u sk pk" "crypto_ok T key_pair plain_ok" "bid_ok i" "uid_ok v"
  obtains
    (failed) "change_access T (Some (stores (local_user u sk pk))) (Some i) (Some v) (mid_hermes_ll_block_wtoken_for T)
       (\<lambda>bl for_user token. mid_hermes_ll_token_del for_user (bl_user bl) (bl_id bl)
          (mh_ks (the (Some (stores (local_user u sk pk))))) is_update) w = Some (HM_FAIL, w)"
  | (denied) st w' R W where
      "change_access T (Some (stores (local_user u sk pk))) (Some i) (Some v) (mid_hermes_ll_block_wtoken_for T)
       (\<lambda>bl for_user token. mid_hermes_ll_token_del for_user (bl_user bl) (bl_id bl)
          (mh_ks (the (Some (stores (local_user u sk pk))))) is_update) w = Some (st, w')"
      "(i, u) \<in> readers s" "(i, u) \<in> writers s" "lost_from (i, v) (readers s) R" "lost_from (i, v) (writers s) W"
      "st = HM_SUCCESS \<longrightarrow> (if is_update then (i, v) \<notin> W else (i, v) \<notin> R)"
      "mid_inv T key_pair w' (s\<lparr>readers := R, writers := W\<rparr>)" "cred_state w' = cred_state w"
proof (cases "rt (key_state w) (i, u) = None \<or> wt (key_state w) (i, u) = None")
  case True
  then show ?thesis by (intro failed no_rights_denied [OF assms(1,2,4,5)])
next
  case False
  then have ne: "rt (key_state w) (i, u) \<noteq> None" "wt (key_state w) (i, u) \<noteq> None" by simp_all
  obtain d m kr kw where c: "content s i = Some (d, m)" "state_at T key_pair w i kr kw d m"
    by (rule mid_inv_block [OF assms(1) disjI1 [OF ne(1)]])
  have T: "themis_laws T key_pair" "outputs_ok T tok_ok plain_ok dat_ok"
    using assms(3) by (simp_all add: crypto_ok_def)
  obtain st w' where run: "change_access T (Some (stores (local_user u sk pk))) (Some i) (Some v)
       (mid_hermes_ll_block_wtoken_for T) (\<lambda>bl for_user token. mid_hermes_ll_token_del for_user (bl_user bl) (bl_id bl)
          (mh_ks (the (Some (stores (local_user u sk pk))))) is_update) w = Some (st, w')"
    and w': "winv w'" "cred_state w' = cred_state w" "data_state w' = data_state w"
    and lost: "lost_at (i, v) (rt (key_state w)) (rt (key_state w'))" "lost_at (i, v) (wt (key_state w)) (wt (key_state w'))"
    and st: "st = HM_SUCCESS \<longrightarrow> (if is_update then wt (key_state w') (i, v) = None else rt (key_state w') (i, v) = None)"
    by (rule deny_run [OF assms(2,4,5) c(2) ne T, where is_update = is_update])
  have "mid_inv T key_pair w' (s\<lparr>readers := dom (rt (key_state w')), writers := dom (wt (key_state w'))\<rparr>)"
    by (rule mid_inv_tokens [OF assms(1) w' c lost_opens_all [OF state_at_opens(1) [OF c(2)] lost(1)]
          lost_opens_all [OF state_at_opens(2) [OF c(2)] lost(2)]])
      (use lost in \<open>simp_all add: lost_at_def\<close>)
  moreover have "lost_from (i, v) (readers s) (dom (rt (key_state w')))" "lost_from (i, v) (writers s) (dom (wt (key_state w')))"
    "(i, u) \<in> readers s" "(i, u) \<in> writers s"
    using lost_dom [OF lost(1)] lost_dom [OF lost(2)] ne mid_invD(2,3) [OF assms(1)] by auto
  moreover have "st = HM_SUCCESS \<longrightarrow> (if is_update then (i, v) \<notin> dom (wt (key_state w')) else (i, v) \<notin> dom (rt (key_state w')))"
    using st by auto
  ultimately show ?thesis using denied [OF run] w'(2) by blast
qed

lemma step_deny_read:
  assumes "mid_inv T key_pair w s" "acting key_pair w u sk pk" "crypto_ok T key_pair plain_ok" "bid_ok i" "uid_ok v"
  shows "steps T key_pair w s u (MDenyRead i v) (mid_exec T (Some (stores (local_user u sk pk))) (MDenyRead i v) w)"
  by (rule step_deny_run [OF assms, where is_update = False])
    (use assms(1) in \<open>auto simp: act_map_run mid_hermes_deny_read_access_def
      intro!: stepsI mid_step.deny_read_failed mid_step.deny_read\<close>)

lemma step_deny_update:
  assumes "mid_inv T key_pair w s" "acting key_pair w u sk pk" "crypto_ok T key_pair plain_ok" "bid_ok i" "uid_ok v"
  shows "steps T key_pair w s u (MDenyUpdate i v) (mid_exec T (Some (stores (local_user u sk pk))) (MDenyUpdate i v) w)"
  by (rule step_deny_run [OF assms, where is_update = True])
    (use assms(1) in \<open>auto simp: act_map_run mid_hermes_deny_update_access_def
      intro!: stepsI mid_step.deny_update_failed mid_step.deny_update\<close>)

subsubsection \<open>Programs\<close>

lemma mid_created:
  assumes "acting key_pair w u sk pk"
  shows "mid_hermes_create_with_services (Some u) (Some sk) (Some ks) (Some ds) (Some cs) w =
    Some (Some (stores (local_user u sk pk)), w)"
proof -
  note a = actingD [OF assms]
  have "mid_hermes_ll_user_load (Some (mid_hermes_ll_buffer_create (Some u))) (Some cs) (cred_state w) =
      Some (Some (remote_user u pk), cred_state w)"
    using user_load [OF winvD(1) [OF a(1)] a(2)] a(4,8)
    by (simp add: mid_hermes_ll_user_load_c_def)
  then show ?thesis
    using a(4,5)
    by (simp add: mid_hermes_create_with_services_def mid_hermes_ll_local_user_load_c_def act_simps stores_def
        local_user_def mid_hermes_ll_buffer_create_def)
qed

definition caller_ok ::
    "(bytes \<Rightarrow> bytes \<Rightarrow> bool) \<Rightarrow> (bytes \<Rightarrow> bool) \<Rightarrow> (bytes \<Rightarrow> bytes) \<Rightarrow> 'c \<Rightarrow> bytes \<times> mid_op \<Rightarrow> bool" where
  "caller_ok key_pair plain_ok sks c = (\<lambda>(u, op). uid_ok u \<and> mid_op_ok bid_ok uid_ok plain_ok dat_ok op \<and>
     (\<exists>pk. known key_pair (pub c) u (sks u) pk))"

lemma refines_step:
  assumes "mid_inv T key_pair w s" "crypto_ok T key_pair plain_ok"
    and "caller_ok key_pair plain_ok sks (cred_state w) (u, op)"
  shows "steps T key_pair w s u op (mid_as T ks ds cs sks u op w)"
proof -
  obtain pk where pk: "acting key_pair w u (sks u) pk"
    using assms(3) mid_invD(1) [OF assms(1)] by (auto simp: caller_ok_def acting_def)
  have ok: "mid_op_ok bid_ok uid_ok plain_ok dat_ok op" using assms(3) by (simp add: caller_ok_def)
  have "steps T key_pair w s u op (mid_exec T (Some (stores (local_user u (sks u) pk))) op w)"
    using ok step_create [OF assms(1) pk assms(2)] step_read [OF assms(1) pk] step_update [OF assms(1) pk assms(2)]
      step_grant_read [OF assms(1) pk assms(2)] step_grant_update [OF assms(1) pk assms(2)]
      step_deny_read [OF assms(1) pk assms(2)] step_deny_update [OF assms(1) pk assms(2)]
    by (cases op) (simp_all del: mid_exec.simps)
  then show ?thesis using mid_created [OF pk] by (simp add: mid_as_def act_bind_run)
qed

lemma refines:
  assumes "mid_inv T key_pair w s" "crypto_ok T key_pair plain_ok"
    and "list_all (caller_ok key_pair plain_ok sks (cred_state w)) ops"
  shows "\<exists>rs w' s'. mid_program T ks ds cs sks ops w = Some (rs, w') \<and> cred_state w' = cred_state w \<and>
    mid_run s ops rs s' \<and> mid_inv T key_pair w' s'"
  using assms
proof (induction ops arbitrary: w s)
  case Nil
  then show ?case by (auto intro: mid_run.stop)
next
  case (Cons uop ops)
  obtain u op where uop: "uop = (u, op)" by force
  obtain r w1 s1 where r: "mid_as T ks ds cs sks u op w = Some (r, w1)" "cred_state w1 = cred_state w"
      "mid_step s u op r s1" "mid_inv T key_pair w1 s1"
    using refines_step [OF Cons.prems(1,2)] Cons.prems(3) uop unfolding steps_def by fastforce
  obtain rs w' s' where "mid_program T ks ds cs sks ops w1 = Some (rs, w')" "cred_state w' = cred_state w1"
      "mid_run s1 ops rs s'" "mid_inv T key_pair w' s'"
    using Cons.IH [OF r(4) Cons.prems(2)] Cons.prems(3) r(2) by auto
  then show ?case using r uop by (auto simp: act_bind_run act_map_run intro: mid_run.step)
qed

end

end
