(* ===== verification/Mid_Live.thy ===== *)
theory Mid_Live
  imports Mid_Spec
begin

section \<open>When the operations succeed\<close>

text \<open>
  The refinement of \<open>Mid_Spec\<close> allows every operation to fail.  Here, when Themis works, ids have the
  length the stores want, the data fits and the data store has a fresh id, the operations of those
  who hold the rights succeed: \<open>create_live\<close>, \<open>grant_read_live\<close> and so on, each a run of one
  operation, which \<open>runs_append\<close> puts together to programs.  \<open>update_live\<close> also says when an update
  reports a failure although the data store has the new data.
\<close>

lemma mid_program_append:
  "mid_program T ks ds cs sks (xs @ ys) w =
    (case mid_program T ks ds cs sks xs w of None \<Rightarrow> None
     | Some (rs, w) \<Rightarrow> map_option (apfst ((@) rs)) (mid_program T ks ds cs sks ys w))"
proof (induction xs arbitrary: w)
  case Nil
  then show ?case by (cases "mid_program T ks ds cs sks ys w") (auto simp: apfst_def)
next
  case (Cons x xs)
  obtain u op where x: "x = (u, op)" by force
  show ?case
    unfolding x by (cases "mid_as T ks ds cs sks u op w")
      (auto simp: act_bind_run act_map_run Cons.IH option.map_comp o_def apfst_def map_prod_def case_prod_unfold
        split: option.splits)
qed

context mid_stores
begin

definition runs ::
    "('r, 'h) themis \<Rightarrow> (bytes \<Rightarrow> bytes \<Rightarrow> bool) \<Rightarrow> (bytes \<Rightarrow> bytes) \<Rightarrow> ('r, 'k, 'd, 'c) world \<Rightarrow> (bytes \<times> mid_op) list \<Rightarrow>
     mid_res list \<Rightarrow> ('r, 'k, 'd, 'c) world \<Rightarrow> mid_spec \<Rightarrow> bool" where
  "runs T key_pair sks w ops rs w' s' \<longleftrightarrow> mid_program T ks ds cs sks ops w = Some (rs, w') \<and>
     mid_inv T key_pair w' s' \<and> cred_state w' = cred_state w"

lemma runs_append:
  assumes "runs T key_pair sks w xs rs w1 s1" "runs T key_pair sks w1 ys rs' w2 s2"
  shows "runs T key_pair sks w (xs @ ys) (rs @ rs') w2 s2"
  using assms unfolding runs_def by (simp add: mid_program_append)

lemma runs_step:
  assumes "mid_inv T key_pair w s" "crypto_ok T key_pair plain_ok"
    and "uid_ok u" "known key_pair (pub (cred_state w)) u (sks u) pk"
    and "mid_op_ok bid_ok uid_ok plain_ok dat_ok op"
    and "mid_exec T (Some (stores (local_user u (sks u) pk))) op w = Some (r, w')"
  obtains s' where "runs T key_pair sks w [(u, op)] [r] w' s'" "mid_step s u op r s'"
proof -
  have a: "acting key_pair w u (sks u) pk"
    using assms(3,4) mid_invD(1) [OF assms(1)] by (simp add: acting_def)
  have "steps T key_pair w s u op (mid_as T ks ds cs sks u op w)"
    by (rule refines_step [OF assms(1,2)]) (use assms(3-5) in \<open>auto simp: caller_ok_def\<close>)
  moreover have "mid_as T ks ds cs sks u op w = Some (r, w')"
    using mid_created [OF a] assms(6) by (simp add: mid_as_def act_bind_run)
  ultimately obtain s' where "mid_inv T key_pair w' s'" "cred_state w' = cred_state w" "mid_step s u op r s'"
    unfolding steps_def by auto
  then show ?thesis
    using that \<open>mid_as T ks ds cs sks u op w = Some (r, w')\<close>
    by (simp add: runs_def act_bind_run act_map_run)
qed

inductive_cases grantedE: "mid_step s u (MGrantRead i v) (MStatus HM_SUCCESS) s'"
inductive_cases granted_updateE: "mid_step s u (MGrantUpdate i v) (MStatus HM_SUCCESS) s'"

lemma create_live:
  assumes "mid_inv T key_pair w s" "crypto_ok T key_pair plain_ok"
    and "uid_ok u" "known key_pair (pub (cred_state w)) u (sks u) pk" "ufull u"
    and "plain_ok d" "d \<noteq> []" "dat_ok m" "seals_fit fits T d m" "fresh (data_state w) = Some i"
  obtains w' t t' where "runs T key_pair sks w [(u, MCreate d m)] [MId (HM_SUCCESS, Some i)] w'
      \<lparr>content = (content s)(i \<mapsto> (d, m)), readers = insert (i, u) (readers s), writers = insert (i, u) (writers s)\<rparr>"
    "bid_ok i" "rt (key_state w') (i, u) = Some (t, u)" "wt (key_state w') (i, u) = Some (t', u)"
proof -
  have a: "acting key_pair w u (sks u) pk"
    using assms(3,4) mid_invD(1) [OF assms(1)] by (simp add: acting_def)
  have T: "works T key_pair" "themis_laws T key_pair" "outputs_ok T tok_ok plain_ok dat_ok"
    using assms(2) by (simp_all add: crypto_ok_def)
  show ?thesis
  proof (rule create_run [OF a T assms(6-8)])
    fix j ok w' assume run: "mid_hermes_create_block T (Some (stores (local_user u (sks u) pk))) None (Some d) (Some m) w =
        Some (if ok then (HM_SUCCESS, Some j) else (HM_FAIL, None), w')" "winv w'" "cred_state w' = cred_state w"
      "created T key_pair u pk d m w w' j ok" "ufull u \<longrightarrow> ok"
      "seals_fit fits T d m \<and> fresh (data_state w) \<noteq> None \<longrightarrow> fresh (data_state w) = Some j"
    have x: "mid_exec T (Some (stores (local_user u (sks u) pk))) (MCreate d m) w = Some (MId (HM_SUCCESS, Some i), w')"
      using run(1,5,6) assms(5,9,10) by (simp add: act_map_run)
    obtain s' where s': "runs T key_pair sks w [(u, MCreate d m)] [MId (HM_SUCCESS, Some i)] w' s'"
      "mid_step s u (MCreate d m) (MId (HM_SUCCESS, Some i)) s'"
      by (rule runs_step [where sks = sks and pk = pk, OF assms(1-4) _ x]) (use assms(6-8) in simp_all)
    have "s' = \<lparr>content = (content s)(i \<mapsto> (d, m)), readers = insert (i, u) (readers s), writers = insert (i, u) (writers s)\<rparr>"
      using s'(2) by (rule createdE) simp_all
    moreover have "bid_ok i" "\<exists>t. rt (key_state w') (i, u) = Some (t, u)" "\<exists>t. wt (key_state w') (i, u) = Some (t, u)"
      using run(4,5,6) assms(5,9,10) unfolding created_def by auto
    ultimately show ?thesis using that s'(1) by blast
  qed (use assms(9,10) in simp)
qed

lemma reader_state:
  assumes "mid_inv T key_pair w s" "(i, u) \<in> readers s"
  obtains d m kr kw where "rt (key_state w) (i, u) \<noteq> None" "content s i = Some (d, m)"
    "state_at T key_pair w i kr kw d m"
proof -
  have r: "rt (key_state w) (i, u) \<noteq> None" using assms(2) mid_invD(2) [OF assms(1)] by auto
  then show ?thesis using that mid_inv_block [OF assms(1) disjI1 [OF r]] by metis
qed

lemma read_live:
  assumes "mid_inv T key_pair w s" "crypto_ok T key_pair plain_ok"
    and "uid_ok u" "known key_pair (pub (cred_state w)) u (sks u) pk" "bid_ok i"
    and "(i, u) \<in> readers s" "content s i = Some (d, m)"
  shows "runs T key_pair sks w [(u, MRead i)] [MBlock (Inr (Some d, Some m))] w s"
proof -
  have a: "acting key_pair w u (sks u) pk"
    using assms(3,4) mid_invD(1) [OF assms(1)] by (simp add: acting_def)
  obtain kr kw where st: "rt (key_state w) (i, u) \<noteq> None" "state_at T key_pair w i kr kw d m"
    by (rule reader_state [OF assms(1,6)]) (use assms(7) in simp)
  have x: "mid_exec T (Some (stores (local_user u (sks u) pk))) (MRead i) w = Some (MBlock (Inr (Some d, Some m)), w)"
    using read_run [OF a assms(5) st(2,1)] by (simp add: act_map_run)
  obtain s' where s': "runs T key_pair sks w [(u, MRead i)] [MBlock (Inr (Some d, Some m))] w s'"
    by (rule runs_step [where sks = sks and pk = pk, OF assms(1-4) _ x]) (use assms(5) in simp_all)
  then show ?thesis using assms(1) by (simp add: runs_def)
qed

lemma grant_read_live:
  assumes "mid_inv T key_pair w s" "crypto_ok T key_pair plain_ok"
    and "uid_ok u" "known key_pair (pub (cred_state w)) u (sks u) pk" "ufull u"
    and "uid_ok v" "known key_pair (pub (cred_state w)) v (sks v) pkv" "ufull v"
    and "bid_ok i" "(i, u) \<in> readers s"
  obtains w' t where "runs T key_pair sks w [(u, MGrantRead i v)] [MStatus HM_SUCCESS] w'
      (s\<lparr>readers := insert (i, v) (readers s)\<rparr>)"
    "rt (key_state w') = (rt (key_state w))((i, v) \<mapsto> (t, u))" "wt (key_state w') = wt (key_state w)"
    "data_state w' = data_state w"
proof -
  have a: "acting key_pair w u (sks u) pk"
    using assms(3,4) mid_invD(1) [OF assms(1)] by (simp add: acting_def)
  have T: "works T key_pair" "themis_laws T key_pair" "outputs_ok T tok_ok plain_ok dat_ok"
    using assms(2) by (simp_all add: crypto_ok_def)
  obtain d m kr kw where st: "rt (key_state w) (i, u) \<noteq> None" "state_at T key_pair w i kr kw d m"
    by (rule reader_state [OF assms(1,10)])
  show ?thesis
  proof (rule grant_read_run [OF a assms(9,6) st(2,1) T(2,3)])
    fix st w' assume run: "mid_hermes_grant_read_access T (Some (stores (local_user u (sks u) pk))) (Some i) (Some v) w =
        Some (st, w')" "data_state w' = data_state w" "wt (key_state w') = wt (key_state w)"
      "rt (key_state w') = rt (key_state w) \<and> st \<noteq> HM_SUCCESS \<or>
       (\<exists>t pkv. pub (cred_state w) v = Some pkv \<and> opens_for T key_pair pk t pkv kr \<and>
        rt (key_state w') = (rt (key_state w))((i, v) \<mapsto> (t, u)) \<and> st = HM_SUCCESS)"
      "works T key_pair \<and> (\<exists>skv pkv. known key_pair (pub (cred_state w)) v skv pkv) \<and> ufull u \<and> ufull v \<longrightarrow> st = HM_SUCCESS"
    have ok: "st = HM_SUCCESS" using run(5) T(1) assms(5,7,8) by blast
    then have x: "mid_exec T (Some (stores (local_user u (sks u) pk))) (MGrantRead i v) w = Some (MStatus HM_SUCCESS, w')"
      using run(1) by (simp add: act_map_run)
    obtain s' where s': "runs T key_pair sks w [(u, MGrantRead i v)] [MStatus HM_SUCCESS] w' s'"
        "mid_step s u (MGrantRead i v) (MStatus HM_SUCCESS) s'"
      by (rule runs_step [where sks = sks and pk = pk, OF assms(1-4) _ x]) (use assms(6,9) in simp_all)
    have "s' = s\<lparr>readers := insert (i, v) (readers s)\<rparr>" using s'(2) by (rule grantedE) simp_all
    then show ?thesis using that s'(1) run(2-4) ok by blast
  qed
qed

lemma grant_update_live:
  assumes "mid_inv T key_pair w s" "crypto_ok T key_pair plain_ok"
    and "uid_ok u" "known key_pair (pub (cred_state w)) u (sks u) pk" "ufull u"
    and "uid_ok v" "known key_pair (pub (cred_state w)) v (sks v) pkv" "ufull v"
    and "bid_ok i" "(i, u) \<in> readers s" "(i, u) \<in> writers s" "(i, v) \<in> readers s"
  obtains w' t where "runs T key_pair sks w [(u, MGrantUpdate i v)] [MStatus HM_SUCCESS] w'
      (s\<lparr>writers := insert (i, v) (writers s)\<rparr>)"
    "wt (key_state w') = (wt (key_state w))((i, v) \<mapsto> (t, u))" "rt (key_state w') = rt (key_state w)"
    "data_state w' = data_state w"
proof -
  have a: "acting key_pair w u (sks u) pk"
    using assms(3,4) mid_invD(1) [OF assms(1)] by (simp add: acting_def)
  have T: "works T key_pair" "themis_laws T key_pair" "outputs_ok T tok_ok plain_ok dat_ok"
    using assms(2) by (simp_all add: crypto_ok_def)
  have wt: "wt (key_state w) (i, u) \<noteq> None" "rt (key_state w) (i, v) \<noteq> None"
    using assms(11,12) mid_invD(2,3) [OF assms(1)] by auto
  obtain d m kr kw where st: "rt (key_state w) (i, u) \<noteq> None" "state_at T key_pair w i kr kw d m"
    by (rule reader_state [OF assms(1,10)])
  show ?thesis
  proof (rule grant_update_run [OF a assms(9,6) st(2,1) wt(1) T(2,3)])
    fix st w' assume run: "mid_hermes_grant_update_access T (Some (stores (local_user u (sks u) pk))) (Some i) (Some v) w =
        Some (st, w')" "data_state w' = data_state w" "rt (key_state w') = rt (key_state w)"
      "wt (key_state w') = wt (key_state w) \<and> st \<noteq> HM_SUCCESS \<or>
       (\<exists>t pkv. pub (cred_state w) v = Some pkv \<and> opens_for T key_pair pk t pkv kw \<and>
        wt (key_state w') = (wt (key_state w))((i, v) \<mapsto> (t, u)) \<and> st = HM_SUCCESS)"
      "works T key_pair \<and> (\<exists>skv pkv. known key_pair (pub (cred_state w)) v skv pkv) \<and> ufull u \<and> ufull v \<longrightarrow>
       (st = HM_SUCCESS \<longleftrightarrow> rt (key_state w) (i, v) \<noteq> None)"
    have ok: "st = HM_SUCCESS" using run(5) T(1) assms(5,7,8) wt(2) by blast
    then have x: "mid_exec T (Some (stores (local_user u (sks u) pk))) (MGrantUpdate i v) w = Some (MStatus HM_SUCCESS, w')"
      using run(1) by (simp add: act_map_run)
    obtain s' where s': "runs T key_pair sks w [(u, MGrantUpdate i v)] [MStatus HM_SUCCESS] w' s'"
        "mid_step s u (MGrantUpdate i v) (MStatus HM_SUCCESS) s'"
      by (rule runs_step [where sks = sks and pk = pk, OF assms(1-4) _ x]) (use assms(6,9) in simp_all)
    have "s' = s\<lparr>writers := insert (i, v) (writers s)\<rparr>" using s'(2) by (rule granted_updateE) simp_all
    then show ?thesis using that s'(1) run(2-4) ok by blast
  qed
qed

lemma deny_read_live:
  assumes "mid_inv T key_pair w s" "crypto_ok T key_pair plain_ok"
    and "uid_ok u" "known key_pair (pub (cred_state w)) u (sks u) pk" "ufull u"
    and "uid_ok v" "known key_pair (pub (cred_state w)) v (sks v) pkv" "ufull v" "u \<noteq> v"
    and "bid_ok i" "(i, u) \<in> readers s" "(i, u) \<in> writers s" "(i, v) \<in> readers s"
  obtains w' s' where "runs T key_pair sks w [(u, MDenyRead i v)] [MStatus HM_SUCCESS] w' s'"
    "content s' = content s" "(i, v) \<notin> readers s'" "(i, u) \<in> readers s'" "(i, u) \<in> writers s'"
    "rt (key_state w') (i, u) = rt (key_state w) (i, u)" "wt (key_state w') (i, u) = wt (key_state w) (i, u)"
    "rt (key_state w') (i, v) = None"
proof -
  have a: "acting key_pair w u (sks u) pk"
    using assms(3,4) mid_invD(1) [OF assms(1)] by (simp add: acting_def)
  have T: "works T key_pair" "themis_laws T key_pair" "outputs_ok T tok_ok plain_ok dat_ok"
    using assms(2) by (simp_all add: crypto_ok_def)
  have wt: "wt (key_state w) (i, u) \<noteq> None" "rt (key_state w) (i, v) \<noteq> None"
    using assms(12,13) mid_invD(2,3) [OF assms(1)] by auto
  obtain d m kr kw where st: "rt (key_state w) (i, u) \<noteq> None" "state_at T key_pair w i kr kw d m"
    by (rule reader_state [OF assms(1,11)])
  show ?thesis
  proof (rule deny_run [OF a assms(10,6) st(2,1) wt(1) T(2,3), where is_update = False])
    fix st w' assume run: "change_access T (Some (stores (local_user u (sks u) pk))) (Some i) (Some v)
        (mid_hermes_ll_block_wtoken_for T) (\<lambda>bl for_user token. mid_hermes_ll_token_del for_user (bl_user bl) (bl_id bl)
          (mh_ks (the (Some (stores (local_user u (sks u) pk))))) False) w = Some (st, w')"
      "lost_at (i, v) (rt (key_state w)) (rt (key_state w'))" "lost_at (i, v) (wt (key_state w)) (wt (key_state w'))"
      "st = HM_SUCCESS \<longrightarrow> (if False then wt (key_state w') (i, v) = None else rt (key_state w') (i, v) = None)"
      "works T key_pair \<and> (\<exists>skv pkv. known key_pair (pub (cred_state w)) v skv pkv) \<and> ufull u \<and> ufull v \<and> u \<noteq> v \<and>
       rt (key_state w) (i, v) \<noteq> None \<and> \<not> False \<longrightarrow> st = HM_SUCCESS"
    have ok: "st = HM_SUCCESS" using run(5) T(1) assms(5,7,8,9) wt(2) by blast
    then have x: "mid_exec T (Some (stores (local_user u (sks u) pk))) (MDenyRead i v) w = Some (MStatus HM_SUCCESS, w')"
      using run(1) by (simp add: act_map_run mid_hermes_deny_read_access_def)
    obtain s' where s': "runs T key_pair sks w [(u, MDenyRead i v)] [MStatus HM_SUCCESS] w' s'"
        "mid_step s u (MDenyRead i v) (MStatus HM_SUCCESS) s'"
      by (rule runs_step [where sks = sks and pk = pk, OF assms(1-4) _ x]) (use assms(6,10) in simp_all)
    have "content s' = content s \<and> (i, v) \<notin> readers s' \<and> (i, u) \<in> readers s' \<and> (i, u) \<in> writers s'"
      using s'(2) by (rule deniedE) (use assms(9,11,12) in \<open>auto simp: lost_from_def\<close>)
    then show ?thesis using that s'(1) run(2-4) ok assms(9) by (simp add: lost_at_def)
  qed
qed

text \<open>The update takes effect whatever it reports.\<close>

lemma update_live:
  assumes "mid_inv T key_pair w s" "crypto_ok T key_pair plain_ok"
    and "uid_ok u" "known key_pair (pub (cred_state w)) u (sks u) pk" "ufull u"
    and "bid_ok i" "plain_ok d'" "d' \<noteq> []" "dat_ok m'" "seals_fit fits T d' m'"
    and "rt (key_state w) (i, u) = Some (tr, o1)" "wt (key_state w) (i, u) = Some (tw, o2)" "ufull o1" "ufull o2"
  obtains st w' where "runs T key_pair sks w [(u, MUpdate i d' m')] [MStatus st] w'
      (s\<lparr>content := (content s)(i \<mapsto> (d', m'))\<rparr>)"
    "st = HM_SUCCESS \<longleftrightarrow> (u = o1 \<or> rt (key_state w) (i, o1) \<noteq> None) \<and> (u = o2 \<or> wt (key_state w) (i, o2) \<noteq> None)"
proof -
  have a: "acting key_pair w u (sks u) pk"
    using assms(3,4) mid_invD(1) [OF assms(1)] by (simp add: acting_def)
  have T: "works T key_pair" "themis_laws T key_pair" "outputs_ok T tok_ok plain_ok dat_ok"
    using assms(2) by (simp_all add: crypto_ok_def)
  have "(i, u) \<in> readers s" using assms(11) mid_invD(2) [OF assms(1)] by auto
  then obtain d m kr kw where st: "state_at T key_pair w i kr kw d m"
    by (rule reader_state [OF assms(1)])
  show ?thesis
  proof (rule update_run [OF a assms(6) st assms(11,12) T assms(7-9)])
    fix st w' assume run: "mid_hermes_update_block T (Some (stores (local_user u (sks u) pk))) (Some i) (Some d') (Some m') w =
        Some (st, w')" "winv w'" "cred_state w' = cred_state w" "rt (key_state w') = rt (key_state w)"
      "wt (key_state w') = wt (key_state w)"
      "seals_fit fits T d' m' \<longrightarrow> (\<exists>x. blk (data_state w') = (blk (data_state w))(i \<mapsto> x) \<and> sealed_as T kr kw d' m' x)"
      "seals_fit fits T d' m' \<and> ufull u \<and> ufull o1 \<and> ufull o2 \<longrightarrow> (st = HM_SUCCESS \<longleftrightarrow>
       (u = o1 \<or> rt (key_state w) (i, o1) \<noteq> None) \<and> (u = o2 \<or> wt (key_state w) (i, o2) \<noteq> None))"
    obtain x where x: "blk (data_state w') = (blk (data_state w))(i \<mapsto> x)" "sealed_as T kr kw d' m' x"
      using run(6) assms(10) by blast
    have at: "state_at T key_pair w' i kr kw d' m'"
      by (rule state_at_updated [OF st x(2) run(3) _ run(4,5)]) (simp add: x(1))
    have "mid_inv T key_pair w' \<lparr>content = (content s)(i \<mapsto> (d', m')),
        readers = dom (rt (key_state w')), writers = dom (wt (key_state w'))\<rparr>"
      by (rule mid_inv_at [OF assms(1) run(2,3) at]) (simp_all add: x(1) run(4,5))
    then have inv: "mid_inv T key_pair w' (s\<lparr>content := (content s)(i \<mapsto> (d', m'))\<rparr>)"
      using mid_invD(2,3) [OF assms(1)] run(4,5) by (simp add: spec_upd)
    have "mid_as T ks ds cs sks u (MUpdate i d' m') w = Some (MStatus st, w')"
      using run(1) mid_created [OF a] by (simp add: mid_as_def act_bind_run act_map_run)
    then have "runs T key_pair sks w [(u, MUpdate i d' m')] [MStatus st] w' (s\<lparr>content := (content s)(i \<mapsto> (d', m'))\<rparr>)"
      using inv run(3) by (simp add: runs_def act_bind_run act_map_run)
    then show ?thesis using that run(7) assms(5,10,13,14) by blast
  qed
qed

subsection \<open>Sharing a block\<close>

lemma share_run:
  assumes "mid_inv T key_pair w s" "crypto_ok T key_pair plain_ok"
    and "uid_ok u" "known key_pair (pub (cred_state w)) u (sks u) pk" "ufull u"
    and "uid_ok v" "known key_pair (pub (cred_state w)) v (sks v) pkv" "ufull v" "u \<noteq> v"
    and "plain_ok d" "d \<noteq> []" "dat_ok m" "seals_fit fits T d m" "fresh (data_state w) = Some i"
  obtains w' s' t1 t2 t3 t4 where
    "runs T key_pair sks w [(u, MCreate d m), (u, MGrantRead i v), (u, MGrantUpdate i v)]
       [MId (HM_SUCCESS, Some i), MStatus HM_SUCCESS, MStatus HM_SUCCESS] w' s'"
    "bid_ok i" "content s' i = Some (d, m)" "{(i, u), (i, v)} \<subseteq> readers s'" "{(i, u), (i, v)} \<subseteq> writers s'"
    "rt (key_state w') (i, u) = Some (t1, u)" "wt (key_state w') (i, u) = Some (t2, u)"
    "rt (key_state w') (i, v) = Some (t3, u)" "wt (key_state w') (i, v) = Some (t4, u)"
proof -
  obtain w1 t1 t2 where c: "runs T key_pair sks w [(u, MCreate d m)] [MId (HM_SUCCESS, Some i)] w1
      \<lparr>content = (content s)(i \<mapsto> (d, m)), readers = insert (i, u) (readers s), writers = insert (i, u) (writers s)\<rparr>"
    (is "runs _ _ _ _ _ _ _ ?s1")
    and i: "bid_ok i" and t1: "rt (key_state w1) (i, u) = Some (t1, u)" "wt (key_state w1) (i, u) = Some (t2, u)"
    by (rule create_live [where sks = sks, OF assms(1-5,10-14)])
  have w1: "mid_inv T key_pair w1 ?s1" "cred_state w1 = cred_state w" using c by (simp_all add: runs_def)
  note u1 = assms(4) [folded w1(2)] and v1 = assms(7) [folded w1(2)]
  obtain w2 t3 where g: "runs T key_pair sks w1 [(u, MGrantRead i v)] [MStatus HM_SUCCESS] w2
      (?s1\<lparr>readers := insert (i, v) (readers ?s1)\<rparr>)" (is "runs _ _ _ _ _ _ _ ?s2")
    and t2: "rt (key_state w2) = (rt (key_state w1))((i, v) \<mapsto> (t3, u))" "wt (key_state w2) = wt (key_state w1)"
    by (rule grant_read_live [where sks = sks, OF w1(1) assms(2,3) u1 assms(5,6) v1 assms(8) i]) simp_all
  have w2: "mid_inv T key_pair w2 ?s2" "cred_state w2 = cred_state w" using g w1(2) by (simp_all add: runs_def)
  note u2 = assms(4) [folded w2(2)] and v2 = assms(7) [folded w2(2)]
  obtain w3 t4 where h: "runs T key_pair sks w2 [(u, MGrantUpdate i v)] [MStatus HM_SUCCESS] w3
      (?s2\<lparr>writers := insert (i, v) (writers ?s2)\<rparr>)" (is "runs _ _ _ _ _ _ _ ?s3")
    and t3: "wt (key_state w3) = (wt (key_state w2))((i, v) \<mapsto> (t4, u))" "rt (key_state w3) = rt (key_state w2)"
    by (rule grant_update_live [where sks = sks, OF w2(1) assms(2,3) u2 assms(5,6) v2 assms(8) i]) simp_all
  have "runs T key_pair sks w [(u, MCreate d m), (u, MGrantRead i v), (u, MGrantUpdate i v)]
       [MId (HM_SUCCESS, Some i), MStatus HM_SUCCESS, MStatus HM_SUCCESS] w3 ?s3"
    using runs_append [OF c runs_append [OF g h]] by simp
  then show ?thesis
    by (rule that [OF _ i]) (use t1 t2 t3 assms(9) in auto)
qed

lemma shared_block_run:
  assumes "mid_inv T key_pair w s" "crypto_ok T key_pair plain_ok"
    and "uid_ok u" "known key_pair (pub (cred_state w)) u (sks u) pk" "ufull u"
    and "uid_ok v" "known key_pair (pub (cred_state w)) v (sks v) pkv" "ufull v" "u \<noteq> v"
    and "plain_ok d" "d \<noteq> []" "dat_ok m" "seals_fit fits T d m" "fresh (data_state w) = Some i"
    and "plain_ok d'" "d' \<noteq> []" "dat_ok m'" "seals_fit fits T d' m'"
  shows "\<exists>w' s'. runs T key_pair sks w
    [(u, MCreate d m), (u, MGrantRead i v), (u, MGrantUpdate i v), (v, MRead i), (v, MUpdate i d' m'), (u, MRead i)]
    [MId (HM_SUCCESS, Some i), MStatus HM_SUCCESS, MStatus HM_SUCCESS, MBlock (Inr (Some d, Some m)),
     MStatus HM_SUCCESS, MBlock (Inr (Some d', Some m'))] w' s'"
proof -
  obtain w1 s1 t1 t2 t3 t4 where c: "runs T key_pair sks w [(u, MCreate d m), (u, MGrantRead i v), (u, MGrantUpdate i v)]
       [MId (HM_SUCCESS, Some i), MStatus HM_SUCCESS, MStatus HM_SUCCESS] w1 s1"
    and i: "bid_ok i" "content s1 i = Some (d, m)" "{(i, u), (i, v)} \<subseteq> readers s1" "{(i, u), (i, v)} \<subseteq> writers s1"
    and t: "rt (key_state w1) (i, u) = Some (t1, u)" "wt (key_state w1) (i, u) = Some (t2, u)"
      "rt (key_state w1) (i, v) = Some (t3, u)" "wt (key_state w1) (i, v) = Some (t4, u)"
    by (rule share_run [where sks = sks, OF assms(1-14)])
  have w1: "mid_inv T key_pair w1 s1" "cred_state w1 = cred_state w" using c by (simp_all add: runs_def)
  note u1 = assms(4) [folded w1(2)] and v1 = assms(7) [folded w1(2)]
  have r: "runs T key_pair sks w1 [(v, MRead i)] [MBlock (Inr (Some d, Some m))] w1 s1"
    by (rule read_live [where sks = sks, OF w1(1) assms(2,6) v1 i(1) _ i(2)]) (use i(3) in simp)
  obtain st w2 where up: "runs T key_pair sks w1 [(v, MUpdate i d' m')] [MStatus st] w2
      (s1\<lparr>content := (content s1)(i \<mapsto> (d', m'))\<rparr>)" (is "runs _ _ _ _ _ _ _ ?s2")
    and st: "st = HM_SUCCESS \<longleftrightarrow> (v = u \<or> rt (key_state w1) (i, u) \<noteq> None) \<and> (v = u \<or> wt (key_state w1) (i, u) \<noteq> None)"
    by (rule update_live [where sks = sks, OF w1(1) assms(2,6) v1 assms(8) i(1) assms(15-18) t(3,4) assms(5,5)])
  have w2: "mid_inv T key_pair w2 ?s2" "cred_state w2 = cred_state w" using up w1(2) by (simp_all add: runs_def)
  note u2 = assms(4) [folded w2(2)]
  have r2: "runs T key_pair sks w2 [(u, MRead i)] [MBlock (Inr (Some d', Some m'))] w2 ?s2"
    by (rule read_live [where sks = sks, OF w2(1) assms(2,3) u2 i(1)]) (use i(3) in simp_all)
  have "st = HM_SUCCESS" using st t by simp
  then show ?thesis using runs_append [OF c runs_append [OF r runs_append [OF up r2]]] by auto
qed

lemma revoked_granter_run:
  assumes "mid_inv T key_pair w s" "crypto_ok T key_pair plain_ok"
    and "uid_ok u" "known key_pair (pub (cred_state w)) u (sks u) pk" "ufull u"
    and "uid_ok v" "known key_pair (pub (cred_state w)) v (sks v) pkv" "ufull v" "u \<noteq> v"
    and "plain_ok d" "d \<noteq> []" "dat_ok m" "seals_fit fits T d m" "fresh (data_state w) = Some i"
    and "plain_ok d'" "d' \<noteq> []" "dat_ok m'" "seals_fit fits T d' m'"
  shows "\<exists>w' s' st. st \<noteq> HM_SUCCESS \<and> runs T key_pair sks w
    [(u, MCreate d m), (u, MGrantRead i v), (u, MGrantUpdate i v), (v, MDenyRead i u), (v, MUpdate i d' m'), (v, MRead i)]
    [MId (HM_SUCCESS, Some i), MStatus HM_SUCCESS, MStatus HM_SUCCESS, MStatus HM_SUCCESS,
     MStatus st, MBlock (Inr (Some d', Some m'))] w' s'"
proof -
  obtain w1 s1 t1 t2 t3 t4 where c: "runs T key_pair sks w [(u, MCreate d m), (u, MGrantRead i v), (u, MGrantUpdate i v)]
       [MId (HM_SUCCESS, Some i), MStatus HM_SUCCESS, MStatus HM_SUCCESS] w1 s1"
    and i: "bid_ok i" "content s1 i = Some (d, m)" "{(i, u), (i, v)} \<subseteq> readers s1" "{(i, u), (i, v)} \<subseteq> writers s1"
    and t: "rt (key_state w1) (i, u) = Some (t1, u)" "wt (key_state w1) (i, u) = Some (t2, u)"
      "rt (key_state w1) (i, v) = Some (t3, u)" "wt (key_state w1) (i, v) = Some (t4, u)"
    by (rule share_run [where sks = sks, OF assms(1-14)])
  have w1: "mid_inv T key_pair w1 s1" "cred_state w1 = cred_state w" using c by (simp_all add: runs_def)
  note u1 = assms(4) [folded w1(2)] and v1 = assms(7) [folded w1(2)]
  obtain w2 s2 where dn: "runs T key_pair sks w1 [(v, MDenyRead i u)] [MStatus HM_SUCCESS] w2 s2"
    and s2: "content s2 = content s1" "(i, v) \<in> readers s2" "rt (key_state w2) (i, v) = rt (key_state w1) (i, v)"
      "wt (key_state w2) (i, v) = wt (key_state w1) (i, v)" "rt (key_state w2) (i, u) = None"
    by (rule deny_read_live [where sks = sks, OF w1(1) assms(2,6) v1 assms(8,3) u1 assms(5) assms(9) [symmetric] i(1)])
      (use i(3,4) in simp_all)
  have w2: "mid_inv T key_pair w2 s2" "cred_state w2 = cred_state w" using dn w1(2) by (simp_all add: runs_def)
  note v2 = assms(7) [folded w2(2)]
  obtain st w3 where up: "runs T key_pair sks w2 [(v, MUpdate i d' m')] [MStatus st] w3
      (s2\<lparr>content := (content s2)(i \<mapsto> (d', m'))\<rparr>)" (is "runs _ _ _ _ _ _ _ ?s3")
    and st: "st = HM_SUCCESS \<longleftrightarrow> (v = u \<or> rt (key_state w2) (i, u) \<noteq> None) \<and> (v = u \<or> wt (key_state w2) (i, u) \<noteq> None)"
    by (rule update_live [where sks = sks, OF w2(1) assms(2,6) v2 assms(8) i(1) assms(15-18)
          t(3) [folded s2(3)] t(4) [folded s2(4)] assms(5,5)])
  have w3: "mid_inv T key_pair w3 ?s3" "cred_state w3 = cred_state w" using up w2(2) by (simp_all add: runs_def)
  note v3 = assms(7) [folded w3(2)]
  have r: "runs T key_pair sks w3 [(v, MRead i)] [MBlock (Inr (Some d', Some m'))] w3 ?s3"
    by (rule read_live [where sks = sks, OF w3(1) assms(2,6) v3 i(1)]) (use s2(2) in simp_all)
  have "st \<noteq> HM_SUCCESS" using st s2(5) assms(9) by simp
  then show ?thesis using runs_append [OF c runs_append [OF dn runs_append [OF up r]]] by auto
qed

end

end
