(* ===== verification/Test_Key_Store_Db.thy ===== *)
theory Test_Key_Store_Db
  imports Key_Store_Db
begin

section \<open>The database of the key store tests\<close>

text \<open>
  \<^verbatim>\<open>tests/common/test_key_store_db.c\<close>: a search tree of blocks, each with a search tree of users,
  here maps of maps.  A user's node holds a read token with its owner and a write token with its
  owner; an absent write token has length 0, and the node exists only with a read token.  The nodes
  have room for 256 bytes of token, and the setters copy without a test: after a longer token
  nothing is known of the memory, which is the state \<open>None\<close>.  Deleting the read token frees the
  node, and with it the write token.

  The interpretation \<open>test_ks\<close> shows that this database keeps the contract \<open>key_db\<close>.
\<close>

definition BLOCK_ID_LENGTH :: nat where "BLOCK_ID_LENGTH = 32"
definition USER_ID_LENGTH :: nat where "USER_ID_LENGTH = 32"
definition MAX_TOKEN_LENGTH :: nat where "MAX_TOKEN_LENGTH = 256"

record hm_test_ks_db_token =
  rtoken :: bytes
  rtoken_owner :: bytes
  wtoken :: bytes
  wtoken_owner :: bytes

type_synonym hm_test_ks_db = "(bytes \<Rightarrow> (bytes \<Rightarrow> hm_test_ks_db_token option) option) option"

definition new_token :: hm_test_ks_db_token where
  "new_token = \<lparr>rtoken = [], rtoken_owner = replicate USER_ID_LENGTH 0, wtoken = [],
     wtoken_owner = replicate USER_ID_LENGTH 0\<rparr>"

text \<open>The node of a block and user, for the two \<^verbatim>\<open>tfind\<close> calls.\<close>

definition find_token :: "hm_test_ks_db \<Rightarrow> bytes \<Rightarrow> bytes \<Rightarrow> hm_test_ks_db_token option" where
  "find_token ks b u =
     (case ks of
        None \<Rightarrow> None
      | Some blocks \<Rightarrow> (case blocks b of None \<Rightarrow> None | Some users \<Rightarrow> users u))"

definition put_token :: "hm_test_ks_db \<Rightarrow> bytes \<Rightarrow> bytes \<Rightarrow> hm_test_ks_db_token option \<Rightarrow> hm_test_ks_db" where
  "put_token ks b u n =
     (case ks of
        None \<Rightarrow> None
      | Some blocks \<Rightarrow>
          Some (blocks(b \<mapsto> (case blocks b of None \<Rightarrow> Map.empty | Some users \<Rightarrow> users)(u := n))))"

definition db_del_rtoken :: "hm_test_ks_db hm_ks_db_del_token" where
  "db_del_rtoken ks b u w =
     (if length b \<noteq> BLOCK_ID_LENGTH \<or> length u \<noteq> USER_ID_LENGTH \<or> length w \<noteq> USER_ID_LENGTH
      then (HM_INVALID_PARAMETER, ks)
      else (case find_token ks b u of
              None \<Rightarrow> (HM_FAIL, ks)
            | Some n \<Rightarrow> (HM_SUCCESS, put_token ks b u None)))"

definition db_set_rtoken :: "hm_test_ks_db hm_ks_db_set_token" where
  "db_set_rtoken ks b u w t =
     (if length b \<noteq> BLOCK_ID_LENGTH \<or> length u \<noteq> USER_ID_LENGTH \<or> length w \<noteq> USER_ID_LENGTH
      then (HM_INVALID_PARAMETER, ks)
      else if t \<noteq> [] then
        (if MAX_TOKEN_LENGTH < length t then (HM_SUCCESS, None)
         else let n = (case find_token ks b u of None \<Rightarrow> new_token | Some n \<Rightarrow> n) in
           (if ks = None then (HM_FAIL, None)
            else (HM_SUCCESS, put_token ks b u (Some (n\<lparr>rtoken := t, rtoken_owner := w\<rparr>)))))
      else db_del_rtoken ks b u w)"

definition db_set_wtoken :: "hm_test_ks_db hm_ks_db_set_token" where
  "db_set_wtoken ks b u w t =
     (if length b \<noteq> BLOCK_ID_LENGTH \<or> length u \<noteq> USER_ID_LENGTH \<or> length w \<noteq> USER_ID_LENGTH
      then (HM_INVALID_PARAMETER, ks)
      else (case find_token ks b u of
              None \<Rightarrow> (HM_FAIL, ks)
            | Some n \<Rightarrow>
                if MAX_TOKEN_LENGTH < length t then (HM_SUCCESS, None)
                else (HM_SUCCESS, put_token ks b u (Some (n\<lparr>wtoken := t, wtoken_owner := w\<rparr>)))))"

definition db_get_rtoken :: "hm_test_ks_db hm_ks_db_get_token" where
  "db_get_rtoken ks b u =
     (if length b \<noteq> BLOCK_ID_LENGTH \<or> length u \<noteq> USER_ID_LENGTH
      then (HM_INVALID_PARAMETER, ([], []), ks)
      else (case find_token ks b u of
              None \<Rightarrow> (HM_FAIL, ([], []), ks)
            | Some n \<Rightarrow> (HM_SUCCESS, (rtoken n, rtoken_owner n), ks)))"

definition db_get_wtoken :: "hm_test_ks_db hm_ks_db_get_token" where
  "db_get_wtoken ks b u =
     (if length b \<noteq> BLOCK_ID_LENGTH \<or> length u \<noteq> USER_ID_LENGTH
      then (HM_INVALID_PARAMETER, ([], []), ks)
      else (case find_token ks b u of
              None \<Rightarrow> (HM_FAIL, ([], []), ks)
            | Some n \<Rightarrow>
                if wtoken n = [] then (HM_FAIL, ([], []), ks)
                else (HM_SUCCESS, (wtoken n, wtoken_owner n), ks)))"

definition db_get_indexed_rights :: "hm_test_ks_db hm_ks_db_get_indexed_rights" where
  "db_get_indexed_rights ks b i =
     (if b = [] then (HM_INVALID_PARAMETER, ([], 0), ks) else (HM_FAIL, ([], 0), ks))"

definition db_del_wtoken :: "hm_test_ks_db hm_ks_db_del_token" where
  "db_del_wtoken ks b u w =
     (if length b \<noteq> BLOCK_ID_LENGTH \<or> length u \<noteq> USER_ID_LENGTH \<or> length w \<noteq> USER_ID_LENGTH
      then (HM_INVALID_PARAMETER, ks)
      else (case find_token ks b u of
              None \<Rightarrow> (HM_FAIL, ks)
            | Some n \<Rightarrow> (HM_SUCCESS, put_token ks b u (Some (n\<lparr>wtoken := []\<rparr>)))))"

definition hm_test_ks_db_create :: "hm_test_ks_db hm_ks_db" where
  "hm_test_ks_db_create =
     \<lparr>ks_user_data = Some (Some Map.empty), set_rtoken = Some db_set_rtoken,
      set_wtoken = Some db_set_wtoken, get_rtoken = Some db_get_rtoken,
      get_wtoken = Some db_get_wtoken, get_indexed_rights = Some db_get_indexed_rights,
      del_rtoken = Some db_del_rtoken, del_wtoken = Some db_del_wtoken\<rparr>"

subsection \<open>The contract\<close>

definition ids_ok :: "bytes \<times> bytes \<Rightarrow> bool" where
  "ids_ok p \<longleftrightarrow> length (fst p) = BLOCK_ID_LENGTH \<and> length (snd p) = USER_ID_LENGTH"

definition test_rt :: "hm_test_ks_db \<Rightarrow> tokens" where
  "test_rt ks p =
     (if ids_ok p then map_option (\<lambda>n. (rtoken n, rtoken_owner n)) (find_token ks (fst p) (snd p)) else None)"

definition test_wt :: "hm_test_ks_db \<Rightarrow> tokens" where
  "test_wt ks p =
     (if ids_ok p then
        (case find_token ks (fst p) (snd p) of
           None \<Rightarrow> None
         | Some n \<Rightarrow> if wtoken n = [] then None else Some (wtoken n, wtoken_owner n))
      else None)"

definition test_tok :: "bytes \<Rightarrow> bool" where
  "test_tok t \<longleftrightarrow> t \<noteq> [] \<and> length t \<le> MAX_TOKEN_LENGTH"

lemma find_put [simp]:
  "ks \<noteq> None \<Longrightarrow> find_token (put_token ks b u n) b' u' = (if b' = b \<and> u' = u then n else find_token ks b' u')"
  by (auto simp: find_token_def put_token_def split: option.splits)

lemma put_token_defined [simp]: "put_token ks b u n = None \<longleftrightarrow> ks = None"
  by (simp add: put_token_def split: option.split)

lemma put_token_Some [simp]: "\<exists>m'. put_token (Some m) b u n = Some m'"
  by (simp add: put_token_def)

lemma test_rt_put:
  assumes "ks \<noteq> None" "ids_ok (b, u)"
  shows "test_rt (put_token ks b u n) = (test_rt ks)((b, u) := map_option (\<lambda>n. (rtoken n, rtoken_owner n)) n)"
  using assms by (auto simp: test_rt_def fun_eq_iff)

lemma test_wt_put:
  assumes "ks \<noteq> None" "ids_ok (b, u)"
  shows "test_wt (put_token ks b u n) = (test_wt ks)((b, u) :=
    (case n of None \<Rightarrow> None | Some n \<Rightarrow> if wtoken n = [] then None else Some (wtoken n, wtoken_owner n)))"
  using assms by (auto simp: test_wt_def fun_eq_iff)

definition test_ks_inv :: "hm_test_ks_db \<Rightarrow> bool" where
  "test_ks_inv d \<longleftrightarrow> d \<noteq> None"

interpretation test_ks: key_db hm_test_ks_db_create test_rt test_wt test_ks_inv "\<lambda>_. True" test_tok "\<lambda>i. length i = 32"
    "\<lambda>i. length i = 32"
proof (unfold_locales, unfold test_ks_inv_def, goal_cases)
  case 1
  show ?case by (simp add: hm_test_ks_db_create_def hm_key_store_check_backend_def)
next
  case (2 d b u st tw d')
  then show ?case
    by (auto simp: hm_test_ks_db_create_def db_get_rtoken_def test_rt_def ids_ok_def
        split: if_splits option.splits)
next
  case (3 d b u st tw d')
  then show ?case
    by (auto simp: hm_test_ks_db_create_def db_get_wtoken_def test_wt_def ids_ok_def
        split: if_splits option.splits)
next
  case (4 d b u w t st d')
  have "db_set_rtoken d b u w t = (st, d')" using 4 by (simp add: hm_test_ks_db_create_def)
  then consider "d' = d" "st = HM_INVALID_PARAMETER" "\<not> (length b = 32 \<and> length u = 32 \<and> length w = 32)"
    | n where "ids_ok (b, u)" "st = HM_SUCCESS" "d' = put_token d b u (Some (n\<lparr>rtoken := t, rtoken_owner := w\<rparr>))"
      "n = (case find_token d b u of None \<Rightarrow> new_token | Some n \<Rightarrow> n)"
    using 4 by (auto simp: db_set_rtoken_def ids_ok_def test_tok_def Let_def BLOCK_ID_LENGTH_def USER_ID_LENGTH_def
        split: if_splits)
  then show ?case
  proof cases
    case 2
    have "wtoken new_token = []" by (simp add: new_token_def)
    then have "test_wt (put_token d b u (Some (n\<lparr>rtoken := t, rtoken_owner := w\<rparr>))) = test_wt d"
      unfolding test_wt_put [OF 4(1) 2(1)]
      using 2 by (auto simp: test_wt_def fun_eq_iff split: option.splits)
    then show ?thesis using 4(1) 2 test_rt_put [OF 4(1) 2(1)] by simp
  qed (use 4 in simp)
next
  case (5 d b u w t st d')
  have "db_set_wtoken d b u w t = (st, d')" using 5 by (simp add: hm_test_ks_db_create_def)
  then consider "d' = d" "st \<noteq> HM_SUCCESS"
      "length b = 32 \<and> length u = 32 \<and> length w = 32 \<longrightarrow> find_token d b u = None"
    | n where "ids_ok (b, u)" "st = HM_SUCCESS" "d' = put_token d b u (Some (n\<lparr>wtoken := t, wtoken_owner := w\<rparr>))"
      "find_token d b u = Some n"
    using 5 by (auto simp: db_set_wtoken_def ids_ok_def test_tok_def BLOCK_ID_LENGTH_def USER_ID_LENGTH_def
        split: if_splits option.splits)
  then show ?case
  proof cases
    case 2
    have "test_rt (put_token d b u (Some (n\<lparr>wtoken := t, wtoken_owner := w\<rparr>))) = test_rt d"
      unfolding test_rt_put [OF 5(1) 2(1)] using 2 by (auto simp: test_rt_def fun_eq_iff)
    then show ?thesis using 5 2 test_wt_put [OF 5(1) 2(1)] by (simp add: test_tok_def test_rt_def)
  qed (use 5 in \<open>simp add: test_rt_def\<close>)
next
  case (6 d b u w st d')
  then show ?case
    by (auto simp: hm_test_ks_db_create_def db_del_rtoken_def lost_at_def test_rt_put test_wt_put ids_ok_def
        test_rt_def BLOCK_ID_LENGTH_def USER_ID_LENGTH_def split: if_splits option.splits)
next
  case (7 d b u w st d')
  then show ?case
    by (auto simp: hm_test_ks_db_create_def db_del_wtoken_def lost_at_def test_rt_put test_wt_put ids_ok_def
        test_rt_def split: if_splits option.splits)
next
  case (8 d b i)
  then show ?case by (simp add: hm_test_ks_db_create_def db_get_indexed_rights_def)
qed


subsection \<open>Concrete runs\<close>

lemmas ks_eval = hm_test_ks_db_create_def hm_key_store_set_rtoken_def hm_key_store_set_wtoken_def
  hm_key_store_get_rtoken_def hm_key_store_get_wtoken_def other_user_iff db_set_rtoken_def
  db_set_wtoken_def db_get_rtoken_def db_get_wtoken_def new_token_def find_token_def put_token_def
  ks_result_def ks_done_def status_result_def BLOCK_ID_LENGTH_def USER_ID_LENGTH_def
  MAX_TOKEN_LENGTH_def

lemma test_ks_checked: "hm_key_store_check_backend (Some hm_test_ks_db_create)"
  by (simp add: hm_test_ks_db_create_def hm_key_store_check_backend_def)

text \<open>A block, an owner and another user.\<close>

abbreviation "blk1 \<equiv> replicate 32 (1 :: u8)"
abbreviation "own1 \<equiv> replicate 32 (2 :: u8)"
abbreviation "usr1 \<equiv> replicate 32 (3 :: u8)"

theorem key_store_remote_refines_local_witness:
  "\<exists>(L :: hm_test_ks_db hm_ks_db rpc_loop) c. map_option fst (ks_remote_all (Some c)
      [KsSetR blk1 usr1 own1 [7], KsSetR blk1 own1 own1 [8], KsSetR blk1 usr1 own1 [9], KsGetR blk1 usr1] L) =
    Some [KsDone (Inl HM_FAIL), KsDone (Inr ()), KsDone (Inr ()), KsToken (Inr ([9], own1))]"
proof -
  let ?d = hm_test_ks_db_create
  let ?ops = "[KsSetR blk1 usr1 own1 [7], KsSetR blk1 own1 own1 [8], KsSetR blk1 usr1 own1 [9], KsGetR blk1 usr1]"
  let ?rs = "[KsDone (Inl HM_FAIL), KsDone (Inr ()), KsDone (Inr ()), KsToken (Inr ([9], own1))]"
  obtain s where up: "key_store_up \<lparr>ks_c = \<lparr>client_transport = loop_transport\<rparr>\<rparr>
    \<lparr>to_server = [], to_client = [], loop_server = Some s, loop_data = Some ?d\<rparr> ?d"
    using key_store_up_exists [OF test_ks_checked] by blast
  have "\<exists>db. ks_local_all (Some ?d) ?ops = Some (?rs, db)"
    by (simp add: ks_eval)
  then obtain db where res: "ks_local_all (Some ?d) ?ops = Some (?rs, db)" by blast
  have ok: "list_all ks_op_ok ?ops" "list_all ks_res_ok ?rs" by (simp_all add: param_ok_def)
  note run = key_store_remote_refines_local [OF up ok(1) test_ks_checked res ok(2)]
  show ?thesis by (intro exI, subst run) simp
qed

theorem key_store_functions_return_witness:
  "\<exists>(srv :: (pipes, hm_test_ks_db) hm_key_store_server) res out db'.
    hm_key_store_server_create (Some hm_test_transport) (Some hm_test_ks_db_create) = Some (Some srv) \<and>
    hm_key_store_del_rtoken_stub (Some hm_param_pack_create) (Some (ks_db srv)) = Some (res, out, Some db')"
proof -
  obtain srv where srv: "hm_key_store_server_create (Some hm_test_transport) (Some hm_test_ks_db_create) = Some (Some srv)"
    using hm_key_store_server_create_returns [of "Some hm_test_transport" "Some hm_test_ks_db_create"]
      test_ks_checked by auto
  have "(hm_key_store_del_rtoken_NAME, hm_key_store_del_rtoken_stub) \<in> set hm_key_store_functions"
    by (simp add: hm_key_store_functions_def)
  from key_store_functions_return [OF srv this, of hm_param_pack_create] srv show ?thesis by blast
qed



theorem key_store_service_answers_in_order_witness:
  "\<exists>(srv :: (pipes, hm_test_ks_db) hm_key_store_server) srv'.
    hm_key_store_server_create (Some hm_test_transport) (Some hm_test_ks_db_create) = Some (Some srv) \<and>
    hm_key_store_service_start [False, True] (Some \<lparr>service_server = srv, finish = False\<rparr>)
      \<lparr>read_pipe = concat (request_frames hm_key_store_set_rtoken_NAME
          (arg_pack [ABufferC blk1, ABufferC usr1, ABufferC own1, ABufferC [7]])), write_pipe = []\<rparr> =
    Some (HM_SUCCESS, Some \<lparr>service_server = srv', finish = True\<rparr>,
      \<lparr>read_pipe = [], write_pipe = u32_le HM_FAIL\<rparr>)"
proof -
  let ?p = "arg_pack [ABufferC blk1, ABufferC usr1, ABufferC own1, ABufferC [7]]"
  let ?rs = "[(hm_key_store_set_rtoken_NAME, ?p)]"
  obtain srv :: "(pipes, hm_test_ks_db) hm_key_store_server" where srv:
    "hm_key_store_server_create (Some hm_test_transport) (Some hm_test_ks_db_create) = Some (Some srv)"
    using hm_key_store_server_create_returns [of "Some hm_test_transport" "Some hm_test_ks_db_create"]
      test_ks_checked by auto
  note ok = hm_key_store_server_create_ok [OF srv]
  have "registered (ks_s srv) hm_key_store_set_rtoken_NAME hm_key_store_set_rtoken_stub"
    using ok(3) by (simp add: hm_key_store_functions_def)
  moreover have "hm_key_store_set_rtoken_stub (Some (received_pack ?p)) (Some hm_test_ks_db_create) =
    Some (HM_FAIL, None, Some hm_test_ks_db_create)"
    by (simp add: set_rtoken_stub) (simp add: ks_eval)
  ultimately have run: "run_handlers (ks_s srv) ?rs (ks_db srv) = Some ([(HM_FAIL, None)], hm_test_ks_db_create)"
    using ok(2) by (simp add: registered_def)
  have "requests_ok ?rs"
    using arg_pack_sendable [of "[ABufferC blk1, ABufferC usr1, ABufferC own1, ABufferC [7]]"]
    by (simp add: requests_ok_def args_ok_def param_ok_def)
  from key_store_service_answers_in_order [OF ok(1) this run] srv show ?thesis
    by (auto simp: out_ok_def request_stream_def response_stream_def response_frames_def)
qed

theorem key_store_service_killed_by_unknown_name_witness:
  "\<exists>sv. hm_key_store_service_start [False, False, True]
      (Some \<lparr>service_server = \<lparr>ks_s = the (hm_rpc_server_create (Some hm_test_transport)),
        ks_db = hm_test_ks_db_create\<rparr>, finish = False\<rparr>)
      \<lparr>read_pipe = concat (request_frames [120] (arg_pack [AInt32 1])) @ [5], write_pipe = []\<rparr> =
    Some (HM_FAIL, sv,
      \<lparr>read_pipe = concat (pack_frames (arg_pack [AInt32 1])) @ [5], write_pipe = u32_le HM_FAIL\<rparr>)"
proof -
  let ?srv = "\<lparr>ks_s = the (hm_rpc_server_create (Some hm_test_transport)),
        ks_db = hm_test_ks_db_create\<rparr>"
  have "hm_hash_table_get (Some (func_table (ks_s ?srv))) (Some [120]) = Some (Inl HM_FAIL)"
    by (simp add: hm_rpc_server_create_def hm_hash_table_create_def hm_hash_table_get_def)
  from key_store_service_killed_by_unknown_name [OF _ _ this, of "[False, True]" "arg_pack [AInt32 1]" "[5]"]
  show ?thesis by (simp add: hm_rpc_server_create_def name_ok_def)
qed

end
