(* ===== verification/Mid_Keys.thy ===== *)
theory Mid_Keys
  imports Mid_Contract Test_Key_Store_Db
begin

section \<open>The key store contract over RPC\<close>

text \<open>
  The key store object of Mid-Hermes over a pipe, against a key store server, keeps the contract
  \<open>key_iface\<close> of its clients whenever the database keeps \<open>key_db\<close>: the \<open>sublocale\<close> below.  The
  interpretation \<open>test_ks\<close> of \<open>Test_Key_Store_Db\<close> thereby gives \<open>test_ks.remote\<close>.
\<close>

definition loop_key_client :: "'d hm_ks_db rpc_loop hm_key_store_client_sync" where
  "loop_key_client = \<lparr>ks_c = \<lparr>client_transport = loop_transport\<rparr>\<rparr>"

definition loop_key_store :: "'d hm_ks_db rpc_loop hermes_key_store" where
  "loop_key_store = key_store_interface \<lparr>ks_cl = loop_key_client\<rparr>"

text \<open>The data of the database behind the pipe.\<close>

definition loop_keys :: "'d hm_ks_db rpc_loop \<Rightarrow> 'd" where
  "loop_keys L = the (ks_user_data (the (loop_data L)))"

text \<open>A server just created on a database, on an idle loop.\<close>

definition key_server :: "'d hm_ks_db \<Rightarrow> 'd hm_ks_db rpc_loop" where
  "key_server db =
     (let srv = the (the (hm_key_store_server_create (Some hm_test_transport) (Some db))) in
      \<lparr>to_server = [], to_client = [], loop_server = Some (ks_s srv), loop_data = Some db\<rparr>)"

context key_db
begin

text \<open>The ids that the database keeps apart and RPC carries.\<close>

abbreviation usable :: "bytes \<Rightarrow> bool" where
  "usable i \<equiv> named i \<and> param_ok i"

lemma set_rtoken_value:
  assumes "inv d" "tok t" "usable b" "usable u" "usable w" "param_ok t"
  obtains st d' where "ks_local (Some (db d)) (KsSetR b u w t) = Some (KsDone (status_result st), Some (db d'))"
    "inv d'" "wt d' = wt d" "rt d' = (if st = HM_SUCCESS then (rt d)((b, u) \<mapsto> (t, w)) else rt d)"
    "ufull u \<and> full b \<and> ufull w \<longrightarrow> (st = HM_SUCCESS \<longleftrightarrow> u = w \<or> rt d (b, w) \<noteq> None)"
proof -
  obtain st d1 where s: "the (set_rtoken ops) d b u w t = (st, d1)" by force
  obtain st' tw d2 where g: "the (get_rtoken ops) d b w = (st', tw, d2)" by (metis prod_cases3)
  have "ks_local (Some (db d)) (KsSetR b u w t) = (if u \<noteq> w \<and> st' \<noteq> HM_SUCCESS
      then Some (KsDone (status_result HM_FAIL), Some (db d)) else Some (KsDone (status_result st), Some (db d1)))"
    using s g get_r_law [OF assms(1) conjunct1 [OF assms(3)] conjunct1 [OF assms(5)] g] callbacks assms(3-6)
    by (auto simp: hm_key_store_set_rtoken_def other_user_iff ks_done_def param_ok_def)
  moreover have held: "rt d (b, w) = None \<longleftrightarrow> st' \<noteq> HM_SUCCESS"
    using get_r_law [OF assms(1) conjunct1 [OF assms(3)] conjunct1 [OF assms(5)] g] by simp
  moreover note law = set_r_law [OF assms(1) conjunct1 [OF assms(3)] conjunct1 [OF assms(4)] conjunct1 [OF assms(5)] assms(2) s]
  ultimately show ?thesis
  proof (cases "u \<noteq> w \<and> st' \<noteq> HM_SUCCESS")
    case True
    then show ?thesis using \<open>ks_local _ _ = _\<close> assms(1) held by (intro that [of HM_FAIL d]) simp_all
  next
    case False
    then show ?thesis using \<open>ks_local _ _ = _\<close> law held by (intro that [of st d1]) auto
  qed
qed

lemma set_wtoken_value:
  assumes "inv d" "tok t" "usable b" "usable u" "usable w" "param_ok t"
  obtains st d' where "ks_local (Some (db d)) (KsSetW b u w t) = Some (KsDone (status_result st), Some (db d'))"
    "inv d'" "rt d' = rt d" "wt d' = (if st = HM_SUCCESS then (wt d)((b, u) \<mapsto> (t, w)) else wt d)"
    "ufull u \<and> full b \<and> ufull w \<longrightarrow>
       (st = HM_SUCCESS \<longleftrightarrow> (u = w \<or> wt d (b, w) \<noteq> None) \<and> rt d (b, u) \<noteq> None)"
proof -
  obtain st d1 where s: "the (set_wtoken ops) d b u w t = (st, d1)" by force
  obtain st' tw d2 where g: "the (get_wtoken ops) d b w = (st', tw, d2)" by (metis prod_cases3)
  have "ks_local (Some (db d)) (KsSetW b u w t) = (if u \<noteq> w \<and> st' \<noteq> HM_SUCCESS
      then Some (KsDone (status_result HM_FAIL), Some (db d)) else Some (KsDone (status_result st), Some (db d1)))"
    using s g get_w_law [OF assms(1) conjunct1 [OF assms(3)] conjunct1 [OF assms(5)] g] callbacks assms(3-6)
    by (auto simp: hm_key_store_set_wtoken_def other_user_iff ks_done_def param_ok_def)
  moreover have held: "wt d (b, w) = None \<longleftrightarrow> st' \<noteq> HM_SUCCESS"
    using get_w_law [OF assms(1) conjunct1 [OF assms(3)] conjunct1 [OF assms(5)] g] by simp
  moreover note law = set_w_law [OF assms(1) conjunct1 [OF assms(3)] conjunct1 [OF assms(4)] conjunct1 [OF assms(5)] assms(2) s]
  ultimately show ?thesis
  proof (cases "u \<noteq> w \<and> st' \<noteq> HM_SUCCESS")
    case True
    then show ?thesis using \<open>ks_local _ _ = _\<close> assms(1) held by (intro that [of HM_FAIL d]) simp_all
  next
    case False
    then show ?thesis using \<open>ks_local _ _ = _\<close> law held by (intro that [of st d1]) auto
  qed
qed

lemma get_token_value:
  assumes "inv d" "usable b" "usable u"
  shows "\<exists>e. ks_local (Some (db d)) (KsGetR b u) =
      Some (KsToken (case rt d (b, u) of None \<Rightarrow> Inl e | Some tw \<Rightarrow> Inr tw), Some (db d))"
    and "\<exists>e. ks_local (Some (db d)) (KsGetW b u) =
      Some (KsToken (case wt d (b, u) of None \<Rightarrow> Inl e | Some tw \<Rightarrow> Inr tw), Some (db d))"
proof -
  obtain st tw d1 where r: "the (get_rtoken ops) d b u = (st, tw, d1)" by (metis prod_cases3)
  show "\<exists>e. ks_local (Some (db d)) (KsGetR b u) =
      Some (KsToken (case rt d (b, u) of None \<Rightarrow> Inl e | Some tw \<Rightarrow> Inr tw), Some (db d))"
    using get_r_law [OF assms(1) conjunct1 [OF assms(2)] conjunct1 [OF assms(3)] r] r callbacks assms
    by (auto simp: hm_key_store_get_rtoken_def ks_result_def param_ok_def)
  obtain st tw d1 where r: "the (get_wtoken ops) d b u = (st, tw, d1)" by (metis prod_cases3)
  show "\<exists>e. ks_local (Some (db d)) (KsGetW b u) =
      Some (KsToken (case wt d (b, u) of None \<Rightarrow> Inl e | Some tw \<Rightarrow> Inr tw), Some (db d))"
    using get_w_law [OF assms(1) conjunct1 [OF assms(2)] conjunct1 [OF assms(3)] r] r callbacks assms
    by (auto simp: hm_key_store_get_wtoken_def ks_result_def param_ok_def)
qed

lemma lost_same [simp]: "lost_at p m m"
  by (simp add: lost_at_def)

lemma del_token_value:
  assumes "inv d" "usable b" "usable u" "usable w"
  shows "\<exists>st d'. ks_local (Some (db d)) (KsDelR b u w) = Some (KsDone (status_result st), Some (db d')) \<and> inv d' \<and>
      lost_at (b, u) (rt d) (rt d') \<and> lost_at (b, u) (wt d) (wt d') \<and> (st = HM_SUCCESS \<longrightarrow> rt d' (b, u) = None) \<and>
      (ufull u \<and> full b \<and> ufull w \<longrightarrow> (st = HM_SUCCESS \<longleftrightarrow> wt d (b, w) \<noteq> None \<and> rt d (b, u) \<noteq> None))"
    and "\<exists>st d'. ks_local (Some (db d)) (KsDelW b u w) = Some (KsDone (status_result st), Some (db d')) \<and> inv d' \<and>
      rt d' = rt d \<and> lost_at (b, u) (wt d) (wt d') \<and> (st = HM_SUCCESS \<longrightarrow> wt d' (b, u) = None)"
proof -
  obtain st' tw d2 where g: "the (get_wtoken ops) d b w = (st', tw, d2)" by (metis prod_cases3)
  obtain f where f: "get_wtoken ops = Some f" using callbacks by auto
  obtain st d1 where r: "the (del_rtoken ops) d b u w = (st, d1)" by force
  have "ks_local (Some (db d)) (KsDelR b u w) = (if st' = HM_SUCCESS
      then Some (KsDone (status_result st), Some (db d1)) else Some (KsDone (status_result HM_FAIL), Some (db d)))"
    using r g f get_w_law [OF assms(1) conjunct1 [OF assms(2)] conjunct1 [OF assms(4)] g] callbacks assms(2-4)
    by (auto simp: hm_key_store_del_rtoken_def ks_done_def param_ok_def)
  then show "\<exists>st d'. ks_local (Some (db d)) (KsDelR b u w) = Some (KsDone (status_result st), Some (db d')) \<and> inv d' \<and>
      lost_at (b, u) (rt d) (rt d') \<and> lost_at (b, u) (wt d) (wt d') \<and> (st = HM_SUCCESS \<longrightarrow> rt d' (b, u) = None) \<and>
      (ufull u \<and> full b \<and> ufull w \<longrightarrow> (st = HM_SUCCESS \<longleftrightarrow> wt d (b, w) \<noteq> None \<and> rt d (b, u) \<noteq> None))"
    using del_r_law [OF assms(1) conjunct1 [OF assms(2)] conjunct1 [OF assms(3)] conjunct1 [OF assms(4)] r] get_w_law [OF assms(1) conjunct1 [OF assms(2)] conjunct1 [OF assms(4)] g] assms(1)
    by (cases "st' = HM_SUCCESS")
      (intro exI [of _ st] exI [of _ d1], simp, intro exI [of _ HM_FAIL] exI [of _ d], simp)
  obtain st d1 where r: "the (del_wtoken ops) d b u w = (st, d1)" by force
  have "ks_local (Some (db d)) (KsDelW b u w) = (if st' = HM_SUCCESS
      then Some (KsDone (status_result st), Some (db d1)) else Some (KsDone (status_result HM_FAIL), Some (db d)))"
    using r g f get_w_law [OF assms(1) conjunct1 [OF assms(2)] conjunct1 [OF assms(4)] g] callbacks assms(2-4)
    by (auto simp: hm_key_store_del_wtoken_def ks_done_def param_ok_def)
  then show "\<exists>st d'. ks_local (Some (db d)) (KsDelW b u w) = Some (KsDone (status_result st), Some (db d')) \<and> inv d' \<and>
      rt d' = rt d \<and> lost_at (b, u) (wt d) (wt d') \<and> (st = HM_SUCCESS \<longrightarrow> wt d' (b, u) = None)"
    using del_w_law [OF assms(1) conjunct1 [OF assms(2)] conjunct1 [OF assms(3)] conjunct1 [OF assms(4)] r] assms(1)
    by (cases "st' = HM_SUCCESS")
      (intro exI [of _ st] exI [of _ d1], simp, intro exI [of _ HM_FAIL] exI [of _ d], simp)
qed

subsection \<open>Over the pipe\<close>

definition tokens_ok :: "'d \<Rightarrow> bool" where
  "tokens_ok d \<longleftrightarrow> (\<forall>p t w. rt d p = Some (t, w) \<or> wt d p = Some (t, w) \<longrightarrow> tok t \<and> param_ok t \<and> usable w)"

definition keys_up :: "'d hm_ks_db rpc_loop \<Rightarrow> bool" where
  "keys_up L \<longleftrightarrow> (\<exists>d. key_store_up loop_key_client L (db d) \<and> inv d \<and> tokens_ok d)"

lemma keys_upE:
  assumes "keys_up L"
  obtains d where "key_store_up loop_key_client L (db d)" "inv d" "tokens_ok d" "loop_keys L = d"
proof -
  obtain d where d: "key_store_up loop_key_client L (db d)" "inv d" "tokens_ok d"
    using assms unfolding keys_up_def by blast
  then have "loop_data L = Some (db d)" by (auto simp: key_store_up_def serving_def)
  then show ?thesis using that [OF d] by (simp add: loop_keys_def)
qed

lemma db_checked: "hm_key_store_check_backend (Some (db d))"
  using checked by (simp add: hm_key_store_check_backend_def)

lemma loop_keys_upd [simp]: "loop_keys (L\<lparr>loop_data := Some (db d)\<rparr>) = d"
  by (simp add: loop_keys_def)

lemma remote_value:
  assumes "key_store_up loop_key_client L (db d)" "ks_op_ok op" "ks_local (Some (db d)) op = Some (r, Some (db d'))"
    and "ks_res_ok r" "inv d'" "tokens_ok d'"
  shows "ks_remote (Some loop_key_client) op L = Some (r, L\<lparr>loop_data := Some (db d')\<rparr>)"
    and "keys_up (L\<lparr>loop_data := Some (db d')\<rparr>)"
  using ks_remote_local [OF assms(1-4)] key_store_up_step [OF assms(1)] assms(5,6) unfolding keys_up_def by auto

lemma status_of_done:
  "map_option (apfst KsDone) (m L) = Some (KsDone (status_result st), L') \<Longrightarrow> status_of m L = Some (st, L')"
  by (auto simp: status_of_def status_result_def)

lemma loop_store_simps:
  "param_ok u \<Longrightarrow> param_ok b \<Longrightarrow> ks_get_rtoken loop_key_store (Some u) (Some b) =
     hm_key_store_client_sync_call_get_rtoken (Some loop_key_client) (Some b) (Some u)"
  "param_ok u \<Longrightarrow> param_ok b \<Longrightarrow> ks_get_wtoken loop_key_store (Some u) (Some b) =
     hm_key_store_client_sync_call_get_wtoken (Some loop_key_client) (Some b) (Some u)"
  "param_ok u \<Longrightarrow> param_ok b \<Longrightarrow> param_ok t \<Longrightarrow> ks_set_rtoken loop_key_store (Some u) (Some b) (Some t) (Some w) =
     status_of (hm_key_store_client_sync_call_set_rtoken (Some loop_key_client) (Some b) (Some u) (Some w) (Some t))"
  "param_ok u \<Longrightarrow> param_ok b \<Longrightarrow> param_ok t \<Longrightarrow> ks_set_wtoken loop_key_store (Some u) (Some b) (Some t) (Some w) =
     status_of (hm_key_store_client_sync_call_set_wtoken (Some loop_key_client) (Some b) (Some u) (Some w) (Some t))"
  "param_ok u \<Longrightarrow> param_ok b \<Longrightarrow> ks_set_rtoken loop_key_store (Some u) (Some b) None (Some w) =
     status_of (hm_key_store_client_sync_call_del_rtoken (Some loop_key_client) (Some b) (Some u) (Some w))"
  "param_ok u \<Longrightarrow> param_ok b \<Longrightarrow> ks_set_wtoken loop_key_store (Some u) (Some b) None (Some w) =
     status_of (hm_key_store_client_sync_call_del_wtoken (Some loop_key_client) (Some b) (Some u) (Some w))"
  by (simp_all add: loop_key_store_def key_store_interface_def hermes_key_store_get_rtoken_def
      hermes_key_store_get_wtoken_def hermes_key_store_set_rtoken_def hermes_key_store_set_wtoken_def param_ok_def)

lemma remote_done:
  assumes "key_store_up loop_key_client L (db d)" "ks_op_ok op"
    and "ks_local (Some (db d)) op = Some (KsDone (status_result st), Some (db d'))" "inv d'" "tokens_ok d'"
    and "ks_remote (Some loop_key_client) op L = map_option (apfst KsDone) (m L)"
  shows "status_of m L = Some (st, L\<lparr>loop_data := Some (db d')\<rparr>)"
  using remote_value(1) [OF assms(1-3) _ assms(4,5)] assms(6) by (intro status_of_done) simp

lemma tokens_ok_upd:
  assumes "tokens_ok d" "tok t" "param_ok t" "usable w"
  shows "wt d' = wt d \<Longrightarrow> rt d' = (if c then (rt d)(p \<mapsto> (t, w)) else rt d) \<Longrightarrow> tokens_ok d'"
    and "rt d' = rt d \<Longrightarrow> wt d' = (if c then (wt d)(p \<mapsto> (t, w)) else wt d) \<Longrightarrow> tokens_ok d'"
  using assms unfolding tokens_ok_def by (auto split: if_splits)

lemma tokens_ok_lost:
  assumes "tokens_ok d" "lost_at p (rt d) (rt d')" "lost_at p (wt d) (wt d')"
  shows "tokens_ok d'"
proof -
  have "tm' q = Some x \<Longrightarrow> tm q = Some x" if "lost_at p tm tm'" for q x and tm tm' :: tokens
    using that unfolding lost_at_def by (metis option.distinct(1))
  then show ?thesis using assms unfolding tokens_ok_def by blast
qed

lemma remote_get:
  assumes "keys_up L" "usable u" "usable b"
  shows "\<exists>e. ks_get_rtoken loop_key_store (Some u) (Some b) L =
      Some (case rt (loop_keys L) (b, u) of None \<Rightarrow> Inl e | Some tw \<Rightarrow> Inr tw, L)"
    and "\<exists>e. ks_get_wtoken loop_key_store (Some u) (Some b) L =
      Some (case wt (loop_keys L) (b, u) of None \<Rightarrow> Inl e | Some tw \<Rightarrow> Inr tw, L)"
proof -
  obtain d where d: "key_store_up loop_key_client L (db d)" "inv d" "tokens_ok d" "loop_keys L = d"
    using assms(1) by (rule keys_upE)
  have L: "L\<lparr>loop_data := Some (db d)\<rparr> = L" using d(1) by (auto simp: key_store_up_def serving_def)
  have ok: "ks_res_ok (KsToken (case tm (b, u) of None \<Rightarrow> Inl e | Some tw \<Rightarrow> Inr tw))"
    if "tm = rt d \<or> tm = wt d" for e and tm :: tokens
    using that d(3) unfolding tokens_ok_def by (auto split: option.split)
  obtain e where e: "ks_local (Some (db d)) (KsGetR b u) =
      Some (KsToken (case rt d (b, u) of None \<Rightarrow> Inl e | Some tw \<Rightarrow> Inr tw), Some (db d))"
    using get_token_value(1) [OF d(2) assms(3,2)] by blast
  have "ks_remote (Some loop_key_client) (KsGetR b u) L =
      Some (KsToken (case rt d (b, u) of None \<Rightarrow> Inl e | Some tw \<Rightarrow> Inr tw), L)"
    by (rule remote_value(1) [OF d(1) _ e _ d(2,3), unfolded L]) (use ok assms(2,3) in simp_all)
  then show "\<exists>e. ks_get_rtoken loop_key_store (Some u) (Some b) L =
      Some (case rt (loop_keys L) (b, u) of None \<Rightarrow> Inl e | Some tw \<Rightarrow> Inr tw, L)"
    using assms(2,3) d(4) by (auto simp: loop_store_simps simp del: split_paired_Ex)
  obtain e where e: "ks_local (Some (db d)) (KsGetW b u) =
      Some (KsToken (case wt d (b, u) of None \<Rightarrow> Inl e | Some tw \<Rightarrow> Inr tw), Some (db d))"
    using get_token_value(2) [OF d(2) assms(3,2)] by blast
  have "ks_remote (Some loop_key_client) (KsGetW b u) L =
      Some (KsToken (case wt d (b, u) of None \<Rightarrow> Inl e | Some tw \<Rightarrow> Inr tw), L)"
    by (rule remote_value(1) [OF d(1) _ e _ d(2,3), unfolded L]) (use ok assms(2,3) in simp_all)
  then show "\<exists>e. ks_get_wtoken loop_key_store (Some u) (Some b) L =
      Some (case wt (loop_keys L) (b, u) of None \<Rightarrow> Inl e | Some tw \<Rightarrow> Inr tw, L)"
    using assms(2,3) d(4) by (auto simp: loop_store_simps simp del: split_paired_Ex)
qed

lemma remote_set:
  assumes "keys_up L" "usable u" "usable b" "tok t \<and> param_ok t" "usable w"
  shows "\<exists>st L'. ks_set_rtoken loop_key_store (Some u) (Some b) (Some t) (Some w) L = Some (st, L') \<and> keys_up L' \<and>
      wt (loop_keys L') = wt (loop_keys L) \<and> rt (loop_keys L') =
        (if st = HM_SUCCESS then (rt (loop_keys L))((b, u) \<mapsto> (t, w)) else rt (loop_keys L)) \<and>
      (ufull u \<and> full b \<and> ufull w \<longrightarrow> (st = HM_SUCCESS \<longleftrightarrow> u = w \<or> rt (loop_keys L) (b, w) \<noteq> None))"
    and "\<exists>st L'. ks_set_wtoken loop_key_store (Some u) (Some b) (Some t) (Some w) L = Some (st, L') \<and> keys_up L' \<and>
      rt (loop_keys L') = rt (loop_keys L) \<and> wt (loop_keys L') =
        (if st = HM_SUCCESS then (wt (loop_keys L))((b, u) \<mapsto> (t, w)) else wt (loop_keys L)) \<and>
      (ufull u \<and> full b \<and> ufull w \<longrightarrow>
         (st = HM_SUCCESS \<longleftrightarrow> (u = w \<or> wt (loop_keys L) (b, w) \<noteq> None) \<and> rt (loop_keys L) (b, u) \<noteq> None))"
proof -
  obtain d where d: "key_store_up loop_key_client L (db d)" "inv d" "tokens_ok d" "loop_keys L = d"
    using assms(1) by (rule keys_upE)
  have t: "tok t" "param_ok t" using assms(4) by simp_all
  obtain st d' where r: "ks_local (Some (db d)) (KsSetR b u w t) = Some (KsDone (status_result st), Some (db d'))"
    "inv d'" "wt d' = wt d" "rt d' = (if st = HM_SUCCESS then (rt d)((b, u) \<mapsto> (t, w)) else rt d)"
    "ufull u \<and> full b \<and> ufull w \<longrightarrow> (st = HM_SUCCESS \<longleftrightarrow> u = w \<or> rt d (b, w) \<noteq> None)"
    by (rule set_rtoken_value [OF d(2) t(1) assms(3,2,5) t(2)])
  have ok: "tokens_ok d'" by (rule tokens_ok_upd(1) [OF d(3) t assms(5) r(3,4)])
  have "ks_set_rtoken loop_key_store (Some u) (Some b) (Some t) (Some w) L = Some (st, L\<lparr>loop_data := Some (db d')\<rparr>)"
    unfolding loop_store_simps(3) [OF conjunct2 [OF assms(2)] conjunct2 [OF assms(3)] t(2)]
    by (rule remote_done [OF d(1) _ r(1,2) ok]) (use assms t in simp_all)
  moreover have "keys_up (L\<lparr>loop_data := Some (db d')\<rparr>)"
    using remote_value(2) [OF d(1) _ r(1) _ r(2) ok] assms t by simp
  ultimately show "\<exists>st L'. ks_set_rtoken loop_key_store (Some u) (Some b) (Some t) (Some w) L = Some (st, L') \<and> keys_up L' \<and>
      wt (loop_keys L') = wt (loop_keys L) \<and> rt (loop_keys L') =
        (if st = HM_SUCCESS then (rt (loop_keys L))((b, u) \<mapsto> (t, w)) else rt (loop_keys L)) \<and>
      (ufull u \<and> full b \<and> ufull w \<longrightarrow> (st = HM_SUCCESS \<longleftrightarrow> u = w \<or> rt (loop_keys L) (b, w) \<noteq> None))"
    using r(3-5) d(4) by (intro exI [of _ st] exI [of _ "L\<lparr>loop_data := Some (db d')\<rparr>"]) simp
  obtain st d' where r: "ks_local (Some (db d)) (KsSetW b u w t) = Some (KsDone (status_result st), Some (db d'))"
    "inv d'" "rt d' = rt d" "wt d' = (if st = HM_SUCCESS then (wt d)((b, u) \<mapsto> (t, w)) else wt d)"
    "ufull u \<and> full b \<and> ufull w \<longrightarrow>
       (st = HM_SUCCESS \<longleftrightarrow> (u = w \<or> wt d (b, w) \<noteq> None) \<and> rt d (b, u) \<noteq> None)"
    by (rule set_wtoken_value [OF d(2) t(1) assms(3,2,5) t(2)])
  have ok: "tokens_ok d'" by (rule tokens_ok_upd(2) [OF d(3) t assms(5) r(3,4)])
  have "ks_set_wtoken loop_key_store (Some u) (Some b) (Some t) (Some w) L = Some (st, L\<lparr>loop_data := Some (db d')\<rparr>)"
    unfolding loop_store_simps(4) [OF conjunct2 [OF assms(2)] conjunct2 [OF assms(3)] t(2)]
    by (rule remote_done [OF d(1) _ r(1,2) ok]) (use assms t in simp_all)
  moreover have "keys_up (L\<lparr>loop_data := Some (db d')\<rparr>)"
    using remote_value(2) [OF d(1) _ r(1) _ r(2) ok] assms t by simp
  ultimately show "\<exists>st L'. ks_set_wtoken loop_key_store (Some u) (Some b) (Some t) (Some w) L = Some (st, L') \<and> keys_up L' \<and>
      rt (loop_keys L') = rt (loop_keys L) \<and> wt (loop_keys L') =
        (if st = HM_SUCCESS then (wt (loop_keys L))((b, u) \<mapsto> (t, w)) else wt (loop_keys L)) \<and>
      (ufull u \<and> full b \<and> ufull w \<longrightarrow>
         (st = HM_SUCCESS \<longleftrightarrow> (u = w \<or> wt (loop_keys L) (b, w) \<noteq> None) \<and> rt (loop_keys L) (b, u) \<noteq> None))"
    using r(3-5) d(4) by (intro exI [of _ st] exI [of _ "L\<lparr>loop_data := Some (db d')\<rparr>"]) simp
qed

lemma remote_del:
  assumes "keys_up L" "usable u" "usable b" "usable w"
  shows "\<exists>st L'. ks_set_rtoken loop_key_store (Some u) (Some b) None (Some w) L = Some (st, L') \<and> keys_up L' \<and>
      lost_at (b, u) (rt (loop_keys L)) (rt (loop_keys L')) \<and> lost_at (b, u) (wt (loop_keys L)) (wt (loop_keys L')) \<and>
      (st = HM_SUCCESS \<longrightarrow> rt (loop_keys L') (b, u) = None) \<and>
      (ufull u \<and> full b \<and> ufull w \<longrightarrow>
         (st = HM_SUCCESS \<longleftrightarrow> wt (loop_keys L) (b, w) \<noteq> None \<and> rt (loop_keys L) (b, u) \<noteq> None))"
    and "\<exists>st L'. ks_set_wtoken loop_key_store (Some u) (Some b) None (Some w) L = Some (st, L') \<and> keys_up L' \<and>
      rt (loop_keys L') = rt (loop_keys L) \<and> lost_at (b, u) (wt (loop_keys L)) (wt (loop_keys L')) \<and>
      (st = HM_SUCCESS \<longrightarrow> wt (loop_keys L') (b, u) = None)"
proof -
  obtain d where d: "key_store_up loop_key_client L (db d)" "inv d" "tokens_ok d" "loop_keys L = d"
    using assms(1) by (rule keys_upE)
  obtain st d' where r: "ks_local (Some (db d)) (KsDelR b u w) = Some (KsDone (status_result st), Some (db d'))"
    "inv d'" "lost_at (b, u) (rt d) (rt d')" "lost_at (b, u) (wt d) (wt d')" "st = HM_SUCCESS \<longrightarrow> rt d' (b, u) = None"
    "ufull u \<and> full b \<and> ufull w \<longrightarrow> (st = HM_SUCCESS \<longleftrightarrow> wt d (b, w) \<noteq> None \<and> rt d (b, u) \<noteq> None)"
    using del_token_value(1) [OF d(2) assms(3,2,4)] by blast
  have ok: "tokens_ok d'" by (rule tokens_ok_lost [OF d(3) r(3,4)])
  have "ks_set_rtoken loop_key_store (Some u) (Some b) None (Some w) L = Some (st, L\<lparr>loop_data := Some (db d')\<rparr>)"
    unfolding loop_store_simps(5) [OF conjunct2 [OF assms(2)] conjunct2 [OF assms(3)]]
    by (rule remote_done [OF d(1) _ r(1,2) ok]) (use assms in simp_all)
  moreover have "keys_up (L\<lparr>loop_data := Some (db d')\<rparr>)"
    using remote_value(2) [OF d(1) _ r(1) _ r(2) ok] assms by simp
  ultimately show "\<exists>st L'. ks_set_rtoken loop_key_store (Some u) (Some b) None (Some w) L = Some (st, L') \<and> keys_up L' \<and>
      lost_at (b, u) (rt (loop_keys L)) (rt (loop_keys L')) \<and> lost_at (b, u) (wt (loop_keys L)) (wt (loop_keys L')) \<and>
      (st = HM_SUCCESS \<longrightarrow> rt (loop_keys L') (b, u) = None) \<and>
      (ufull u \<and> full b \<and> ufull w \<longrightarrow>
         (st = HM_SUCCESS \<longleftrightarrow> wt (loop_keys L) (b, w) \<noteq> None \<and> rt (loop_keys L) (b, u) \<noteq> None))"
    using r(3-6) d(4) by (intro exI [of _ st] exI [of _ "L\<lparr>loop_data := Some (db d')\<rparr>"]) simp
  obtain st d' where r: "ks_local (Some (db d)) (KsDelW b u w) = Some (KsDone (status_result st), Some (db d'))"
    "inv d'" "rt d' = rt d" "lost_at (b, u) (wt d) (wt d')" "st = HM_SUCCESS \<longrightarrow> wt d' (b, u) = None"
    using del_token_value(2) [OF d(2) assms(3,2,4)] by blast
  have ok: "tokens_ok d'" using r(3) by (intro tokens_ok_lost [OF d(3) _ r(4)]) simp
  have "ks_set_wtoken loop_key_store (Some u) (Some b) None (Some w) L = Some (st, L\<lparr>loop_data := Some (db d')\<rparr>)"
    unfolding loop_store_simps(6) [OF conjunct2 [OF assms(2)] conjunct2 [OF assms(3)]]
    by (rule remote_done [OF d(1) _ r(1,2) ok]) (use assms in simp_all)
  moreover have "keys_up (L\<lparr>loop_data := Some (db d')\<rparr>)"
    using remote_value(2) [OF d(1) _ r(1) _ r(2) ok] assms by simp
  ultimately show "\<exists>st L'. ks_set_wtoken loop_key_store (Some u) (Some b) None (Some w) L = Some (st, L') \<and> keys_up L' \<and>
      rt (loop_keys L') = rt (loop_keys L) \<and> lost_at (b, u) (wt (loop_keys L)) (wt (loop_keys L')) \<and>
      (st = HM_SUCCESS \<longrightarrow> wt (loop_keys L') (b, u) = None)"
    using r(3-5) d(4) by (intro exI [of _ st] exI [of _ "L\<lparr>loop_data := Some (db d')\<rparr>"]) simp
qed

lemma remote_stored:
  assumes "keys_up L"
  shows "rt (loop_keys L) p = Some (t, w) \<Longrightarrow> (tok t \<and> param_ok t) \<and> usable w"
    and "wt (loop_keys L) p = Some (t, w) \<Longrightarrow> (tok t \<and> param_ok t) \<and> usable w"
proof -
  have "tokens_ok (loop_keys L)" using assms by (rule keys_upE) simp
  then show "rt (loop_keys L) p = Some (t, w) \<Longrightarrow> (tok t \<and> param_ok t) \<and> usable w"
    and "wt (loop_keys L) p = Some (t, w) \<Longrightarrow> (tok t \<and> param_ok t) \<and> usable w"
    unfolding tokens_ok_def by blast+
qed

lemma server_up:
  assumes "inv d" "tokens_ok d"
  shows "keys_up (key_server (db d))" "loop_keys (key_server (db d)) = d"
proof -
  obtain srv :: "(pipes, 'd) hm_key_store_server" where srv:
    "hm_key_store_server_create (Some hm_test_transport) (Some (db d)) = Some (Some srv)"
    using hm_key_store_server_create_returns [of "Some hm_test_transport" "Some (db d)"] db_checked by auto
  have L: "key_server (db d) = \<lparr>to_server = [], to_client = [], loop_server = Some (ks_s srv), loop_data = Some (db d)\<rparr>"
    by (simp add: key_server_def srv Let_def)
  have "key_store_up loop_key_client (key_server (db d)) (db d)"
    unfolding key_store_up_def L using srv
    by (auto simp: serving_def loop_idle_def loop_key_client_def hm_key_store_client_sync_create_def
        hm_rpc_client_sync_create_def)
  with assms show "keys_up (key_server (db d))" unfolding keys_up_def by blast
  show "loop_keys (key_server (db d)) = d" by (simp add: L loop_keys_def)
qed

end

sublocale key_db \<subseteq> remote: key_iface loop_key_store keys_up "\<lambda>L. rt (loop_keys L)" "\<lambda>L. wt (loop_keys L)"
    "\<lambda>i. named i \<and> param_ok i" "\<lambda>i. named i \<and> param_ok i" "\<lambda>t. tok t \<and> param_ok t" full ufull
  by unfold_locales (rule remote_get remote_set remote_del remote_stored | assumption | simp add: param_ok_def)+

text \<open>The database of the tests keeps all ids apart.\<close>

interpretation test_ks_remote: key_iface loop_key_store test_ks.keys_up "\<lambda>L. test_rt (loop_keys L)"
    "\<lambda>L. test_wt (loop_keys L)" param_ok param_ok "\<lambda>t. test_tok t \<and> param_ok t" "\<lambda>i. length i = 32"
    "\<lambda>i. length i = 32"
  using test_ks.remote.key_iface_axioms by simp

end
