(* ===== verification/Data_Store_Db.thy ===== *)
theory Data_Store_Db
  imports Data_Store
begin

section \<open>Data store databases and the MAC rule\<close>

text \<open>
  What a data store promises, whatever its database.  \<open>ds_step\<close> is the abstract specification: a
  map from block ids to data, meta and MAC, in which an update or a deletion has to present the
  MAC the block was last written with.  The locale \<open>data_db\<close> is the contract of a database
  (\<^verbatim>\<open>hm_ds_db_t\<close>), under which the functions of \<open>Data_Store\<close> refine the specification.  The
  database of \<^verbatim>\<open>tests/common/test_data_store_db.c\<close> is modelled at the end and shown to keep it.
\<close>

subsection \<open>The abstract specification\<close>

type_synonym blocks = "bytes \<Rightarrow> (bytes \<times> bytes \<times> bytes) option"

fun ds_failed :: "ds_res \<Rightarrow> bool" where
  "ds_failed (DsDone r) = (\<exists>e. r = Inl e)"
| "ds_failed (DsId r) = (\<exists>e. r = Inl e)"
| "ds_failed (DsBlock r) = (\<exists>e. r = Inl e)"

inductive ds_step :: "blocks \<Rightarrow> ds_op \<Rightarrow> ds_res \<Rightarrow> blocks \<Rightarrow> bool" where
  fail: "ds_failed r \<Longrightarrow> \<forall>i. op \<noteq> DsRead i \<Longrightarrow> ds_step m op r m"
| create: "m i = None \<Longrightarrow> ds_step m (DsCreate b mt mac) (DsId (Inr i)) (m(i \<mapsto> (b, mt, mac)))"
| create_with_id: "m i = None \<Longrightarrow>
    ds_step m (DsCreateWithId i b mt mac) (DsDone (Inr ())) (m(i \<mapsto> (b, mt, mac)))"
| read: "m i = Some (b, mt, mac) \<Longrightarrow> ds_step m (DsRead i) (DsBlock (Inr (b, mt))) m"
| read_missing: "m i = None \<Longrightarrow> ds_step m (DsRead i) (DsBlock (Inl e)) m"
| update: "m i = Some (b0, mt0, old) \<Longrightarrow>
    ds_step m (DsUpdate i b mt mac old) (DsDone (Inr ())) (m(i \<mapsto> (b, mt, mac)))"
| delete: "m i = Some (b0, mt0, old) \<Longrightarrow> ds_step m (DsDelete i old) (DsDone (Inr ())) (m(i := None))"

inductive ds_run :: "blocks \<Rightarrow> ds_op list \<Rightarrow> ds_res list \<Rightarrow> blocks \<Rightarrow> bool" where
  stop: "ds_run m [] [] m"
| step: "ds_step m op r m1 \<Longrightarrow> ds_run m1 ops rs m' \<Longrightarrow> ds_run m (op # ops) (r # rs) m'"

text \<open>The operations that present a MAC for a block.\<close>

fun presents :: "bytes \<Rightarrow> bytes \<Rightarrow> ds_op \<Rightarrow> bool" where
  "presents i mac (DsUpdate j b mt new old) = (j = i \<and> old = mac)"
| "presents i mac (DsDelete j old) = (j = i \<and> old = mac)"
| "presents i mac _ = False"

lemma ds_step_keeps:
  "ds_step m op r m' \<Longrightarrow> m i = Some (b, mt, mac) \<Longrightarrow> \<not> presents i mac op \<Longrightarrow> m' i = m i"
  by (cases rule: ds_step.cases) (auto split: if_splits)

lemma ds_run_keeps:
  "ds_run m ops rs m' \<Longrightarrow> m i = Some (b, mt, mac) \<Longrightarrow> list_all (\<lambda>op. \<not> presents i mac op) ops \<Longrightarrow>
   m' i = Some (b, mt, mac)"
proof (induction rule: ds_run.induct)
  case (step m op r m1 ops rs m')
  then show ?case using ds_step_keeps [of m op r m1 i b mt mac] by simp
qed simp

subsection \<open>The contract of a database\<close>

text \<open>
  \<open>block_db\<close> is what Mid-Hermes relies on: ids of a form the database keeps apart (\<open>named\<close>), updates of
  blocks that exist.  \<open>data_db\<close> adds what the data store promises for every id and operation.
\<close>

locale block_db =
  fixes ops :: "'d hm_ds_db"
    and blk :: "'d \<Rightarrow> blocks"
    and inv :: "'d \<Rightarrow> bool"
    and named full :: "bytes \<Rightarrow> bool"
    and fits :: "bytes \<Rightarrow> bytes \<Rightarrow> bytes \<Rightarrow> bool"
    and fresh :: "'d \<Rightarrow> bytes option"
  assumes checked: "hm_data_store_check_backend (Some ops)"
    and stored_id: "inv d \<Longrightarrow> blk d i \<noteq> None \<Longrightarrow> named i \<and> param_ok i \<and> full i"
    and insert_law: "inv d \<Longrightarrow> the (insert_block ops) d b mt mac = (st, i, d') \<Longrightarrow>
      inv d' \<and> (if st = HM_SUCCESS then blk d i = None \<and> blk d' = (blk d)(i \<mapsto> (b, mt, mac)) else blk d' = blk d) \<and>
      (fits b mt mac \<and> fresh d \<noteq> None \<longrightarrow> st = HM_SUCCESS \<and> fresh d = Some i)"
    and get_law: "inv d \<Longrightarrow> named i \<Longrightarrow> the (get_block ops) d i = (st, bm, d') \<Longrightarrow>
      d' = d \<and> (if st = HM_SUCCESS then \<exists>mac. blk d i = Some (fst bm, snd bm, mac) else blk d i = None)"
    and update_law: "inv d \<Longrightarrow> blk d i \<noteq> None \<Longrightarrow> the (update_block ops) d i b mt mac old = (st, d') \<Longrightarrow>
      inv d' \<and> (if st = HM_SUCCESS then (\<exists>b0 mt0. blk d i = Some (b0, mt0, old)) \<and> blk d' = (blk d)(i \<mapsto> (b, mt, mac))
        else blk d' = blk d) \<and> (fits b mt mac \<and> (\<exists>b0 mt0. blk d i = Some (b0, mt0, old)) \<longrightarrow> st = HM_SUCCESS)"
    and rem_law: "inv d \<Longrightarrow> named i \<Longrightarrow> the (rem_block ops) d i old = (st, d') \<Longrightarrow>
      inv d' \<and> (if st = HM_SUCCESS then (\<exists>b0 mt0. blk d i = Some (b0, mt0, old)) \<and> blk d' = (blk d)(i := None)
        else blk d' = blk d)"
begin

definition db :: "'d \<Rightarrow> 'd hm_ds_db" where
  "db d = ops\<lparr>ds_user_data := Some d\<rparr>"

lemma db_simps [simp]:
  "ds_user_data (db d) = Some d" "insert_block (db d) = insert_block ops"
  "insert_block_with_id (db d) = insert_block_with_id ops" "get_block (db d) = get_block ops"
  "update_block (db d) = update_block ops" "rem_block (db d) = rem_block ops"
  "db d\<lparr>ds_user_data := Some d'\<rparr> = db d'"
  by (simp_all add: db_def)

lemma callbacks:
  "\<exists>f. insert_block ops = Some f" "\<exists>f. insert_block_with_id ops = Some f" "\<exists>f. get_block ops = Some f"
  "\<exists>f. update_block ops = Some f" "\<exists>f. rem_block ops = Some f"
  using checked by (auto simp: hm_data_store_check_backend_def)

lemma no_empty_id: "inv d \<Longrightarrow> blk d [] = None"
  using stored_id [of d "[]"] by (cases "blk d []") (simp_all add: param_ok_def)

end

locale data_db = block_db ops blk inv "\<lambda>_. True" full fits fresh
  for ops :: "'d hm_ds_db" and blk :: "'d \<Rightarrow> blocks" and inv :: "'d \<Rightarrow> bool" and full fits fresh +
  assumes insert_with_id_law: "inv d \<Longrightarrow> the (insert_block_with_id ops) d i b mt mac = (st, d') \<Longrightarrow>
      inv d' \<and> (if st = HM_SUCCESS then blk d i = None \<and> blk d' = (blk d)(i \<mapsto> (b, mt, mac)) else blk d' = blk d)"
    and update_missing: "inv d \<Longrightarrow> blk d i = None \<Longrightarrow> the (update_block ops) d i b mt mac old = (st, d') \<Longrightarrow>
      inv d' \<and> st \<noteq> HM_SUCCESS \<and> blk d' = blk d"
begin

definition stepped :: "'d \<Rightarrow> ds_op \<Rightarrow> ds_res \<times> 'd hm_ds_db option \<Rightarrow> bool" where
  "stepped d op r \<longleftrightarrow> (\<exists>d'. snd r = Some (db d') \<and> inv d' \<and> ds_step (blk d) op (fst r) (blk d'))"

lemma steppedI:
  "inv d' \<Longrightarrow> ds_step (blk d) op r (blk d') \<Longrightarrow> stepped d op (r, Some (db d'))"
  by (auto simp: stepped_def)

lemma stepped_fail:
  assumes "inv d'" "blk d' = blk d" "ds_failed r" "\<forall>i. op \<noteq> DsRead i"
  shows "stepped d op (r, Some (db d'))"
  using assms(1) by (rule steppedI) (simp add: assms fail)

lemma create_stepped:
  assumes "inv d"
  shows "stepped d (DsCreate b mt mac) (ds_local (Some (db d)) (DsCreate b mt mac))"
proof (cases "b = [] \<or> mt = [] \<or> mac = []")
  case True
  with assms show ?thesis by (auto simp: hm_data_store_create_block_def intro: stepped_fail)
next
  case False
  obtain st i d' where r: "the (insert_block ops) d b mt mac = (st, i, d')" by (metis prod_cases3)
  note law = insert_law [OF assms r]
  have "ds_local (Some (db d)) (DsCreate b mt mac) =
      (DsId (if st = HM_SUCCESS then Inr i else Inl st), Some (db d'))"
    using False r callbacks by (auto simp: hm_data_store_create_block_def ds_result_def)
  with law show ?thesis by (auto intro: stepped_fail steppedI simp: create)
qed

lemma create_with_id_stepped:
  assumes "inv d"
  shows "stepped d (DsCreateWithId i b mt mac) (ds_local (Some (db d)) (DsCreateWithId i b mt mac))"
proof (cases "i = [] \<or> b = [] \<or> mt = [] \<or> mac = []")
  case True
  with assms show ?thesis
    by (auto simp: hm_data_store_create_block_with_id_def status_result_def intro: stepped_fail)
next
  case False
  obtain st d' where r: "the (insert_block_with_id ops) d i b mt mac = (st, d')" by force
  note law = insert_with_id_law [OF assms r]
  have "ds_local (Some (db d)) (DsCreateWithId i b mt mac) = (DsDone (status_result st), Some (db d'))"
    using False r callbacks by (auto simp: hm_data_store_create_block_with_id_def ds_done_def)
  with law show ?thesis
    by (auto intro: stepped_fail steppedI simp: create_with_id status_result_def)
qed

lemma read_stepped:
  assumes "inv d"
  shows "stepped d (DsRead i) (ds_local (Some (db d)) (DsRead i))"
proof (cases "i = []")
  case True
  with assms no_empty_id [OF assms] show ?thesis
    by (auto simp: hm_data_store_read_block_def intro: steppedI read_missing)
next
  case False
  obtain st b mt d' where r: "the (get_block ops) d i = (st, (b, mt), d')" by (metis prod_cases3 surj_pair)
  note law = get_law [OF assms TrueI r]
  have "ds_local (Some (db d)) (DsRead i) =
      (DsBlock (if st = HM_SUCCESS then Inr (b, mt) else Inl st), Some (db d'))"
    using False r callbacks by (auto simp: hm_data_store_read_block_def ds_result_def)
  with law assms show ?thesis by (auto intro!: steppedI intro: read_missing read split: if_splits)
qed

lemma update_stepped:
  assumes "inv d"
  shows "stepped d (DsUpdate i b mt mac old) (ds_local (Some (db d)) (DsUpdate i b mt mac old))"
proof (cases "i = [] \<or> b = [] \<or> mt = [] \<or> mac = [] \<or> old = []")
  case True
  with assms show ?thesis
    by (auto simp: hm_data_store_update_block_def status_result_def intro: stepped_fail)
next
  case False
  obtain st d' where r: "the (update_block ops) d i b mt mac old = (st, d')" by force
  note law = update_law [OF assms _ r] update_missing [OF assms _ r]
  have "ds_local (Some (db d)) (DsUpdate i b mt mac old) = (DsDone (status_result st), Some (db d'))"
    using False r callbacks by (auto simp: hm_data_store_update_block_def ds_done_def)
  with law show ?thesis
    by (cases "blk d i = None") (auto intro!: steppedI intro: ds_step.update simp: fail status_result_def split: if_splits)
qed

lemma delete_stepped:
  assumes "inv d"
  shows "stepped d (DsDelete i old) (ds_local (Some (db d)) (DsDelete i old))"
proof (cases "i = [] \<or> old = []")
  case True
  with assms show ?thesis
    by (auto simp: hm_data_store_delete_block_def status_result_def intro: stepped_fail)
next
  case False
  obtain st d' where r: "the (rem_block ops) d i old = (st, d')" by force
  note law = rem_law [OF assms TrueI r]
  have "ds_local (Some (db d)) (DsDelete i old) = (DsDone (status_result st), Some (db d'))"
    using False r callbacks by (auto simp: hm_data_store_delete_block_def ds_done_def)
  with law show ?thesis
    by (auto intro!: steppedI intro: delete simp: fail status_result_def split: if_splits)
qed

lemma local_step:
  assumes "inv d"
  obtains r d' where "ds_local (Some (db d)) op = (r, Some (db d'))" "inv d'"
    "ds_step (blk d) op r (blk d')"
proof -
  have "stepped d op (ds_local (Some (db d)) op)"
    using create_stepped create_with_id_stepped read_stepped update_stepped delete_stepped assms
    by (cases op) blast+
  then show ?thesis using that by (metis stepped_def prod.collapse)
qed

lemma local_run:
  assumes "inv d"
  shows "\<exists>d'. snd (ds_local_all (Some (db d)) ks) = Some (db d') \<and> inv d' \<and>
    ds_run (blk d) ks (fst (ds_local_all (Some (db d)) ks)) (blk d')"
  using assms
proof (induction ks arbitrary: d)
  case Nil
  then show ?case by (auto intro: stop)
next
  case (Cons op ks)
  obtain r d1 where d1: "ds_local (Some (db d)) op = (r, Some (db d1))" "inv d1"
    "ds_step (blk d) op r (blk d1)"
    using local_step [OF Cons.prems] by metis
  from Cons.IH [OF d1(2)] obtain d' where "snd (ds_local_all (Some (db d1)) ks) = Some (db d')" "inv d'"
    "ds_run (blk d1) ks (fst (ds_local_all (Some (db d1)) ks)) (blk d')" by blast
  with d1 show ?case by (auto simp: Let_def case_prod_unfold intro: step)
qed

end

end
