(* ===== verification/Test_Data_Store_Db.thy ===== *)
theory Test_Data_Store_Db
  imports Data_Store_Db
begin

section \<open>The database of the data store tests\<close>

text \<open>
  \<^verbatim>\<open>tests/common/test_data_store_db.c\<close>: a search tree of blocks by id, here a map.  New ids come from
  \<^verbatim>\<open>soter_rand\<close> of the Themis library, whose outcomes are the list \<open>rands\<close> of the state: each call
  takes the next one, and fails when the list has no further value of the right length.  The
  creation loop draws until the id is new.

  The interpretation \<open>test_ds\<close> shows that this database keeps the contract \<open>data_db\<close>.
\<close>

definition DS_BLOCK_ID_LENGTH :: nat where "DS_BLOCK_ID_LENGTH = 32"
definition MAX_BLOCK_LENGTH :: nat where "MAX_BLOCK_LENGTH = 2048"
definition MAX_META_LENGTH :: nat where "MAX_META_LENGTH = 1024"
definition MAX_MAC_LENGTH :: nat where "MAX_MAC_LENGTH = 256"

record hm_test_ds_db_node =
  ds_block :: bytes
  ds_meta :: bytes
  ds_mac :: bytes

record hm_test_ds_db =
  ds_blocks :: "bytes \<Rightarrow> hm_test_ds_db_node option"
  rands :: "bytes list"

definition lengths_ok :: "bytes \<Rightarrow> bytes \<Rightarrow> bytes \<Rightarrow> bool" where
  "lengths_ok b mt mac \<longleftrightarrow> b \<noteq> [] \<and> length b \<le> MAX_BLOCK_LENGTH \<and> mt \<noteq> [] \<and> length mt \<le> MAX_META_LENGTH \<and>
     mac \<noteq> [] \<and> length mac \<le> MAX_MAC_LENGTH"

text \<open>The loop of draws: the new id and the draws left, or \<open>None\<close> when \<^verbatim>\<open>soter_rand\<close> fails.\<close>

fun draw_id :: "(bytes \<Rightarrow> hm_test_ds_db_node option) \<Rightarrow> bytes list \<Rightarrow> bytes option \<times> bytes list" where
  "draw_id m [] = (None, [])"
| "draw_id m (i # is) =
     (if length i \<noteq> DS_BLOCK_ID_LENGTH then (None, is)
      else if m i \<noteq> None then draw_id m is
      else (Some i, is))"

definition hm_test_ds_db_insert_block ::
    "hm_test_ds_db \<Rightarrow> bytes \<Rightarrow> bytes \<Rightarrow> bytes \<Rightarrow> status \<times> bytes \<times> hm_test_ds_db" where
  "hm_test_ds_db_insert_block d b mt mac =
     (if \<not> lengths_ok b mt mac then (HM_INVALID_PARAMETER, [], d)
      else (case draw_id (ds_blocks d) (rands d) of
              (None, is) \<Rightarrow> (HM_FAIL, [], d\<lparr>rands := is\<rparr>)
            | (Some i, is) \<Rightarrow>
                (HM_SUCCESS, i,
                 d\<lparr>ds_blocks := (ds_blocks d)(i \<mapsto> \<lparr>ds_block = b, ds_meta = mt, ds_mac = mac\<rparr>),
                   rands := is\<rparr>)))"

definition hm_test_ds_db_insert_block_with_id ::
    "hm_test_ds_db \<Rightarrow> bytes \<Rightarrow> bytes \<Rightarrow> bytes \<Rightarrow> bytes \<Rightarrow> status \<times> hm_test_ds_db" where
  "hm_test_ds_db_insert_block_with_id d i b mt mac =
     (if \<not> lengths_ok b mt mac \<or> length i \<noteq> DS_BLOCK_ID_LENGTH then (HM_INVALID_PARAMETER, d)
      else if ds_blocks d i \<noteq> None then (HM_FAIL, d)
      else (HM_SUCCESS, d\<lparr>ds_blocks := (ds_blocks d)(i \<mapsto> \<lparr>ds_block = b, ds_meta = mt, ds_mac = mac\<rparr>)\<rparr>))"

definition hm_test_ds_db_read_block ::
    "hm_test_ds_db \<Rightarrow> bytes \<Rightarrow> status \<times> (bytes \<times> bytes) \<times> hm_test_ds_db" where
  "hm_test_ds_db_read_block d i =
     (if length i \<noteq> DS_BLOCK_ID_LENGTH then (HM_INVALID_PARAMETER, ([], []), d)
      else (case ds_blocks d i of
              None \<Rightarrow> (HM_FAIL, ([], []), d)
            | Some n \<Rightarrow> (HM_SUCCESS, (ds_block n, ds_meta n), d)))"

definition hm_test_ds_db_update_block ::
    "hm_test_ds_db \<Rightarrow> bytes \<Rightarrow> bytes \<Rightarrow> bytes \<Rightarrow> bytes \<Rightarrow> bytes \<Rightarrow> status \<times> hm_test_ds_db" where
  "hm_test_ds_db_update_block d i b mt mac old =
     (if length i \<noteq> DS_BLOCK_ID_LENGTH \<or> \<not> lengths_ok b mt mac \<or> old = [] \<or> MAX_MAC_LENGTH < length old
      then (HM_INVALID_PARAMETER, d)
      else (case ds_blocks d i of
              None \<Rightarrow> (HM_FAIL, d)
            | Some n \<Rightarrow>
                if length (ds_mac n) \<noteq> length old \<or> c_memcmp (ds_mac n) old (length (ds_mac n)) \<noteq> Some 0
                then (HM_FAIL, d)
                else (HM_SUCCESS,
                  d\<lparr>ds_blocks := (ds_blocks d)(i \<mapsto> \<lparr>ds_block = b, ds_meta = mt, ds_mac = mac\<rparr>)\<rparr>)))"

definition hm_test_ds_db_delete_block ::
    "hm_test_ds_db \<Rightarrow> bytes \<Rightarrow> bytes \<Rightarrow> status \<times> hm_test_ds_db" where
  "hm_test_ds_db_delete_block d i old =
     (if length i \<noteq> DS_BLOCK_ID_LENGTH \<or> old = [] \<or> MAX_MAC_LENGTH < length old
      then (HM_INVALID_PARAMETER, d)
      else (case ds_blocks d i of
              None \<Rightarrow> (HM_FAIL, d)
            | Some n \<Rightarrow>
                if length (ds_mac n) \<noteq> length old \<or> c_memcmp (ds_mac n) old (length (ds_mac n)) \<noteq> Some 0
                then (HM_FAIL, d)
                else (HM_SUCCESS, d\<lparr>ds_blocks := (ds_blocks d)(i := None)\<rparr>)))"

definition hm_test_ds_db_create :: "bytes list \<Rightarrow> hm_test_ds_db hm_ds_db" where
  "hm_test_ds_db_create is =
     \<lparr>ds_user_data = Some \<lparr>ds_blocks = Map.empty, rands = is\<rparr>,
      insert_block = Some hm_test_ds_db_insert_block,
      insert_block_with_id = Some hm_test_ds_db_insert_block_with_id,
      get_block = Some hm_test_ds_db_read_block, update_block = Some hm_test_ds_db_update_block,
      rem_block = Some hm_test_ds_db_delete_block\<rparr>"

subsection \<open>The contract\<close>

definition node_content :: "hm_test_ds_db_node \<Rightarrow> bytes \<times> bytes \<times> bytes" where
  "node_content n = (ds_block n, ds_meta n, ds_mac n)"

definition test_blk :: "hm_test_ds_db \<Rightarrow> blocks" where
  "test_blk d i = map_option node_content (ds_blocks d i)"

definition test_ds_inv :: "hm_test_ds_db \<Rightarrow> bool" where
  "test_ds_inv d \<longleftrightarrow> (\<forall>i n. ds_blocks d i = Some n \<longrightarrow> length i = DS_BLOCK_ID_LENGTH \<and>
     lengths_ok (ds_block n) (ds_meta n) (ds_mac n))"

lemma draw_id_new: "draw_id m is = (Some i, is') \<Longrightarrow> m i = None \<and> length i = DS_BLOCK_ID_LENGTH"
  by (induction m "is" rule: draw_id.induct) (auto split: if_splits)

lemma test_blk_simps [simp]:
  "test_blk (d\<lparr>rands := is\<rparr>) = test_blk d"
  "test_blk (d\<lparr>ds_blocks := m(i \<mapsto> n)\<rparr>) = (test_blk (d\<lparr>ds_blocks := m\<rparr>))(i \<mapsto> node_content n)"
  "test_blk (d\<lparr>ds_blocks := m(i := None)\<rparr>) = (test_blk (d\<lparr>ds_blocks := m\<rparr>))(i := None)"
  "test_blk (d\<lparr>ds_blocks := ds_blocks d\<rparr>) = test_blk d"
  "test_blk (d\<lparr>ds_blocks := m, rands := is\<rparr>) = test_blk (d\<lparr>ds_blocks := m\<rparr>)"
  by (auto simp: test_blk_def fun_eq_iff)

lemma test_ds_checked: "hm_data_store_check_backend (Some (hm_test_ds_db_create is))"
  by (simp add: hm_test_ds_db_create_def hm_data_store_check_backend_def)

interpretation test_ds: data_db "hm_test_ds_db_create []" test_blk test_ds_inv "\<lambda>i. length i = 32" lengths_ok
    "\<lambda>d. fst (draw_id (ds_blocks d) (rands d))"
proof (unfold_locales, goal_cases)
  case 1
  show ?case by (rule test_ds_checked)
next
  case (2 d i)
  then have "length i = DS_BLOCK_ID_LENGTH" by (auto simp: test_ds_inv_def test_blk_def)
  then show ?case by (auto simp: param_ok_def DS_BLOCK_ID_LENGTH_def)
next
  case (3 d b mt mac st i d')
  then show ?case
    by (auto simp: hm_test_ds_db_create_def hm_test_ds_db_insert_block_def test_ds_inv_def
        node_content_def dest: draw_id_new split: if_splits prod.splits option.splits)
      (auto simp: test_blk_def dest: draw_id_new)
next
  case (4 d i st bm d')
  have "length i \<noteq> DS_BLOCK_ID_LENGTH \<Longrightarrow> ds_blocks d i = None"
    using 4(1) by (cases "ds_blocks d i") (auto simp: test_ds_inv_def)
  with 4 show ?case
    by (auto simp: hm_test_ds_db_create_def hm_test_ds_db_read_block_def test_blk_def
        node_content_def split: if_splits option.splits)
next
  case (5 d i b mt mac old st d')
  have mac: "ds_mac z \<noteq> []" "\<not> MAX_MAC_LENGTH < length (ds_mac z)" if "ds_blocks d i = Some z" for z
    using 5(1) that unfolding test_ds_inv_def lengths_ok_def by (meson linorder_not_le)+
  have run: "hm_test_ds_db_update_block d i b mt mac old = (st, d')"
    using 5(3) by (simp add: hm_test_ds_db_create_def)
  show ?case
    using 5(1) run mac
    by (auto simp: hm_test_ds_db_update_block_def test_ds_inv_def node_content_def split: if_splits option.splits)
      (auto simp: test_blk_def node_content_def)
next
  case (6 d i old st d')
  then show ?case
    by (auto simp: hm_test_ds_db_create_def hm_test_ds_db_delete_block_def test_ds_inv_def
        split: if_splits option.splits) (auto simp: test_blk_def node_content_def)
next
  case (7 d i b mt mac st d')
  then show ?case
    by (auto simp: hm_test_ds_db_create_def hm_test_ds_db_insert_block_with_id_def test_ds_inv_def
        node_content_def split: if_splits) (auto simp: test_blk_def)
next
  case (8 d i b mt mac old st d')
  then show ?case
    by (auto simp: hm_test_ds_db_create_def hm_test_ds_db_update_block_def test_blk_def split: if_splits option.splits)
qed



subsection \<open>Concrete runs\<close>

lemmas ds_eval = hm_test_ds_db_create_def hm_data_store_create_block_def hm_data_store_read_block_def
  hm_data_store_update_block_def hm_data_store_delete_block_def hm_test_ds_db_insert_block_def
  hm_test_ds_db_read_block_def hm_test_ds_db_update_block_def hm_test_ds_db_delete_block_def
  ds_result_def ds_done_def status_result_def lengths_ok_def c_memcmp_def DS_BLOCK_ID_LENGTH_def
  MAX_BLOCK_LENGTH_def MAX_META_LENGTH_def MAX_MAC_LENGTH_def

theorem data_store_remote_refines_local_witness:
  "\<exists>(L :: hm_test_ds_db hm_ds_db rpc_loop) c. map_option fst (ds_remote_all (Some c)
      [DsCreate [1] [2] [3], DsUpdate (replicate 32 9) [4] [5] [6] [7], DsRead (replicate 32 9)] L) =
    Some [DsId (Inr (replicate 32 9)), DsDone (Inl HM_FAIL), DsBlock (Inr ([1], [2]))]"
proof -
  let ?d = "hm_test_ds_db_create [replicate 32 9]"
  let ?ops = "[DsCreate [1] [2] [3], DsUpdate (replicate 32 9) [4] [5] [6] [7], DsRead (replicate 32 9)]"
  obtain s where up: "data_store_up \<lparr>ds_c = \<lparr>client_transport = loop_transport\<rparr>\<rparr>
    \<lparr>to_server = [], to_client = [], loop_server = Some s, loop_data = Some ?d\<rparr> ?d"
    using data_store_up_exists [OF test_ds_checked] by blast
  have res: "fst (ds_local_all (Some ?d) ?ops) =
    [DsId (Inr (replicate 32 9)), DsDone (Inl HM_FAIL), DsBlock (Inr ([1], [2]))]"
    by (simp add: ds_eval)
  have "list_all ds_op_ok ?ops" "list_all ds_res_ok (fst (ds_local_all (Some ?d) ?ops))"
    unfolding res by (simp_all add: param_ok_def)
  note run = data_store_remote_refines_local [OF up this, unfolded res]
  show ?thesis by (intro exI, subst run) simp
qed



end
