(* ===== verification/Mid_Data.thy ===== *)
theory Mid_Data
  imports Mid_Contract Test_Data_Store_Db
begin

section \<open>The data store contract over RPC\<close>

text \<open>
  The data store object of Mid-Hermes over a pipe, against a data store server, keeps the contract
  \<open>data_iface\<close> of its clients whenever the database keeps \<open>block_db\<close>: the \<open>sublocale\<close> below, which
  gives \<open>test_ds.remote\<close> for the database of the tests.
\<close>

definition loop_data_client :: "'d hm_ds_db rpc_loop hm_data_store_client_sync" where
  "loop_data_client = \<lparr>ds_c = \<lparr>client_transport = loop_transport\<rparr>\<rparr>"

definition loop_data_store :: "'d hm_ds_db rpc_loop hermes_data_store" where
  "loop_data_store = data_store_interface \<lparr>ds_cl = loop_data_client\<rparr>"

definition loop_blocks :: "'d hm_ds_db rpc_loop \<Rightarrow> 'd" where
  "loop_blocks L = the (ds_user_data (the (loop_data L)))"

text \<open>A server just created on a database, on an idle loop.\<close>

definition data_server :: "'d hm_ds_db \<Rightarrow> 'd hm_ds_db rpc_loop" where
  "data_server db =
     (let srv = the (the (hm_data_store_server_create (Some hm_test_transport) (Some db))) in
      \<lparr>to_server = [], to_client = [], loop_server = Some (ds_s srv), loop_data = Some db\<rparr>)"

context block_db
begin

definition blocks_ok :: "'d \<Rightarrow> bool" where
  "blocks_ok d \<longleftrightarrow> (\<forall>i b mt mac. blk d i = Some (b, mt, mac) \<longrightarrow> param_ok b \<and> param_ok mt \<and> param_ok mac)"

definition blocks_up :: "'d hm_ds_db rpc_loop \<Rightarrow> bool" where
  "blocks_up L \<longleftrightarrow> (\<exists>d. data_store_up loop_data_client L (db d) \<and> inv d \<and> blocks_ok d)"

lemma blocks_upE:
  assumes "blocks_up L"
  obtains d where "data_store_up loop_data_client L (db d)" "inv d" "blocks_ok d" "loop_blocks L = d"
    "L\<lparr>loop_data := Some (db d)\<rparr> = L"
proof -
  obtain d where d: "data_store_up loop_data_client L (db d)" "inv d" "blocks_ok d"
    using assms unfolding blocks_up_def by blast
  then have L: "loop_data L = Some (db d)" by (auto simp: data_store_up_def serving_def)
  then have "L\<lparr>loop_data := Some (db d)\<rparr> = L" by (cases L) simp
  then show ?thesis using that [OF d] L by (simp add: loop_blocks_def)
qed

lemma db_inj: "db d = db d' \<longleftrightarrow> d = d'"
  by (metis db_simps(1) option.inject)

lemma loop_blocks_upd [simp]: "loop_blocks (L\<lparr>loop_data := Some (db d)\<rparr>) = d"
  by (simp add: loop_blocks_def)

lemma remote_value:
  assumes "data_store_up loop_data_client L (db d)" "ds_op_ok op" "ds_local (Some (db d)) op = (r, Some (db d'))"
    and "ds_res_ok r" "inv d'" "blocks_ok d'"
  shows "ds_remote (Some loop_data_client) op L = Some (r, L\<lparr>loop_data := Some (db d')\<rparr>)"
    and "blocks_up (L\<lparr>loop_data := Some (db d')\<rparr>)"
  using ds_remote_local [OF assms(1,2)] assms(3,4) data_store_up_step [OF assms(1)] assms(5,6)
  unfolding blocks_up_def by auto

lemma loop_store_simps:
  "param_ok e \<Longrightarrow> param_ok m \<Longrightarrow> param_ok mac \<Longrightarrow> ds_set_block loop_data_store None (Some e) (Some m) (Some mac) None =
     act_bind (hm_data_store_client_sync_call_create_block (Some loop_data_client) (Some e) (Some m) (Some mac) True)
       (\<lambda>res. act_ret (case res of Inl e \<Rightarrow> (e, None) | Inr new_id \<Rightarrow> (HM_SUCCESS, Some new_id)))"
  "param_ok e \<Longrightarrow> param_ok m \<Longrightarrow> param_ok mac \<Longrightarrow>
   ds_set_block loop_data_store (Some i) (Some e) (Some m) (Some mac) (Some old) =
     act_bind (status_of (hm_data_store_client_sync_call_update_block (Some loop_data_client) (Some i) (Some e) (Some m)
       (Some mac) (Some old))) (\<lambda>st. act_ret (st, Some i))"
  "param_ok i \<Longrightarrow> ds_get_block loop_data_store (Some i) =
     hm_data_store_client_sync_call_read_block (Some loop_data_client) (Some i) True"
  by (simp_all add: loop_data_store_def data_store_interface_def hermes_data_store_set_block_def
      hermes_data_store_get_block_def param_ok_def Let_def)

lemma create_value:
  assumes "inv d" "param_ok b" "param_ok mt" "param_ok mac"
  obtains st i d' where "ds_local (Some (db d)) (DsCreate b mt mac) =
      (DsId (if st = HM_SUCCESS then Inr i else Inl st), Some (db d'))" "inv d'"
    "if st = HM_SUCCESS then blk d i = None \<and> blk d' = (blk d)(i \<mapsto> (b, mt, mac)) else blk d' = blk d"
    "fits b mt mac \<and> fresh d \<noteq> None \<longrightarrow> st = HM_SUCCESS \<and> fresh d = Some i"
proof -
  obtain st i d' where r: "the (insert_block ops) d b mt mac = (st, i, d')" by (metis prod_cases3)
  have "ds_local (Some (db d)) (DsCreate b mt mac) =
      (DsId (if st = HM_SUCCESS then Inr i else Inl st), Some (db d'))"
    using assms(2-4) r callbacks by (auto simp: hm_data_store_create_block_def ds_result_def param_ok_def)
  then show ?thesis using that insert_law [OF assms(1) r] by blast
qed

lemma update_value:
  assumes "inv d" "blk d i \<noteq> None" "param_ok i" "param_ok b" "param_ok mt" "param_ok mac" "param_ok old"
  obtains st d' where "ds_local (Some (db d)) (DsUpdate i b mt mac old) = (DsDone (status_result st), Some (db d'))" "inv d'"
    "if st = HM_SUCCESS then (\<exists>b0 mt0. blk d i = Some (b0, mt0, old)) \<and> blk d' = (blk d)(i \<mapsto> (b, mt, mac))
      else blk d' = blk d"
    "fits b mt mac \<and> (\<exists>b0 mt0. blk d i = Some (b0, mt0, old)) \<longrightarrow> st = HM_SUCCESS"
proof -
  obtain st d' where r: "the (update_block ops) d i b mt mac old = (st, d')" by force
  have "ds_local (Some (db d)) (DsUpdate i b mt mac old) = (DsDone (status_result st), Some (db d'))"
    using assms(3-7) r callbacks by (auto simp: hm_data_store_update_block_def ds_done_def param_ok_def)
  then show ?thesis using that update_law [OF assms(1,2) r] by blast
qed

lemma remote_create:
  assumes "blocks_up L" "param_ok e" "param_ok m" "param_ok mac"
  shows "\<exists>st i L'. ds_set_block loop_data_store None (Some e) (Some m) (Some mac) None L = Some ((st, i), L') \<and>
      blocks_up L' \<and>
      (if st = HM_SUCCESS then \<exists>j. i = Some j \<and> (named j \<and> param_ok j) \<and> blk (loop_blocks L) j = None \<and>
         blk (loop_blocks L') = (blk (loop_blocks L))(j \<mapsto> (e, m, mac))
       else blk (loop_blocks L') = blk (loop_blocks L)) \<and>
      (fits e m mac \<and> fresh (loop_blocks L) \<noteq> None \<longrightarrow> st = HM_SUCCESS \<and> i = fresh (loop_blocks L))"
proof -
  let ?op = "DsCreate e m mac"
  obtain d where d: "data_store_up loop_data_client L (db d)" "inv d" "blocks_ok d" "loop_blocks L = d"
    using assms(1) by (rule blocks_upE)
  obtain st i d' where r: "ds_local (Some (db d)) ?op = (DsId (if st = HM_SUCCESS then Inr i else Inl st), Some (db d'))"
      "inv d'"
    and post: "if st = HM_SUCCESS then blk d i = None \<and> blk d' = (blk d)(i \<mapsto> (e, m, mac)) else blk d' = blk d"
      "fits e m mac \<and> fresh d \<noteq> None \<longrightarrow> st = HM_SUCCESS \<and> fresh d = Some i"
    by (rule create_value [OF d(2) assms(2-4)])
  let ?L = "L\<lparr>loop_data := Some (db d')\<rparr>" and ?x = "if st = HM_SUCCESS then Inr i else Inl st"
  have ok: "blocks_ok d'" using post(1) d(3) assms(2-4) by (auto simp: blocks_ok_def split: if_splits)
  have i: "st = HM_SUCCESS \<longrightarrow> named i \<and> param_ok i" using post(1) stored_id [OF r(2), of i] by auto
  have run: "ds_remote (Some loop_data_client) ?op L = Some (DsId ?x, ?L)" "blocks_up ?L"
    using remote_value [OF d(1) _ r(1) _ r(2) ok] i assms(2-4) by simp_all
  then have "hm_data_store_client_sync_call_create_block (Some loop_data_client) (Some e) (Some m) (Some mac) True L =
      Some (?x, ?L)" by auto
  then show ?thesis
    unfolding loop_store_simps(1) [OF assms(2-4)] using run(2) post i d(4) by (auto simp: act_bind_run)
qed

lemma remote_update:
  assumes "blocks_up L" "blk (loop_blocks L) i \<noteq> None" "named i \<and> param_ok i" "param_ok e" "param_ok m" "param_ok mac" "param_ok old"
  shows "\<exists>st L'. ds_set_block loop_data_store (Some i) (Some e) (Some m) (Some mac) (Some old) L = Some ((st, Some i), L') \<and>
      blocks_up L' \<and>
      (if st = HM_SUCCESS then (\<exists>e0 m0. blk (loop_blocks L) i = Some (e0, m0, old)) \<and>
         blk (loop_blocks L') = (blk (loop_blocks L))(i \<mapsto> (e, m, mac))
       else blk (loop_blocks L') = blk (loop_blocks L)) \<and>
      (fits e m mac \<and> (\<exists>e0 m0. blk (loop_blocks L) i = Some (e0, m0, old)) \<longrightarrow> st = HM_SUCCESS)"
proof -
  let ?op = "DsUpdate i e m mac old"
  obtain d where d: "data_store_up loop_data_client L (db d)" "inv d" "blocks_ok d" "loop_blocks L = d"
    using assms(1) by (rule blocks_upE)
  obtain st d' where r: "ds_local (Some (db d)) ?op = (DsDone (status_result st), Some (db d'))" "inv d'"
    and post: "if st = HM_SUCCESS then (\<exists>e0 m0. blk d i = Some (e0, m0, old)) \<and> blk d' = (blk d)(i \<mapsto> (e, m, mac))
      else blk d' = blk d" "fits e m mac \<and> (\<exists>e0 m0. blk d i = Some (e0, m0, old)) \<longrightarrow> st = HM_SUCCESS"
    by (rule update_value [OF d(2) _ conjunct2 [OF assms(3)] assms(4-7)]) (use assms(2) d(4) in simp)
  let ?L = "L\<lparr>loop_data := Some (db d')\<rparr>"
  have ok: "blocks_ok d'" using post(1) d(3) assms(4-6) by (auto simp: blocks_ok_def split: if_splits)
  have run: "ds_remote (Some loop_data_client) ?op L = Some (DsDone (status_result st), ?L)" "blocks_up ?L"
    using remote_value [OF d(1) _ r(1) _ r(2) ok] assms by simp_all
  then have "status_of (hm_data_store_client_sync_call_update_block (Some loop_data_client) (Some i) (Some e) (Some m)
      (Some mac) (Some old)) L = Some (st, ?L)"
    by (auto simp: status_of_def status_result_def)
  then show ?thesis
    unfolding loop_store_simps(2) [OF assms(4-6)] using run(2) post d(4) by (auto simp: act_bind_run)
qed

lemma remote_full: "blocks_up L \<Longrightarrow> blk (loop_blocks L) i \<noteq> None \<Longrightarrow> full i"
  using stored_id by (blast elim: blocks_upE)

lemma remote_read:
  assumes "blocks_up L" "named i \<and> param_ok i"
  shows "\<exists>e. ds_get_block loop_data_store (Some i) L =
      Some (case blk (loop_blocks L) i of None \<Rightarrow> Inl e | Some (b, m, mac) \<Rightarrow> Inr (b, m), L)"
proof -
  let ?op = "DsRead i"
  obtain d where d: "data_store_up loop_data_client L (db d)" "inv d" "blocks_ok d" "loop_blocks L = d"
      "L\<lparr>loop_data := Some (db d)\<rparr> = L"
    using assms(1) by (rule blocks_upE)
  obtain st b m d' where get: "the (get_block ops) d i = (st, (b, m), d')" by (metis prod_cases3 surj_pair)
  note law = get_law [OF d(2) conjunct1 [OF assms(2)] get]
  let ?x = "if st = HM_SUCCESS then Inr (b, m) else Inl st"
  have r: "ds_local (Some (db d)) ?op = (DsBlock ?x, Some (db d))"
    using get law callbacks assms(2) by (auto simp: hm_data_store_read_block_def ds_result_def param_ok_def)
  have "ds_res_ok (DsBlock ?x)" using law d(3) by (auto simp: blocks_ok_def)
  then have "ds_remote (Some loop_data_client) ?op L = Some (DsBlock ?x, L)"
    using remote_value(1) [OF d(1) _ r _ d(2,3)] assms(2) d(5) by simp
  then have "hm_data_store_client_sync_call_read_block (Some loop_data_client) (Some i) True L = Some (?x, L)"
    by auto
  moreover have "?x = (case blk d i of None \<Rightarrow> Inl st | Some (b, m, mac) \<Rightarrow> Inr (b, m))"
    using law by auto
  ultimately show ?thesis
    unfolding loop_store_simps(3) [OF conjunct2 [OF assms(2)]] d(4) by (intro exI [of _ st]) simp
qed

lemma remote_block_ok:
  assumes "blocks_up L" "blk (loop_blocks L) i = Some (b, m, mac)"
  shows "param_ok b \<and> param_ok m \<and> param_ok mac"
proof -
  have "blocks_ok (loop_blocks L)" using assms(1) by (rule blocks_upE) simp
  then show ?thesis using assms(2) by (simp add: blocks_ok_def)
qed

lemma db_checked: "hm_data_store_check_backend (Some (db d))"
  using checked by (simp add: hm_data_store_check_backend_def)

lemma server_up:
  assumes "inv d" "blocks_ok d"
  shows "blocks_up (data_server (db d))" "loop_blocks (data_server (db d)) = d"
proof -
  obtain srv :: "(pipes, 'd) hm_data_store_server" where srv:
    "hm_data_store_server_create (Some hm_test_transport) (Some (db d)) = Some (Some srv)"
    using hm_data_store_server_create_returns [of "Some hm_test_transport" "Some (db d)"] db_checked by auto
  have L: "data_server (db d) = \<lparr>to_server = [], to_client = [], loop_server = Some (ds_s srv), loop_data = Some (db d)\<rparr>"
    by (simp add: data_server_def srv Let_def)
  have "data_store_up loop_data_client (data_server (db d)) (db d)"
    unfolding data_store_up_def L using srv
    by (auto simp: serving_def loop_idle_def loop_data_client_def hm_data_store_client_sync_create_def
        hm_rpc_client_sync_create_def)
  with assms show "blocks_up (data_server (db d))" unfolding blocks_up_def by blast
  show "loop_blocks (data_server (db d)) = d" by (simp add: L loop_blocks_def)
qed

end

sublocale block_db \<subseteq> remote: data_iface loop_data_store blocks_up "\<lambda>L. blk (loop_blocks L)"
    "\<lambda>i. named i \<and> param_ok i" param_ok full fits "\<lambda>L. fresh (loop_blocks L)"
  by unfold_locales (rule remote_create remote_update remote_read remote_block_ok remote_full | assumption | simp add: param_ok_def)+

interpretation test_ds_remote: data_iface loop_data_store test_ds.blocks_up "\<lambda>L. test_blk (loop_blocks L)"
    param_ok param_ok "\<lambda>i. length i = 32" lengths_ok
    "\<lambda>L. fst (draw_id (ds_blocks (loop_blocks L)) (rands (loop_blocks L)))"
  using test_ds.remote.data_iface_axioms by simp

end
