(* ===== verification/Mid_Creds.thy ===== *)
theory Mid_Creds
  imports Mid_Contract
begin

section \<open>The credential store contract over RPC\<close>

text \<open>
  The credential store object of Mid-Hermes over a pipe, against a credential store server, keeps the
  contract \<open>credential_iface\<close> of its clients whenever the database keeps \<open>cred_db\<close>: the \<open>sublocale\<close> below,
  which gives \<open>test_cs.remote\<close> for the database of the tests.
\<close>

definition loop_cred_store :: "'d hm_cs_db rpc_loop hermes_credential_store" where
  "loop_cred_store = credential_store_interface \<lparr>cs_cl = \<lparr>cs_c = \<lparr>client_transport = loop_transport\<rparr>\<rparr>\<rparr>"

definition loop_creds :: "'d hm_cs_db rpc_loop \<Rightarrow> 'd" where
  "loop_creds L = cs_user_data (the (loop_data L))"

text \<open>A server just created on a database, on an idle loop.\<close>

definition cred_server :: "'d hm_cs_db \<Rightarrow> 'd hm_cs_db rpc_loop" where
  "cred_server db =
     (let srv = the (the (hm_credential_store_server_create (Some hm_test_transport) (Some db))) in
      \<lparr>to_server = [], to_client = [], loop_server = Some (cs_s srv), loop_data = Some db\<rparr>)"

subsection \<open>The contract of a database\<close>

text \<open>Of the ids of a form the database keeps apart, it knows the keys of some, which pass through the RPC.\<close>

locale cred_db =
  fixes ops :: "'d hm_cs_db"
    and users :: "'d \<Rightarrow> bytes \<Rightarrow> bytes option"
    and inv :: "'d \<Rightarrow> bool"
    and named :: "bytes \<Rightarrow> bool"
  assumes checked: "hm_credential_store_check_backend (Some ops)"
    and get_law: "inv d \<Longrightarrow> named u \<Longrightarrow> the (get_pub ops) d u = (st, pk, d') \<Longrightarrow>
      d' = d \<and> users d u = (if st = HM_SUCCESS then Some pk else None)"
    and stored_key: "inv d \<Longrightarrow> users d u = Some pk \<Longrightarrow> param_ok pk"
begin

definition db :: "'d \<Rightarrow> 'd hm_cs_db" where
  "db d = ops\<lparr>cs_user_data := d\<rparr>"

lemma db_simps [simp]: "cs_user_data (db d) = d" "get_pub (db d) = get_pub ops" "db d\<lparr>cs_user_data := d'\<rparr> = db d'"
  by (simp_all add: db_def)

definition creds_up :: "'d hm_cs_db rpc_loop \<Rightarrow> bool" where
  "creds_up L \<longleftrightarrow> (\<exists>srv db0 d.
     hm_credential_store_server_create (Some hm_test_transport) (Some db0) = Some (Some srv) \<and>
     serving L (cs_s srv) (db d) \<and> inv d)"

lemma creds_upE:
  assumes "creds_up L"
  obtains srv db0 d where
    "hm_credential_store_server_create (Some hm_test_transport) (Some db0) = Some (Some srv)"
    "serving L (cs_s srv) (db d)" "inv d" "loop_creds L = d" "L\<lparr>loop_data := Some (db d)\<rparr> = L"
proof -
  obtain srv db0 d where up: "hm_credential_store_server_create (Some hm_test_transport) (Some db0) = Some (Some srv)"
      "serving L (cs_s srv) (db d)" "inv d"
    using assms unfolding creds_up_def by blast
  then have L: "loop_data L = Some (db d)" by (simp add: serving_def)
  then have "L\<lparr>loop_data := Some (db d)\<rparr> = L" by (cases L) simp
  then show ?thesis using that [OF up] L by (simp add: loop_creds_def)
qed

lemma get_value:
  assumes "inv d" "named u \<and> param_ok u"
  obtains e where "hm_credential_store_get_pub_key_by_id (Some (db d)) (Some u) True =
    (case users d u of None \<Rightarrow> Inl e | Some pk \<Rightarrow> Inr pk, Some (db d))"
proof -
  obtain st pk d' where r: "the (get_pub ops) d u = (st, pk, d')" by (metis prod_cases3)
  have "get_pub ops \<noteq> None" using checked by (simp add: hm_credential_store_check_backend_def)
  with get_law [OF assms(1) conjunct1 [OF assms(2)] r] r assms(2)
  have "hm_credential_store_get_pub_key_by_id (Some (db d)) (Some u) True =
      (case users d u of None \<Rightarrow> Inl st | Some pk \<Rightarrow> Inr pk, Some (db d))"
    by (auto simp: hm_credential_store_get_pub_key_by_id_def param_ok_def)
  then show ?thesis by (rule that)
qed

lemma remote_get:
  assumes "creds_up L" "named u \<and> param_ok u"
  shows "\<exists>e. cs_get_public_key loop_cred_store (Some u) L =
    Some (case users (loop_creds L) u of None \<Rightarrow> Inl e | Some pk \<Rightarrow> Inr pk, L)"
proof -
  obtain srv db0 d where up: "hm_credential_store_server_create (Some hm_test_transport) (Some db0) = Some (Some srv)"
      "serving L (cs_s srv) (db d)" "inv d" "loop_creds L = d" "L\<lparr>loop_data := Some (db d)\<rparr> = L"
    using assms(1) by (rule creds_upE)
  obtain e where e: "hm_credential_store_get_pub_key_by_id (Some (db d)) (Some u) True =
      (case users d u of None \<Rightarrow> Inl e | Some pk \<Rightarrow> Inr pk, Some (db d))"
    by (rule get_value [OF up(3) assms(2)])
  have "\<forall>pk. (case users d u of None \<Rightarrow> Inl e | Some pk \<Rightarrow> Inr pk) = Inr pk \<longrightarrow> param_ok pk"
    using stored_key [OF up(3)] by (auto split: option.splits)
  then have "hm_credential_store_client_sync_call_get_pub_key_by_id
      (Some \<lparr>cs_c = \<lparr>client_transport = loop_transport\<rparr>\<rparr>) (Some u) True L =
    Some (case users d u of None \<Rightarrow> Inl e | Some pk \<Rightarrow> Inr pk, L)"
    using get_pub_call_run [OF up(1,2) _ conjunct2 [OF assms(2)] e] up(5)
    by (simp add: hm_credential_store_client_sync_create_def hm_rpc_client_sync_create_def)
  then show ?thesis
    using assms(2) up(4)
    by (auto simp: loop_cred_store_def credential_store_interface_def hermes_credential_store_get_public_key_def
        param_ok_def)
qed

lemma remote_key_ok: "creds_up L \<Longrightarrow> users (loop_creds L) u = Some pk \<Longrightarrow> pk \<noteq> []"
  by (auto elim!: creds_upE dest: stored_key simp: param_ok_def)

lemma server_up:
  assumes "inv d"
  shows "creds_up (cred_server (db d))" "loop_creds (cred_server (db d)) = d"
proof -
  obtain srv :: "(pipes, 'd) hm_credential_store_server" where srv:
    "hm_credential_store_server_create (Some hm_test_transport) (Some (db d)) = Some (Some srv)"
    using hm_credential_store_server_create_returns [of "Some hm_test_transport" "Some (db d)"] checked
    by (auto simp: hm_credential_store_check_backend_def)
  have L: "cred_server (db d) = \<lparr>to_server = [], to_client = [], loop_server = Some (cs_s srv), loop_data = Some (db d)\<rparr>"
    by (simp add: cred_server_def srv Let_def)
  have "serving (cred_server (db d)) (cs_s srv) (db d)" unfolding L by (simp add: serving_def loop_idle_def)
  with srv assms show "creds_up (cred_server (db d))" unfolding creds_up_def by blast
  show "loop_creds (cred_server (db d)) = d" by (simp add: L loop_creds_def)
qed

end

sublocale cred_db \<subseteq> remote: credential_iface loop_cred_store creds_up "\<lambda>L. users (loop_creds L)"
    "\<lambda>u. named u \<and> param_ok u"
  by unfold_locales (auto simp: param_ok_def remote_get remote_key_ok simp del: split_paired_Ex)

subsection \<open>The database of the tests\<close>

definition test_users :: "(bytes \<Rightarrow> bytes option) \<Rightarrow> bytes \<Rightarrow> bytes option" where
  "test_users d u = (if length u = 32 then d u else None)"

definition keys_storable :: "(bytes \<Rightarrow> bytes option) \<Rightarrow> bool" where
  "keys_storable users \<longleftrightarrow> (\<forall>u pk. users u = Some pk \<longrightarrow> param_ok pk)"

interpretation test_cs: cred_db "hm_test_cs_db_create Map.empty" test_users keys_storable "\<lambda>_. True"
  by unfold_locales
    (auto simp: hm_test_cs_db_create_def hm_credential_store_check_backend_def hm_cs_test_db_get_pub_by_id_def test_users_def
      keys_storable_def split: if_splits option.splits)

lemma test_cs_db: "test_cs.db users = hm_test_cs_db_create users"
  unfolding test_cs.db_def by (simp add: hm_test_cs_db_create_def)

interpretation test_cs_remote: credential_iface loop_cred_store test_cs.creds_up "\<lambda>L. test_users (loop_creds L)" param_ok
  using test_cs.remote.credential_iface_axioms by simp

end
