(* ===== verification/Demo_Themis.thy ===== *)
theory Demo_Themis
  imports Ll_Block_Props
begin

section \<open>An instance of the cryptographic parameters\<close>

text \<open>
  A small instance of the record \<open>themis\<close> that satisfies \<open>themis_laws\<close>, used to apply the theorems
  about blocks at concrete inputs.  It is not a model of Themis.  A sealing is the data behind a
  check byte, the sum of the bytes of key and context; a wrapped message is the data behind the sum
  of the two keys, which sender and receiver compute alike when a private key and its public key
  have the same sum.  A check byte that does not match fails after the length query.
\<close>

definition check_byte :: "bytes \<Rightarrow> bytes \<Rightarrow> u8" where
  "check_byte a b = sum_list a + sum_list b"

definition demo_unseal :: "u8 \<Rightarrow> bytes \<Rightarrow> themis_status \<times> bytes" where
  "demo_unseal c e = (if e \<noteq> [] \<and> hd e = c then (THEMIS_SUCCESS, tl e) else (THEMIS_FAIL, []))"

definition demo_themis :: "(nat, bytes) themis" where
  "demo_themis =
     \<lparr>soter_rand = (\<lambda>n r. (THEMIS_SUCCESS, replicate n (of_nat (Suc r)), Suc r)),
      cell_encrypt_seal_size = (\<lambda>k c d. (THEMIS_BUFFER_TOO_SMALL, Suc (length d))),
      cell_encrypt_seal = (\<lambda>k c d n r. (THEMIS_SUCCESS, check_byte k (case_option [] (\<lambda>x. x) c) # d, r)),
      cell_decrypt_seal_size = (\<lambda>k c e. (THEMIS_BUFFER_TOO_SMALL, length e - 1)),
      cell_decrypt_seal = (\<lambda>k c e n. demo_unseal (check_byte k (case_option [] (\<lambda>x. x) c)) e),
      message_wrap_size = (\<lambda>sk pk d. (THEMIS_BUFFER_TOO_SMALL, Suc (length d))),
      message_wrap = (\<lambda>sk pk d n r. (THEMIS_SUCCESS, check_byte sk pk # d, r)),
      message_unwrap_size = (\<lambda>sk pk e. (THEMIS_BUFFER_TOO_SMALL, length e - 1)),
      message_unwrap = (\<lambda>sk pk e n. demo_unseal (check_byte sk pk) e),
      hmac_create = (\<lambda>k. Some k),
      hmac_update = (\<lambda>h c. (THEMIS_SUCCESS, h @ case_option [] (\<lambda>x. x) c)),
      hmac_final_size = (\<lambda>h. (THEMIS_BUFFER_TOO_SMALL, 1, h)),
      hmac_final = (\<lambda>h n. (THEMIS_SUCCESS, [sum_list h], h))\<rparr>"

definition demo_pair :: "bytes \<Rightarrow> bytes \<Rightarrow> bool" where
  "demo_pair sk pk \<longleftrightarrow> sum_list sk = sum_list pk"

lemma demo_laws: "themis_laws demo_themis demo_pair"
  by (auto simp: themis_laws_def seals_def wraps_def demo_themis_def demo_unseal_def check_byte_def
      demo_pair_def add.commute)

lemma demo_encrypt:
  "hm_encrypt demo_themis (Some k) (Some d) (Some c) True r =
     (if k = [] \<or> d = [] then (Inl HM_INVALID_PARAMETER, r) else (Inr (check_byte k c # d), r))"
  by (simp add: hm_encrypt_def demo_themis_def)

lemma demo_decrypt:
  "hm_decrypt demo_themis (Some k) (Some e) (Some c) True =
     (if k = [] \<or> e = [] then Inl HM_INVALID_PARAMETER
      else if hd e = check_byte k c then Inr (tl e) else Inl HM_FAIL)"
  by (simp add: hm_decrypt_def demo_themis_def demo_unseal_def)

lemma demo_mac:
  "hm_mac_create demo_themis (Some k) (Some d) (Some c) True =
     (if k = [] \<or> d = [] then Inl HM_INVALID_PARAMETER else Inr [sum_list (k @ d @ c)])"
  by (simp add: hm_mac_create_def demo_themis_def)

lemma demo_asym_encrypt:
  "hm_asym_encrypt demo_themis (Some sk) (Some pk) (Some d) True r =
     (if sk = [] \<or> pk = [] \<or> d = [] then (Inl HM_INVALID_PARAMETER, r) else (Inr (check_byte sk pk # d), r))"
  by (simp add: hm_asym_encrypt_def demo_themis_def)

lemma demo_asym_decrypt:
  "hm_asym_decrypt demo_themis (Some sk) (Some pk) (Some e) True =
     (if sk = [] \<or> pk = [] \<or> e = [] then Some (Inl HM_INVALID_PARAMETER)
      else if hd e = check_byte sk pk then Some (Inr (tl e))
      else if pointer_size < length e - 1 then None else Some (Inl HM_FAIL))"
  by (simp add: hm_asym_decrypt_def demo_themis_def demo_unseal_def)

lemmas demo_run = demo_encrypt demo_decrypt demo_mac demo_asym_encrypt demo_asym_decrypt

lemma demo_rand: "soter_rand demo_themis n r = (THEMIS_SUCCESS, replicate n (of_nat (Suc r)), Suc r)"
  by (simp add: demo_themis_def)

lemma demo_generate:
  assumes "sk \<noteq> []" "pk \<noteq> []"
  shows "mid_hermes_ll_token_generate demo_themis (Some (local_user u sk pk)) r =
    Some (Some (wrapped_for (local_user u sk pk) (local_user u sk pk)
      (check_byte sk pk # replicate HM_TOKEN_LEN (of_nat (Suc r)))), Suc r)"
  using assms
  by (simp add: mid_hermes_ll_token_generate_def demo_rand demo_asym_encrypt HM_TOKEN_LEN_def
      mid_hermes_ll_token_create_def wrapped_for_def mid_hermes_ll_buffer_create_def)

lemma demo_get_data:
  assumes "user_sk u = Some \<lparr>bdata = Some sk\<rparr>" "user_pk w = Some \<lparr>bdata = Some pk\<rparr>" "sk \<noteq> []" "pk \<noteq> []"
  shows "mid_hermes_ll_token_get_data demo_themis (Some (wrapped_for u w (check_byte sk pk # k))) =
    Some (Some \<lparr>bdata = Some k\<rparr>)"
  using assms
  by (simp add: mid_hermes_ll_token_get_data_def demo_asym_decrypt mid_hermes_ll_buffer_create_def)




text \<open>A sealed block of a user 1 with the keys 2, 2, shared with a user 3 whose keys are 4, 4.\<close>

definition demo_user :: mid_hermes_ll_user where
  "demo_user = local_user [1] [2] [2]"

definition demo_block :: mid_hermes_ll_block where
  "demo_block = \<lparr>bl_user = Some demo_user, bl_id = new_buffer [6], bl_block = new_buffer [check_byte [5] [8], 7],
     bl_data = new_buffer [7], bl_meta = new_buffer [8], bl_old_mac = None, bl_mac = new_buffer [21],
     bl_rtoken = Some (wrapped_for demo_user demo_user [4, 5]),
     bl_wtoken = Some (wrapped_for demo_user demo_user [4, 6])\<rparr>"

definition demo_entry :: rights_entry where
  "demo_entry = \<lparr>re_user = Some (remote_user [3] [4]),
     re_rtoken = Some (wrapped_for (remote_user [3] [4]) demo_user [6, 5]),
     re_wtoken = Some (wrapped_for (remote_user [3] [4]) demo_user [6, 6])\<rparr>"

lemma demo_block_sealed: "sealed demo_themis demo_block [5] [6] [7] [8]"
  by (simp add: sealed_def demo_block_def demo_user_def token_opens_def mid_hermes_ll_token_get_data_def
      mid_hermes_ll_buffer_create_def demo_run check_byte_def)

lemma demo_token_for_user:
  assumes "i \<noteq> []" "sk \<noteq> []" "pk \<noteq> []" "k \<noteq> []" "user_pk v = Some \<lparr>bdata = Some pk'\<rparr>" "pk' \<noteq> []"
  shows "mid_hermes_ll_token_get_token_for_user demo_themis
      (Some (wrapped_for (local_user i sk pk) (local_user i sk pk) (check_byte sk pk # k))) (Some v) r =
    Some (Some (wrapped_for v (local_user i sk pk) (check_byte sk pk' # k)), r)"
proof -
  have "token_opens demo_themis (Some (wrapped_for (local_user i sk pk) (local_user i sk pk) (check_byte sk pk # k))) k"
    using assms(2,3) by (simp add: token_opens_def demo_get_data)
  from token_for_user_run [OF this _ assms(1,3,5)] assms show ?thesis
    by (simp add: demo_asym_encrypt)
qed

lemma demo_rotate_run:
  "\<exists>b rs. mid_hermes_ll_block_rotate demo_themis (Some demo_block) (Some [demo_entry]) 0 =
    Some ((True, Some b, Some rs), 2)"
  by (simp add: mid_hermes_ll_block_rotate_def demo_block_def demo_user_def demo_entry_def act_simps Let_def
      generate_for_local demo_generate demo_get_data demo_token_for_user demo_encrypt demo_mac
      token_for_copy_def user_copy_eq HM_TOKEN_LEN_def new_buffer_def mid_hermes_ll_buffer_create_def)


end
