(* ===== verification/Mid_System.thy ===== *)
theory Mid_System
  imports Mid_Live Mid_Keys Mid_Data Mid_Creds Demo_Themis
begin

section \<open>Mid-Hermes over the three servers\<close>

text \<open>
  The whole stack: the operations of Mid-Hermes over the RPC clients of the three stores, each over a
  pipe to its server, with the databases of the tests behind them.  The interpretations
  \<open>test_cs.remote\<close>, \<open>test_ks.remote\<close>, \<open>test_ds.remote\<close> and \<open>sys\<close> put the contracts together; the theorems
  are the promises of \<open>Mid_Spec\<close> for this system, for every Themis that does what \<open>crypto_ok\<close> says.
\<close>

text \<open>The public keys that the server of the loop knows.\<close>

abbreviation loop_pub :: "(bytes \<Rightarrow> bytes option) hm_cs_db rpc_loop \<Rightarrow> bytes \<Rightarrow> bytes option" where
  "loop_pub L \<equiv> test_users (loop_creds L)"

interpretation sys: mid_stores loop_cred_store test_cs.creds_up loop_pub param_ok
    loop_key_store test_ks.keys_up "\<lambda>L. test_rt (loop_keys L)" "\<lambda>L. test_wt (loop_keys L)" param_ok
    "\<lambda>t. test_tok t \<and> param_ok t" "\<lambda>i. length i = 32" "\<lambda>i. length i = 32"
    loop_data_store test_ds.blocks_up "\<lambda>L. test_blk (loop_blocks L)" param_ok lengths_ok
    "\<lambda>L. fst (draw_id (ds_blocks (loop_blocks L)) (rands (loop_blocks L)))"
  by unfold_locales

subsection \<open>Systems at their start\<close>

definition empty_spec :: mid_spec where
  "empty_spec = \<lparr>content = Map.empty, readers = {}, writers = {}\<rparr>"

context mid_stores
begin

lemma empty_inv:
  assumes "winv w" "\<And>p. rt (key_state w) p = None" "\<And>p. wt (key_state w) p = None" "\<And>i. blk (data_state w) i = None"
  shows "mid_inv T key_pair w empty_spec"
  using assms by (auto simp: mid_inv_def empty_spec_def dom_def)

text \<open>A user of the credential store, with the private key that goes with the public one.\<close>

definition caller :: "(bytes \<Rightarrow> bytes \<Rightarrow> bool) \<Rightarrow> 'c \<Rightarrow> (bytes \<Rightarrow> bytes) \<Rightarrow> bytes \<Rightarrow> bool" where
  "caller key_pair c sks u \<longleftrightarrow>
     uid_ok u \<and> sks u \<noteq> [] \<and> (\<exists>pk. pub c u = Some pk \<and> key_pair (sks u) pk)"

lemma refines_from_empty:
  assumes "mid_inv T key_pair w empty_spec" "crypto_ok T key_pair plain_ok"
    and "list_all (\<lambda>(u, op). caller key_pair (cred_state w) sks u \<and> mid_op_ok bid_ok uid_ok plain_ok dat_ok op) ops"
  shows "\<exists>rs w' s'. mid_program T ks ds cs sks ops w = Some (rs, w') \<and> mid_run empty_spec ops rs s'"
proof -
  have c: "cinv (cred_state w)" using mid_invD(1) [OF assms(1)] by (rule winvD)
  have "list_all (caller_ok key_pair plain_ok sks (cred_state w)) ops"
    using assms(3) by (rule list.pred_mono_strong)
      (use pub_ok [OF c] uid_nonempty in \<open>fastforce simp: caller_def caller_ok_def known_def\<close>)
  with refines [OF assms(1,2)] show ?thesis by blast
qed

end

text \<open>Three servers just created, each on an idle loop: the public keys of the users, no tokens, no
  blocks, and the ids that \<^verbatim>\<open>soter_rand\<close> will give to blocks.\<close>

definition start_world where
  "start_world users ids r =
     \<lparr>rand_state = r, key_state = key_server hm_test_ks_db_create,
      data_state = data_server (hm_test_ds_db_create ids), cred_state = cred_server (hm_test_cs_db_create users)\<rparr>"

text \<open>A user of the credential store, with the private key that goes with the public one.\<close>

definition is_member ::
    "(bytes \<Rightarrow> bytes \<Rightarrow> bool) \<Rightarrow> (bytes \<Rightarrow> bytes option) \<Rightarrow> (bytes \<Rightarrow> bytes) \<Rightarrow> bytes \<Rightarrow> bool" where
  "is_member key_pair users sks u \<longleftrightarrow>
     length u = 32 \<and> sks u \<noteq> [] \<and> (\<exists>pk. users u = Some pk \<and> key_pair (sks u) pk)"

lemma cred_loop_up:
  assumes "keys_storable users"
  shows "test_cs.creds_up (cred_server (hm_test_cs_db_create users))"
    "loop_pub (cred_server (hm_test_cs_db_create users)) u = (if length u = 32 then users u else None)"
  using test_cs.server_up [OF assms] by (simp_all add: test_cs_db test_users_def)

lemma key_loop_up: "test_ks.keys_up (key_server hm_test_ks_db_create)" "loop_keys (key_server hm_test_ks_db_create) = Some Map.empty"
proof -
  have db: "test_ks.db (Some Map.empty) = hm_test_ks_db_create"
    unfolding test_ks.db_def by (simp add: hm_test_ks_db_create_def)
  have ok: "test_ks_inv (Some Map.empty)" "test_ks.tokens_ok (Some Map.empty)"
    by (simp_all add: test_ks.tokens_ok_def test_rt_def test_wt_def find_token_def test_ks_inv_def)
  show "test_ks.keys_up (key_server hm_test_ks_db_create)" "loop_keys (key_server hm_test_ks_db_create) = Some Map.empty"
    using test_ks.server_up [OF ok] unfolding db by simp_all
qed

lemma data_loop_up:
  "test_ds.blocks_up (data_server (hm_test_ds_db_create ids))"
  "loop_blocks (data_server (hm_test_ds_db_create ids)) = \<lparr>ds_blocks = Map.empty, rands = ids\<rparr>"
proof -
  let ?d = "\<lparr>ds_blocks = Map.empty, rands = ids\<rparr> :: hm_test_ds_db"
  have db: "test_ds.db ?d = hm_test_ds_db_create ids"
    unfolding test_ds.db_def by (simp add: hm_test_ds_db_create_def)
  have ok: "test_ds_inv ?d" "test_ds.blocks_ok ?d"
    by (simp_all add: test_ds.blocks_ok_def test_blk_def test_ds_inv_def)
  show "test_ds.blocks_up (data_server (hm_test_ds_db_create ids))"
    "loop_blocks (data_server (hm_test_ds_db_create ids)) = ?d"
    using test_ds.server_up [OF ok] unfolding db by simp_all
qed

lemma start_inv:
  assumes "keys_storable users"
  shows "sys.mid_inv T key_pair (start_world users ids r) empty_spec"
  by (rule sys.empty_inv)
    (use cred_loop_up(1) [OF assms] key_loop_up data_loop_up in
      \<open>simp_all add: sys.winv_def start_world_def test_rt_def test_wt_def find_token_def test_blk_def\<close>)

lemma member_known:
  assumes "keys_storable users" "is_member key_pair users sks u"
  obtains pk where "known key_pair (loop_pub (cred_state (start_world users ids r))) u (sks u) pk" "param_ok u"
    "length u = 32"
proof -
  obtain pk where pk: "users u = Some pk" "key_pair (sks u) pk" "length u = 32" "sks u \<noteq> []"
    using assms(2) unfolding is_member_def by blast
  then have "known key_pair (loop_pub (cred_state (start_world users ids r))) u (sks u) pk"
    using cred_loop_up(2) [OF assms(1), of u] assms(1)
    by (auto simp: known_def start_world_def keys_storable_def param_ok_def)
  moreover have "param_ok u" using pk(3) by (auto simp: param_ok_def)
  ultimately show ?thesis using that pk(3) by blast
qed

subsection \<open>Programs\<close>

text \<open>Themis works, keeps its laws, and its tokens, MACs and sealed data pass through the stores.\<close>

definition themis_fits :: "('r, 'h) themis \<Rightarrow> (bytes \<Rightarrow> bytes \<Rightarrow> bool) \<Rightarrow> (bytes \<Rightarrow> bool) \<Rightarrow> bool" where
  "themis_fits T key_pair plain_ok \<longleftrightarrow>
     works T key_pair \<and> themis_laws T key_pair \<and> outputs_ok T (\<lambda>t. test_tok t \<and> param_ok t) plain_ok param_ok"

definition program_ok ::
    "(bytes \<Rightarrow> bytes \<Rightarrow> bool) \<Rightarrow> (bytes \<Rightarrow> bool) \<Rightarrow> (bytes \<Rightarrow> bytes option) \<Rightarrow> (bytes \<Rightarrow> bytes) \<Rightarrow> (bytes \<times> mid_op) list \<Rightarrow> bool" where
  "program_ok key_pair plain_ok users sks ops \<longleftrightarrow>
     list_all (\<lambda>(u, op). is_member key_pair users sks u \<and> mid_op_ok param_ok param_ok plain_ok param_ok op) ops"

abbreviation run_program where
  "run_program T sks ops w \<equiv> mid_program T loop_key_store loop_data_store loop_cred_store sks ops w"

lemma stack_run:
  assumes "themis_fits T key_pair plain_ok" "keys_storable users" "program_ok key_pair plain_ok users sks ops"
  shows "\<exists>rs w' s'. run_program T sks ops (start_world users ids r) = Some (rs, w') \<and> mid_run empty_spec ops rs s'"
proof -
  have c: "sys.crypto_ok T key_pair plain_ok" using assms(1) by (simp add: themis_fits_def sys.crypto_ok_def)
  have caller: "sys.caller key_pair (cred_state (start_world users ids r)) sks u" if m: "is_member key_pair users sks u" for u
  proof -
    obtain pk where "known key_pair (loop_pub (cred_state (start_world users ids r))) u (sks u) pk" "param_ok u"
      by (rule member_known [OF assms(2) m, where ids = ids and r = r])
    then show ?thesis by (auto simp: sys.caller_def known_def)
  qed
  show ?thesis
    by (rule sys.refines_from_empty [OF start_inv [OF assms(2)] c])
      (use assms(3) caller in \<open>auto simp: program_ok_def list_all_iff\<close>)
qed


text \<open>What the scenarios below need of a start: the ids and keys of the two users are known and the first
  fresh id is \<open>i\<close>.\<close>

lemma scenario:
  assumes "themis_fits T key_pair plain_ok" "keys_storable users"
    and "is_member key_pair users sks u" "is_member key_pair users sks v" "u \<noteq> v" "length i = 32"
    and "list_all (\<lambda>(d, m). plain_ok d \<and> d \<noteq> [] \<and> param_ok m \<and> seals_fit lengths_ok T d m) [(d, m), (d', m')]"
  shows "\<exists>w. run_program T sks [(u, MCreate d m), (u, MGrantRead i v), (u, MGrantUpdate i v), (v, MRead i),
        (v, MUpdate i d' m'), (u, MRead i)] (start_world users (i # ids) r) =
    Some ([MId (HM_SUCCESS, Some i), MStatus HM_SUCCESS, MStatus HM_SUCCESS, MBlock (Inr (Some d, Some m)),
        MStatus HM_SUCCESS, MBlock (Inr (Some d', Some m'))], w)" (is ?shared)
    and "\<exists>w st. st \<noteq> HM_SUCCESS \<and> run_program T sks [(u, MCreate d m), (u, MGrantRead i v), (u, MGrantUpdate i v),
        (v, MDenyRead i u), (v, MUpdate i d' m'), (v, MRead i)] (start_world users (i # ids) r) =
    Some ([MId (HM_SUCCESS, Some i), MStatus HM_SUCCESS, MStatus HM_SUCCESS, MStatus HM_SUCCESS,
        MStatus st, MBlock (Inr (Some d', Some m'))], w)" (is ?revoked)
proof -
  let ?w = "start_world users (i # ids) r"
  have T: "sys.crypto_ok T key_pair plain_ok" using assms(1) by (simp add: themis_fits_def sys.crypto_ok_def)
  obtain pk where pk: "known key_pair (loop_pub (cred_state ?w)) u (sks u) pk" "param_ok u" "length u = 32"
    by (rule member_known [OF assms(2,3), where ids = "i # ids" and r = r])
  obtain pkv where pkv: "known key_pair (loop_pub (cred_state ?w)) v (sks v) pkv" "param_ok v" "length v = 32"
    by (rule member_known [OF assms(2,4), where ids = "i # ids" and r = r])
  have fresh: "fst (draw_id (ds_blocks (loop_blocks (data_state ?w))) (rands (loop_blocks (data_state ?w)))) = Some i"
    using assms(6) by (simp add: start_world_def data_loop_up(2) DS_BLOCK_ID_LENGTH_def)
  have data: "plain_ok d" "d \<noteq> []" "param_ok m" "seals_fit lengths_ok T d m"
      "plain_ok d'" "d' \<noteq> []" "param_ok m'" "seals_fit lengths_ok T d' m'" using assms(7) by simp_all
  show ?shared
    using sys.shared_block_run [where sks = sks, OF start_inv [OF assms(2)] T pk(2,1,3) pkv(2,1,3) assms(5) data(1-4) fresh data(5-8)]
    unfolding sys.runs_def by blast
  show ?revoked
    using sys.revoked_granter_run [where sks = sks, OF start_inv [OF assms(2)] T pk(2,1,3) pkv(2,1,3) assms(5) data(1-4) fresh data(5-8)]
    unfolding sys.runs_def by blast
qed

text \<open>C8. A block that a user creates, shares with another for reading and updating, is read by the other
  as it was created; the other's update succeeds and is what the first then reads.\<close>

theorem shared_block_is_read_and_updated:
  assumes "themis_fits T key_pair plain_ok" "keys_storable users"
    and "is_member key_pair users sks u" "is_member key_pair users sks v" "u \<noteq> v" "length i = 32"
    and "list_all (\<lambda>(d, m). plain_ok d \<and> d \<noteq> [] \<and> param_ok m \<and> seals_fit lengths_ok T d m) [(d, m), (d', m')]"
  shows "\<exists>w. run_program T sks [(u, MCreate d m), (u, MGrantRead i v), (u, MGrantUpdate i v), (v, MRead i),
        (v, MUpdate i d' m'), (u, MRead i)] (start_world users (i # ids) r) =
    Some ([MId (HM_SUCCESS, Some i), MStatus HM_SUCCESS, MStatus HM_SUCCESS, MBlock (Inr (Some d, Some m)),
        MStatus HM_SUCCESS, MBlock (Inr (Some d', Some m'))], w)"
  by (rule scenario(1) [OF assms])


subsection \<open>Confidentiality and integrity\<close>

lemma empty_wf [simp]: "spec_wf empty_spec"
  by (simp add: spec_wf_def empty_spec_def)

text \<open>The results of a program are those of a run of the specification.\<close>

lemma stack_results:
  assumes "themis_fits T key_pair plain_ok" "keys_storable users" "program_ok key_pair plain_ok users sks ops"
    and "run_program T sks ops (start_world users ids r) = Some (rs, w)"
  obtains s where "mid_run empty_spec ops rs s"
  using stack_run [OF assms(1-3), of ids r] assms(4) by auto

text \<open>C4. Confidentiality of the whole stack: after a user has created a block, a user outside a group
  that the creator belongs to, and whose members share the block among themselves only, cannot read
  it, whatever programs of Mid-Hermes operations all users run before and after.\<close>

theorem ungranted_block_stays_unread:
  assumes "themis_fits T key_pair plain_ok" "keys_storable users"
    and "program_ok key_pair plain_ok users sks (pre @ (u, MCreate d m) # post @ [(v, MRead i)])"
    and "run_program T sks (pre @ (u, MCreate d m) # post @ [(v, MRead i)]) (start_world users ids r) = Some (rs, w)"
    and "rs ! length pre = MId (HM_SUCCESS, Some i)"
    and "u \<in> U" "v \<notin> U" "list_all (respects_readers i U) post"
  shows "last rs = MBlock (Inl HM_FAIL)"
proof -
  obtain s where run: "mid_run empty_spec (pre @ (u, MCreate d m) # post @ [(v, MRead i)]) rs s"
    by (rule stack_results [OF assms(1-4)])
  obtain s2 rs2 s3 where s: "mid_run s2 post rs2 s3" "content s2 i = Some (d, m)" "{x. (i, x) \<in> readers s2} = {u}"
      "mid_step s3 v (MRead i) (last rs) s"
    by (rule mid_run_create_read [OF run empty_wf assms(5)])
  have "{x. (i, x) \<in> readers s3} \<subseteq> U" by (rule mid_run_readers [OF s(1)]) (use s(2,3) assms(6,8) in simp_all)
  with s(4) assms(7) show ?thesis by (auto simp: mid_step_read)
qed

text \<open>C6. Integrity of the whole stack: a block of a creator whose group shares the right to update among
  its members only, none of whom uses it, is read by everybody as it was created, or not at all.\<close>

theorem block_keeps_content:
  assumes "themis_fits T key_pair plain_ok" "keys_storable users"
    and "program_ok key_pair plain_ok users sks (pre @ (u, MCreate d m) # post @ [(v, MRead i)])"
    and "run_program T sks (pre @ (u, MCreate d m) # post @ [(v, MRead i)]) (start_world users ids r) = Some (rs, w)"
    and "rs ! length pre = MId (HM_SUCCESS, Some i)"
    and "u \<in> U" "list_all (respects_writers i U) post" "list_all (leaves i U) post"
  shows "last rs \<in> {MBlock (Inr (Some d, Some m)), MBlock (Inl HM_FAIL)}"
proof -
  obtain s where run: "mid_run empty_spec (pre @ (u, MCreate d m) # post @ [(v, MRead i)]) rs s"
    by (rule stack_results [OF assms(1-4)])
  obtain s2 rs2 s3 where s: "mid_run s2 post rs2 s3" "content s2 i = Some (d, m)" "{x. (i, x) \<in> writers s2} = {u}"
      "mid_step s3 v (MRead i) (last rs) s"
    by (rule mid_run_create_read [OF run empty_wf assms(5)])
  have "content s3 i = Some (d, m)"
    using mid_run_content [OF s(1,2) _ assms(7,8)] s(3) assms(6) by simp
  with s(4) show ?thesis by (auto simp: mid_step_read)
qed


end
