(* ===== verification/Mid_Demo.thy ===== *)
theory Mid_Demo
  imports Mid_System
begin

section \<open>The theorems of the stack at concrete inputs\<close>

text \<open>
  Two registered users over the Themis of \<open>Demo_Themis\<close>: every hypothesis of the theorems of
  \<open>Mid_System\<close> holds there, and the theorems are applied to programs they run.
\<close>

lemma demo_fits: "themis_fits demo_themis demo_pair (\<lambda>d. length d \<le> 1000)"
proof -
  have "works demo_themis demo_pair"
    by (auto simp: works_def demo_themis_def demo_pair_def hm_asym_encrypt_def hm_encrypt_def hm_mac_create_def
        split: option.splits)
  moreover have "outputs_ok demo_themis (\<lambda>t. test_tok t \<and> param_ok t) (\<lambda>d. length d \<le> 1000) param_ok"
    by (auto simp: outputs_ok_def demo_themis_def hm_asym_encrypt_def hm_encrypt_def hm_mac_create_def test_tok_def
        param_ok_def HM_TOKEN_LEN_def MAX_TOKEN_LENGTH_def split: if_splits option.splits)
  ultimately show ?thesis by (simp add: themis_fits_def demo_laws)
qed

definition alice :: bytes where
  "alice = replicate 32 1"

definition bob :: bytes where
  "bob = replicate 32 2"

definition demo_users :: "bytes \<Rightarrow> bytes option" where
  "demo_users = [alice \<mapsto> [1], bob \<mapsto> [2]]"

definition demo_sks :: "bytes \<Rightarrow> bytes" where
  "demo_sks u = (if u = alice then [1] else [2])"

definition demo_id :: bytes where
  "demo_id = replicate 32 9"

lemma demo_lengths: "length alice = 32" "length bob = 32" "length demo_id = 32" "alice \<noteq> bob" "bob \<noteq> alice"
  by (simp_all add: alice_def bob_def demo_id_def)

lemma demo_storable: "keys_storable demo_users"
  by (auto simp: keys_storable_def demo_users_def param_ok_def split: if_splits)

lemma demo_members:
  "is_member demo_pair demo_users demo_sks alice" "is_member demo_pair demo_users demo_sks bob"
  by (simp_all add: is_member_def demo_users_def demo_sks_def demo_pair_def demo_lengths)

lemma demo_params: "param_ok alice" "param_ok bob" "param_ok demo_id" "param_ok [x]"
  unfolding param_ok_def by (auto simp: demo_lengths simp flip: length_greater_0_conv)

lemma demo_seals_fit: "seals_fit lengths_ok demo_themis [x] [y]"
  by (auto simp: seals_fit_def demo_encrypt demo_mac lengths_ok_def MAX_BLOCK_LENGTH_def MAX_META_LENGTH_def
      MAX_MAC_LENGTH_def split: if_splits)

lemma demo_data:
  "list_all (\<lambda>(d, m). length d \<le> 1000 \<and> d \<noteq> [] \<and> param_ok m \<and> seals_fit lengths_ok demo_themis d m)
     [([7], [8]), ([5], [6])]"
  by (simp add: demo_params demo_seals_fit)

lemmas demo_scenario = scenario [OF demo_fits demo_storable demo_members demo_lengths(4,3) demo_data]

lemma mid_program_length: "mid_program T ks ds cs sks ops w = Some (rs, w') \<Longrightarrow> length rs = length ops"
proof (induction ops arbitrary: w rs)
  case (Cons x ops)
  then show ?case by (cases x) (auto simp: act_bind_run act_map_run split: option.splits)
qed simp

text \<open>Programs with the same beginning give the same first results.\<close>

lemma mid_program_prefix:
  assumes "mid_program T ks ds cs sks (xs @ ys) w = Some (rs, w1)" "mid_program T ks ds cs sks (xs @ zs) w = Some (rs', w2)"
  shows "take (length xs) rs = take (length xs) rs'"
  using assms by (auto simp: mid_program_append apfst_def split: option.splits dest!: mid_program_length)

lemma demo_runs:
  assumes "program_ok demo_pair (\<lambda>d. length d \<le> 1000) demo_users demo_sks ops"
  obtains rs w where "run_program demo_themis demo_sks ops (start_world demo_users ids 0) = Some (rs, w)"
  using stack_run [OF demo_fits demo_storable assms] by blast


lemma shared_block_is_read_and_updated_witness:
  "\<exists>w. run_program demo_themis demo_sks [(alice, MCreate [7] [8]), (alice, MGrantRead demo_id bob),
      (alice, MGrantUpdate demo_id bob), (bob, MRead demo_id), (bob, MUpdate demo_id [5] [6]), (alice, MRead demo_id)]
      (start_world demo_users [demo_id] 0) =
    Some ([MId (HM_SUCCESS, Some demo_id), MStatus HM_SUCCESS, MStatus HM_SUCCESS, MBlock (Inr (Some [7], Some [8])),
      MStatus HM_SUCCESS, MBlock (Inr (Some [5], Some [6]))], w)"
  by (rule shared_block_is_read_and_updated [OF demo_fits demo_storable demo_members demo_lengths(4,3) demo_data])


text \<open>Programs that begin as the scenarios do.\<close>

lemma demo_created:
  assumes "program_ok demo_pair (\<lambda>d. length d \<le> 1000) demo_users demo_sks ((alice, MCreate [7] [8]) # ops)"
  obtains rs w where "run_program demo_themis demo_sks ((alice, MCreate [7] [8]) # ops)
      (start_world demo_users [demo_id] 0) = Some (rs, w)" "rs ! 0 = MId (HM_SUCCESS, Some demo_id)"
proof -
  obtain rs w where run: "run_program demo_themis demo_sks ((alice, MCreate [7] [8]) # ops)
      (start_world demo_users [demo_id] 0) = Some (rs, w)"
    by (rule demo_runs [OF assms])
  obtain w' where "run_program demo_themis demo_sks ([(alice, MCreate [7] [8])] @ [(alice, MGrantRead demo_id bob),
      (alice, MGrantUpdate demo_id bob), (bob, MRead demo_id), (bob, MUpdate demo_id [5] [6]), (alice, MRead demo_id)])
      (start_world demo_users [demo_id] 0) =
    Some ([MId (HM_SUCCESS, Some demo_id), MStatus HM_SUCCESS, MStatus HM_SUCCESS, MBlock (Inr (Some [7], Some [8])),
      MStatus HM_SUCCESS, MBlock (Inr (Some [5], Some [6]))], w')"
    using demo_scenario(1) [of "[]" 0] by (simp del: mid_program.simps) blast
  from mid_program_prefix [OF this, of ops rs w] run have "take 1 rs = [MId (HM_SUCCESS, Some demo_id)]" by simp
  then have "rs ! 0 = MId (HM_SUCCESS, Some demo_id)" by (cases rs) simp_all
  with run that show ?thesis by blast
qed

abbreviation demo_denial :: "(bytes \<times> mid_op) list" where
  "demo_denial \<equiv> [(alice, MCreate [7] [8]), (alice, MGrantRead demo_id bob), (alice, MGrantUpdate demo_id bob),
     (bob, MDenyRead demo_id alice)]"

lemma demo_denied:
  assumes "program_ok demo_pair (\<lambda>d. length d \<le> 1000) demo_users demo_sks (demo_denial @ ops)"
  obtains rs w where "run_program demo_themis demo_sks (demo_denial @ ops)
      (start_world demo_users [demo_id] 0) = Some (rs, w)" "rs ! Suc (Suc (Suc 0)) = MStatus HM_SUCCESS"
proof -
  obtain rs w where run: "run_program demo_themis demo_sks (demo_denial @ ops)
      (start_world demo_users [demo_id] 0) = Some (rs, w)"
    by (rule demo_runs [OF assms])
  obtain w' st where "run_program demo_themis demo_sks (demo_denial @ [(bob, MUpdate demo_id [5] [6]), (bob, MRead demo_id)])
      (start_world demo_users [demo_id] 0) =
    Some ([MId (HM_SUCCESS, Some demo_id), MStatus HM_SUCCESS, MStatus HM_SUCCESS, MStatus HM_SUCCESS,
      MStatus st, MBlock (Inr (Some [5], Some [6]))], w')"
    using demo_scenario(2) [of "[]" 0] by (simp del: mid_program.simps) blast
  note pre = mid_program_prefix [OF run this]
  have "rs ! Suc (Suc (Suc 0)) = take (length demo_denial) rs ! Suc (Suc (Suc 0))" by simp
  also have "\<dots> = MStatus HM_SUCCESS" unfolding pre by simp
  finally have "rs ! Suc (Suc (Suc 0)) = MStatus HM_SUCCESS" .
  with run that show ?thesis by blast
qed

lemma demo_programs:
  "program_ok demo_pair (\<lambda>d. length d \<le> 1000) demo_users demo_sks [(alice, MCreate [7] [8]), (bob, MRead demo_id)]"
  "program_ok demo_pair (\<lambda>d. length d \<le> 1000) demo_users demo_sks
     [(alice, MCreate [7] [8]), (alice, MGrantRead demo_id bob), (bob, MRead demo_id)]"
  "program_ok demo_pair (\<lambda>d. length d \<le> 1000) demo_users demo_sks
     (demo_denial @ [(alice, MGrantRead demo_id alice), (alice, MRead demo_id)])"
  by (simp_all add: program_ok_def demo_members demo_params)

lemma ungranted_block_stays_unread_witness:
  "\<exists>rs w. run_program demo_themis demo_sks [(alice, MCreate [7] [8]), (bob, MRead demo_id)]
      (start_world demo_users [demo_id] 0) = Some (rs, w) \<and> last rs = MBlock (Inl HM_FAIL)"
proof -
  obtain rs w where run: "run_program demo_themis demo_sks [(alice, MCreate [7] [8]), (bob, MRead demo_id)]
      (start_world demo_users [demo_id] 0) = Some (rs, w)" "rs ! 0 = MId (HM_SUCCESS, Some demo_id)"
    by (rule demo_created [OF demo_programs(1)])
  have "last rs = MBlock (Inl HM_FAIL)"
    by (rule ungranted_block_stays_unread [OF demo_fits demo_storable, where pre = "[]" and post = "[]" and U = "{alice}"])
      (use run demo_programs(1) demo_lengths(5) in \<open>simp_all del: mid_program.simps\<close>)
  with run show ?thesis by blast
qed

lemma block_keeps_content_witness:
  "\<exists>rs w. run_program demo_themis demo_sks
      [(alice, MCreate [7] [8]), (alice, MGrantRead demo_id bob), (bob, MRead demo_id)]
      (start_world demo_users [demo_id] 0) = Some (rs, w) \<and>
    last rs \<in> {MBlock (Inr (Some [7], Some [8])), MBlock (Inl HM_FAIL)}"
proof -
  obtain rs w where run: "run_program demo_themis demo_sks
      [(alice, MCreate [7] [8]), (alice, MGrantRead demo_id bob), (bob, MRead demo_id)]
      (start_world demo_users [demo_id] 0) = Some (rs, w)" "rs ! 0 = MId (HM_SUCCESS, Some demo_id)"
    by (rule demo_created [OF demo_programs(2)])
  have "last rs \<in> {MBlock (Inr (Some [7], Some [8])), MBlock (Inl HM_FAIL)}"
    by (rule block_keeps_content [OF demo_fits demo_storable, where pre = "[]" and post = "[(alice, MGrantRead demo_id bob)]"
          and U = "{alice}"])
      (use run demo_programs(2) in \<open>simp_all del: mid_program.simps\<close>)
  with run show ?thesis by blast
qed


text \<open>A user of fresh servers whose random generator fails.\<close>

lemma create_block_frees_user_twice_witness:
  "mid_hermes_create_block (demo_themis\<lparr>soter_rand := \<lambda>n r. (THEMIS_FAIL, [], r)\<rparr>)
     (Some \<lparr>mh_ks = Some loop_key_store, mh_cs = Some loop_cred_store, mh_ds = Some loop_data_store,
        mh_user = Some (local_user alice [1] [1])\<rparr>) None (Some [7]) (Some [8])
     (start_world demo_users [demo_id] 0) = None"
  by (rule create_block_frees_user_twice) (use demo_lengths(1) in auto)

end
