(* ===== verification/Base64.thy ===== *)
theory Base64
  imports Hermes_Prelude
begin

section \<open>Base64\<close>

text \<open>
  \<^verbatim>\<open>docs/examples/c/utils/base64.c\<close>, which turns the ids of users and blocks into names of files.
  The bit buffers of both directions are 32-bit words that keep more than the bits still needed;
  the encoder runs an inner \<^verbatim>\<open>do\<close> loop per byte.  The decoder shifts a signed \<^verbatim>\<open>int\<close>, whose overflow
  the model takes as the wrap-around of the usual compilers.

  \<open>base64_groups\<close> is the encoding as the standard describes it, three bytes at a time.
\<close>

subsection \<open>The decoder\<close>

definition map2 :: "u8 list" where
  "map2 =
    [0x3e, 0xff, 0xff, 0xff, 0x3f, 0x34, 0x35, 0x36,
     0x37, 0x38, 0x39, 0x3a, 0x3b, 0x3c, 0x3d, 0xff,
     0xff, 0xff, 0xff, 0xff, 0xff, 0xff, 0x00, 0x01,
     0x02, 0x03, 0x04, 0x05, 0x06, 0x07, 0x08, 0x09,
     0x0a, 0x0b, 0x0c, 0x0d, 0x0e, 0x0f, 0x10, 0x11,
     0x12, 0x13, 0x14, 0x15, 0x16, 0x17, 0x18, 0x19,
     0xff, 0xff, 0xff, 0xff, 0xff, 0xff, 0x1a, 0x1b,
     0x1c, 0x1d, 0x1e, 0x1f, 0x20, 0x21, 0x22, 0x23,
     0x24, 0x25, 0x26, 0x27, 0x28, 0x29, 0x2a, 0x2b,
     0x2c, 0x2d, 0x2e, 0x2f, 0x30, 0x31, 0x32, 0x33]"

text \<open>\<^verbatim>\<open>in[i]-43\<close>, with a signed \<^verbatim>\<open>char\<close>.\<close>

definition b64_index :: "char \<Rightarrow> u32" where
  "b64_index c = (signed (of_char c :: u8) :: u32) - 43"

text \<open>
  A string ends before its terminating zero, which the model leaves out.  The arguments are \<open>i\<close>,
  \<open>v\<close>, what is written so far and the rest of the string; \<open>None\<close> is the result \<^verbatim>\<open>-1\<close>.
\<close>

fun base64_decode_loop :: "nat \<Rightarrow> nat \<Rightarrow> u32 \<Rightarrow> bytes \<Rightarrow> string \<Rightarrow> bytes option" where
  "base64_decode_loop out_size i v dst [] = Some dst"
| "base64_decode_loop out_size i v dst (c # cs) =
     (if c = CHR ''='' then Some dst
      else
        let index = b64_index c in
        if of_nat (length map2) \<le> index \<or> map2 ! unat index = 0xff then None
        else
          let v = push_bit 6 v + ucast (map2 ! unat index);
              dst = (if i mod 4 \<noteq> 0 \<and> length dst < out_size
                     then dst @ [ucast (signed_drop_bit (6 - 2 * (i mod 4)) v)] else dst)
          in base64_decode_loop out_size (i + 1) v dst cs)"

definition base64_decode :: "nat \<Rightarrow> string \<Rightarrow> bytes option" where
  "base64_decode out_size s = base64_decode_loop out_size 0 0 [] s"

subsection \<open>The encoder\<close>

definition BASE64_SIZE :: "nat \<Rightarrow> nat" where
  "BASE64_SIZE x = (x + 2) div 3 * 4 + 1"

definition UINT_MAX :: nat where "UINT_MAX = 2 ^ 32 - 1"

definition b64 :: string where
  "b64 = ''ABCDEFGHIJKLMNOPQRSTUVWXYZabcdefghijklmnopqrstuvwxyz0123456789+/''"

text \<open>The inner loop: the characters written and the shift left over.\<close>

function base64_emit :: "u32 \<Rightarrow> int \<Rightarrow> bool \<Rightarrow> string \<times> int" where
  "base64_emit i_bits i_shift last_byte =
     (let c = b64 ! unat (drop_bit (nat i_shift) (push_bit 6 i_bits) AND 0x3f);
          i_shift = i_shift - 6
      in if 6 < i_shift \<or> last_byte \<and> 0 < i_shift
         then (case base64_emit i_bits i_shift last_byte of (cs, s) \<Rightarrow> (c # cs, s))
         else ([c], i_shift))"
  by pat_completeness auto
termination by (relation "measure (\<lambda>(_, s, _). nat s)") auto

declare base64_emit.simps [simp del]

fun base64_encode_loop :: "u32 \<Rightarrow> int \<Rightarrow> bytes \<Rightarrow> string" where
  "base64_encode_loop i_bits i_shift [] = []"
| "base64_encode_loop i_bits i_shift (x # xs) =
     (let i_bits = push_bit 8 i_bits + ucast x;
          (cs, i_shift) = base64_emit i_bits (i_shift + 8) (xs = [])
      in cs @ base64_encode_loop i_bits i_shift xs)"

function base64_pad :: "string \<Rightarrow> string" where
  "base64_pad s = (if length s mod 4 \<noteq> 0 then base64_pad (s @ ''='') else s)"
  by pat_completeness auto
termination
proof (relation "measure (\<lambda>s. (4 - length s mod 4) mod 4)")
  fix s :: string
  assume "length s mod 4 \<noteq> 0"
  moreover have "length s mod 4 < 4" by simp
  ultimately consider "length s mod 4 = 1" | "length s mod 4 = 2" | "length s mod 4 = 3" by linarith
  then show "(s @ ''='', s) \<in> measure (\<lambda>s. (4 - length s mod 4) mod 4)"
    by cases (simp_all add: mod_Suc)
qed simp

declare base64_pad.simps [simp del]

definition base64_encode :: "nat \<Rightarrow> bytes \<Rightarrow> string option" where
  "base64_encode out_size xs =
     (if UINT_MAX div 4 \<le> length xs \<or> out_size < BASE64_SIZE (length xs) then None
      else Some (base64_pad (base64_encode_loop 0 0 xs)))"

subsection \<open>The standard's groups\<close>

definition sextet :: "u8 \<Rightarrow> char" where
  "sextet w = b64 ! unat (w AND 0x3f)"

fun base64_groups :: "bytes \<Rightarrow> string" where
  "base64_groups [] = []"
| "base64_groups [a] = [sextet (drop_bit 2 a), sextet (push_bit 4 a)] @ ''==''"
| "base64_groups [a, b] =
     [sextet (drop_bit 2 a), sextet (push_bit 4 a OR drop_bit 4 b), sextet (push_bit 2 b)] @ ''=''"
| "base64_groups (a # b # c # xs) =
     [sextet (drop_bit 2 a), sextet (push_bit 4 a OR drop_bit 4 b),
      sextet (push_bit 2 b OR drop_bit 6 c), sextet c] @ base64_groups xs"

subsection \<open>Encoding is encoding in groups\<close>

lemma bit_append_byte:
  "bit (push_bit 8 w + ucast (x :: u8) :: u32) n \<longleftrightarrow> (if n < 8 then bit x n else n < 32 \<and> bit w (n - 8))"
proof -
  have "push_bit 8 w + (ucast x :: u32) = push_bit 8 w OR ucast x"
    by (rule disjunctive_add_eq_or, rule bit_word_eqI) (auto simp: bit_simps dest: bit_imp_le_length)
  then show ?thesis by (auto simp: bit_simps dest: bit_imp_le_length)
qed

lemma low_bits_eq:
  assumes "\<And>n. n < 6 \<Longrightarrow> bit (w :: u32) n \<longleftrightarrow> bit (v :: u8) n"
  shows "unat (w AND 0x3f) = unat (v AND 0x3f)"
proof -
  have m: "(0x3f :: u32) = mask 6" "(0x3f :: u8) = mask 6" by (simp_all add: mask_eq_exp_minus_1)
  have "w AND 0x3f = ucast (v AND 0x3f)"
    unfolding m using assms by (intro bit_word_eqI) (auto simp: bit_simps)
  moreover have "unat (v AND 0x3f) < 2 ^ 32" using unsigned_less [of "v AND 0x3f", where ?'a = nat] by simp
  ultimately show ?thesis by (simp add: unsigned_ucast_eq take_bit_nat_eq_self)
qed

definition emitted :: "u32 \<Rightarrow> nat \<Rightarrow> char" where
  "emitted w k = b64 ! unat (drop_bit k (push_bit 6 w) AND 0x3f)"

lemma emitted_eq:
  assumes "\<And>n. n < 6 \<Longrightarrow> bit (drop_bit k (push_bit 6 w)) n \<longleftrightarrow> bit v n"
  shows "emitted w k = sextet v"
  using low_bits_eq [OF assms] by (simp add: emitted_def sextet_def)

lemma less_6: "(n :: nat) < 6 \<longleftrightarrow> n = 0 \<or> n = 1 \<or> n = 2 \<or> n = 3 \<or> n = 4 \<or> n = 5"
  by arith

lemma emitted_simps:
  "emitted (push_bit 8 w + ucast a) 8 = sextet (drop_bit 2 a)"
  "emitted (push_bit 8 w + ucast a) 2 = sextet (push_bit 4 a)"
  "emitted (push_bit 8 (push_bit 8 w + ucast a) + ucast b) 10 = sextet (push_bit 4 a OR drop_bit 4 b)"
  "emitted (push_bit 8 w + ucast a) 4 = sextet (push_bit 2 a)"
  "emitted (push_bit 8 (push_bit 8 w + ucast a) + ucast b) 12 = sextet (push_bit 2 a OR drop_bit 6 b)"
  "emitted (push_bit 8 w + ucast a) 6 = sextet a"
  "emitted (push_bit 8 (push_bit 8 w + ucast a) + ucast b) 14 = sextet a"
  by (rule emitted_eq, auto simp: less_6 bit_drop_bit_eq bit_push_bit_iff bit_append_byte bit_or_iff dest: bit_imp_le_length)+

lemma emit_simps:
  "base64_emit w 8 fin = (emitted w 8 # (if fin then [emitted w 2] else []), if fin then -4 else 2)"
  "base64_emit w 10 fin = (emitted w 10 # (if fin then [emitted w 4] else []), if fin then -2 else 4)"
  "base64_emit w 12 fin = (emitted w 12 # (if fin then [emitted w 6] else []), if fin then 0 else 6)"
  "base64_emit w 14 fin = (emitted w 14 # fst (base64_emit w 8 fin), snd (base64_emit w 8 fin))"
  unfolding emitted_def
  by (subst base64_emit.simps, simp add: Let_def split: prod.split, simp add: base64_emit.simps)+

lemma encode_pending:
  "xs \<noteq> [] \<Longrightarrow> base64_encode_loop (push_bit 8 w + ucast a) 6 xs = sextet a # base64_encode_loop (push_bit 8 w + ucast a) 0 xs"
  by (cases xs) (simp_all add: emit_simps emitted_simps Let_def split: prod.split)

lemma pad_simps:
  "length s mod 4 = 0 \<Longrightarrow> base64_pad s = s"
  "length s mod 4 = 3 \<Longrightarrow> base64_pad s = s @ ''=''"
  "length s mod 4 = 2 \<Longrightarrow> base64_pad s = s @ ''==''"
  by (subst base64_pad.simps; simp add: mod_Suc; (subst base64_pad.simps; simp add: mod_Suc)?; (subst base64_pad.simps; simp add: mod_Suc)?)+

lemma encode_loop_cons:
  "base64_encode_loop w 0 [a] = [sextet (drop_bit 2 a), sextet (push_bit 4 a)]"
  "base64_encode_loop w 0 [a, b] =
     [sextet (drop_bit 2 a), sextet (push_bit 4 a OR drop_bit 4 b), sextet (push_bit 2 b)]"
  "base64_encode_loop w 0 (a # b # c # xs) =
     [sextet (drop_bit 2 a), sextet (push_bit 4 a OR drop_bit 4 b),
      sextet (push_bit 2 b OR drop_bit 6 c), sextet c] @
     base64_encode_loop (push_bit 8 (push_bit 8 (push_bit 8 w + ucast a) + ucast b) + ucast c) 0 xs"
  by (simp_all add: Let_def emit_simps emitted_simps, cases "xs = []")
    (simp_all add: encode_pending emit_simps emitted_simps)

lemma pad_append: "length g = 4 \<Longrightarrow> base64_pad (g @ s) = g @ base64_pad s"
proof (induction s rule: base64_pad.induct)
  case (1 s)
  then show ?case
    by (subst (1 2) base64_pad.simps) auto
qed

lemma encode_groups: "base64_pad (base64_encode_loop w 0 xs) = base64_groups xs"
proof (induction xs arbitrary: w rule: base64_groups.induct)
  case (2 a)
  show ?case unfolding encode_loop_cons by (simp add: pad_simps)
next
  case (3 a b)
  show ?case unfolding encode_loop_cons by (simp add: pad_simps)
next
  case (4 a b c xs)
  show ?case unfolding encode_loop_cons by (subst pad_append) (simp_all add: 4)
qed (simp add: pad_simps)

lemma length_groups: "length (base64_groups xs) + 1 = BASE64_SIZE (length xs)"
proof (induction xs rule: base64_groups.induct)
  case (4 a b c xs)
  have "(length xs + 3 + 2) div 3 = (length xs + 2) div 3 + 1" by presburger
  with 4 show ?case by (simp add: BASE64_SIZE_def)
qed (simp_all add: BASE64_SIZE_def)

definition b64_digit :: "char \<Rightarrow> bool" where
  "b64_digit c \<longleftrightarrow> c \<noteq> CHR ''='' \<and> \<not> of_nat (length map2) \<le> b64_index c \<and> map2 ! unat (b64_index c) \<noteq> 0xff"

lemma decode_table: "list_all (\<lambda>k. b64_digit (b64 ! k) \<and> map2 ! unat (b64_index (b64 ! k)) = of_nat k) [0..<64]"
  by code_simp

lemma decode_sextet: "b64_digit (sextet a)" "map2 ! unat (b64_index (sextet a)) = a AND 0x3f"
proof -
  have "unat (a AND 0x3f) < 64"
    using and_mask_less' [of 6 a] by (simp add: mask_eq_exp_minus_1 word_less_nat_alt)
  then have "unat (a AND 0x3f) \<in> set [0..<64]" by simp
  with decode_table show "b64_digit (sextet a)" "map2 ! unat (b64_index (sextet a)) = a AND 0x3f"
    by (auto simp: list_all_iff sextet_def)
qed

lemma decode_end: "base64_decode_loop n i v dst (CHR ''='' # cs) = Some dst"
  by simp

lemma decode_step:
  "base64_decode_loop n i v dst (sextet a # cs) =
    (let v' = push_bit 6 v + ucast (a AND 0x3f);
         dst' = (if i mod 4 \<noteq> 0 \<and> length dst < n then dst @ [ucast (signed_drop_bit (6 - 2 * (i mod 4)) v')] else dst)
     in base64_decode_loop n (i + 1) v' dst' cs)"
  using decode_sextet [of a] by (simp add: Let_def b64_digit_def)


lemma bit_append_sextet:
  "bit (push_bit 6 w + ucast ((a :: u8) AND 0x3f) :: u32) n \<longleftrightarrow> (if n < 6 then bit a n else n < 32 \<and> bit w (n - 6))"
proof -
  have m: "(0x3f :: u8) = mask 6" by (simp add: mask_eq_exp_minus_1)
  have "push_bit 6 w + (ucast (a AND 0x3f) :: u32) = push_bit 6 w OR ucast (a AND 0x3f)"
    unfolding m by (rule disjunctive_add_eq_or, rule bit_word_eqI) (auto simp: bit_simps)
  then show ?thesis unfolding m by (auto simp: bit_simps)
qed

lemma low_byte:
  assumes "k \<le> 4" "\<And>n. n < 8 \<Longrightarrow> bit (v :: u32) (n + k) \<longleftrightarrow> bit (a :: u8) n"
  shows "ucast (signed_drop_bit k v) = a"
proof (rule bit_word_eqI)
  fix n assume "n < LENGTH(8)"
  then have n: "n < 8" by simp
  with assms(1) have "\<not> LENGTH(32) - k \<le> n" by simp
  then show "bit (ucast (signed_drop_bit k v) :: u8) n \<longleftrightarrow> bit a n"
    using assms(2) [OF n] n by (simp only: bit_ucast_iff bit_signed_drop_bit_iff) (simp add: add.commute)
qed

lemma less_8: "(n :: nat) < 8 \<longleftrightarrow> n < 6 \<or> n = 6 \<or> n = 7"
  by arith

lemma low_byte_sextets:
  "ucast (signed_drop_bit 4 (push_bit 6 (push_bit 6 v + ucast (drop_bit 2 a AND 0x3f)) +
     ucast (push_bit 4 a AND 0x3f) :: u32)) = (a :: u8)"
  "ucast (signed_drop_bit 4 (push_bit 6 (push_bit 6 v + ucast (drop_bit 2 a AND 0x3f)) +
     ucast ((push_bit 4 a OR drop_bit 4 b) AND 0x3f) :: u32)) = (a :: u8)"
  "ucast (signed_drop_bit 2 (push_bit 6 (push_bit 6 v + ucast ((push_bit 4 a OR drop_bit 4 b) AND 0x3f)) +
     ucast (push_bit 2 b AND 0x3f) :: u32)) = (b :: u8)"
  "ucast (signed_drop_bit 2 (push_bit 6 (push_bit 6 v + ucast ((push_bit 4 a OR drop_bit 4 b) AND 0x3f)) +
     ucast ((push_bit 2 b OR drop_bit 6 c) AND 0x3f) :: u32)) = (b :: u8)"
  by (rule low_byte, simp, auto simp: bit_append_sextet bit_push_bit_iff bit_drop_bit_eq bit_or_iff less_8 less_6
      simp flip: numeral_2_eq_2 simp del: One_nat_def dest: bit_imp_le_length)+

lemma low_byte_last:
  "ucast (push_bit 6 (push_bit 6 v + ucast ((push_bit 2 b OR drop_bit 6 c) AND 0x3f)) +
     ucast (c AND 0x3f) :: u32) = (c :: u8)"
  by (rule low_byte [where k = 0, simplified])
    (auto simp: bit_append_sextet bit_push_bit_iff bit_drop_bit_eq bit_or_iff less_8 dest: bit_imp_le_length)

lemmas decode_simps = decode_step decode_end Let_def mod_Suc low_byte_sextets low_byte_last

lemma decode_groups:
  "i mod 4 = 0 \<Longrightarrow> length dst + length xs \<le> n \<Longrightarrow>
   base64_decode_loop n i v dst (base64_groups xs) = Some (dst @ xs)"
proof (induction xs arbitrary: i v dst rule: base64_groups.induct)
  case (2 a)
  then show ?case by (simp only: base64_groups.simps append.simps) (simp add: decode_simps del: base64_decode_loop.simps(2))
next
  case (3 a b)
  then show ?case by (simp only: base64_groups.simps append.simps) (simp add: decode_simps del: base64_decode_loop.simps(2))
next
  case (4 a b c xs)
  then show ?case by (simp only: base64_groups.simps append.simps) (simp add: decode_simps del: base64_decode_loop.simps(2))
qed simp

lemma encode_eq_groups:
  "base64_encode out_size xs =
     (if 2 ^ 30 - 1 \<le> length xs \<or> out_size \<le> length (base64_groups xs) then None else Some (base64_groups xs))"
proof -
  have "UINT_MAX div 4 = 2 ^ 30 - 1" by (simp add: UINT_MAX_def)
  moreover have "out_size < BASE64_SIZE (length xs) \<longleftrightarrow> out_size \<le> length (base64_groups xs)"
    using length_groups [of xs] by linarith
  ultimately show ?thesis by (simp add: base64_encode_def encode_groups)
qed

text \<open>C31. The encoder, whose bit buffer overflows and whose inner loop runs ahead of the input, writes the
  standard's encoding, group by group, and refuses exactly the inputs that do not fit.\<close>

theorem base64_encode_is_groups:
  "base64_encode out_size xs =
     (if 2 ^ 30 - 1 \<le> length xs \<or> out_size \<le> length (base64_groups xs) then None else Some (base64_groups xs))"
  by (rule encode_eq_groups)

text \<open>C32. Decoding what was encoded gives the bytes back, for every buffer that has room for them.\<close>

theorem base64_decode_encode:
  "base64_encode out_size xs = Some s \<Longrightarrow> length xs \<le> n \<Longrightarrow> base64_decode n s = Some xs"
  by (auto simp: encode_eq_groups base64_decode_def decode_groups split: if_splits)


theorem base64_decode_encode_witness:
  "base64_decode 5 ''Zm9vYmE='' = Some [0x66, 0x6f, 0x6f, 0x62, 0x61]"
proof -
  have "base64_groups [0x66, 0x6f, 0x6f, 0x62, 0x61] = ''Zm9vYmE=''" by code_simp
  then have "base64_encode 9 [0x66, 0x6f, 0x6f, 0x62, 0x61] = Some ''Zm9vYmE=''"
    by (simp add: encode_eq_groups)
  from base64_decode_encode [OF this, of 5] show ?thesis by simp
qed

subsection \<open>The characters of an encoding\<close>

lemma sextet_alphabet: "sextet a \<in> set b64"
proof -
  have "unat (a AND 0x3f) < 64"
    using and_mask_less' [of 6 a] by (simp add: mask_eq_exp_minus_1 word_less_nat_alt)
  moreover have "length b64 = 64" by (simp add: b64_def)
  ultimately show ?thesis unfolding sextet_def by (metis nth_mem)
qed

lemma groups_alphabet: "set (base64_groups xs) \<subseteq> insert (CHR ''='') (set b64)"
  by (induction xs rule: base64_groups.induct) (auto simp: sextet_alphabet)

lemma groups_no_dot: "CHR ''.'' \<notin> set (base64_groups xs)"
  using groups_alphabet [of xs] by (auto simp: b64_def)

lemma groups_empty_iff [simp]: "base64_groups xs = [] \<longleftrightarrow> xs = []"
  by (induction xs rule: base64_groups.induct) auto

lemma groups_inj: "base64_groups xs = base64_groups ys \<longleftrightarrow> xs = ys"
proof
  let ?n = "length xs + length ys"
  assume "base64_groups xs = base64_groups ys"
  then have "base64_decode_loop ?n 0 0 [] (base64_groups xs) = base64_decode_loop ?n 0 0 [] (base64_groups ys)"
    by (rule arg_cong)
  then show "xs = ys" by (subst (asm) (1 2) decode_groups) simp_all
qed simp

end
