(* ===== verification/File_System.thy ===== *)
theory File_System
  imports Base64 "HOL-Library.AList" "HOL-Library.Sublist"
begin

section \<open>Files and directories\<close>

text \<open>
  \<^verbatim>\<open>docs/examples/c/utils/utils.c\<close>: the helpers over the C library and POSIX with which the example
  services keep their data in files.

  The file system is a tree (\<open>fnode\<close>); the working directory of the process is its root.  A
  directory lists its entries in the order in which \<^verbatim>\<open>readdir\<close> gives them.  A path is resolved as POSIX says:
  empty components and \<^verbatim>\<open>.\<close> are skipped, a name has at most \<^verbatim>\<open>NAME_MAX\<close> characters, a path with its
  terminating zero at most \<^verbatim>\<open>PATH_MAX\<close>, and a path that ends with a slash is no file.  Paths of this
  program contain no \<^verbatim>\<open>..\<close>.  Permissions, links, other processes and a full disk are not
  modelled.  \<^verbatim>\<open>None\<close> is an undefined run: an overflown buffer, the read of a variable never written, or
  the contents of a directory opened as a file.
\<close>

subsection \<open>The tree\<close>

datatype fnode = File bytes | Dir "(string \<times> fnode) list"

fun lookup :: "fnode \<Rightarrow> string list \<Rightarrow> fnode option" where
  "lookup r [] = Some r"
| "lookup (File b) (x # p) = None"
| "lookup (Dir es) (x # p) = (case map_of es x of None \<Rightarrow> None | Some n \<Rightarrow> lookup n p)"

text \<open>Replaces, adds (as the last entry) or removes what is at a path.\<close>

fun put :: "string list \<Rightarrow> fnode option \<Rightarrow> fnode \<Rightarrow> fnode" where
  "put [] v r = (case v of None \<Rightarrow> r | Some n \<Rightarrow> n)"
| "put (x # p) v (File b) = File b"
| "put [x] v (Dir es) = Dir (case v of None \<Rightarrow> AList.delete x es | Some n \<Rightarrow> AList.update x n es)"
| "put (x # y # p) v (Dir es) = Dir (map (\<lambda>(z, n). (z, if z = x then put (y # p) v n else n)) es)"

definition is_dir :: "fnode option \<Rightarrow> bool" where
  "is_dir n = (case n of Some (Dir es) \<Rightarrow> True | _ \<Rightarrow> False)"

definition is_file :: "fnode option \<Rightarrow> bool" where
  "is_file n = (case n of Some (File b) \<Rightarrow> True | _ \<Rightarrow> False)"

subsection \<open>Paths\<close>

definition NAME_MAX :: nat where "NAME_MAX = 255"
definition PATH_MAX :: nat where "PATH_MAX = 4096"
definition FILENAME_MAX :: nat where "FILENAME_MAX = 4096"

fun split_path :: "string \<Rightarrow> string list" where
  "split_path [] = [[]]"
| "split_path (c # s) =
     (if c = CHR ''/'' then [] # split_path s
      else (case split_path s of [] \<Rightarrow> [[c]] | w # ws \<Rightarrow> (c # w) # ws))"

definition components :: "string \<Rightarrow> string list" where
  "components s = filter (\<lambda>w. w \<noteq> [] \<and> w \<noteq> ''.'') (split_path s)"

definition path_ok :: "string \<Rightarrow> bool" where
  "path_ok s \<longleftrightarrow> s \<noteq> [] \<and> length s < PATH_MAX \<and> list_all (\<lambda>w. length w \<le> NAME_MAX) (components s)"

subsection \<open>The calls of POSIX and the C library\<close>

definition stat :: "fnode \<Rightarrow> string \<Rightarrow> fnode option" where
  "stat r s =
     (if path_ok s then
        (case lookup r (components s) of
           Some (File b) \<Rightarrow> if last s = CHR ''/'' then None else Some (File b)
         | n \<Rightarrow> n)
      else None)"

text \<open>Whether a new entry can be made at a path.\<close>

definition free_at :: "fnode \<Rightarrow> string \<Rightarrow> bool" where
  "free_at r s \<longleftrightarrow> path_ok s \<and> components s \<noteq> [] \<and> lookup r (components s) = None \<and>
     is_dir (lookup r (butlast (components s)))"

definition mkdir :: "fnode \<Rightarrow> string \<Rightarrow> fnode" where
  "mkdir r s = (if free_at r s then put (components s) (Some (Dir [])) r else r)"

subsection \<open>The helpers\<close>

text \<open>\<^verbatim>\<open>strrchr(path, '/')\<close>, as an index.\<close>

fun last_slash :: "string \<Rightarrow> nat option" where
  "last_slash [] = None"
| "last_slash (c # s) =
     (case last_slash s of Some i \<Rightarrow> Some (i + 1) | None \<Rightarrow> if c = CHR ''/'' then Some 0 else None)"

lemma last_slash_less: "last_slash s = Some i \<Longrightarrow> i < length s"
  by (induction s arbitrary: i) (auto split: option.splits if_splits)

function create_directory :: "fnode \<Rightarrow> string \<Rightarrow> fnode option" where
  "create_directory r s =
     (case last_slash s of
        None \<Rightarrow> Some (mkdir r s)
      | Some i \<Rightarrow>
          if FILENAME_MAX \<le> i then None
          else (case create_directory r (take i s) of None \<Rightarrow> None | Some r \<Rightarrow> Some (mkdir r s)))"
  by pat_completeness auto
termination
  by (relation "measure (length \<circ> snd)") (auto dest: last_slash_less)

declare create_directory.simps [simp del]

text \<open>
  The loop of \<^verbatim>\<open>remove_directory\<close> over the entries of the directory at \<open>s\<close>: the entries left, and whether
  the loop ended with \<^verbatim>\<open>r\<close> 0.  The call for a subdirectory always returns 0.
\<close>

function remove_entries :: "string \<Rightarrow> (string \<times> fnode) list \<Rightarrow> (string \<times> fnode) list \<times> bool" where
  "remove_entries s [] = ([], True)"
| "remove_entries s ((x, File b) # es) =
     (if path_ok (s @ ''/'' @ x) then remove_entries s es else ((x, File b) # es, False))"
| "remove_entries s ((x, Dir ds) # es) =
     (if path_ok (s @ ''/'' @ x) then
        (case remove_entries (s @ ''/'' @ x) ds of (ds', r) \<Rightarrow>
         (case remove_entries s es of (es', r') \<Rightarrow>
            (if r \<and> ds' = [] then es' else (x, Dir ds') # es', r')))
      else ((x, Dir ds) # es, False))"
  by pat_completeness auto
termination
  by (relation "measure (size_list (size_prod (\<lambda>_. 0) size) \<circ> snd)") auto

definition remove_directory :: "fnode \<Rightarrow> string \<Rightarrow> fnode" where
  "remove_directory r s =
     (case stat r s of
        Some (Dir es) \<Rightarrow>
          (case remove_entries s es of (es', ok) \<Rightarrow>
             put (components s) (if ok \<and> es' = [] \<and> components s \<noteq> [] then None else Some (Dir es')) r)
      | _ \<Rightarrow> r)"

definition read_whole_file :: "fnode \<Rightarrow> string \<Rightarrow> (status + bytes) option" where
  "read_whole_file r s =
     (case stat r s of
        None \<Rightarrow> Some (Inl 1)
      | Some (File b) \<Rightarrow> Some (Inr b)
      | Some (Dir es) \<Rightarrow> None)"

definition write_whole_file :: "fnode \<Rightarrow> string \<Rightarrow> bytes \<Rightarrow> status \<times> fnode" where
  "write_whole_file r s b =
     (if last s \<noteq> CHR ''/'' \<and> (free_at r s \<or> is_file (stat r s))
      then (0, put (components s) (Some (File b)) r) else (1, r))"

definition check_file_exist :: "fnode \<Rightarrow> string \<Rightarrow> bool" where
  "check_file_exist r s \<longleftrightarrow> stat r s \<noteq> None"

subsection \<open>Typed paths\<close>

text \<open>
  \<^verbatim>\<open>build_typed_path\<close> appends to a buffer of 10 KB with \<^verbatim>\<open>sprintf(to, "%s/%s", to, ...)\<close>, which the model takes
  for appending although source and target overlap.  An id is encoded into a second buffer of 2 KB,
  which keeps its former contents when the encoding does not fit; the status is not tested.
\<close>

datatype path_arg = C string | E bytes

definition buf_to_string :: "bytes \<Rightarrow> string option \<Rightarrow> string option" where
  "buf_to_string buf str = (case base64_encode 2048 buf of None \<Rightarrow> str | Some s \<Rightarrow> Some s)"

definition string_to_buf :: "string \<Rightarrow> bytes option" where
  "string_to_buf s = base64_decode 2048 s"

definition append_component :: "string \<Rightarrow> string \<Rightarrow> string option" where
  "append_component to_path s =
     (let p = to_path @ ''/'' @ s in if 10 * 1024 \<le> length p then None else Some p)"

fun build_typed_path :: "string \<Rightarrow> string option \<Rightarrow> path_arg list \<Rightarrow> string option" where
  "build_typed_path to_path b64encoded [] = Some to_path"
| "build_typed_path to_path b64encoded (C s # as) =
     (case append_component to_path s of None \<Rightarrow> None | Some p \<Rightarrow> build_typed_path p b64encoded as)"
| "build_typed_path to_path b64encoded (E b # as) =
     (let b64encoded = buf_to_string b b64encoded in
      case b64encoded of
        None \<Rightarrow> None
      | Some s \<Rightarrow>
          (case append_component to_path s of None \<Rightarrow> None | Some p \<Rightarrow> build_typed_path p b64encoded as))"

definition BUILD_TYPED_PATH :: "path_arg list \<Rightarrow> string option" where
  "BUILD_TYPED_PATH as = build_typed_path ''.'' None as"

subsection \<open>Resolving paths\<close>

lemma split_path_nonempty [simp]: "split_path s \<noteq> []"
  by (cases s) (auto split: list.splits)

lemma split_path_name [simp]: "CHR ''/'' \<notin> set s \<Longrightarrow> split_path s = [s]"
  by (induction s) auto

lemma split_path_append [simp]: "split_path (s @ CHR ''/'' # s') = split_path s @ split_path s'"
  by (induction s) (auto split: list.splits simp: neq_Nil_conv)

lemma components_append [simp]: "components (s @ CHR ''/'' # s') = components s @ components s'"
  by (simp add: components_def)

lemma components_name: "CHR ''/'' \<notin> set s \<Longrightarrow> components s = (if s = [] \<or> s = ''.'' then [] else [s])"
  by (simp add: components_def)

lemma last_slash_None: "last_slash s = None \<longleftrightarrow> CHR ''/'' \<notin> set s"
  by (induction s) (auto split: option.splits)

lemma last_slash_Some: "last_slash s = Some i \<Longrightarrow> s = take i s @ CHR ''/'' # drop (i + 1) s \<and> CHR ''/'' \<notin> set (drop (i + 1) s)"
  by (induction s arbitrary: i) (auto split: option.splits if_splits simp: last_slash_None)

lemma path_ok_prefix:
  assumes "path_ok (s @ CHR ''/'' # s')" "s \<noteq> []"
  shows "path_ok s"
  using assms by (auto simp: path_ok_def)

subsection \<open>Looking up and putting\<close>

lemma is_dir_simps [simp]: "is_dir (Some (Dir es))" "\<not> is_dir (Some (File b))" "\<not> is_dir None"
  by (simp_all add: is_dir_def)

lemma is_file_simps [simp]: "is_file (Some (File b))" "\<not> is_file (Some (Dir es))" "\<not> is_file None"
  by (simp_all add: is_file_def)

lemma is_dirE: "is_dir n \<Longrightarrow> (\<And>es. n = Some (Dir es) \<Longrightarrow> P) \<Longrightarrow> P"
  by (auto simp: is_dir_def split: option.splits fnode.splits)

lemma lookup_append: "lookup r (p @ q) = (case lookup r p of None \<Rightarrow> None | Some n \<Rightarrow> lookup n q)"
  by (induction r p rule: lookup.induct) (auto split: option.split)

lemma map_of_entry: "map_of (map (\<lambda>(z, n). (z, if z = x then f n else n)) es) y =
    (if y = x then map_option f (map_of es x) else map_of es y)"
  by (induction es) auto

lemma lookup_put_below: "p \<noteq> [] \<Longrightarrow> lookup (put (q @ p) v r) q = map_option (put p v) (lookup r q)"
proof (induction q arbitrary: r)
  case (Cons x q)
  then obtain y p' where "q @ p = y # p'" by (cases "q @ p") auto
  with Cons show ?case by (cases r) (auto simp: map_of_entry split: option.split)
qed simp

lemma lookup_put_same:
  assumes "p \<noteq> []" "is_dir (lookup r (butlast p))"
  shows "lookup (put p v r) p = v"
proof -
  obtain q x where p: "p = q @ [x]" using assms(1) by (cases p rule: rev_cases) auto
  obtain es where es: "lookup r q = Some (Dir es)" using assms(2) p by (auto elim: is_dirE)
  have "lookup (put p v r) q = Some (put [x] v (Dir es))"
    using lookup_put_below [of "[x]" q v r] p es by simp
  then show ?thesis using p by (simp add: lookup_append update_conv' delete_conv' split: option.split)
qed

lemma lookup_put_other:
  "\<not> prefix p q \<Longrightarrow> \<not> prefix q p \<Longrightarrow> lookup (put p v r) q = lookup r q"
proof (induction p arbitrary: q r)
  case (Cons x p)
  then obtain y q' where q: "q = y # q'" by (cases q) auto
  show ?case
  proof (cases r)
    case (Dir es)
    with Cons q show ?thesis
      by (cases p) (auto simp: update_conv' delete_conv' map_of_entry split: option.splits)
  qed (use q in simp)
qed simp

lemma lookup_put_above:
  assumes "p \<noteq> []" "is_dir (lookup r (butlast p))"
  shows "lookup (put p v r) (p @ q) = (case v of None \<Rightarrow> None | Some n \<Rightarrow> lookup n q)"
  using lookup_put_same [OF assms, of v] by (simp add: lookup_append)

text \<open>The contents of a file.\<close>

definition file_at :: "fnode \<Rightarrow> string list \<Rightarrow> bytes option" where
  "file_at r p = (case lookup r p of Some (File b) \<Rightarrow> Some b | _ \<Rightarrow> None)"

lemma file_at_dir [simp]: "is_dir (lookup r p) \<Longrightarrow> file_at r p = None"
  by (auto simp: file_at_def is_dir_def split: option.splits fnode.splits)

lemma lookup_put_cases:
  assumes "p \<noteq> []" "is_dir (lookup r (butlast p))"
  shows "lookup (put p v r) q =
    (if prefix p q then (case v of None \<Rightarrow> None | Some n \<Rightarrow> lookup n (drop (length p) q))
     else if prefix q p then map_option (put (drop (length q) p) v) (lookup r q)
     else lookup r q)"
proof (cases "prefix p q")
  case True
  then obtain s where "q = p @ s" by (auto simp: prefix_def)
  with lookup_put_above [OF assms, of v s] show ?thesis by (simp split: option.split)
next
  case False
  show ?thesis
  proof (cases "prefix q p")
    case True
    then obtain s where s: "p = q @ s" by (auto simp: prefix_def)
    with False have "s \<noteq> []" by auto
    with lookup_put_below [of s q v r] s False True show ?thesis by simp
  qed (use False lookup_put_other in simp)
qed

lemma dir_above:
  assumes "lookup r (p @ q) \<noteq> None" "q \<noteq> []"
  shows "is_dir (lookup r p)"
  using assms by (cases "lookup r p"; cases q; cases "the (lookup r p)") (auto simp: lookup_append)

lemma file_at_put:
  assumes "p \<noteq> []" "is_dir (lookup r (butlast p))"
  shows "file_at (put p v r) q =
    (if prefix p q then (case v of None \<Rightarrow> None | Some n \<Rightarrow> file_at n (drop (length p) q)) else file_at r q)"
proof (cases "prefix q p \<and> \<not> prefix p q")
  case True
  then obtain s where s: "p = q @ s" "s \<noteq> []" by (auto simp: prefix_def)
  have "is_dir (lookup r q)"
  proof (cases "butlast s = []")
    case True
    with s assms(2) show ?thesis by (simp add: butlast_append)
  next
    case False
    have "lookup r (q @ butlast s) \<noteq> None"
      using s assms(2) by (cases "lookup r (q @ butlast s)") (simp_all add: butlast_append)
    with False show ?thesis by (intro dir_above)
  qed
  then obtain es where es: "lookup r q = Some (Dir es)" by (rule is_dirE)
  then have "is_dir (lookup (put p v r) q)"
    using s by (cases s; cases "tl s") (auto simp: lookup_put_below)
  with es True show ?thesis by simp
next
  case False
  then show ?thesis
    using lookup_put_cases [OF assms, of v q] by (auto simp: file_at_def split: option.splits)
qed

end
