(* ===== verification/File_Levels.thy ===== *)
theory File_Levels
  imports File_System
begin

section \<open>Directories of a fixed depth\<close>

text \<open>
  The databases of the example services are directories with files at one depth only.  \<open>levels_at n B r\<close>
  says that the tree \<open>r\<close> has such a directory at the path \<open>B\<close>, with its files \<open>n\<close> levels below.  Under it, the
  helpers of \<open>File_System\<close> have simple effects on which paths are directories and what the files contain.
\<close>

subsection \<open>Levels\<close>

fun leveled :: "nat \<Rightarrow> fnode \<Rightarrow> bool" where
  "leveled 0 (File b) = True"
| "leveled 0 (Dir es) = False"
| "leveled (Suc n) (File b) = False"
| "leveled (Suc n) (Dir es) =
     (distinct (map fst es) \<and> list_all (\<lambda>(x, m). length x \<le> NAME_MAX \<and> leveled n m) es)"

lemma leveled_dir: "leveled n r \<Longrightarrow> is_dir (Some r) \<longleftrightarrow> 0 < n"
  by (cases n; cases r) auto

lemma leveled_entry: "leveled (Suc n) (Dir es) \<Longrightarrow> map_of es x = Some m \<Longrightarrow> leveled n m \<and> length x \<le> NAME_MAX"
  by (auto simp: list_all_iff dest: map_of_SomeD)

lemma leveled_lookup:
  "leveled n r \<Longrightarrow> lookup r p = Some m \<Longrightarrow> length p \<le> n \<and> leveled (n - length p) m"
proof (induction r p arbitrary: n rule: lookup.induct)
  case (3 es x p)
  then obtain k m' where k: "n = Suc k" "map_of es x = Some m'" "lookup m' p = Some m"
    by (cases n) (auto split: option.splits)
  with 3 have "leveled k m'" by (blast dest: leveled_entry)
  with 3 k show ?case by fastforce
qed auto

lemma list_all_update: "list_all P es \<Longrightarrow> P (x, m) \<Longrightarrow> list_all P (AList.update x m es)"
  by (induction es) auto

lemma list_all_delete: "list_all P es \<Longrightarrow> list_all P (AList.delete x es)"
  by (induction es) auto

lemma leveled_update:
  assumes "leveled (Suc n) (Dir es)" "leveled n m" "length x \<le> NAME_MAX"
  shows "leveled (Suc n) (Dir (AList.update x m es))"
  using assms by (simp add: list_all_update distinct_update)

lemma leveled_delete: "leveled (Suc n) (Dir es) \<Longrightarrow> leveled (Suc n) (Dir (AList.delete x es))"
  by (simp add: list_all_delete distinct_delete)

lemma leveled_put:
  "leveled n r \<Longrightarrow> p \<noteq> [] \<Longrightarrow> length p \<le> n \<Longrightarrow> list_all (\<lambda>x. length x \<le> NAME_MAX) p \<Longrightarrow>
   (\<forall>m. v = Some m \<longrightarrow> leveled (n - length p) m) \<Longrightarrow> leveled n (put p v r)"
proof (induction p v r arbitrary: n rule: put.induct)
  case (3 x v es)
  then show ?case
    by (cases n) (auto simp: leveled_update leveled_delete simp del: leveled.simps(4) split: option.split)
next
  case (4 x y p v es)
  then obtain k where n: "n = Suc k" by (cases n) auto
  have "leveled k (put (y # p) v m)" if "(x, m) \<in> set es" for m
    using 4 that n by (intro "4.IH") (auto simp: list_all_iff)
  with 4(2) n show ?case by (auto simp: list_all_iff comp_def case_prod_unfold)
qed auto

subsection \<open>Stores\<close>

definition levels_at :: "nat \<Rightarrow> string list \<Rightarrow> fnode \<Rightarrow> bool" where
  "levels_at n B r \<longleftrightarrow> (\<exists>t. lookup r B = Some t \<and> leveled n t)"

lemma store_node:
  assumes "levels_at n B r" "lookup r (B @ p) = Some m"
  shows "length p \<le> n" "leveled (n - length p) m"
  using assms leveled_lookup by (auto simp: levels_at_def lookup_append)

lemma store_above:
  assumes "levels_at n B r" "0 < n" "prefix q B"
  shows "is_dir (lookup r q)"
proof -
  obtain s where B: "B = q @ s" using assms(3) by (auto simp: prefix_def)
  obtain t where t: "lookup r B = Some t" "leveled n t" using assms(1) by (auto simp: levels_at_def)
  show ?thesis
  proof (cases "s = []")
    case True
    with t B leveled_dir assms(2) show ?thesis by auto
  next
    case False
    with t B show ?thesis by (intro dir_above [of r q s]) auto
  qed
qed

lemma store_dir_or_none:
  assumes "levels_at n B r" "length p < n" "lookup r (B @ p) = Some m"
  shows "is_dir (Some m)"
  using store_node(2) [OF assms(1,3)] leveled_dir assms(2) by auto

lemma store_file_or_none:
  assumes "levels_at n B r" "length p = n"
  shows "\<not> is_dir (lookup r (B @ p))"
  using store_node [OF assms(1)] leveled_dir assms(2) by (fastforce elim: is_dirE)

lemma store_put:
  assumes "levels_at n B r" "p \<noteq> []" "length p \<le> n" "list_all (\<lambda>x. length x \<le> NAME_MAX) p"
    "\<forall>m. v = Some m \<longrightarrow> leveled (n - length p) m"
  shows "levels_at n B (put (B @ p) v r)"
  using assms leveled_put [of n _ p v] by (auto simp: levels_at_def lookup_put_below)

lemma is_dir_put:
  assumes "p \<noteq> []" "is_dir (lookup r (butlast p))"
  shows "is_dir (lookup (put p v r) q) \<longleftrightarrow>
    (if prefix p q then (case v of None \<Rightarrow> False | Some n \<Rightarrow> is_dir (lookup n (drop (length p) q)))
     else is_dir (lookup r q))"
proof (cases "prefix q p \<and> \<not> prefix p q")
  case True
  then obtain s where s: "p = q @ s" "s \<noteq> []" by (auto simp: prefix_def)
  have "is_dir (lookup r q)"
    using s assms(2) dir_above [of r q "butlast s"]
    by (cases "butlast s = []") (auto simp: butlast_append elim: is_dirE)
  moreover have "is_dir (lookup (put p v r) q)"
    using calculation s by (cases s; cases "tl s") (auto simp: lookup_put_below elim!: is_dirE)
  ultimately show ?thesis using True by simp
next
  case False
  then show ?thesis
    using lookup_put_cases [OF assms, of v q] by (auto split: option.splits)
qed

subsection \<open>Making directories\<close>

definition mkdir_at :: "fnode \<Rightarrow> string list \<Rightarrow> fnode" where
  "mkdir_at r p = (if p \<noteq> [] \<and> lookup r p = None \<and> is_dir (lookup r (butlast p)) then put p (Some (Dir [])) r else r)"

definition mkdirs :: "fnode \<Rightarrow> string list \<Rightarrow> fnode" where
  "mkdirs r p = foldl mkdir_at r (prefixes p)"

lemma mkdirs_simps [simp]: "mkdirs r [] = r" "mkdirs r (p @ [x]) = mkdir_at (mkdirs r p) (p @ [x])"
  by (simp_all add: mkdirs_def mkdir_at_def)

lemma mkdir_eq: "path_ok s \<Longrightarrow> mkdir r s = mkdir_at r (components s)"
  by (simp add: mkdir_def free_at_def mkdir_at_def)

lemma mkdir_at_again: "mkdir_at (mkdir_at r p) p = mkdir_at r p"
  using lookup_put_same [of p r "Some (Dir [])"] by (auto simp: mkdir_at_def)

lemma mkdirs_again: "mkdir_at (mkdirs r p) p = mkdirs r p"
  by (cases p rule: rev_cases) (auto simp: mkdir_at_again, simp add: mkdir_at_def)

lemma create_directory_eq:
  "path_ok s \<Longrightarrow> hd s \<noteq> CHR ''/'' \<Longrightarrow> create_directory r s = Some (mkdirs r (components s))"
proof (induction "length s" arbitrary: s rule: less_induct)
  case less
  show ?case
  proof (cases "last_slash s")
    case None
    then have s: "components s = (if s = ''.'' then [] else [s])"
      using less.prems(1) by (auto simp: last_slash_None components_name path_ok_def)
    have "mkdirs r [s] = mkdir_at r [s]" using mkdirs_simps(2) [of r "[]" s] by simp
    then show ?thesis
      using None less.prems s by (subst create_directory.simps) (auto simp: mkdir_eq mkdir_at_def)
  next
    case (Some i)
    let ?p = "take i s" and ?w = "drop (i + 1) s"
    have s: "s = ?p @ CHR ''/'' # ?w" "CHR ''/'' \<notin> set ?w" using last_slash_Some [OF Some] by simp_all
    have i: "i < length s" using Some by (rule last_slash_less)
    have p: "?p \<noteq> []" "hd ?p \<noteq> CHR ''/''"
      using less.prems s(1) i by (cases i; cases s; simp)+
    have "path_ok ?p" using less.prems(1) p(1) s(1) path_ok_prefix by metis
    then have rec: "create_directory r ?p = Some (mkdirs r (components ?p))"
      using p i by (intro less.hyps) simp_all
    have "i < FILENAME_MAX" using less.prems(1) i by (simp add: path_ok_def PATH_MAX_def FILENAME_MAX_def)
    then have "create_directory r s = Some (mkdir (mkdirs r (components ?p)) s)"
      using Some rec by (subst create_directory.simps) simp
    moreover have "components s = components ?p @ (if ?w = [] \<or> ?w = ''.'' then [] else [?w])"
      using s(2) by (subst s(1)) (simp add: components_name del: append_take_drop_id)
    ultimately show ?thesis
      by (auto simp: mkdir_eq [OF less.prems(1)] mkdirs_again)
  qed
qed

lemma mkdir_at_effect:
  assumes "p \<noteq> []" "lookup r p = None" "is_dir (lookup r (butlast p))"
  shows "is_dir (lookup (mkdir_at r p) q) \<longleftrightarrow> is_dir (lookup r q) \<or> q = p" "file_at (mkdir_at r p) = file_at r"
proof -
  have below: "lookup r (p @ s) = None" for s
    using assms(2) by (simp add: lookup_append)
  have empty: "lookup (Dir []) s = (if s = [] then Some (Dir []) else None)" for s by (cases s) auto
  show "is_dir (lookup (mkdir_at r p) q) \<longleftrightarrow> is_dir (lookup r q) \<or> q = p"
    using assms is_dir_put [OF assms(1,3), of "Some (Dir [])" q]
    by (auto simp: mkdir_at_def empty below prefix_def split: if_splits)
  have "file_at r q = None" "file_at (Dir []) s = None" if "prefix p q" for q s
    using that below by (auto simp: file_at_def empty prefix_def)
  then show "file_at (mkdir_at r p) = file_at r"
    using assms file_at_put [OF assms(1,3), of "Some (Dir [])"] by (auto simp: mkdir_at_def fun_eq_iff)
qed

lemma mkdirs_effect:
  assumes "levels_at n B r" "0 < n"
  shows "length p < n \<Longrightarrow> list_all (\<lambda>x. length x \<le> NAME_MAX) p \<Longrightarrow>
    levels_at n B (mkdirs r (B @ p)) \<and> file_at (mkdirs r (B @ p)) = file_at r \<and>
    (\<forall>q. is_dir (lookup (mkdirs r (B @ p)) q) \<longleftrightarrow> is_dir (lookup r q) \<or> prefix q (B @ p))"
proof (induction p rule: rev_induct)
  case Nil
  have "prefix q B \<Longrightarrow> mkdirs r q = r" for q
  proof (induction q rule: rev_induct)
    case (snoc x q)
    then have "mkdirs r q = r" by (simp add: append_prefixD)
    with snoc.prems store_above [OF assms, of "q @ [x]"] show ?case by (auto simp: mkdir_at_def is_dir_def)
  qed simp
  with assms store_above [OF assms] show ?case by auto
next
  case (snoc x p)
  let ?r = "mkdirs r (B @ p)" and ?p = "B @ p @ [x]"
  have IH: "levels_at n B ?r" "file_at ?r = file_at r" "\<And>q. is_dir (lookup ?r q) \<longleftrightarrow> is_dir (lookup r q) \<or> prefix q (B @ p)"
    using snoc by auto
  have run: "mkdirs r ?p = mkdir_at ?r ?p" using mkdirs_simps(2) [of r "B @ p" x] by simp
  have par: "is_dir (lookup ?r (butlast ?p))" by (simp add: butlast_append IH(3))
  show ?case
  proof (cases "lookup ?r ?p")
    case None
    have "levels_at n B (mkdir_at ?r ?p)"
      using None par snoc.prems IH(1) store_put [of n B ?r "p @ [x]" "Some (Dir [])"]
      by (cases "n - Suc (length p)") (auto simp: mkdir_at_def)
    with None par IH mkdir_at_effect [of ?p ?r] show ?thesis
      unfolding run by (auto simp flip: append_assoc)
  next
    case (Some m)
    then have "is_dir (lookup ?r ?p)" using store_dir_or_none [OF IH(1), of "p @ [x]" m] snoc.prems by simp
    moreover from this have "is_dir (lookup r ?p)" using IH(3) [of ?p] by (auto dest: prefix_length_le)
    ultimately show ?thesis
      using Some IH unfolding run by (auto simp: mkdir_at_def simp flip: append_assoc)
  qed
qed


subsection \<open>Writing and removing\<close>

lemma length_split_path: "w \<in> set (split_path s) \<Longrightarrow> length w \<le> length s"
  by (induction s arbitrary: w) (fastforce split: list.splits if_splits)+

lemma remove_entries_all:
  assumes "components s \<noteq> []" "list_all (\<lambda>w. length w \<le> NAME_MAX) (components s)"
  shows "leveled (Suc n) (Dir es) \<Longrightarrow> length s + Suc n * Suc NAME_MAX < PATH_MAX \<Longrightarrow> remove_entries s es = ([], True)"
  using assms
proof (induction s es arbitrary: n rule: remove_entries.induct)
  case (2 s x b es)
  have "path_ok (s @ ''/'' @ x)"
    using 2 length_split_path [of _ x] by (fastforce simp: path_ok_def list_all_iff components_def)
  with 2(2-) "2.IH" [of n] show ?case by simp
next
  case (3 s x ds es)
  then obtain k where n: "n = Suc k" by (cases n) auto
  have ok: "path_ok (s @ ''/'' @ x)" "list_all (\<lambda>w. length w \<le> NAME_MAX) (components (s @ ''/'' @ x))"
    using 3 length_split_path [of _ x] by (fastforce simp: path_ok_def list_all_iff components_def)+
  have "leveled (Suc k) (Dir ds)" "leveled (Suc n) (Dir es)" "length x \<le> NAME_MAX"
    using 3(3) n by simp_all
  moreover have "length (s @ ''/'' @ x) + Suc k * Suc NAME_MAX < PATH_MAX"
    using 3(4) n \<open>length x \<le> NAME_MAX\<close> by simp
  ultimately have "remove_entries (s @ ''/'' @ x) ds = ([], True)" "remove_entries s es = ([], True)"
    using 3 ok by (auto simp del: leveled.simps)
  with ok show ?case by simp
qed simp

lemma mkdirs_path:
  assumes "levels_at n B r" "0 < n" "path_ok s" "hd s \<noteq> CHR ''/''" "components s = B @ p" "length p < n"
    "list_all (\<lambda>x. length x \<le> NAME_MAX) p"
  obtains r' where "create_directory r s = Some r'" "levels_at n B r'" "file_at r' = file_at r"
    "\<And>q. is_dir (lookup r' q) \<longleftrightarrow> is_dir (lookup r q) \<or> prefix q (B @ p)"
  using create_directory_eq [OF assms(3,4), of r] mkdirs_effect [OF assms(1,2,6,7)] assms(5) that by simp

lemma write_path:
  assumes "levels_at n B r" "path_ok s" "last s \<noteq> CHR ''/''" "components s = B @ p" "p \<noteq> []" "length p = n"
    "list_all (\<lambda>x. length x \<le> NAME_MAX) p" "is_dir (lookup r (B @ butlast p))"
  obtains r' where "write_whole_file r s b = (0, r')" "levels_at n B r'" "file_at r' = (file_at r)(B @ p \<mapsto> b)"
    "\<And>q. is_dir (lookup r' q) \<longleftrightarrow> is_dir (lookup r q)"
proof -
  let ?r = "put (B @ p) (Some (File b)) r"
  have par: "is_dir (lookup r (butlast (B @ p)))" using assms(5,8) by (simp add: butlast_append)
  have no_dir: "\<not> is_dir (lookup r (B @ p))" using store_file_or_none [OF assms(1,6)] .
  then have "lookup r (B @ p) = None \<or> is_file (lookup r (B @ p))"
    by (cases "lookup r (B @ p)"; cases "the (lookup r (B @ p))") auto
  then have "free_at r s \<or> is_file (stat r s)"
    using assms(2-5) par by (auto simp: free_at_def stat_def is_file_def split: option.splits fnode.splits)
  then have run: "write_whole_file r s b = (0, ?r)" using assms(3,4) by (simp add: write_whole_file_def)
  have below: "file_at r q = None \<or> q = B @ p" "\<not> is_dir (lookup r q)" if "prefix (B @ p) q" for q
  proof -
    obtain s where q: "q = (B @ p) @ s" using \<open>prefix (B @ p) q\<close> by (rule prefixE)
    have "s \<noteq> [] \<Longrightarrow> lookup r q = None" using no_dir dir_above [of r "B @ p" s] q by (cases "lookup r q") auto
    with no_dir q show "file_at r q = None \<or> q = B @ p" "\<not> is_dir (lookup r q)"
      by (cases "s = []"; simp add: file_at_def)+
  qed
  have leaf: "lookup (File b) s = (if s = [] then Some (File b) else None)" for s by (cases s) auto
  have "levels_at n B ?r" using store_put [OF assms(1,5) _ assms(7), of "Some (File b)"] assms(6) by simp
  moreover have "file_at ?r q = ((file_at r)(B @ p \<mapsto> b)) q" for q
    using file_at_put [OF _ par, of "Some (File b)" q] assms(5) below(1) [of q]
    by (auto simp: file_at_def [of "File b"] leaf elim!: prefixE)
  then have "file_at ?r = (file_at r)(B @ p \<mapsto> b)" by (rule ext)
  moreover have "is_dir (lookup ?r q) \<longleftrightarrow> is_dir (lookup r q)" for q
    using is_dir_put [OF _ par, of "Some (File b)" q] assms(5) below by (auto simp: leaf split: if_splits)
  ultimately show ?thesis using that [OF run] by blast
qed

lemma remove_path:
  assumes "levels_at n B r" "path_ok s" "components s = B @ p" "p \<noteq> []" "length p < n"
    "length s + n * Suc NAME_MAX < PATH_MAX" "list_all (\<lambda>x. length x \<le> NAME_MAX) p"
  obtains r' where "remove_directory r s = r'" "levels_at n B r'"
    "\<And>q. file_at r' q = (if prefix (B @ p) q then None else file_at r q)"
    "\<And>q. is_dir (lookup r' q) \<longleftrightarrow> is_dir (lookup r q) \<and> \<not> prefix (B @ p) q"
proof (cases "lookup r (B @ p)")
  case None
  then have "lookup r q = None" if "prefix (B @ p) q" for q
    using that lookup_append [of r "B @ p"] by (auto simp: prefix_def)
  then have "file_at r q = None" "\<not> is_dir (lookup r q)" if "prefix (B @ p) q" for q
    using that by (auto simp: file_at_def)
  moreover have "remove_directory r s = r"
    using None assms(2,3) by (simp add: remove_directory_def stat_def)
  ultimately show ?thesis using assms(1) by (intro that [of r]) auto
next
  case (Some m)
  then obtain es where es: "lookup r (B @ p) = Some (Dir es)"
    using store_dir_or_none [OF assms(1,5) Some] by (auto elim: is_dirE)
  obtain k where k: "n - length p = Suc k" using assms(5) by (cases "n - length p") auto
  have "leveled (Suc k) (Dir es)" using store_node(2) [OF assms(1) es] k by simp
  moreover have "Suc k * Suc NAME_MAX \<le> n * Suc NAME_MAX" using k by (intro mult_le_mono1) simp
  then have "length s + Suc k * Suc NAME_MAX < PATH_MAX" using assms(6) by linarith
  ultimately have "remove_entries s es = ([], True)"
    using assms(2-4) by (intro remove_entries_all) (auto simp: path_ok_def)
  then have run: "remove_directory r s = put (B @ p) None r"
    using es assms(2-4) by (simp add: remove_directory_def stat_def)
  have par: "is_dir (lookup r (butlast (B @ p)))"
    using dir_above [of r "B @ butlast p" "[last p]"] es assms(4) by (simp add: butlast_append)
  have "levels_at n B (put (B @ p) None r)" using store_put [OF assms(1,4) _ assms(7), of None] assms(5) by simp
  then show ?thesis
    using that [OF run] assms(4) file_at_put [OF _ par, of None] is_dir_put [OF _ par, of None] by auto
qed

lemma read_path:
  assumes "levels_at n B r" "path_ok s" "last s \<noteq> CHR ''/''" "components s = B @ p" "length p = n"
  shows "read_whole_file r s = Some (case file_at r (B @ p) of None \<Rightarrow> Inl 1 | Some b \<Rightarrow> Inr b)"
  using assms(2-4) store_file_or_none [OF assms(1,5)]
  by (auto simp: read_whole_file_def stat_def file_at_def split: option.splits fnode.splits)

subsection \<open>The paths of the services\<close>

text \<open>An id that becomes one directory name: not empty, not too long, and its encoding has no slash.\<close>

definition file_name :: "bytes \<Rightarrow> bool" where
  "file_name i \<longleftrightarrow> i \<noteq> [] \<and> CHR ''/'' \<notin> set (base64_groups i) \<and> length (base64_groups i) \<le> NAME_MAX"

fun arg_string :: "path_arg \<Rightarrow> string" where
  "arg_string (C s) = s"
| "arg_string (E b) = base64_groups b"

fun path_arg_ok :: "path_arg \<Rightarrow> bool" where
  "path_arg_ok (C s) \<longleftrightarrow> s \<noteq> [] \<and> length s \<le> NAME_MAX"
| "path_arg_ok (E b) \<longleftrightarrow> b \<noteq> [] \<and> length (base64_groups b) \<le> NAME_MAX"

definition join :: "string \<Rightarrow> string list \<Rightarrow> string" where
  "join to_path ns = foldl (\<lambda>p n. p @ CHR ''/'' # n) to_path ns"

lemma join_simps [simp]: "join p [] = p" "join p (n # ns) = join (p @ CHR ''/'' # n) ns"
  by (simp_all add: join_def)

lemma join_snoc: "join p (ns @ [n]) = join p ns @ CHR ''/'' # n"
  by (simp add: join_def)

lemma components_join: "components (join p ns) = components p @ concat (map components ns)"
  by (induction ns arbitrary: p) simp_all

lemma join_prefix: "prefix p (join p ns)"
proof (induction ns rule: rev_induct)
  case (snoc n ns)
  then show ?case unfolding join_snoc by (rule prefix_prefix)
qed simp

lemma length_groups_le: "length xs \<le> length (base64_groups xs)"
  by (induction xs rule: base64_groups.induct) simp_all

lemma file_name_component: "file_name i \<Longrightarrow> components (base64_groups i) = [base64_groups i]"
  using groups_no_dot [of i] by (auto simp: file_name_def components_name)

lemma file_name_encodes: "length (base64_groups i) \<le> NAME_MAX \<Longrightarrow> buf_to_string i x = Some (base64_groups i)"
  using length_groups_le [of i] by (auto simp: buf_to_string_def encode_eq_groups NAME_MAX_def)

lemma file_name_arg: "file_name i \<Longrightarrow> i \<noteq> [] \<and> length (base64_groups i) \<le> NAME_MAX"
  by (simp add: file_name_def)

lemma arg_length: "path_arg_ok a \<Longrightarrow> length (arg_string a) \<le> NAME_MAX"
  by (cases a) auto

lemma build_typed_path_join:
  "list_all path_arg_ok as \<Longrightarrow> length p + length as * Suc NAME_MAX < 10 * 1024 \<Longrightarrow>
   build_typed_path p x as = Some (join p (map arg_string as)) \<and>
   length (join p (map arg_string as)) \<le> length p + length as * Suc NAME_MAX"
proof (induction as arbitrary: p x)
  case (Cons a as)
  let ?p = "p @ CHR ''/'' # arg_string a"
  have l: "length ?p \<le> length p + Suc NAME_MAX" using Cons.prems(1) arg_length [of a] by simp
  then have "append_component p (arg_string a) = Some ?p"
    using Cons.prems(2) by (simp add: append_component_def)
  moreover have "\<exists>y. build_typed_path p x (a # as) =
      (case append_component p (arg_string a) of None \<Rightarrow> None | Some q \<Rightarrow> build_typed_path q y as)"
  proof (cases a)
    case (E b)
    then have "buf_to_string b x = Some (base64_groups b)" using Cons.prems(1) by (simp add: file_name_encodes)
    then show ?thesis using E by (intro exI [of _ "Some (base64_groups b)"]) simp
  qed (intro exI [of _ x], simp)
  then obtain y where "build_typed_path p x (a # as) =
      (case append_component p (arg_string a) of None \<Rightarrow> None | Some q \<Rightarrow> build_typed_path q y as)" ..
  moreover have "length ?p + length as * Suc NAME_MAX < 10 * 1024" using Cons.prems(2) l by simp
  from Cons.IH [OF _ this, of y] have "build_typed_path ?p y as = Some (join ?p (map arg_string as)) \<and>
      length (join ?p (map arg_string as)) \<le> length ?p + length as * Suc NAME_MAX" using Cons.prems(1) by simp
  ultimately show ?case using l by simp
qed simp

lemma component_length:
  assumes "path_arg_ok a" "w \<in> set (components (arg_string a))"
  shows "length w \<le> NAME_MAX"
  using arg_length [OF assms(1)] length_split_path [of w "arg_string a"] assms(2)
  by (auto simp: components_def)

text \<open>Paths of at most six components, relative to the working directory.\<close>

lemma typed_path:
  assumes "list_all path_arg_ok as" "length as \<le> 6" "as \<noteq> []"
  obtains s where "BUILD_TYPED_PATH as = Some s" "path_ok s" "hd s \<noteq> CHR ''/''" "last s = last (arg_string (last as))"
    "components s = concat (map (components \<circ> arg_string) as)" "\<And>n. n \<le> 4 \<Longrightarrow> length s + n * Suc NAME_MAX < PATH_MAX"
proof
  let ?s = "join ''.'' (map arg_string as)"
  have m: "length as * Suc NAME_MAX \<le> 6 * Suc NAME_MAX" using assms(2) by (rule mult_le_mono1)
  then have s: "BUILD_TYPED_PATH as = Some ?s" "length ?s \<le> 1 + length as * Suc NAME_MAX"
    using build_typed_path_join [OF assms(1), of "''.''" None] by (auto simp: BUILD_TYPED_PATH_def NAME_MAX_def)
  show "BUILD_TYPED_PATH as = Some ?s" by (rule s)
  have len: "length ?s \<le> 1 + 6 * Suc NAME_MAX" using s(2) m by linarith
  show c: "components ?s = concat (map (components \<circ> arg_string) as)"
    by (simp add: components_join components_name comp_def)
  have "prefix ''.'' ?s" by (rule join_prefix)
  then show "hd ?s \<noteq> CHR ''/''" by (auto simp: prefix_def)
  show "path_ok ?s"
    unfolding path_ok_def c using len \<open>prefix ''.'' ?s\<close> assms(1) component_length
    by (auto simp: list_all_iff PATH_MAX_def NAME_MAX_def prefix_def)
  obtain bs b where b: "as = bs @ [b]" using assms(3) by (cases as rule: rev_cases) auto
  have "arg_string b \<noteq> []" using assms(1) b by (cases b) simp_all
  then show "last ?s = last (arg_string (last as))" using b by (simp add: join_snoc)
  fix n :: nat
  assume "n \<le> 4"
  then have "n * Suc NAME_MAX \<le> 4 * Suc NAME_MAX" by (rule mult_le_mono1)
  with len show "length ?s + n * Suc NAME_MAX < PATH_MAX" by (simp add: PATH_MAX_def NAME_MAX_def)
qed

text \<open>Directories that are there already stay as they are.\<close>

lemma mkdirs_there:
  assumes "is_dir (lookup r p)"
  shows "mkdirs r p = r"
  using assms
proof (induction p rule: rev_induct)
  case (snoc x p)
  then have "is_dir (lookup r p)" by (intro dir_above [of r p "[x]"]) (auto elim!: is_dirE)
  with snoc show ?case by (auto simp: mkdir_at_def elim: is_dirE)
qed simp

lemma create_directory_there:
  assumes "levels_at n B r" "0 < n" "path_ok s" "hd s \<noteq> CHR ''/''" "components s = B"
  shows "create_directory r s = Some r"
proof -
  have "is_dir (lookup r B)" using store_above [OF assms(1,2), of B] by simp
  then show ?thesis by (simp add: create_directory_eq [OF assms(3,4)] assms(5) mkdirs_there)
qed

end
