(* ===== verification/File_Key_Store.thy ===== *)
theory File_Key_Store
  imports File_Levels Mid_Keys
begin

section \<open>The key store database in files\<close>

text \<open>
  \<^verbatim>\<open>docs/examples/c/mid_hermes/key_store_service/db.c\<close>: a token and its owner are two files, in a directory
  \<^verbatim>\<open>r\<close> or \<^verbatim>\<open>w\<close> of a directory named after the user, in one named after the block.

  The interpretation \<open>file_ks\<close> shows that this database keeps the contract \<open>key_db\<close> for the ids that
  become one directory name (\<open>file_name\<close>).  What happens for other ids, and what the database reports as the
  rights of a user, is stated at the end.
\<close>

subsection \<open>The callbacks\<close>

definition HERMES_KEY_STORE_PATH :: string where "HERMES_KEY_STORE_PATH = ''db/key_store''"
definition HM_KEY_STORE_READ_ACCESS_MASK :: u32 where "HM_KEY_STORE_READ_ACCESS_MASK = 1"
definition HM_KEY_STORE_WRITE_ACCESS_MASK :: u32 where "HM_KEY_STORE_WRITE_ACCESS_MASK = 2"

text \<open>\<^verbatim>\<open>db_t\<close> with the file system of the process.\<close>

record file_db =
  db_path :: string
  db_root :: fnode

definition file_set_rtoken ::
    "file_db \<Rightarrow> bytes \<Rightarrow> bytes \<Rightarrow> bytes \<Rightarrow> cbuf \<Rightarrow> (status \<times> file_db) option" where
  "file_set_rtoken ks block_id uid owner_id token =
     (case token of
        Some t \<Rightarrow> do {
          fpath \<leftarrow> BUILD_TYPED_PATH [C (db_path ks), E block_id, E uid, C ''r''];
          r \<leftarrow> create_directory (db_root ks) fpath;
          fpath \<leftarrow> BUILD_TYPED_PATH [C (db_path ks), E block_id, E uid, C ''r'', C ''token''];
          let r = snd (write_whole_file r fpath t);
          fpath \<leftarrow> BUILD_TYPED_PATH [C (db_path ks), E block_id, E uid, C ''r'', C ''owner''];
          let r = snd (write_whole_file r fpath owner_id);
          Some (0, ks\<lparr>db_root := r\<rparr>) }
      | None \<Rightarrow> do {
          fpath \<leftarrow> BUILD_TYPED_PATH [C (db_path ks), E block_id, E uid];
          Some (0, ks\<lparr>db_root := remove_directory (db_root ks) fpath\<rparr>) })"

definition file_set_wtoken ::
    "file_db \<Rightarrow> bytes \<Rightarrow> bytes \<Rightarrow> bytes \<Rightarrow> cbuf \<Rightarrow> (status \<times> file_db) option" where
  "file_set_wtoken ks block_id uid owner_id token =
     (case token of
        Some t \<Rightarrow> do {
          fpath \<leftarrow> BUILD_TYPED_PATH [C (db_path ks), E block_id, E uid, C ''w''];
          r \<leftarrow> create_directory (db_root ks) fpath;
          fpath \<leftarrow> BUILD_TYPED_PATH [C (db_path ks), E block_id, E uid, C ''w'', C ''token''];
          let r = snd (write_whole_file r fpath t);
          fpath \<leftarrow> BUILD_TYPED_PATH [C (db_path ks), E block_id, E uid, C ''w'', C ''owner''];
          let r = snd (write_whole_file r fpath owner_id);
          Some (0, ks\<lparr>db_root := r\<rparr>) }
      | None \<Rightarrow> do {
          fpath \<leftarrow> BUILD_TYPED_PATH [C (db_path ks), E block_id, E uid, C ''w''];
          Some (0, ks\<lparr>db_root := remove_directory (db_root ks) fpath\<rparr>) })"

definition file_get_rtoken :: "file_db \<Rightarrow> bytes \<Rightarrow> bytes \<Rightarrow> (status + bytes \<times> bytes) option" where
  "file_get_rtoken ks block_id uid = do {
     fpath \<leftarrow> BUILD_TYPED_PATH [C (db_path ks), E block_id, E uid, C ''r'', C ''token''];
     token \<leftarrow> read_whole_file (db_root ks) fpath;
     case token of
       Inl e \<Rightarrow> Some (Inl 1)
     | Inr t \<Rightarrow> do {
         fpath \<leftarrow> BUILD_TYPED_PATH [C (db_path ks), E block_id, E uid, C ''r'', C ''owner''];
         owner_id \<leftarrow> read_whole_file (db_root ks) fpath;
         case owner_id of Inl e \<Rightarrow> Some (Inl 1) | Inr w \<Rightarrow> Some (Inr (t, w)) } }"

definition file_get_wtoken :: "file_db \<Rightarrow> bytes \<Rightarrow> bytes \<Rightarrow> (status + bytes \<times> bytes) option" where
  "file_get_wtoken ks block_id uid = do {
     fpath \<leftarrow> BUILD_TYPED_PATH [C (db_path ks), E block_id, E uid, C ''w'', C ''token''];
     token \<leftarrow> read_whole_file (db_root ks) fpath;
     case token of
       Inl e \<Rightarrow> Some (Inl 1)
     | Inr t \<Rightarrow> do {
         fpath \<leftarrow> BUILD_TYPED_PATH [C (db_path ks), E block_id, E uid, C ''w'', C ''owner''];
         owner_id \<leftarrow> read_whole_file (db_root ks) fpath;
         case owner_id of Inl e \<Rightarrow> Some (Inl 1) | Inr w \<Rightarrow> Some (Inr (t, w)) } }"

text \<open>The loop over \<^verbatim>\<open>readdir\<close>: the name at an index.\<close>

fun nth_entry :: "(string \<times> fnode) list \<Rightarrow> u64 \<Rightarrow> string option" where
  "nth_entry [] i = None"
| "nth_entry ((x, n) # es) i = (if i = 0 then Some x else nth_entry es (i - 1))"

text \<open>
  A name that is no encoding decodes to the length \<^verbatim>\<open>-1\<close>, which passes the test for 0 and is returned as the
  length of a short buffer: such a run has no defined result.
\<close>

definition file_get_indexed_rights :: "file_db \<Rightarrow> bytes \<Rightarrow> u64 \<Rightarrow> (status + bytes \<times> u32) option" where
  "file_get_indexed_rights db block_id index =
     (if block_id = [] then Some (Inl 1)
      else do {
        fpath \<leftarrow> BUILD_TYPED_PATH [C (db_path db), E block_id];
        case stat (db_root db) fpath of
          Some (Dir es) \<Rightarrow>
            (case nth_entry es index of
               None \<Rightarrow> Some (Inl 1)
             | Some d_name \<Rightarrow> do {
                 uid \<leftarrow> base64_decode (length d_name) d_name;
                 if uid = [] then Some (Inl 1)
                 else do {
                   fpath \<leftarrow> BUILD_TYPED_PATH [C (db_path db), E block_id, C d_name, C ''w''];
                   Some (Inr (uid,
                     if \<not> check_file_exist (db_root db) fpath
                     then HM_KEY_STORE_READ_ACCESS_MASK OR HM_KEY_STORE_WRITE_ACCESS_MASK
                     else HM_KEY_STORE_READ_ACCESS_MASK)) } })
        | _ \<Rightarrow> Some (Inl 1) })"

definition file_del_rtoken :: "file_db \<Rightarrow> bytes \<Rightarrow> bytes \<Rightarrow> bytes \<Rightarrow> (status \<times> file_db) option" where
  "file_del_rtoken db block_id uid owner_id = file_set_rtoken db block_id uid owner_id None"

definition file_del_wtoken :: "file_db \<Rightarrow> bytes \<Rightarrow> bytes \<Rightarrow> bytes \<Rightarrow> (status \<times> file_db) option" where
  "file_del_wtoken db block_id uid owner_id = file_set_wtoken db block_id uid owner_id None"

subsection \<open>The database\<close>

text \<open>The state of the process is \<open>None\<close> after an undefined run.\<close>

definition changing :: "(file_db \<Rightarrow> (status \<times> file_db) option) \<Rightarrow> file_db option \<Rightarrow> status \<times> file_db option" where
  "changing f d = (case Option.bind d f of None \<Rightarrow> (HM_SUCCESS, None) | Some (st, d') \<Rightarrow> (st, Some d'))"

definition reading :: "(file_db \<Rightarrow> (status + 'a) option) \<Rightarrow> 'a \<Rightarrow> file_db option \<Rightarrow> status \<times> 'a \<times> file_db option" where
  "reading f out d =
     (case Option.bind d f of
        None \<Rightarrow> (HM_SUCCESS, out, None)
      | Some (Inl e) \<Rightarrow> (e, out, d)
      | Some (Inr x) \<Rightarrow> (HM_SUCCESS, x, d))"

definition file_ks_callbacks :: "file_db option \<Rightarrow> file_db option hm_ks_db" where
  "file_ks_callbacks d =
     \<lparr>ks_user_data = Some d,
      set_rtoken = Some (\<lambda>d b u w t. changing (\<lambda>d. file_set_rtoken d b u w (Some t)) d),
      set_wtoken = Some (\<lambda>d b u w t. changing (\<lambda>d. file_set_wtoken d b u w (Some t)) d),
      get_rtoken = Some (\<lambda>d b u. reading (\<lambda>d. file_get_rtoken d b u) ([], []) d),
      get_wtoken = Some (\<lambda>d b u. reading (\<lambda>d. file_get_wtoken d b u) ([], []) d),
      get_indexed_rights = Some (\<lambda>d b i. reading (\<lambda>d. file_get_indexed_rights d b i) ([], 0) d),
      del_rtoken = Some (\<lambda>d b u w. changing (\<lambda>d. file_del_rtoken d b u w) d),
      del_wtoken = Some (\<lambda>d b u w. changing (\<lambda>d. file_del_wtoken d b u w) d)\<rparr>"

definition file_ks_db_create :: "fnode \<Rightarrow> file_db option hm_ks_db option" where
  "file_ks_db_create r =
     (case create_directory r HERMES_KEY_STORE_PATH of
        None \<Rightarrow> None
      | Some r \<Rightarrow> Some (file_ks_callbacks (Some \<lparr>db_path = HERMES_KEY_STORE_PATH, db_root = r\<rparr>)))"

definition file_ks_db_destroy ::
    "'d hm_ks_db option option \<Rightarrow> status \<times> 'd hm_ks_db option option" where
  "file_ks_db_destroy ks = (case ks of Some (Some _) \<Rightarrow> (HM_SUCCESS, Some None) | _ \<Rightarrow> (HM_FAIL, ks))"

subsection \<open>The effects of the callbacks\<close>

abbreviation key_base :: "string list" where "key_base \<equiv> [''db'', ''key_store'']"

definition key_files :: "file_db \<Rightarrow> bool" where
  "key_files d \<longleftrightarrow> db_path d = HERMES_KEY_STORE_PATH \<and> levels_at 4 key_base (db_root d) \<and>
     (\<forall>b x k. is_dir (lookup (db_root d) (key_base @ [b, x, k])) \<longrightarrow>
        file_at (db_root d) (key_base @ [b, x, k, ''token'']) \<noteq> None \<and>
        file_at (db_root d) (key_base @ [b, x, k, ''owner'']) \<noteq> None) \<and>
     (\<forall>b x. is_dir (lookup (db_root d) (key_base @ [b, x])) \<longrightarrow> (\<exists>u. file_name u \<and> x = base64_groups u))"

definition file_tokens :: "string \<Rightarrow> file_db \<Rightarrow> tokens" where
  "file_tokens k d = (\<lambda>(b, u).
     if file_name b \<and> file_name u then
       (case file_at (db_root d) (key_base @ [base64_groups b, base64_groups u, k, ''token'']) of
          None \<Rightarrow> None
        | Some t \<Rightarrow>
            map_option (Pair t) (file_at (db_root d) (key_base @ [base64_groups b, base64_groups u, k, ''owner''])))
     else None)"

lemma key_path_components [simp]:
  "components HERMES_KEY_STORE_PATH = key_base" "components ''r'' = [''r'']" "components ''w'' = [''w'']"
  "components ''token'' = [''token'']" "components ''owner'' = [''owner'']"
  by (simp_all add: components_def HERMES_KEY_STORE_PATH_def)

lemma key_path_ok [simp]:
  "HERMES_KEY_STORE_PATH \<noteq> []" "length HERMES_KEY_STORE_PATH \<le> NAME_MAX"
  unfolding HERMES_KEY_STORE_PATH_def NAME_MAX_def by simp_all

text \<open>The two functions differ in the name of the directory.\<close>

definition put_token_files :: "string \<Rightarrow> file_db \<Rightarrow> bytes \<Rightarrow> bytes \<Rightarrow> bytes \<Rightarrow> bytes \<Rightarrow> (status \<times> file_db) option" where
  "put_token_files k ks b u w t = do {
     fpath \<leftarrow> BUILD_TYPED_PATH [C (db_path ks), E b, E u, C k];
     r \<leftarrow> create_directory (db_root ks) fpath;
     fpath \<leftarrow> BUILD_TYPED_PATH [C (db_path ks), E b, E u, C k, C ''token''];
     let r = snd (write_whole_file r fpath t);
     fpath \<leftarrow> BUILD_TYPED_PATH [C (db_path ks), E b, E u, C k, C ''owner''];
     let r = snd (write_whole_file r fpath w);
     Some (0, ks\<lparr>db_root := r\<rparr>) }"

definition get_token_files :: "string \<Rightarrow> file_db \<Rightarrow> bytes \<Rightarrow> bytes \<Rightarrow> (status + bytes \<times> bytes) option" where
  "get_token_files k ks b u = do {
     fpath \<leftarrow> BUILD_TYPED_PATH [C (db_path ks), E b, E u, C k, C ''token''];
     token \<leftarrow> read_whole_file (db_root ks) fpath;
     case token of
       Inl e \<Rightarrow> Some (Inl 1)
     | Inr t \<Rightarrow> do {
         fpath \<leftarrow> BUILD_TYPED_PATH [C (db_path ks), E b, E u, C k, C ''owner''];
         owner_id \<leftarrow> read_whole_file (db_root ks) fpath;
         case owner_id of Inl e \<Rightarrow> Some (Inl 1) | Inr w \<Rightarrow> Some (Inr (t, w)) } }"

definition del_files :: "string list \<Rightarrow> file_db \<Rightarrow> bytes \<Rightarrow> bytes \<Rightarrow> (status \<times> file_db) option" where
  "del_files ks d b u = do {
     fpath \<leftarrow> BUILD_TYPED_PATH ([C (db_path d), E b, E u] @ map C ks);
     Some (0, d\<lparr>db_root := remove_directory (db_root d) fpath\<rparr>) }"

lemma token_functions:
  "file_set_rtoken d b u w (Some t) = put_token_files ''r'' d b u w t"
  "file_set_wtoken d b u w (Some t) = put_token_files ''w'' d b u w t"
  "file_get_rtoken d b u = get_token_files ''r'' d b u" "file_get_wtoken d b u = get_token_files ''w'' d b u"
  "file_del_rtoken d b u w = del_files [] d b u" "file_del_wtoken d b u w = del_files [''w''] d b u"
  by (simp_all add: file_set_rtoken_def file_set_wtoken_def file_get_rtoken_def file_get_wtoken_def
      file_del_rtoken_def file_del_wtoken_def put_token_files_def get_token_files_def del_files_def)

lemma put_token_files_effect:
  assumes "key_files d" "file_name b" "file_name u" "k = ''r'' \<or> k = ''w''"
  obtains d' where "put_token_files k d b u w t = Some (0, d')" "key_files d'"
    "file_at (db_root d') = (file_at (db_root d))
       (key_base @ [base64_groups b, base64_groups u, k, ''token''] \<mapsto> t,
        key_base @ [base64_groups b, base64_groups u, k, ''owner''] \<mapsto> w)"
proof -
  let ?r = "db_root d" and ?p = "[base64_groups b, base64_groups u, k]"
  have d: "db_path d = HERMES_KEY_STORE_PATH" "levels_at 4 key_base ?r" using assms(1) by (simp_all add: key_files_def)
  have id_names: "length (base64_groups b) \<le> NAME_MAX" "length (base64_groups u) \<le> NAME_MAX"
    using assms(2,3) by (simp_all add: file_name_arg)
  have dir_names: "length k \<le> NAME_MAX" "length ''token'' \<le> NAME_MAX" "length ''owner'' \<le> NAME_MAX"
    "components k = [k]" "path_arg_ok (C k)" using assms(4) by (auto simp: NAME_MAX_def)
  note names = id_names dir_names
  have dirs: "list_all path_arg_ok [C (db_path d), E b, E u, C k]"
    using assms(2,3) names d(1) by (simp add: file_name_arg)
  obtain s0 where s0: "BUILD_TYPED_PATH [C (db_path d), E b, E u, C k] = Some s0" "path_ok s0" "hd s0 \<noteq> CHR ''/''"
    "components s0 = key_base @ ?p"
    by (rule typed_path [OF dirs]) (use d(1) assms(2,3) names in \<open>auto simp: file_name_component\<close>)
  obtain s1 where s1: "BUILD_TYPED_PATH [C (db_path d), E b, E u, C k, C ''token''] = Some s1" "path_ok s1"
    "last s1 \<noteq> CHR ''/''" "components s1 = key_base @ ?p @ [''token'']"
    by (rule typed_path [of "[C (db_path d), E b, E u, C k, C ''token'']"])
      (use dirs d(1) assms(2,3) names in \<open>auto simp: file_name_component\<close>)
  obtain s2 where s2: "BUILD_TYPED_PATH [C (db_path d), E b, E u, C k, C ''owner''] = Some s2" "path_ok s2"
    "last s2 \<noteq> CHR ''/''" "components s2 = key_base @ ?p @ [''owner'']"
    by (rule typed_path [of "[C (db_path d), E b, E u, C k, C ''owner'']"])
      (use dirs d(1) assms(2,3) names in \<open>auto simp: file_name_component\<close>)
  obtain r0 where r0: "create_directory ?r s0 = Some r0" "levels_at 4 key_base r0" "file_at r0 = file_at ?r"
    "\<And>q. is_dir (lookup r0 q) \<longleftrightarrow> is_dir (lookup ?r q) \<or> prefix q (key_base @ ?p)"
    by (rule mkdirs_path [OF d(2) _ s0(2-4)]) (use names in simp_all)
  obtain r1 where r1: "write_whole_file r0 s1 t = (0, r1)" "levels_at 4 key_base r1"
    "file_at r1 = (file_at r0)(key_base @ ?p @ [''token''] \<mapsto> t)" "\<And>q. is_dir (lookup r1 q) \<longleftrightarrow> is_dir (lookup r0 q)"
    by (rule write_path [OF r0(2) s1(2-4), of t]) (use names r0(4) in simp_all)
  obtain r2 where r2: "write_whole_file r1 s2 w = (0, r2)" "levels_at 4 key_base r2"
    "file_at r2 = (file_at r1)(key_base @ ?p @ [''owner''] \<mapsto> w)" "\<And>q. is_dir (lookup r2 q) \<longleftrightarrow> is_dir (lookup r1 q)"
    by (rule write_path [OF r1(2) s2(2-4), of w]) (use names r0(4) r1(4) in simp_all)
  have run: "put_token_files k d b u w t = Some (0, d\<lparr>db_root := r2\<rparr>)"
    using s0(1) s1(1) s2(1) r0(1) r1(1) r2(1) by (simp add: put_token_files_def Let_def)
  have files: "file_at r2 = (file_at ?r)(key_base @ ?p @ [''token''] \<mapsto> t, key_base @ ?p @ [''owner''] \<mapsto> w)"
    using r0(3) r1(3) r2(3) by simp
  have isdir: "is_dir (lookup r2 q) \<longleftrightarrow> is_dir (lookup ?r q) \<or> prefix q (key_base @ ?p)" for q
    using r0(4) r1(4) r2(4) by simp
  have "key_files (d\<lparr>db_root := r2\<rparr>)"
    using assms(1-3) d(1) r2(2) unfolding key_files_def
    by (simp add: files isdir) blast
  then show ?thesis using that [OF run] files by simp
qed

lemma file_tokens_put:
  assumes "file_name b" "file_name u"
    and "file_at (db_root d') = (file_at (db_root d))
       (key_base @ [base64_groups b, base64_groups u, k, ''token''] \<mapsto> t,
        key_base @ [base64_groups b, base64_groups u, k, ''owner''] \<mapsto> w)"
  shows "file_tokens k d' = (file_tokens k d)((b, u) \<mapsto> (t, w))" "k' \<noteq> k \<Longrightarrow> file_tokens k' d' = file_tokens k' d"
  using assms(1,2) unfolding file_tokens_def assms(3)
  by (auto simp: groups_inj fun_eq_iff split: option.split)

lemma get_token_files_value:
  assumes "key_files d" "file_name b" "file_name u" "k = ''r'' \<or> k = ''w''"
  shows "get_token_files k d b u = Some (case file_tokens k d (b, u) of None \<Rightarrow> Inl 1 | Some tw \<Rightarrow> Inr tw)"
proof -
  let ?r = "db_root d" and ?p = "[base64_groups b, base64_groups u, k]"
  have d: "db_path d = HERMES_KEY_STORE_PATH" "levels_at 4 key_base ?r" using assms(1) by (simp_all add: key_files_def)
  have k: "components k = [k]" "path_arg_ok (C k)" "path_arg_ok (C ''token'')" "path_arg_ok (C ''owner'')"
    using assms(4) by (auto simp: NAME_MAX_def)
  have args: "list_all path_arg_ok [C (db_path d), E b, E u, C k, C ''token'']"
    "list_all path_arg_ok [C (db_path d), E b, E u, C k, C ''owner'']"
    using assms(2,3) k d(1) by (simp_all add: file_name_arg)
  obtain s1 where s1: "BUILD_TYPED_PATH [C (db_path d), E b, E u, C k, C ''token''] = Some s1" "path_ok s1"
    "last s1 \<noteq> CHR ''/''" "components s1 = key_base @ ?p @ [''token'']"
    by (rule typed_path [OF args(1)]) (use d(1) assms(2,3) k in \<open>auto simp: file_name_component\<close>)
  obtain s2 where s2: "BUILD_TYPED_PATH [C (db_path d), E b, E u, C k, C ''owner''] = Some s2" "path_ok s2"
    "last s2 \<noteq> CHR ''/''" "components s2 = key_base @ ?p @ [''owner'']"
    by (rule typed_path [OF args(2)]) (use d(1) assms(2,3) k in \<open>auto simp: file_name_component\<close>)
  show ?thesis
    using read_path [OF d(2) s1(2-4)] read_path [OF d(2) s2(2-4)] s1(1) s2(1) assms(2,3)
    by (auto simp: get_token_files_def file_tokens_def split: option.splits)
qed

lemma del_files_effect:
  assumes "key_files d" "file_name b" "file_name u" "ks = [] \<or> ks = [''w'']"
  obtains d' where "del_files ks d b u = Some (0, d')" "key_files d'"
    "\<And>q. file_at (db_root d') q =
       (if prefix (key_base @ [base64_groups b, base64_groups u] @ ks) q then None else file_at (db_root d) q)"
proof -
  let ?r = "db_root d" and ?p = "[base64_groups b, base64_groups u] @ ks"
  have d: "db_path d = HERMES_KEY_STORE_PATH" "levels_at 4 key_base ?r" using assms(1) by (simp_all add: key_files_def)
  have ks: "concat (map (components \<circ> arg_string) (map C ks)) = ks" "list_all path_arg_ok (map C ks)" "length ks \<le> 1"
    "list_all (\<lambda>x. length x \<le> NAME_MAX) ks"
    using assms(4) by (auto simp: NAME_MAX_def)
  have args: "list_all path_arg_ok ([C (db_path d), E b, E u] @ map C ks)"
    using assms(2,3) ks d(1) by (simp add: file_name_arg)
  obtain s where s: "BUILD_TYPED_PATH ([C (db_path d), E b, E u] @ map C ks) = Some s" "path_ok s"
    "components s = key_base @ ?p" "length s + 4 * Suc NAME_MAX < PATH_MAX"
    by (rule typed_path [OF args]) (use d(1) assms(2,3) ks in \<open>auto simp: file_name_component\<close>)
  obtain r where r: "remove_directory ?r s = r" "levels_at 4 key_base r"
    "\<And>q. file_at r q = (if prefix (key_base @ ?p) q then None else file_at ?r q)"
    "\<And>q. is_dir (lookup r q) \<longleftrightarrow> is_dir (lookup ?r q) \<and> \<not> prefix (key_base @ ?p) q"
    by (rule remove_path [OF d(2) s(2,3) _ _ s(4)]) (use ks assms(2,3) file_name_arg in simp_all)
  have run: "del_files ks d b u = Some (0, d\<lparr>db_root := r\<rparr>)"
    using s(1) r(1) by (simp add: del_files_def)
  have "key_files (d\<lparr>db_root := r\<rparr>)"
    using assms(1,4) r(2) unfolding key_files_def by (auto simp: r(3,4))
  then show ?thesis using that [OF run] r(3) by simp
qed

lemma file_tokens_del:
  assumes "file_name b" "file_name u" "ks = [] \<or> ks = [''w'']"
    and "\<And>q. file_at (db_root d') q =
       (if prefix (key_base @ [base64_groups b, base64_groups u] @ ks) q then None else file_at (db_root d) q)"
  shows "file_tokens k d' = (if k \<in> set ks \<or> ks = [] then (file_tokens k d)((b, u) := None) else file_tokens k d)"
  using assms(1-3) unfolding file_tokens_def assms(4)
  by (auto simp: groups_inj fun_eq_iff split: option.split)

subsection \<open>The contract\<close>

definition file_ks_inv :: "file_db option \<Rightarrow> bool" where
  "file_ks_inv d \<longleftrightarrow> (\<exists>x. d = Some x \<and> key_files x)"

lemma changing_run: "f d = Some (st, d') \<Longrightarrow> changing f (Some d) = (st, Some d')"
  by (simp add: changing_def)

lemma reading_run:
  "f d = Some (case m of None \<Rightarrow> Inl 1 | Some x \<Rightarrow> Inr x) \<Longrightarrow>
   reading f out (Some d) = (case m of None \<Rightarrow> (1, out, Some d) | Some x \<Rightarrow> (HM_SUCCESS, x, Some d))"
  by (simp add: reading_def split: option.split)

definition file_rt :: "file_db option \<Rightarrow> tokens" where "file_rt d = file_tokens ''r'' (the d)"
definition file_wt :: "file_db option \<Rightarrow> tokens" where "file_wt d = file_tokens ''w'' (the d)"

lemma file_set_run:
  assumes "file_ks_inv d" "file_name b" "file_name u"
  shows "\<exists>d'. changing (\<lambda>d. file_set_rtoken d b u w (Some t)) d = (HM_SUCCESS, d') \<and> file_ks_inv d' \<and>
      file_rt d' = (file_rt d)((b, u) \<mapsto> (t, w)) \<and> file_wt d' = file_wt d"
    and "\<exists>d'. changing (\<lambda>d. file_set_wtoken d b u w (Some t)) d = (HM_SUCCESS, d') \<and> file_ks_inv d' \<and>
      file_wt d' = (file_wt d)((b, u) \<mapsto> (t, w)) \<and> file_rt d' = file_rt d"
proof -
  obtain x where x: "d = Some x" "key_files x" using assms(1) by (auto simp: file_ks_inv_def)
  obtain x' where x': "put_token_files ''r'' x b u w t = Some (0, x')" "key_files x'" "file_at (db_root x') = (file_at (db_root x))
       (key_base @ [base64_groups b, base64_groups u, ''r'', ''token''] \<mapsto> t,
        key_base @ [base64_groups b, base64_groups u, ''r'', ''owner''] \<mapsto> w)"
    by (rule put_token_files_effect [OF x(2) assms(2,3) disjI1 [OF refl], where t = t and w = w])
  note tok = file_tokens_put [OF assms(2,3) x'(3)]
  show "\<exists>d'. changing (\<lambda>d. file_set_rtoken d b u w (Some t)) d = (HM_SUCCESS, d') \<and> file_ks_inv d' \<and>
      file_rt d' = (file_rt d)((b, u) \<mapsto> (t, w)) \<and> file_wt d' = file_wt d"
    using x x'(1,2) tok(1) tok(2) [of "''w''"]
    by (intro exI [of _ "Some x'"]) (simp add: changing_run token_functions HM_SUCCESS_def file_ks_inv_def file_rt_def file_wt_def)
  obtain x' where x': "put_token_files ''w'' x b u w t = Some (0, x')" "key_files x'" "file_at (db_root x') = (file_at (db_root x))
       (key_base @ [base64_groups b, base64_groups u, ''w'', ''token''] \<mapsto> t,
        key_base @ [base64_groups b, base64_groups u, ''w'', ''owner''] \<mapsto> w)"
    by (rule put_token_files_effect [OF x(2) assms(2,3) disjI2 [OF refl], where t = t and w = w])
  note tok = file_tokens_put [OF assms(2,3) x'(3)]
  show "\<exists>d'. changing (\<lambda>d. file_set_wtoken d b u w (Some t)) d = (HM_SUCCESS, d') \<and> file_ks_inv d' \<and>
      file_wt d' = (file_wt d)((b, u) \<mapsto> (t, w)) \<and> file_rt d' = file_rt d"
    using x x'(1,2) tok(1) tok(2) [of "''r''"]
    by (intro exI [of _ "Some x'"]) (simp add: changing_run token_functions HM_SUCCESS_def file_ks_inv_def file_rt_def file_wt_def)
qed

lemma file_del_run:
  assumes "file_ks_inv d" "file_name b" "file_name u"
  shows "\<exists>d'. changing (\<lambda>d. file_del_rtoken d b u w) d = (HM_SUCCESS, d') \<and> file_ks_inv d' \<and>
      file_rt d' = (file_rt d)((b, u) := None) \<and> file_wt d' = (file_wt d)((b, u) := None)"
    and "\<exists>d'. changing (\<lambda>d. file_del_wtoken d b u w) d = (HM_SUCCESS, d') \<and> file_ks_inv d' \<and>
      file_rt d' = file_rt d \<and> file_wt d' = (file_wt d)((b, u) := None)"
proof -
  obtain x where x: "d = Some x" "key_files x" using assms(1) by (auto simp: file_ks_inv_def)
  obtain x' where x': "del_files [] x b u = Some (0, x')" "key_files x'" "\<And>q. file_at (db_root x') q =
      (if prefix (key_base @ [base64_groups b, base64_groups u] @ []) q then None else file_at (db_root x) q)"
    using del_files_effect [OF x(2) assms(2,3) disjI1 [OF refl]] by blast
  show "\<exists>d'. changing (\<lambda>d. file_del_rtoken d b u w) d = (HM_SUCCESS, d') \<and> file_ks_inv d' \<and>
      file_rt d' = (file_rt d)((b, u) := None) \<and> file_wt d' = (file_wt d)((b, u) := None)"
    using x x'(1,2) file_tokens_del [OF assms(2,3) _ x'(3)]
    by (intro exI [of _ "Some x'"]) (simp add: changing_run token_functions HM_SUCCESS_def file_ks_inv_def file_rt_def file_wt_def)
  obtain x' where x': "del_files [''w''] x b u = Some (0, x')" "key_files x'" "\<And>q. file_at (db_root x') q =
      (if prefix (key_base @ [base64_groups b, base64_groups u] @ [''w'']) q then None else file_at (db_root x) q)"
    using del_files_effect [OF x(2) assms(2,3) disjI2 [OF refl]] by blast
  show "\<exists>d'. changing (\<lambda>d. file_del_wtoken d b u w) d = (HM_SUCCESS, d') \<and> file_ks_inv d' \<and>
      file_rt d' = file_rt d \<and> file_wt d' = (file_wt d)((b, u) := None)"
    using x x'(1,2) file_tokens_del [OF assms(2,3) _ x'(3)]
    by (intro exI [of _ "Some x'"]) (simp add: changing_run token_functions HM_SUCCESS_def file_ks_inv_def file_rt_def file_wt_def)
qed

lemma file_get_run:
  assumes "file_ks_inv d" "file_name b" "file_name u"
  shows "reading (\<lambda>d. file_get_rtoken d b u) out d =
      (case file_rt d (b, u) of None \<Rightarrow> (1, out, d) | Some tw \<Rightarrow> (HM_SUCCESS, tw, d))"
    and "reading (\<lambda>d. file_get_wtoken d b u) out d =
      (case file_wt d (b, u) of None \<Rightarrow> (1, out, d) | Some tw \<Rightarrow> (HM_SUCCESS, tw, d))"
proof -
  obtain x where x: "d = Some x" "key_files x" using assms(1) by (auto simp: file_ks_inv_def)
  show "reading (\<lambda>d. file_get_rtoken d b u) out d =
      (case file_rt d (b, u) of None \<Rightarrow> (1, out, d) | Some tw \<Rightarrow> (HM_SUCCESS, tw, d))"
    using reading_run [of "\<lambda>d. file_get_rtoken d b u" x "file_rt d (b, u)" out] get_token_files_value [OF x(2) assms(2,3), of "''r''"]
    unfolding x(1) by (simp add: token_functions file_rt_def)
  show "reading (\<lambda>d. file_get_wtoken d b u) out d =
      (case file_wt d (b, u) of None \<Rightarrow> (1, out, d) | Some tw \<Rightarrow> (HM_SUCCESS, tw, d))"
    using reading_run [of "\<lambda>d. file_get_wtoken d b u" x "file_wt d (b, u)" out] get_token_files_value [OF x(2) assms(2,3), of "''w''"]
    unfolding x(1) by (simp add: token_functions file_wt_def)
qed

subsection \<open>What the database says about rights\<close>

definition block_users :: "file_db \<Rightarrow> bytes \<Rightarrow> string list" where
  "block_users d b = (case lookup (db_root d) (key_base @ [base64_groups b]) of Some (Dir es) \<Rightarrow> map fst es | _ \<Rightarrow> [])"

lemma nth_entry_nth: "nth_entry es i = (if unat i < length es then Some (map fst es ! unat i) else None)"
proof (induction es i rule: nth_entry.induct)
  case (2 x n es i)
  show ?case
  proof (cases "i = 0")
    case False
    then have "unat i = Suc (unat (i - 1))" by (simp add: unat_minus_one unat_gt_0)
    with False 2 show ?thesis by simp
  qed simp
qed simp

lemma file_tokens_dir:
  assumes "key_files d" "file_name b" "file_name u"
  shows "file_tokens k d (b, u) \<noteq> None \<longleftrightarrow> is_dir (lookup (db_root d) (key_base @ [base64_groups b, base64_groups u, k]))"
proof
  assume "file_tokens k d (b, u) \<noteq> None"
  then have "lookup (db_root d) ((key_base @ [base64_groups b, base64_groups u, k]) @ [''token'']) \<noteq> None"
    by (auto simp: file_tokens_def file_at_def split: if_splits option.splits)
  then show "is_dir (lookup (db_root d) (key_base @ [base64_groups b, base64_groups u, k]))"
    by (rule dir_above) simp
next
  assume "is_dir (lookup (db_root d) (key_base @ [base64_groups b, base64_groups u, k]))"
  with assms show "file_tokens k d (b, u) \<noteq> None"
    unfolding key_files_def file_tokens_def by (auto split: option.splits)
qed

definition reported_mask :: "file_db \<Rightarrow> bytes \<Rightarrow> bytes \<Rightarrow> u32" where
  "reported_mask d b u = HM_KEY_STORE_READ_ACCESS_MASK OR
     (if file_tokens ''w'' d (b, u) = None then HM_KEY_STORE_WRITE_ACCESS_MASK else 0)"

lemma block_path:
  assumes "key_files d" "file_name b"
  obtains s where "BUILD_TYPED_PATH [C (db_path d), E b] = Some s" "path_ok s" "components s = key_base @ [base64_groups b]"
proof -
  have d: "db_path d = HERMES_KEY_STORE_PATH" using assms(1) by (simp add: key_files_def)
  have args: "list_all path_arg_ok [C (db_path d), E b]" using d file_name_arg [OF assms(2)] by simp
  show ?thesis by (rule typed_path [OF args]) (use d file_name_component [OF assms(2)] that in auto)
qed

lemma rights_of_entry:
  assumes "key_files d" "file_name b" "file_name u" "lookup (db_root d) (key_base @ [base64_groups b]) = Some (Dir es)"
    and "nth_entry es i = Some (base64_groups u)"
  shows "file_get_indexed_rights d b i = Some (Inr (u, reported_mask d b u))"
proof -
  have d: "db_path d = HERMES_KEY_STORE_PATH" "levels_at 4 key_base (db_root d)"
    using assms(1) by (simp_all add: key_files_def)
  have comps: "components (base64_groups b) = [base64_groups b]" "components (base64_groups u) = [base64_groups u]"
    using assms(2,3) by (simp_all add: file_name_component)
  have names: "b \<noteq> []" "length (base64_groups b) \<le> NAME_MAX" "u \<noteq> []" "length (base64_groups u) \<le> NAME_MAX"
    using assms(2,3) file_name_arg by auto
  have "path_arg_ok (C ''w'')" by (simp add: NAME_MAX_def)
  then have args: "list_all path_arg_ok [C (db_path d), E b, C (base64_groups u), C ''w'']"
    using names d(1) by simp
  obtain s where s: "BUILD_TYPED_PATH [C (db_path d), E b] = Some s" "path_ok s" "components s = key_base @ [base64_groups b]"
    using assms(1,2) by (rule block_path)
  obtain s' where s': "BUILD_TYPED_PATH [C (db_path d), E b, C (base64_groups u), C ''w''] = Some s'" "path_ok s'"
    "components s' = key_base @ [base64_groups b, base64_groups u, ''w'']"
    by (rule typed_path [OF args]) (use d(1) comps in auto)
  have "check_file_exist (db_root d) s' \<longleftrightarrow> is_dir (lookup (db_root d) (key_base @ [base64_groups b, base64_groups u, ''w'']))"
    using s'(2,3) store_dir_or_none [OF d(2), of "[base64_groups b, base64_groups u, ''w'']"]
    by (auto simp: check_file_exist_def stat_def is_dir_def split: option.splits fnode.splits)
  then have w: "check_file_exist (db_root d) s' \<longleftrightarrow> file_tokens ''w'' d (b, u) \<noteq> None"
    using file_tokens_dir [OF assms(1-3)] by simp
  have "base64_decode (length (base64_groups u)) (base64_groups u) = Some u"
    using decode_groups [of 0 "[]" u "length (base64_groups u)" 0] length_groups_le [of u] by (simp add: base64_decode_def)
  then show ?thesis
    using s s' w assms(4,5) names
    by (auto simp: file_get_indexed_rights_def stat_def reported_mask_def)
qed

lemma block_user_names:
  assumes "key_files d"
  obtains us where "map base64_groups us = block_users d b" "distinct us" "list_all file_name us"
proof (cases "is_dir (lookup (db_root d) (key_base @ [base64_groups b]))")
  case True
  then obtain es where es: "lookup (db_root d) (key_base @ [base64_groups b]) = Some (Dir es)" by (rule is_dirE)
  have lev: "leveled 3 (Dir es)" using store_node(2) [OF _ es, of 4] assms by (simp add: key_files_def)
  then have dist: "distinct (map fst es)" by (simp add: eval_nat_numeral)
  have "\<exists>u. file_name u \<and> x = base64_groups u" if x: "x \<in> set (map fst es)" for x
  proof -
    obtain m where m: "map_of es x = Some m" using x by (auto simp: map_of_eq_None_iff dest!: weak_map_of_SomeI)
    then have "leveled 2 m" using leveled_entry [of 2 es x m] lev by (simp add: eval_nat_numeral)
    then have "is_dir (lookup (db_root d) (key_base @ [base64_groups b, x]))"
      using m es lookup_append [of "db_root d" "key_base @ [base64_groups b]" "[x]"] leveled_dir [of 2 m] by simp
    with assms show ?thesis by (auto simp: key_files_def)
  qed
  then obtain f where f: "\<forall>x \<in> set (map fst es). file_name (f x) \<and> x = base64_groups (f x)" by metis
  have "map base64_groups (map f (map fst es)) = map fst es" using f by (simp add: map_idI comp_def)
  moreover from this have "distinct (map f (map fst es))" using dist by (metis distinct_map)
  ultimately show ?thesis using that [of "map f (map fst es)"] f es by (auto simp: block_users_def list_all_iff)
next
  case False
  then have "block_users d b = []" by (auto simp: block_users_def is_dir_def split: option.splits fnode.splits)
  then show ?thesis using that [of "[]"] by simp
qed

lemma rights_run:
  assumes "key_files d" "file_name b" "map base64_groups us = block_users d b" "list_all file_name us"
  shows "file_get_indexed_rights d b i =
    Some (if unat i < length us then Inr (us ! unat i, reported_mask d b (us ! unat i)) else Inl 1)"
proof (cases "is_dir (lookup (db_root d) (key_base @ [base64_groups b]))")
  case True
  then obtain es where es: "lookup (db_root d) (key_base @ [base64_groups b]) = Some (Dir es)" by (rule is_dirE)
  have us: "map base64_groups us = map fst es" using assms(3) es by (simp add: block_users_def)
  then have len: "length us = length es" by (metis length_map)
  show ?thesis
  proof (cases "unat i < length us")
    case True
    then have "nth_entry es i = Some (base64_groups (us ! unat i))"
      using len by (simp add: nth_entry_nth flip: us)
    with rights_of_entry [OF assms(1,2) _ es] True assms(4) show ?thesis by (simp add: list_all_length)
  next
    case False
    then have none: "nth_entry es i = None" using len by (simp add: nth_entry_nth)
    obtain s where "BUILD_TYPED_PATH [C (db_path d), E b] = Some s" "path_ok s" "components s = key_base @ [base64_groups b]"
      using assms(1,2) by (rule block_path)
    with none es False file_name_arg [OF assms(2)] show ?thesis
      by (simp add: file_get_indexed_rights_def stat_def)
  qed
next
  case False
  then have us: "us = []" using assms(3) by (auto simp: block_users_def is_dir_def split: option.splits fnode.splits)
  have d: "levels_at 4 key_base (db_root d)" using assms(1) by (simp add: key_files_def)
  obtain s where "BUILD_TYPED_PATH [C (db_path d), E b] = Some s" "path_ok s" "components s = key_base @ [base64_groups b]"
    using assms(1,2) by (rule block_path)
  moreover have "lookup (db_root d) (key_base @ [base64_groups b]) = None"
    using False store_dir_or_none [OF d, of "[base64_groups b]"] by (cases "lookup (db_root d) (key_base @ [base64_groups b])") auto
  ultimately show ?thesis
    using us file_name_arg [OF assms(2)] by (simp add: file_get_indexed_rights_def stat_def)
qed

text \<open>C34. The database reports the wrong rights: listing a block gives every user who has a directory once, in
  the order of the directory, always with the right to read, and with the right to update exactly when
  the user has no write token.\<close>

theorem file_rights_are_inverted:
  assumes "key_files d" "file_name b"
  shows "\<exists>us. distinct us \<and>
    (\<forall>i. file_get_indexed_rights d b i = Some (if unat i < length us
       then Inr (us ! unat i, HM_KEY_STORE_READ_ACCESS_MASK OR
         (if file_tokens ''w'' d (b, us ! unat i) = None then HM_KEY_STORE_WRITE_ACCESS_MASK else 0))
       else Inl 1)) \<and>
    (\<forall>k u. file_tokens k d (b, u) \<noteq> None \<longrightarrow> u \<in> set us)"
proof -
  obtain us where us: "map base64_groups us = block_users d b" "distinct us" "list_all file_name us"
    using assms(1) by (rule block_user_names)
  have "u \<in> set us" if tok: "file_tokens k d (b, u) \<noteq> None" for k u
  proof -
    have u: "file_name u" using tok by (auto simp: file_tokens_def split: if_splits)
    have "lookup (db_root d) ((key_base @ [base64_groups b]) @ [base64_groups u, k]) \<noteq> None"
      using tok file_tokens_dir [OF assms u, of k] by (force elim: is_dirE)
    then obtain es where es: "lookup (db_root d) (key_base @ [base64_groups b]) = Some (Dir es)"
      using dir_above by (blast elim: is_dirE)
    then have "map_of es (base64_groups u) \<noteq> None"
      using tok file_tokens_dir [OF assms u, of k] lookup_append [of "db_root d" "key_base @ [base64_groups b]" "[base64_groups u, k]"]
      by (auto split: option.splits)
    then have "base64_groups u \<in> set (block_users d b)"
      using es by (force simp: block_users_def dest: map_of_SomeD)
    with us(1) show ?thesis by (auto simp: groups_inj simp flip: us(1))
  qed
  then show ?thesis
    using rights_run [OF assms us(1,3)] us(2) unfolding reported_mask_def by blast
qed

subsection \<open>The contract\<close>

interpretation file_ks: key_db "file_ks_callbacks None" file_rt file_wt file_ks_inv file_name "\<lambda>_. True"
    "\<lambda>_. True" "\<lambda>_. False"
proof (unfold_locales, goal_cases)
  case 1
  show ?case by (simp add: file_ks_callbacks_def hm_key_store_check_backend_def)
next
  case (2 d b u st tw d')
  then show ?case
    by (auto simp: file_ks_callbacks_def file_get_run HM_SUCCESS_def split: option.splits)
next
  case (3 d b u st tw d')
  then show ?case
    by (auto simp: file_ks_callbacks_def file_get_run HM_SUCCESS_def split: option.splits)
next
  case (4 d b u w t st d')
  then show ?case using file_set_run(1) [of d b u w t] by (auto simp: file_ks_callbacks_def)
next
  case (5 d b u w t st d')
  then show ?case using file_set_run(2) [of d b u w t] by (auto simp: file_ks_callbacks_def)
next
  case (6 d b u w st d')
  then show ?case using file_del_run(1) [of d b u w] by (auto simp: file_ks_callbacks_def lost_at_def)
next
  case (7 d b u w st d')
  then show ?case using file_del_run(2) [of d b u w] by (auto simp: file_ks_callbacks_def lost_at_def)
next
  case (8 d b i)
  then obtain x where x: "d = Some x" "key_files x" by (auto simp: file_ks_inv_def)
  obtain us where us: "map base64_groups us = block_users x b" "list_all file_name us"
    using x(2) by (rule block_user_names)
  show ?case
    using x(1) rights_run [OF x(2) 8(2) us, of i] by (simp add: file_ks_callbacks_def reading_def)
qed

subsection \<open>Ids that are not one name\<close>

lemma groups_append_slashes:
  "length u mod 3 = 0 \<Longrightarrow> base64_groups (u @ [255, 255, 255]) = base64_groups u @ ''////''"
proof (induction u rule: base64_groups.induct)
  case 1
  show ?case by code_simp
qed (simp_all add: mod_Suc split: if_splits)

lemma slashes_no_component: "components ''///'' = []"
  by (simp add: components_def)

lemma same_files:
  assumes "path_ok s" "path_ok s'" "components s' = components s" "last s' = last s"
  shows "read_whole_file r s' = read_whole_file r s" "write_whole_file r s' x = write_whole_file r s x"
proof -
  have "stat r s' = stat r s" "free_at r s' = free_at r s"
    unfolding stat_def free_at_def assms(3,4) using assms(1,2) by simp_all
  then show "read_whole_file r s' = read_whole_file r s" "write_whole_file r s' x = write_whole_file r s x"
    unfolding read_whole_file_def write_whole_file_def assms(3,4) by simp_all
qed

lemma slashed_path:
  assumes "db_path d = HERMES_KEY_STORE_PATH" "file_name b" "u \<noteq> []" "length u mod 3 = 0"
    and "length (base64_groups u) + 4 \<le> NAME_MAX" "list_all path_arg_ok (map C ns)" "ns \<noteq> []" "length ns \<le> 2"
  obtains s s' where "BUILD_TYPED_PATH (C (db_path d) # E b # E u # map C ns) = Some s" "path_ok s" "hd s \<noteq> CHR ''/''"
    "BUILD_TYPED_PATH (C (db_path d) # E b # E (u @ [255, 255, 255]) # map C ns) = Some s'" "path_ok s'"
    "hd s' \<noteq> CHR ''/''" "components s' = components s" "last s' = last s"
proof -
  let ?as = "C (db_path d) # E b # E u # map C ns" and ?as' = "C (db_path d) # E b # E (u @ [255, 255, 255]) # map C ns"
  have v: "base64_groups (u @ [255, 255, 255]) = base64_groups u @ ''////''" using assms(4) by (rule groups_append_slashes)
  have args: "list_all path_arg_ok ?as" "list_all path_arg_ok ?as'"
    using assms(1-3,5,6) file_name_arg [of b] v by simp_all
  obtain s where s: "BUILD_TYPED_PATH ?as = Some s" "path_ok s" "hd s \<noteq> CHR ''/''" "last s = last (arg_string (last ?as))"
    "components s = concat (map (components \<circ> arg_string) ?as)"
    by (rule typed_path [OF args(1)]) (use assms(7,8) in auto)
  obtain s' where s': "BUILD_TYPED_PATH ?as' = Some s'" "path_ok s'" "hd s' \<noteq> CHR ''/''"
    "last s' = last (arg_string (last ?as'))" "components s' = concat (map (components \<circ> arg_string) ?as')"
    by (rule typed_path [OF args(2)]) (use assms(7,8) in auto)
  show ?thesis
    by (rule that [OF s(1-3) s'(1-3)]) (use s(4,5) s'(4,5) v assms(7) in \<open>simp_all add: slashes_no_component\<close>)
qed

text \<open>C33. Different users can share their tokens: as the encoding of an id may contain slashes, which paths do
  not count, the id with three bytes 255 appended to an id of 3, 6, 9, ... bytes names the same files.  A
  token stored for one user is stored for the other, and is served to him.\<close>

theorem appended_id_shares_tokens:
  assumes "db_path d = HERMES_KEY_STORE_PATH" "file_name b" "u \<noteq> []" "length u mod 3 = 0"
    and "length (base64_groups u) + 4 \<le> NAME_MAX"
  shows "file_get_rtoken d b (u @ [255, 255, 255]) = file_get_rtoken d b u \<and>
    file_get_wtoken d b (u @ [255, 255, 255]) = file_get_wtoken d b u \<and>
    file_set_rtoken d b (u @ [255, 255, 255]) w (Some t) = file_set_rtoken d b u w (Some t) \<and>
    file_set_wtoken d b (u @ [255, 255, 255]) w (Some t) = file_set_wtoken d b u w (Some t)"
proof -
  let ?v = "u @ [255, 255, 255]"
  have get: "get_token_files k d b ?v = get_token_files k d b u"
    and set: "put_token_files k d b ?v w t = put_token_files k d b u w t" if k: "k \<noteq> []" "length k \<le> 1" for k
  proof -
    have ok: "list_all path_arg_ok (map C [k])" "list_all path_arg_ok (map C [k, ''token''])"
      "list_all path_arg_ok (map C [k, ''owner''])" using k by (auto simp: NAME_MAX_def)
    obtain s0 s0' where p0: "BUILD_TYPED_PATH (C (db_path d) # E b # E u # map C [k]) = Some s0" "path_ok s0" "hd s0 \<noteq> CHR ''/''"
      "BUILD_TYPED_PATH (C (db_path d) # E b # E ?v # map C [k]) = Some s0'" "path_ok s0'" "hd s0' \<noteq> CHR ''/''"
      "components s0' = components s0" by (rule slashed_path [OF assms ok(1)]) simp_all
    obtain s1 s1' where p1: "BUILD_TYPED_PATH (C (db_path d) # E b # E u # map C [k, ''token'']) = Some s1" "path_ok s1"
      "BUILD_TYPED_PATH (C (db_path d) # E b # E ?v # map C [k, ''token'']) = Some s1'" "path_ok s1'"
      "components s1' = components s1" "last s1' = last s1" by (rule slashed_path [OF assms ok(2)]) simp_all
    obtain s2 s2' where p2: "BUILD_TYPED_PATH (C (db_path d) # E b # E u # map C [k, ''owner'']) = Some s2" "path_ok s2"
      "BUILD_TYPED_PATH (C (db_path d) # E b # E ?v # map C [k, ''owner'']) = Some s2'" "path_ok s2'"
      "components s2' = components s2" "last s2' = last s2" by (rule slashed_path [OF assms ok(3)]) simp_all
    note same = same_files [OF p1(2,4-6)] same_files [OF p2(2,4-6)]
    show "get_token_files k d b ?v = get_token_files k d b u"
      using p1(1,3) p2(1,3) by (simp add: get_token_files_def same)
    show "put_token_files k d b ?v w t = put_token_files k d b u w t"
      using p0(1,4,7) create_directory_eq [OF p0(2,3)] create_directory_eq [OF p0(5,6)] p1(1,3) p2(1,3)
      by (simp add: put_token_files_def same)
  qed
  show ?thesis by (simp add: token_functions get set)
qed

subsection \<open>The database at its start, and concrete runs\<close>

definition start_key_files :: file_db where
  "start_key_files =
     \<lparr>db_path = HERMES_KEY_STORE_PATH, db_root = Dir [(''db'', Dir [(''key_store'', Dir [])])]\<rparr>"

lemma start_key_files_ok: "key_files start_key_files" "file_tokens k start_key_files p = None"
  by (auto simp: key_files_def start_key_files_def levels_at_def file_tokens_def file_at_def eval_nat_numeral
      split: prod.split)

lemma key_store_path: "path_ok HERMES_KEY_STORE_PATH" "hd HERMES_KEY_STORE_PATH \<noteq> CHR ''/''"
  by (simp_all add: path_ok_def HERMES_KEY_STORE_PATH_def PATH_MAX_def NAME_MAX_def components_def)

lemma start_key_files_made: "create_directory (Dir []) HERMES_KEY_STORE_PATH = Some (db_root start_key_files)"
  using create_directory_eq [OF key_store_path, of "Dir []"] by (simp add: mkdirs_def mkdir_at_def start_key_files_def)

lemma file_ks_db_create_run: "file_ks_db_create (Dir []) = Some (file_ks_callbacks (Some start_key_files))"
  using start_key_files_made by (simp add: file_ks_db_create_def start_key_files_def)

text \<open>A block with one user, who has a read token only.\<close>

definition demo_key_files :: file_db where
  "demo_key_files =
     \<lparr>db_path = HERMES_KEY_STORE_PATH,
      db_root = Dir [(''db'', Dir [(''key_store'', Dir [(''AQ=='', Dir [(''AgME'',
        Dir [(''r'', Dir [(''token'', File [7]), (''owner'', File [2])])])])])])]\<rparr>"

lemma demo_names: "base64_groups [1] = ''AQ==''" "base64_groups [2, 3, 4] = ''AgME''" "file_name [1]" "file_name [2, 3, 4]"
proof -
  show "base64_groups [1] = ''AQ==''" "base64_groups [2, 3, 4] = ''AgME''" by code_simp+
  then show "file_name [1]" "file_name [2, 3, 4]" by (simp_all add: file_name_def NAME_MAX_def)
qed

lemma demo_key_files_ok: "key_files demo_key_files"
  using demo_names
  by (auto simp: key_files_def demo_key_files_def levels_at_def file_at_def NAME_MAX_def eval_nat_numeral
      intro!: exI [of _ "[2, 3, 4]"])

lemma demo_key_files_tokens:
  "file_tokens ''w'' demo_key_files p = None" "file_tokens ''r'' demo_key_files ([1], [2, 3, 4]) = Some ([7], [2])"
  using demo_names by (auto simp: file_tokens_def demo_key_files_def file_at_def split: prod.split)

theorem file_rights_are_inverted_witness:
  "\<exists>us. [2, 3, 4] \<in> set us \<and> (\<forall>i. file_get_indexed_rights demo_key_files [1] i =
     Some (if unat i < length us then Inr (us ! unat i, 3) else Inl 1))"
proof -
  obtain us where us: "\<forall>i. file_get_indexed_rights demo_key_files [1] i = Some (if unat i < length us
       then Inr (us ! unat i, HM_KEY_STORE_READ_ACCESS_MASK OR
         (if file_tokens ''w'' demo_key_files ([1], us ! unat i) = None then HM_KEY_STORE_WRITE_ACCESS_MASK else 0))
       else Inl 1)" "\<forall>k u. file_tokens k demo_key_files ([1], u) \<noteq> None \<longrightarrow> u \<in> set us"
    using file_rights_are_inverted [OF demo_key_files_ok demo_names(3)] by blast
  have "HM_KEY_STORE_READ_ACCESS_MASK OR HM_KEY_STORE_WRITE_ACCESS_MASK = 3"
    by (simp add: HM_KEY_STORE_READ_ACCESS_MASK_def HM_KEY_STORE_WRITE_ACCESS_MASK_def)
  with us(1) have "\<forall>i. file_get_indexed_rights demo_key_files [1] i =
     Some (if unat i < length us then Inr (us ! unat i, 3) else Inl 1)"
    by (simp only: demo_key_files_tokens(1) simp_thms if_True)
  moreover have "[2, 3, 4] \<in> set us"
    using us(2) demo_key_files_tokens(2) by (metis option.distinct(1))
  ultimately show ?thesis by blast
qed

theorem appended_id_shares_tokens_witness:
  "file_get_rtoken demo_key_files [1] [2, 3, 4, 255, 255, 255] = Some (Inr ([7], [2]))"
proof -
  have "file_get_rtoken demo_key_files [1] [2, 3, 4] = Some (Inr ([7], [2]))"
    using get_token_files_value [OF demo_key_files_ok demo_names(3,4), of "''r''"] demo_key_files_tokens(2)
    by (simp add: token_functions)
  with appended_id_shares_tokens [of demo_key_files "[1]" "[2, 3, 4]"] demo_names show ?thesis
    by (simp add: demo_key_files_def NAME_MAX_def)
qed

end
