(* ===== verification/File_Data_Store.thy ===== *)
theory File_Data_Store
  imports File_Levels Mid_Data
begin

section \<open>The data store database in files\<close>

text \<open>
  \<^verbatim>\<open>docs/examples/c/mid_hermes/data_store_service/db.c\<close>: a block is a directory with the files \<^verbatim>\<open>data\<close>, \<^verbatim>\<open>meta\<close>
  and \<^verbatim>\<open>mac\<close>.  New ids come from \<^verbatim>\<open>soter_rand\<close>, whose outcomes are the list \<open>ds_rands\<close> of the state as in
  \<open>Test_Data_Store_Db\<close>; the database does not test whether an id is in use.

  The interpretation \<open>file_ds\<close> shows that it keeps the contract \<open>block_db\<close> as long as the ids drawn are new and
  become one directory name.
\<close>

subsection \<open>The callbacks\<close>

definition DATA_STORE_PATH :: string where "DATA_STORE_PATH = ''db/data_store''"
definition DS_SUCCESS :: status where "DS_SUCCESS = 0"
definition DS_FAIL :: status where "DS_FAIL = 1"
definition DEFAULT_BLOCK_ID_LENGTH :: nat where "DEFAULT_BLOCK_ID_LENGTH = 16"

text \<open>\<^verbatim>\<open>db_t\<close> with the file system of the process and the randomness to come.\<close>

record block_files =
  ds_path :: string
  ds_root :: fnode
  ds_rands :: "bytes list"

definition soter_rand :: "nat \<Rightarrow> bytes list \<Rightarrow> bytes option \<times> bytes list" where
  "soter_rand n is =
     (case is of [] \<Rightarrow> (None, []) | i # is \<Rightarrow> (if length i = n then Some i else None, is))"

text \<open>The part of \<^verbatim>\<open>db_set_block\<close> after the test of the MAC.\<close>

definition write_block :: "block_files \<Rightarrow> bytes \<Rightarrow> bytes \<Rightarrow> bytes \<Rightarrow> bytes \<Rightarrow> (status \<times> block_files) option" where
  "write_block ds i data meta mac = do {
     fpath \<leftarrow> BUILD_TYPED_PATH [C (ds_path ds), E i];
     r \<leftarrow> create_directory (ds_root ds) fpath;
     fpath \<leftarrow> BUILD_TYPED_PATH [C (ds_path ds), E i, C ''data''];
     case write_whole_file r fpath data of (st, r) \<Rightarrow>
     if st \<noteq> 0 then Some (DS_FAIL, ds\<lparr>ds_root := r\<rparr>)
     else do {
       fpath \<leftarrow> BUILD_TYPED_PATH [C (ds_path ds), E i, C ''meta''];
       case write_whole_file r fpath meta of (st, r) \<Rightarrow>
       if st \<noteq> 0 then Some (DS_FAIL, ds\<lparr>ds_root := r\<rparr>)
       else do {
         fpath \<leftarrow> BUILD_TYPED_PATH [C (ds_path ds), E i, C ''mac''];
         case write_whole_file r fpath mac of (st, r) \<Rightarrow> Some (st, ds\<lparr>ds_root := r\<rparr>) } } }"

text \<open>The file with the MAC of a block; \<open>Inl\<close> when it cannot be opened.\<close>

definition stored_mac :: "block_files \<Rightarrow> bytes \<Rightarrow> (status + bytes) option" where
  "stored_mac ds i = do {
     fpath \<leftarrow> BUILD_TYPED_PATH [C (ds_path ds), E i, C ''mac''];
     read_whole_file (ds_root ds) fpath }"

definition mac_differs :: "bytes \<Rightarrow> bytes \<Rightarrow> bool" where
  "mac_differs stored old_mac \<longleftrightarrow>
     length stored \<noteq> length old_mac \<or> c_memcmp stored old_mac (length stored) \<noteq> Some 0"

text \<open>With \<^verbatim>\<open>id\<close> pointing to NULL an id is drawn.  The result has the id.\<close>

definition file_set_block ::
    "block_files \<Rightarrow> cbuf \<Rightarrow> bytes \<Rightarrow> bytes \<Rightarrow> bytes \<Rightarrow> cbuf \<Rightarrow> (status \<times> bytes \<times> block_files) option" where
  "file_set_block ds bid data meta mac old_mac =
     (case bid of
        None \<Rightarrow>
          (case soter_rand DEFAULT_BLOCK_ID_LENGTH (ds_rands ds) of
             (None, is) \<Rightarrow> Some (DS_FAIL, [], ds\<lparr>ds_rands := is\<rparr>)
           | (Some i, is) \<Rightarrow>
               map_option (\<lambda>(st, ds). (st, i, ds)) (write_block (ds\<lparr>ds_rands := is\<rparr>) i data meta mac))
      | Some i \<Rightarrow>
          (case stored_mac ds i of
             None \<Rightarrow> None
           | Some stored \<Rightarrow>
               if (case stored of
                     Inl e \<Rightarrow> False
                   | Inr m \<Rightarrow> (case old_mac of None \<Rightarrow> True | Some old \<Rightarrow> mac_differs m old))
               then Some (DS_FAIL, i, ds)
               else map_option (\<lambda>(st, ds). (st, i, ds)) (write_block ds i data meta mac)))"

definition file_get_block :: "block_files \<Rightarrow> bytes \<Rightarrow> (status + bytes \<times> bytes) option" where
  "file_get_block ds i =
     (if i = [] then Some (Inl DS_FAIL)
      else do {
        fpath \<leftarrow> BUILD_TYPED_PATH [C (ds_path ds), E i, C ''data''];
        data \<leftarrow> read_whole_file (ds_root ds) fpath;
        case data of
          Inl e \<Rightarrow> Some (Inl DS_FAIL)
        | Inr b \<Rightarrow> do {
            fpath \<leftarrow> BUILD_TYPED_PATH [C (ds_path ds), E i, C ''meta''];
            meta \<leftarrow> read_whole_file (ds_root ds) fpath;
            case meta of Inl e \<Rightarrow> Some (Inl DS_FAIL) | Inr mt \<Rightarrow> Some (Inr (b, mt)) } })"

definition file_rem_block :: "block_files \<Rightarrow> bytes \<Rightarrow> bytes \<Rightarrow> (status \<times> block_files) option" where
  "file_rem_block ds i old_mac =
     (if i = [] \<or> old_mac = [] then Some (DS_FAIL, ds)
      else do {
        stored \<leftarrow> stored_mac ds i;
        case stored of
          Inl e \<Rightarrow> Some (DS_FAIL, ds)
        | Inr m \<Rightarrow>
            if mac_differs m old_mac then Some (DS_FAIL, ds)
            else do {
              fpath \<leftarrow> BUILD_TYPED_PATH [C (ds_path ds), E i];
              Some (DS_SUCCESS, ds\<lparr>ds_root := remove_directory (ds_root ds) fpath\<rparr>) } })"

definition file_insert_block :: "block_files \<Rightarrow> bytes \<Rightarrow> bytes \<Rightarrow> bytes \<Rightarrow> (status \<times> bytes \<times> block_files) option" where
  "file_insert_block db block meta mac = file_set_block db None block meta mac None"

definition file_insert_block_with_id ::
    "block_files \<Rightarrow> bytes \<Rightarrow> bytes \<Rightarrow> bytes \<Rightarrow> bytes \<Rightarrow> (status \<times> block_files) option" where
  "file_insert_block_with_id db i block meta mac =
     map_option (\<lambda>(st, _, db). (st, db)) (file_set_block db (Some i) block meta mac None)"

definition file_update_block ::
    "block_files \<Rightarrow> bytes \<Rightarrow> bytes \<Rightarrow> bytes \<Rightarrow> bytes \<Rightarrow> bytes \<Rightarrow> (status \<times> block_files) option" where
  "file_update_block db i block meta mac old_mac =
     map_option (\<lambda>(st, _, db). (st, db)) (file_set_block db (Some i) block meta mac (Some old_mac))"

subsection \<open>The database\<close>

text \<open>The state of the process is \<open>None\<close> after an undefined run.\<close>

definition running :: "(block_files \<Rightarrow> (status \<times> block_files) option) \<Rightarrow> block_files option \<Rightarrow> status \<times> block_files option" where
  "running f d = (case Option.bind d f of None \<Rightarrow> (HM_SUCCESS, None) | Some (st, d') \<Rightarrow> (st, Some d'))"

definition file_ds_callbacks :: "block_files option \<Rightarrow> block_files option hm_ds_db" where
  "file_ds_callbacks d =
     \<lparr>ds_user_data = Some d,
      insert_block = Some (\<lambda>d b mt mac.
        (case Option.bind d (\<lambda>d. file_insert_block d b mt mac) of
           None \<Rightarrow> (HM_SUCCESS, [], None)
         | Some (st, i, d') \<Rightarrow> (st, i, Some d'))),
      insert_block_with_id = Some (\<lambda>d i b mt mac. running (\<lambda>d. file_insert_block_with_id d i b mt mac) d),
      get_block = Some (\<lambda>d i.
        (case Option.bind d (\<lambda>d. file_get_block d i) of
           None \<Rightarrow> (HM_SUCCESS, ([], []), None)
         | Some (Inl e) \<Rightarrow> (e, ([], []), d)
         | Some (Inr bm) \<Rightarrow> (HM_SUCCESS, bm, d))),
      update_block = Some (\<lambda>d i b mt mac old. running (\<lambda>d. file_update_block d i b mt mac old) d),
      rem_block = Some (\<lambda>d i old. running (\<lambda>d. file_rem_block d i old) d)\<rparr>"

definition file_ds_db_create :: "fnode \<Rightarrow> bytes list \<Rightarrow> block_files option hm_ds_db option" where
  "file_ds_db_create r is =
     (case create_directory r DATA_STORE_PATH of
        None \<Rightarrow> None
      | Some r \<Rightarrow> Some (file_ds_callbacks (Some \<lparr>ds_path = DATA_STORE_PATH, ds_root = r, ds_rands = is\<rparr>)))"

definition file_ds_db_destroy ::
    "'d hm_ds_db option option \<Rightarrow> status \<times> 'd hm_ds_db option option" where
  "file_ds_db_destroy ds = (case ds of Some (Some _) \<Rightarrow> (DS_SUCCESS, Some None) | _ \<Rightarrow> (DS_FAIL, ds))"

subsection \<open>The effects of the callbacks\<close>

abbreviation data_base :: "string list" where "data_base \<equiv> [''db'', ''data_store'']"

definition block_file :: "block_files \<Rightarrow> bytes \<Rightarrow> string \<Rightarrow> bytes option" where
  "block_file d i k = file_at (ds_root d) (data_base @ [base64_groups i, k])"

definition file_blk :: "block_files \<Rightarrow> blocks" where
  "file_blk d i =
     (if file_name i then
        (case (block_file d i ''data'', block_file d i ''meta'', block_file d i ''mac'') of
           (Some b, Some mt, Some mac) \<Rightarrow> Some (b, mt, mac)
         | _ \<Rightarrow> None)
      else None)"

text \<open>The ids that will be given to new blocks.\<close>

definition to_be_drawn :: "block_files \<Rightarrow> bytes \<Rightarrow> bool" where
  "to_be_drawn d i \<longleftrightarrow> i \<in> set (ds_rands d) \<and> length i = DEFAULT_BLOCK_ID_LENGTH"

text \<open>Every directory of the store is a whole block, and the ids to be drawn are names of no directory.\<close>

definition data_files :: "block_files \<Rightarrow> bool" where
  "data_files d \<longleftrightarrow> ds_path d = DATA_STORE_PATH \<and> levels_at 2 data_base (ds_root d) \<and>
     (\<forall>x. is_dir (lookup (ds_root d) (data_base @ [x])) \<longrightarrow>
        (\<exists>i. x = base64_groups i \<and> file_blk d i \<noteq> None)) \<and>
     distinct (ds_rands d) \<and>
     (\<forall>i. to_be_drawn d i \<longrightarrow> file_name i \<and> file_blk d i = None)"

lemma data_path_components [simp]:
  "components DATA_STORE_PATH = data_base" "components ''data'' = [''data'']" "components ''meta'' = [''meta'']"
  "components ''mac'' = [''mac'']"
  by (simp_all add: components_def DATA_STORE_PATH_def)

lemma data_path_ok [simp]: "DATA_STORE_PATH \<noteq> []" "length DATA_STORE_PATH \<le> NAME_MAX"
  unfolding DATA_STORE_PATH_def NAME_MAX_def by simp_all

lemma data_paths:
  assumes "data_files d" "file_name i"
  obtains s where "BUILD_TYPED_PATH [C (ds_path d), E i] = Some s" "path_ok s" "hd s \<noteq> CHR ''/''"
    "components s = data_base @ [base64_groups i]" "length s + 2 * Suc NAME_MAX < PATH_MAX"
    "\<And>k. k \<in> {''data'', ''meta'', ''mac''} \<Longrightarrow> \<exists>s. BUILD_TYPED_PATH [C (ds_path d), E i, C k] = Some s \<and> path_ok s \<and>
       last s \<noteq> CHR ''/'' \<and> components s = data_base @ [base64_groups i, k]"
proof -
  have d: "ds_path d = DATA_STORE_PATH" using assms(1) by (simp add: data_files_def)
  have args: "list_all path_arg_ok [C (ds_path d), E i]" using d file_name_arg [OF assms(2)] by simp
  obtain s where s: "BUILD_TYPED_PATH [C (ds_path d), E i] = Some s" "path_ok s" "hd s \<noteq> CHR ''/''"
    "components s = data_base @ [base64_groups i]" "\<And>n. n \<le> 4 \<Longrightarrow> length s + n * Suc NAME_MAX < PATH_MAX"
    by (rule typed_path [OF args]) (use d file_name_component [OF assms(2)] in auto)
  have "\<exists>s. BUILD_TYPED_PATH [C (ds_path d), E i, C k] = Some s \<and> path_ok s \<and>
       last s \<noteq> CHR ''/'' \<and> components s = data_base @ [base64_groups i, k]" if k: "k \<in> {''data'', ''meta'', ''mac''}" for k
  proof -
    have comp: "components k = [k]" "last k \<noteq> CHR ''/''" "path_arg_ok (C k)" using k by (auto simp: NAME_MAX_def)
    have args: "list_all path_arg_ok [C (ds_path d), E i, C k]" using args comp by simp
    obtain s where "BUILD_TYPED_PATH [C (ds_path d), E i, C k] = Some s" "path_ok s" "last s = last k"
      "components s = data_base @ [base64_groups i, k]"
      by (rule typed_path [OF args]) (use d comp file_name_component [OF assms(2)] in auto)
    with comp show ?thesis by auto
  qed
  then show ?thesis using that [OF s(1-4)] s(5) [of 2] by simp
qed

lemma file_blk_Some:
  "file_blk d i = Some (b, mt, mac) \<longleftrightarrow> file_name i \<and> block_file d i ''data'' = Some b \<and>
     block_file d i ''meta'' = Some mt \<and> block_file d i ''mac'' = Some mac"
  by (auto simp: file_blk_def split: option.splits)

lemma write_block_effect:
  assumes "data_files d" "file_name i" "\<not> to_be_drawn d i"
  obtains d' where "write_block d i b mt mac = Some (0, d')" "data_files d'" "file_blk d' = (file_blk d)(i \<mapsto> (b, mt, mac))"
    "ds_rands d' = ds_rands d"
proof -
  let ?r = "ds_root d" and ?x = "base64_groups i"
  have d: "levels_at 2 data_base ?r" using assms(1) by (simp add: data_files_def)
  have x: "length ?x \<le> NAME_MAX" "length ''data'' \<le> NAME_MAX" "length ''meta'' \<le> NAME_MAX" "length ''mac'' \<le> NAME_MAX"
    using file_name_arg [OF assms(2)] by (simp_all add: NAME_MAX_def)
  obtain s0 where s0: "BUILD_TYPED_PATH [C (ds_path d), E i] = Some s0" "path_ok s0" "hd s0 \<noteq> CHR ''/''"
      "components s0 = data_base @ [?x]"
    and paths: "\<And>k. k \<in> {''data'', ''meta'', ''mac''} \<Longrightarrow> \<exists>s. BUILD_TYPED_PATH [C (ds_path d), E i, C k] = Some s \<and> path_ok s \<and>
       last s \<noteq> CHR ''/'' \<and> components s = data_base @ [?x, k]"
    by (rule data_paths [OF assms(1,2)]) blast
  obtain s1 s2 s3 where
      s1: "BUILD_TYPED_PATH [C (ds_path d), E i, C ''data''] = Some s1" "path_ok s1" "last s1 \<noteq> CHR ''/''"
        "components s1 = data_base @ [?x, ''data'']"
    and s2: "BUILD_TYPED_PATH [C (ds_path d), E i, C ''meta''] = Some s2" "path_ok s2" "last s2 \<noteq> CHR ''/''"
        "components s2 = data_base @ [?x, ''meta'']"
    and s3: "BUILD_TYPED_PATH [C (ds_path d), E i, C ''mac''] = Some s3" "path_ok s3" "last s3 \<noteq> CHR ''/''"
        "components s3 = data_base @ [?x, ''mac'']"
    using paths [of "''data''"] paths [of "''meta''"] paths [of "''mac''"] by blast
  obtain r0 where r0: "create_directory ?r s0 = Some r0" "levels_at 2 data_base r0" "file_at r0 = file_at ?r"
    "\<And>q. is_dir (lookup r0 q) \<longleftrightarrow> is_dir (lookup ?r q) \<or> prefix q (data_base @ [?x])"
    by (rule mkdirs_path [OF d _ s0(2-4)]) (use x in simp_all)
  obtain r1 where r1: "write_whole_file r0 s1 b = (0, r1)" "levels_at 2 data_base r1"
    "file_at r1 = (file_at r0)(data_base @ [?x, ''data''] \<mapsto> b)" "\<And>q. is_dir (lookup r1 q) \<longleftrightarrow> is_dir (lookup r0 q)"
    by (rule write_path [OF r0(2) s1(2-4), of b]) (use x r0(4) in simp_all)
  obtain r2 where r2: "write_whole_file r1 s2 mt = (0, r2)" "levels_at 2 data_base r2"
    "file_at r2 = (file_at r1)(data_base @ [?x, ''meta''] \<mapsto> mt)" "\<And>q. is_dir (lookup r2 q) \<longleftrightarrow> is_dir (lookup r1 q)"
    by (rule write_path [OF r1(2) s2(2-4), of mt]) (use x r0(4) r1(4) in simp_all)
  obtain r3 where r3: "write_whole_file r2 s3 mac = (0, r3)" "levels_at 2 data_base r3"
    "file_at r3 = (file_at r2)(data_base @ [?x, ''mac''] \<mapsto> mac)" "\<And>q. is_dir (lookup r3 q) \<longleftrightarrow> is_dir (lookup r2 q)"
    by (rule write_path [OF r2(2) s3(2-4), of mac]) (use x r0(4) r1(4) r2(4) in simp_all)
  let ?d = "d\<lparr>ds_root := r3\<rparr>"
  have run: "write_block d i b mt mac = Some (0, ?d)"
    using s0(1) s1(1) s2(1) s3(1) r0(1) r1(1) r2(1) r3(1) by (simp add: write_block_def)
  have "block_file ?d j = (if j = i then (block_file d i)(''data'' \<mapsto> b, ''meta'' \<mapsto> mt, ''mac'' \<mapsto> mac) else block_file d j)" for j
    using r0(3) r1(3) r2(3) r3(3) by (auto simp: block_file_def fun_eq_iff groups_inj)
  then have blk: "file_blk ?d = (file_blk d)(i \<mapsto> (b, mt, mac))"
    using assms(2) by (auto simp: file_blk_def fun_eq_iff)
  have dirs: "is_dir (lookup r3 (data_base @ [y])) \<longleftrightarrow> is_dir (lookup ?r (data_base @ [y])) \<or> y = ?x" for y
    unfolding r3(4) r2(4) r1(4) r0(4) by (auto simp: prefix_def)
  then have "\<exists>j. y = base64_groups j \<and> file_blk ?d j \<noteq> None" if "is_dir (lookup r3 (data_base @ [y]))" for y
  proof (cases "y = ?x")
    case True
    then show ?thesis using blk by (intro exI [of _ i]) simp
  next
    case False
    then have "is_dir (lookup ?r (data_base @ [y]))" using that dirs by blast
    then obtain j where "y = base64_groups j" "file_blk d j \<noteq> None"
      using assms(1) unfolding data_files_def by blast
    then show ?thesis using blk by (intro exI [of _ j]) simp
  qed
  moreover have "file_name j \<and> file_blk ?d j = None" if j: "to_be_drawn d j" for j
  proof -
    have "j \<noteq> i" using j assms(3) by blast
    moreover have "file_name j \<and> file_blk d j = None" using j assms(1) unfolding data_files_def by blast
    ultimately show ?thesis using blk by simp
  qed
  ultimately have "data_files ?d"
    using assms(1) r3(2) unfolding data_files_def to_be_drawn_def by simp
  then show ?thesis using that [OF run _ blk] by simp
qed

lemma stored_mac_value:
  assumes "data_files d" "file_name i"
  shows "stored_mac d i = Some (case file_blk d i of None \<Rightarrow> Inl 1 | Some (b, mt, mac) \<Rightarrow> Inr mac)"
    and "file_get_block d i = Some (case file_blk d i of None \<Rightarrow> Inl 1 | Some (b, mt, mac) \<Rightarrow> Inr (b, mt))"
proof -
  have d: "levels_at 2 data_base (ds_root d)" using assms(1) by (simp add: data_files_def)
  have reads: "\<And>k. k \<in> {''data'', ''meta'', ''mac''} \<Longrightarrow> \<exists>s. BUILD_TYPED_PATH [C (ds_path d), E i, C k] = Some s \<and>
      read_whole_file (ds_root d) s = Some (case block_file d i k of None \<Rightarrow> Inl 1 | Some b \<Rightarrow> Inr b)"
  proof -
    fix k
    assume k: "k \<in> {''data'', ''meta'', ''mac''}"
    obtain s where "BUILD_TYPED_PATH [C (ds_path d), E i, C k] = Some s" "path_ok s" "last s \<noteq> CHR ''/''"
      "components s = data_base @ [base64_groups i, k]"
      using data_paths [OF assms] k by metis
    with read_path [OF d, of s "[base64_groups i, k]"]
    show "\<exists>s. BUILD_TYPED_PATH [C (ds_path d), E i, C k] = Some s \<and>
      read_whole_file (ds_root d) s = Some (case block_file d i k of None \<Rightarrow> Inl 1 | Some b \<Rightarrow> Inr b)"
      by (simp add: block_file_def)
  qed
  obtain s1 where s1: "BUILD_TYPED_PATH [C (ds_path d), E i, C ''data''] = Some s1"
      "read_whole_file (ds_root d) s1 = Some (case block_file d i ''data'' of None \<Rightarrow> Inl 1 | Some b \<Rightarrow> Inr b)"
    using reads [of "''data''"] by auto
  obtain s2 where s2: "BUILD_TYPED_PATH [C (ds_path d), E i, C ''meta''] = Some s2"
      "read_whole_file (ds_root d) s2 = Some (case block_file d i ''meta'' of None \<Rightarrow> Inl 1 | Some b \<Rightarrow> Inr b)"
    using reads [of "''meta''"] by auto
  obtain s3 where s3: "BUILD_TYPED_PATH [C (ds_path d), E i, C ''mac''] = Some s3"
      "read_whole_file (ds_root d) s3 = Some (case block_file d i ''mac'' of None \<Rightarrow> Inl 1 | Some b \<Rightarrow> Inr b)"
    using reads [of "''mac''"] by auto
  have all: "block_file d i k = None" if none: "file_blk d i = None" for k
  proof (rule ccontr)
    assume "block_file d i k \<noteq> None"
    then have "lookup (ds_root d) ((data_base @ [base64_groups i]) @ [k]) \<noteq> None"
      by (auto simp: block_file_def file_at_def split: option.splits)
    then have "is_dir (lookup (ds_root d) (data_base @ [base64_groups i]))" by (rule dir_above) simp
    with assms(1) have "\<exists>j. base64_groups i = base64_groups j \<and> file_blk d j \<noteq> None"
      unfolding data_files_def by blast
    with none show False by (simp add: groups_inj)
  qed
  show "stored_mac d i = Some (case file_blk d i of None \<Rightarrow> Inl 1 | Some (b, mt, mac) \<Rightarrow> Inr mac)"
    using s3 all by (cases "file_blk d i") (auto simp: stored_mac_def file_blk_Some)
  show "file_get_block d i = Some (case file_blk d i of None \<Rightarrow> Inl 1 | Some (b, mt, mac) \<Rightarrow> Inr (b, mt))"
    using s1 s2 all file_name_arg [OF assms(2)]
    by (cases "file_blk d i") (auto simp: file_get_block_def file_blk_Some DS_FAIL_def)
qed

lemma rem_block_effect:
  assumes "data_files d" "file_name i" "file_blk d i = Some (b, mt, mac)" "mac \<noteq> []"
  obtains d' where "file_rem_block d i mac = Some (0, d')" "data_files d'" "file_blk d' = (file_blk d)(i := None)"
proof -
  let ?r = "ds_root d" and ?x = "base64_groups i"
  have d: "levels_at 2 data_base ?r" using assms(1) by (simp add: data_files_def)
  obtain s where s: "BUILD_TYPED_PATH [C (ds_path d), E i] = Some s" "path_ok s" "components s = data_base @ [?x]"
      "length s + 2 * Suc NAME_MAX < PATH_MAX"
    using data_paths [OF assms(1,2)] by metis
  obtain r where r: "remove_directory ?r s = r" "levels_at 2 data_base r"
    "\<And>q. file_at r q = (if prefix (data_base @ [?x]) q then None else file_at ?r q)"
    "\<And>q. is_dir (lookup r q) \<longleftrightarrow> is_dir (lookup ?r q) \<and> \<not> prefix (data_base @ [?x]) q"
    by (rule remove_path [OF d s(2,3) _ _ s(4)]) (use file_name_arg [OF assms(2)] in simp_all)
  let ?d = "d\<lparr>ds_root := r\<rparr>"
  have "file_rem_block d i mac = Some (0, ?d)"
    using s(1) r(1) stored_mac_value(1) [OF assms(1,2)] file_name_arg [OF assms(2)] assms(3,4)
    by (simp add: file_rem_block_def mac_differs_def DS_SUCCESS_def)
  moreover have "block_file ?d j = (if j = i then Map.empty else block_file d j)" for j
    by (auto simp: block_file_def r(3) fun_eq_iff groups_inj)
  then have blk: "file_blk ?d = (file_blk d)(i := None)" by (auto simp: file_blk_def fun_eq_iff)
  moreover have "\<exists>j. y = base64_groups j \<and> file_blk ?d j \<noteq> None" if "is_dir (lookup r (data_base @ [y]))" for y
  proof -
    have "is_dir (lookup ?r (data_base @ [y]))" "y \<noteq> ?x" using that by (auto simp: r(4))
    with assms(1) blk show ?thesis unfolding data_files_def by (metis fun_upd_apply)
  qed
  then have "data_files ?d"
    using assms(1) r(2) blk unfolding data_files_def to_be_drawn_def by simp
  ultimately show ?thesis using that by blast
qed

lemma file_blk_rands [simp]: "file_blk (d\<lparr>ds_rands := is\<rparr>) = file_blk d"
  by (simp add: file_blk_def block_file_def fun_eq_iff)

lemma data_files_rands:
  "data_files d \<Longrightarrow> ds_rands d = i # is \<Longrightarrow> data_files (d\<lparr>ds_rands := is\<rparr>)"
  "data_files d \<Longrightarrow> data_files (d\<lparr>ds_rands := []\<rparr>)"
  by (simp_all add: data_files_def to_be_drawn_def)

text \<open>What \<^verbatim>\<open>db_set_block\<close> does for a given id.\<close>

lemma file_set_block_run:
  assumes "data_files d" "file_name i" "\<not> to_be_drawn d i"
  shows "if (\<exists>b0 mt0 m. file_blk d i = Some (b0, mt0, m) \<and> old \<noteq> Some m)
    then file_set_block d (Some i) b mt mac old = Some (DS_FAIL, i, d)
    else \<exists>d'. file_set_block d (Some i) b mt mac old = Some (0, i, d') \<and> data_files d' \<and>
      file_blk d' = (file_blk d)(i \<mapsto> (b, mt, mac)) \<and> ds_rands d' = ds_rands d"
proof -
  obtain d' where w: "write_block d i b mt mac = Some (0, d')" "data_files d'" "file_blk d' = (file_blk d)(i \<mapsto> (b, mt, mac))"
    "ds_rands d' = ds_rands d" by (rule write_block_effect [OF assms, where b = b and mt = mt and mac = mac])
  have mac: "mac_differs m m' \<longleftrightarrow> m \<noteq> m'" for m m'
    by (cases "length m = length m'") (auto simp: mac_differs_def)
  show ?thesis
    using w stored_mac_value(1) [OF assms(1,2)]
    by (cases "file_blk d i"; cases old) (auto simp: file_set_block_def mac)
qed

lemma file_insert_run:
  assumes "data_files d"
  shows "\<exists>st i d'. file_insert_block d b mt mac = Some (st, i, d') \<and> data_files d' \<and>
    (if st = HM_SUCCESS then file_blk d i = None \<and> file_blk d' = (file_blk d)(i \<mapsto> (b, mt, mac)) else file_blk d' = file_blk d) \<and>
    (fst (soter_rand DEFAULT_BLOCK_ID_LENGTH (ds_rands d)) \<noteq> None \<longrightarrow>
       st = HM_SUCCESS \<and> fst (soter_rand DEFAULT_BLOCK_ID_LENGTH (ds_rands d)) = Some i)"
proof (cases "ds_rands d")
  case Nil
  with data_files_rands(2) [OF assms] show ?thesis
    by (simp add: file_insert_block_def file_set_block_def soter_rand_def DS_FAIL_def HM_SUCCESS_def)
next
  case (Cons i "is")
  let ?d = "d\<lparr>ds_rands := is\<rparr>"
  have inv: "data_files ?d" using assms Cons by (rule data_files_rands(1))
  show ?thesis
  proof (cases "length i = DEFAULT_BLOCK_ID_LENGTH")
    case True
    have i: "file_name i" "file_blk d i = None" "\<not> to_be_drawn ?d i"
      using assms Cons True by (auto simp: data_files_def to_be_drawn_def)
    obtain d' where w: "write_block ?d i b mt mac = Some (0, d')" "data_files d'"
        "file_blk d' = (file_blk ?d)(i \<mapsto> (b, mt, mac))"
      by (rule write_block_effect [OF inv i(1,3), where b = b and mt = mt and mac = mac])
    then show ?thesis
      using Cons True i by (simp add: file_insert_block_def file_set_block_def soter_rand_def HM_SUCCESS_def)
  next
    case False
    then show ?thesis
      using Cons inv by (simp add: file_insert_block_def file_set_block_def soter_rand_def DS_FAIL_def HM_SUCCESS_def)
  qed
qed

subsection \<open>The contract\<close>

definition file_ds_inv :: "block_files option \<Rightarrow> bool" where
  "file_ds_inv d \<longleftrightarrow> (\<exists>x. d = Some x \<and> data_files x)"

lemma stored_not_drawn: "data_files d \<Longrightarrow> file_blk d i \<noteq> None \<Longrightarrow> \<not> to_be_drawn d i"
  by (auto simp: data_files_def)

lemma file_name_param: "file_name i \<Longrightarrow> param_ok i"
  using length_groups_le [of i] file_name_arg [of i] by (auto simp: param_ok_def NAME_MAX_def)

interpretation file_ds: block_db "file_ds_callbacks None" "\<lambda>d. file_blk (the d)" file_ds_inv file_name "\<lambda>_. True"
    "\<lambda>_ _ _. True" "\<lambda>d. fst (soter_rand DEFAULT_BLOCK_ID_LENGTH (ds_rands (the d)))"
proof (unfold_locales, goal_cases)
  case 1
  show ?case by (simp add: file_ds_callbacks_def hm_data_store_check_backend_def)
next
  case (2 d i)
  then have "file_name i" by (auto simp: file_blk_def split: if_splits)
  then show ?case by (simp add: file_name_param)
next
  case (3 d b mt mac st i d')
  then obtain x where x: "d = Some x" "data_files x" by (auto simp: file_ds_inv_def)
  with 3(2) file_insert_run [OF x(2), of b mt mac] show ?case
    by (auto simp: file_ds_callbacks_def file_ds_inv_def)
next
  case (4 d i st bm d')
  then obtain x where x: "d = Some x" "data_files x" by (auto simp: file_ds_inv_def)
  with 4(2,3) stored_mac_value(2) [OF x(2) 4(2)] show ?case
    by (auto simp: file_ds_callbacks_def HM_SUCCESS_def split: option.splits)
next
  case (5 d i b mt mac old st d')
  then obtain x where x: "d = Some x" "data_files x" by (auto simp: file_ds_inv_def)
  have i: "file_name i" "\<not> to_be_drawn x i"
    using 5(2) x stored_not_drawn [of x i] by (auto simp: file_blk_def split: if_splits)
  from file_set_block_run [OF x(2) i, of "Some old" b mt mac] 5(2,3) x show ?case
    by (cases "file_blk x i")
      (auto simp: file_ds_callbacks_def running_def file_update_block_def file_ds_inv_def DS_FAIL_def HM_SUCCESS_def
        split: if_splits)
next
  case (6 d i old st d')
  then obtain x where x: "d = Some x" "data_files x" by (auto simp: file_ds_inv_def)
  have run: "running (\<lambda>d. file_rem_block d i old) (Some x) = (st, d')"
    using 6(3) x(1) by (simp add: file_ds_callbacks_def)
  show ?case
  proof (cases "old \<noteq> [] \<and> (\<exists>b mt. file_blk x i = Some (b, mt, old))")
    case True
    then obtain b mt where m: "old \<noteq> []" "file_blk x i = Some (b, mt, old)" by blast
    obtain x' where "file_rem_block x i old = Some (0, x')" "data_files x'" "file_blk x' = (file_blk x)(i := None)"
      by (rule rem_block_effect [OF x(2) 6(2) m(2,1)])
    with run m x(1) show ?thesis by (auto simp: running_def file_ds_inv_def HM_SUCCESS_def)
  next
    case False
    have "mac_differs m old \<longleftrightarrow> m \<noteq> old" for m
      by (cases "length m = length old") (auto simp: mac_differs_def)
    with False have "file_rem_block x i old = Some (DS_FAIL, x)"
      using stored_mac_value(1) [OF x(2) 6(2)] by (auto simp: file_rem_block_def split: option.splits)
    with run x show ?thesis by (auto simp: running_def file_ds_inv_def HM_SUCCESS_def DS_FAIL_def)
  qed
qed

text \<open>C35. An update brings a missing block into being, whatever MAC it presents: the MAC is tested only when there
  is one, so a deleted block can be written again by anybody who can reach the data store.\<close>

theorem file_update_creates_missing_block:
  assumes "data_files d" "file_name i" "\<not> to_be_drawn d i" "file_blk d i = None"
  shows "\<exists>d'. file_update_block d i b mt mac old = Some (DS_SUCCESS, d') \<and>
    file_get_block d' i = Some (Inr (b, mt)) \<and> (\<forall>j. j \<noteq> i \<longrightarrow> file_blk d' j = file_blk d j)"
proof -
  obtain d' where "file_set_block d (Some i) b mt mac (Some old) = Some (0, i, d')" "data_files d'"
    "file_blk d' = (file_blk d)(i \<mapsto> (b, mt, mac))"
    using file_set_block_run [OF assms(1-3), of "Some old" b mt mac] assms(4) by auto
  with stored_mac_value(2) [of d' i] assms(2) show ?thesis
    by (simp add: file_update_block_def DS_SUCCESS_def)
qed

subsection \<open>The database at its start\<close>

definition start_block_files :: "bytes list \<Rightarrow> block_files" where
  "start_block_files is =
     \<lparr>ds_path = DATA_STORE_PATH, ds_root = Dir [(''db'', Dir [(''data_store'', Dir [])])], ds_rands = is\<rparr>"

text \<open>Ids as \<^verbatim>\<open>soter_rand\<close> gives them: all different, and none with a slash in its encoding.\<close>

definition draws_ok :: "bytes list \<Rightarrow> bool" where
  "draws_ok is \<longleftrightarrow> distinct is \<and> list_all (\<lambda>i. length i = DEFAULT_BLOCK_ID_LENGTH \<longrightarrow> file_name i) is"

lemma start_block_files_ok:
  assumes "draws_ok is"
  shows "data_files (start_block_files is)" "file_blk (start_block_files is) i = None"
  using assms
  by (auto simp: data_files_def start_block_files_def levels_at_def file_blk_def block_file_def file_at_def to_be_drawn_def
      draws_ok_def list_all_iff eval_nat_numeral)

lemma data_store_path: "path_ok DATA_STORE_PATH" "hd DATA_STORE_PATH \<noteq> CHR ''/''"
  by (simp_all add: path_ok_def DATA_STORE_PATH_def PATH_MAX_def NAME_MAX_def components_def)

lemma start_block_files_made: "create_directory (Dir []) DATA_STORE_PATH = Some (ds_root (start_block_files is))"
  using create_directory_eq [OF data_store_path, of "Dir []"] by (simp add: mkdirs_def mkdir_at_def start_block_files_def)

lemma file_ds_db_create_run: "file_ds_db_create (Dir []) is = Some (file_ds_callbacks (Some (start_block_files is)))"
  using start_block_files_made [of "is"] by (simp add: file_ds_db_create_def start_block_files_def)

theorem file_update_creates_missing_block_witness:
  "\<exists>d'. file_update_block (start_block_files []) [1] [2] [3] [4] [5] = Some (DS_SUCCESS, d') \<and>
    file_get_block d' [1] = Some (Inr ([2], [3]))"
proof -
  have "base64_groups [1] = ''AQ==''" by code_simp
  then have i: "file_name [1]" by (simp add: file_name_def NAME_MAX_def)
  have "draws_ok []" by (simp add: draws_ok_def)
  from file_update_creates_missing_block [OF start_block_files_ok(1) [OF this] i _ start_block_files_ok(2) [OF this],
      of "[2]" "[3]" "[4]" "[5]"]
  show ?thesis by (auto simp: to_be_drawn_def start_block_files_def)
qed

end
