(* ===== verification/File_Credential_Store.thy ===== *)
theory File_Credential_Store
  imports File_Levels Mid_Creds
begin

section \<open>The credential store database in files\<close>

text \<open>
  \<^verbatim>\<open>docs/examples/c/mid_hermes/credential_store_service/db.c\<close>: the public key of a user is the file named after
  his id.  The service only reads; the files are put there by the operator.  The interpretation \<open>file_cs\<close>
  shows that the database keeps the contract \<open>cred_db\<close> for the ids that become one file name.
\<close>

definition CREDENTIAL_STORE_PATH :: string where "CREDENTIAL_STORE_PATH = ''db/credential_store''"
definition CS_SUCCESS :: status where "CS_SUCCESS = 0"
definition CS_FAIL :: status where "CS_FAIL = 1"

text \<open>\<^verbatim>\<open>db_t\<close> with the file system of the process.\<close>

record cred_files =
  cs_path :: string
  cs_root :: fnode

definition db_get_public_key :: "cred_files \<Rightarrow> bytes \<Rightarrow> (status + bytes) option" where
  "db_get_public_key db uid = do {
     fpath \<leftarrow> BUILD_TYPED_PATH [C (cs_path db), E uid];
     read_whole_file (cs_root db) fpath }"

text \<open>The state of the process is \<open>None\<close> after an undefined run.\<close>

definition file_cs_callbacks :: "cred_files option \<Rightarrow> cred_files option hm_cs_db" where
  "file_cs_callbacks d =
     \<lparr>cs_user_data = d,
      get_pub = Some (\<lambda>d u.
        (case Option.bind d (\<lambda>d. db_get_public_key d u) of
           None \<Rightarrow> (HM_SUCCESS, [], None)
         | Some (Inl e) \<Rightarrow> (e, [], d)
         | Some (Inr pk) \<Rightarrow> (HM_SUCCESS, pk, d)))\<rparr>"

definition file_cs_db_create :: "fnode \<Rightarrow> cred_files option hm_cs_db option" where
  "file_cs_db_create r =
     (case create_directory r CREDENTIAL_STORE_PATH of
        None \<Rightarrow> None
      | Some r \<Rightarrow> Some (file_cs_callbacks (Some \<lparr>cs_path = CREDENTIAL_STORE_PATH, cs_root = r\<rparr>)))"

definition file_cs_db_destroy ::
    "'d hm_cs_db option option \<Rightarrow> status \<times> 'd hm_cs_db option option" where
  "file_cs_db_destroy cs = (case cs of Some (Some _) \<Rightarrow> (CS_SUCCESS, Some None) | _ \<Rightarrow> (CS_FAIL, cs))"

subsection \<open>The contract\<close>

abbreviation cred_base :: "string list" where "cred_base \<equiv> [''db'', ''credential_store'']"

definition file_users :: "cred_files \<Rightarrow> bytes \<Rightarrow> bytes option" where
  "file_users d u = (if file_name u then file_at (cs_root d) (cred_base @ [base64_groups u]) else None)"

text \<open>The keys pass through the RPC.\<close>

definition key_list :: "cred_files \<Rightarrow> bool" where
  "key_list d \<longleftrightarrow> cs_path d = CREDENTIAL_STORE_PATH \<and> levels_at 1 cred_base (cs_root d) \<and>
     (\<forall>u pk. file_users d u = Some pk \<longrightarrow> param_ok pk)"

definition file_cs_inv :: "cred_files option \<Rightarrow> bool" where
  "file_cs_inv d \<longleftrightarrow> (\<exists>x. d = Some x \<and> key_list x)"

lemma cred_path_ok [simp]:
  "components CREDENTIAL_STORE_PATH = cred_base" "CREDENTIAL_STORE_PATH \<noteq> []" "length CREDENTIAL_STORE_PATH \<le> NAME_MAX"
  by (simp_all add: components_def CREDENTIAL_STORE_PATH_def NAME_MAX_def)

lemma db_get_public_key_run:
  assumes "key_list d" "file_name u"
  shows "db_get_public_key d u = Some (case file_users d u of None \<Rightarrow> Inl 1 | Some pk \<Rightarrow> Inr pk)"
proof -
  have d: "cs_path d = CREDENTIAL_STORE_PATH" "levels_at 1 cred_base (cs_root d)"
    using assms(1) by (simp_all add: key_list_def)
  have args: "list_all path_arg_ok [C (cs_path d), E u]" using d file_name_arg [OF assms(2)] by simp
  obtain s where s: "BUILD_TYPED_PATH [C (cs_path d), E u] = Some s" "path_ok s" "last s = last (base64_groups u)"
    "components s = cred_base @ [base64_groups u]"
    by (rule typed_path [OF args]) (use d file_name_component [OF assms(2)] in auto)
  have "base64_groups u \<noteq> []" using length_groups_le [of u] file_name_arg [OF assms(2)] by auto
  then have "last s \<noteq> CHR ''/''" using s(3) assms(2) last_in_set unfolding file_name_def by metis
  with read_path [OF d(2) s(2) _ s(4)] s(1) assms(2) show ?thesis
    by (simp add: db_get_public_key_def file_users_def)
qed

interpretation file_cs: cred_db "file_cs_callbacks None" "\<lambda>d. file_users (the d)" file_cs_inv file_name
proof (unfold_locales, goal_cases)
  case 1
  show ?case by (simp add: file_cs_callbacks_def hm_credential_store_check_backend_def)
next
  case (2 d u st pk d')
  then obtain x where x: "d = Some x" "key_list x" by (auto simp: file_cs_inv_def)
  with 2(2,3) db_get_public_key_run [OF x(2) 2(2)] show ?case
    by (auto simp: file_cs_callbacks_def HM_SUCCESS_def split: option.splits)
next
  case (3 d u pk)
  then show ?case by (auto simp: file_cs_inv_def key_list_def)
qed

subsection \<open>Keys put into the directory\<close>

definition listed_keys :: "(bytes \<times> bytes) list \<Rightarrow> cred_files" where
  "listed_keys us =
     \<lparr>cs_path = CREDENTIAL_STORE_PATH,
      cs_root = Dir [(''db'', Dir [(''credential_store'', Dir (map (\<lambda>(u, pk). (base64_groups u, File pk)) us))])]\<rparr>"

lemma map_of_groups: "map_of (map (\<lambda>(u, pk). (base64_groups u, File pk)) us) (base64_groups u) = map_option File (map_of us u)"
  by (induction us) (auto simp: groups_inj)

lemma listed_keys_users: "file_users (listed_keys us) u = (if file_name u then map_of us u else None)"
  by (auto simp: file_users_def listed_keys_def file_at_def map_of_groups split: option.splits)

lemma listed_keys_ok:
  assumes "distinct (map fst us)" "list_all (\<lambda>(u, pk). file_name u \<and> param_ok pk) us"
  shows "key_list (listed_keys us)"
proof -
  have "distinct (map (base64_groups \<circ> fst) us)"
    using assms(1) by (simp add: distinct_map inj_on_def groups_inj)
  then have "leveled 1 (Dir (map (\<lambda>(u, pk). (base64_groups u, File pk)) us))"
    using assms(2) by (auto simp: list_all_iff file_name_def comp_def case_prod_unfold)
  then have "levels_at 1 cred_base (cs_root (listed_keys us))" by (simp add: levels_at_def listed_keys_def)
  moreover have "file_users (listed_keys us) u = Some pk \<Longrightarrow> param_ok pk" for u pk
    using assms(2) by (auto simp: listed_keys_users list_all_iff split: if_splits dest: map_of_SomeD)
  ultimately show ?thesis by (simp add: key_list_def listed_keys_def)
qed

text \<open>The files of public keys: one for each user, under a name the service finds.\<close>

definition keys_listed :: "(bytes \<times> bytes) list \<Rightarrow> bool" where
  "keys_listed us \<longleftrightarrow> distinct (map fst us) \<and> list_all (\<lambda>(u, pk). file_name u \<and> param_ok pk) us"

lemma cred_store_path: "path_ok CREDENTIAL_STORE_PATH" "hd CREDENTIAL_STORE_PATH \<noteq> CHR ''/''"
  by (simp_all add: path_ok_def CREDENTIAL_STORE_PATH_def PATH_MAX_def NAME_MAX_def components_def)

lemma listed_keys_made: "create_directory (cs_root (listed_keys us)) CREDENTIAL_STORE_PATH = Some (cs_root (listed_keys us))"
  using create_directory_eq [OF cred_store_path, of "cs_root (listed_keys us)"]
  by (simp add: mkdirs_def mkdir_at_def listed_keys_def)

end
