(* ===== verification/Example_System.thy ===== *)
theory Example_System
  imports Mid_Demo File_Key_Store File_Data_Store File_Credential_Store
begin

section \<open>Mid-Hermes over the example services\<close>

text \<open>
  The system of \<^verbatim>\<open>docs/examples/c/mid_hermes\<close>: Mid-Hermes over the RPC clients of the three services with their
  file databases, each started in an empty directory but for the public keys.  The interpretation \<open>file_sys\<close>
  puts the contracts of \<open>file_cs\<close>, \<open>file_ks\<close> and \<open>file_ds\<close> together.
\<close>

text \<open>Ids that the databases keep apart and RPC carries.\<close>

abbreviation file_id :: "bytes \<Rightarrow> bool" where
  "file_id i \<equiv> file_name i \<and> param_ok i"

interpretation file_sys: mid_stores loop_cred_store file_cs.creds_up "\<lambda>L. file_users (the (loop_creds L))" file_id
    loop_key_store file_ks.keys_up "\<lambda>L. file_rt (loop_keys L)" "\<lambda>L. file_wt (loop_keys L)" file_id
    "\<lambda>t. True \<and> param_ok t" "\<lambda>_. True" "\<lambda>_. False"
    loop_data_store file_ds.blocks_up "\<lambda>L. file_blk (the (loop_blocks L))" param_ok "\<lambda>_ _ _. True"
    "\<lambda>L. fst (File_Data_Store.soter_rand DEFAULT_BLOCK_ID_LENGTH (ds_rands (the (loop_blocks L))))"
  by unfold_locales

subsection \<open>The services at their start\<close>

definition file_world where
  "file_world us ids r =
     \<lparr>rand_state = r, key_state = key_server (the (file_ks_db_create (Dir []))),
      data_state = data_server (the (file_ds_db_create (Dir []) ids)),
      cred_state = cred_server (the (file_cs_db_create (cs_root (listed_keys us))))\<rparr>"

lemma file_cs_db_create_run:
  "file_cs_db_create (cs_root (listed_keys us)) = Some (file_cs_callbacks (Some (listed_keys us)))"
  using listed_keys_made [of us] by (simp add: file_cs_db_create_def listed_keys_def)

lemma file_dbs:
  "file_cs.db d = file_cs_callbacks d" "file_ks.db k = file_ks_callbacks k" "file_ds.db b = file_ds_callbacks b"
  unfolding file_cs.db_def file_ks.db_def file_ds.db_def
  by (simp_all add: file_cs_callbacks_def file_ks_callbacks_def file_ds_callbacks_def)

lemma file_creds_up:
  assumes "keys_listed us"
  shows "file_cs.creds_up (cred_state (file_world us ids r))"
    "file_users (the (loop_creds (cred_state (file_world us ids r)))) u = (if file_name u then map_of us u else None)"
proof -
  have "file_cs_inv (Some (listed_keys us))"
    using assms listed_keys_ok unfolding keys_listed_def file_cs_inv_def by blast
  from file_cs.server_up [OF this] show "file_cs.creds_up (cred_state (file_world us ids r))"
    "file_users (the (loop_creds (cred_state (file_world us ids r)))) u = (if file_name u then map_of us u else None)"
    by (simp_all add: file_world_def file_cs_db_create_run file_dbs listed_keys_users)
qed

lemma file_keys_up:
  "file_ks.keys_up (key_state (file_world us ids r))"
  "file_rt (loop_keys (key_state (file_world us ids r))) p = None" "file_wt (loop_keys (key_state (file_world us ids r))) p = None"
proof -
  let ?d = "Some start_key_files"
  have none: "file_rt ?d q = None" "file_wt ?d q = None" for q
    by (simp_all add: file_rt_def file_wt_def start_key_files_ok(2))
  have "file_ks_inv ?d" "file_ks.tokens_ok ?d"
    using start_key_files_ok(1) none by (auto simp: file_ks_inv_def file_ks.tokens_ok_def)
  from file_ks.server_up [OF this] none show "file_ks.keys_up (key_state (file_world us ids r))"
    "file_rt (loop_keys (key_state (file_world us ids r))) p = None" "file_wt (loop_keys (key_state (file_world us ids r))) p = None"
    by (simp_all add: file_world_def file_ks_db_create_run file_dbs)
qed

lemma file_data_up:
  assumes "draws_ok ids"
  shows "file_ds.blocks_up (data_state (file_world us ids r))" "file_blk (the (loop_blocks (data_state (file_world us ids r)))) i = None"
proof -
  let ?d = "Some (start_block_files ids)"
  have "file_ds_inv ?d" "file_ds.blocks_ok ?d"
    using start_block_files_ok [OF assms] by (auto simp: file_ds_inv_def file_ds.blocks_ok_def)
  from file_ds.server_up [OF this] start_block_files_ok(2) [OF assms]
  show "file_ds.blocks_up (data_state (file_world us ids r))" "file_blk (the (loop_blocks (data_state (file_world us ids r)))) i = None"
    by (simp_all add: file_world_def file_ds_db_create_run file_dbs)
qed

lemma file_start:
  assumes "keys_listed us" "draws_ok ids"
  shows "file_sys.mid_inv T key_pair (file_world us ids r) empty_spec"
  by (rule file_sys.empty_inv)
    (simp_all add: file_sys.winv_def file_creds_up(1) [OF assms(1)] file_keys_up file_data_up [OF assms(2)])

subsection \<open>Programs\<close>

definition file_program_ok ::
    "(bytes \<Rightarrow> bytes \<Rightarrow> bool) \<Rightarrow> (bytes \<Rightarrow> bool) \<Rightarrow> (bytes \<times> bytes) list \<Rightarrow> (bytes \<Rightarrow> bytes) \<Rightarrow> (bytes \<times> mid_op) list \<Rightarrow> bool"
  where
  "file_program_ok key_pair plain_ok us sks ops \<longleftrightarrow>
     list_all (\<lambda>(u, op). (\<exists>pk. map_of us u = Some pk \<and> key_pair (sks u) pk) \<and> sks u \<noteq> [] \<and>
       mid_op_ok file_id file_id plain_ok param_ok op) ops"

text \<open>Themis works, keeps its laws, and what it gives passes through the stores.\<close>

definition themis_carried :: "('r, 'h) themis \<Rightarrow> (bytes \<Rightarrow> bytes \<Rightarrow> bool) \<Rightarrow> (bytes \<Rightarrow> bool) \<Rightarrow> bool" where
  "themis_carried T key_pair plain_ok \<longleftrightarrow>
     works T key_pair \<and> themis_laws T key_pair \<and> outputs_ok T param_ok plain_ok param_ok"

lemma file_stack_run:
  assumes "themis_carried T key_pair plain_ok" "keys_listed us" "draws_ok ids" "file_program_ok key_pair plain_ok us sks ops"
  shows "\<exists>rs w' s'. run_program T sks ops (file_world us ids r) = Some (rs, w') \<and> mid_run empty_spec ops rs s'"
proof -
  have c: "file_sys.crypto_ok T key_pair plain_ok"
    using assms(1) unfolding themis_carried_def file_sys.crypto_ok_def by simp
  have caller: "file_sys.caller key_pair (cred_state (file_world us ids r)) sks u"
    if "map_of us u = Some pk" "key_pair (sks u) pk" "sks u \<noteq> []" for u pk
  proof -
    have "file_name u" using that(1) assms(2) by (auto simp: keys_listed_def list_all_iff dest: map_of_SomeD)
    then show ?thesis
      using that file_name_param [of u] by (auto simp: file_sys.caller_def file_creds_up(2) [OF assms(2)])
  qed
  show ?thesis
    by (rule file_sys.refines_from_empty [OF file_start [OF assms(2,3)] c])
      (use assms(4) caller in \<open>fastforce simp: file_program_ok_def list_all_iff\<close>)
qed

text \<open>C2. The example services refine the access control specification: over their file databases, started
  in directories with nothing but the public keys, every program of creations, reads, updates, grants and
  denials is defined and runs to its end, and its results are those of a run of \<open>mid_step\<close>, for users
  and blocks whose ids become one file name each.\<close>

theorem example_services_refine_access_spec:
  assumes "themis_carried T key_pair plain_ok" "keys_listed us" "draws_ok ids" "file_program_ok key_pair plain_ok us sks ops"
  shows "\<exists>rs w' s'. run_program T sks ops (file_world us ids r) = Some (rs, w') \<and> mid_run empty_spec ops rs s'"
  by (rule file_stack_run [OF assms])

subsection \<open>The theorem at a concrete start\<close>

definition file_demo_users :: "(bytes \<times> bytes) list" where
  "file_demo_users = [([1], [1]), ([2, 3, 4], [2])]"

definition file_demo_sks :: "bytes \<Rightarrow> bytes" where
  "file_demo_sks u = (if u = [1] then [1] else [2])"

definition file_demo_id :: bytes where
  "file_demo_id = replicate 16 0"

lemma file_demo_id_name: "file_name file_demo_id" "file_id [1]" "file_id [2, 3, 4]" "file_id file_demo_id"
proof -
  have "base64_groups file_demo_id = ''AAAAAAAAAAAAAAAAAAAAAA==''" by code_simp
  then show "file_name file_demo_id" by (simp add: file_name_def NAME_MAX_def file_demo_id_def)
  then show "file_id [1]" "file_id [2, 3, 4]" "file_id file_demo_id" using demo_names file_name_param by simp_all
qed

lemma file_demo_ok:
  "themis_carried demo_themis demo_pair (\<lambda>d. length d \<le> 1000)" "keys_listed file_demo_users" "draws_ok [file_demo_id]"
proof -
  have "outputs_ok demo_themis param_ok (\<lambda>d. length d \<le> 1000) param_ok"
    using demo_fits by (auto simp: themis_fits_def outputs_ok_def)
  then show "themis_carried demo_themis demo_pair (\<lambda>d. length d \<le> 1000)"
    using demo_fits by (simp add: themis_carried_def themis_fits_def)
  show "keys_listed file_demo_users"
    using file_demo_id_name by (simp add: keys_listed_def file_demo_users_def param_ok_def)
  show "draws_ok [file_demo_id]"
    using file_demo_id_name by (simp add: draws_ok_def)
qed

abbreviation file_demo :: "(bytes \<times> mid_op) list" where
  "file_demo \<equiv> [([1], MCreate [7] [8]), ([1], MGrantRead file_demo_id [2, 3, 4]), ([2, 3, 4], MRead file_demo_id)]"

theorem example_services_refine_access_spec_witness:
  "\<exists>rs w' s'. run_program demo_themis file_demo_sks file_demo (file_world file_demo_users [file_demo_id] 0) = Some (rs, w') \<and>
    mid_run empty_spec file_demo rs s'"
  by (rule example_services_refine_access_spec [OF file_demo_ok])
    (use file_demo_id_name in \<open>simp add: file_program_ok_def file_demo_users_def file_demo_sks_def demo_pair_def param_ok_def\<close>)

end
