(* ===== verification/Low_Level_Stores.thy ===== *)
theory Low_Level_Stores
  imports File_Key_Store File_Data_Store File_Credential_Store
begin

section \<open>The stores of the low-level example\<close>

text \<open>
  \<^verbatim>\<open>docs/examples/c/mid_hermes_low_level/key_store.c\<close>, \<^verbatim>\<open>data_store.c\<close> and \<^verbatim>\<open>credential_store.c\<close>: the store
  interfaces of Mid-Hermes over files, without RPC.  Their functions repeat those of the databases of the
  services, with the ids in the other order, and are defined here by them; the iterator over
  the users of a block is new.  Each store has its directory as its own tree.

  The interpretations \<open>local_cs\<close>, \<open>local_ks\<close> and \<open>local_ds\<close> show that the three keep the contracts of
  \<open>Mid_Contract\<close>; without RPC in between there is no bound on what they hold.  The program names its
  blocks itself: no ids are drawn (\<open>ds_rands\<close> is empty).
\<close>

subsection \<open>The key store\<close>

definition local_key_store_create :: "fnode \<Rightarrow> file_db option" where
  "local_key_store_create r =
     map_option (\<lambda>r. \<lparr>db_path = HERMES_KEY_STORE_PATH, db_root = r\<rparr>) (create_directory r HERMES_KEY_STORE_PATH)"

definition local_key_store_destroy :: "file_db option option \<Rightarrow> status \<times> file_db option option" where
  "local_key_store_destroy ks = (case ks of Some (Some _) \<Rightarrow> (HM_SUCCESS, Some None) | _ \<Rightarrow> (HM_FAIL, ks))"

definition local_set_rtoken :: "cbuf \<Rightarrow> cbuf \<Rightarrow> cbuf \<Rightarrow> cbuf \<Rightarrow> (file_db, status) act" where
  "local_set_rtoken uid bid token oid ks =
     file_set_rtoken ks (buf_bytes bid) (buf_bytes uid) (buf_bytes oid) token"

definition local_set_wtoken :: "cbuf \<Rightarrow> cbuf \<Rightarrow> cbuf \<Rightarrow> cbuf \<Rightarrow> (file_db, status) act" where
  "local_set_wtoken uid bid token oid ks =
     file_set_wtoken ks (buf_bytes bid) (buf_bytes uid) (buf_bytes oid) token"

definition local_get_rtoken :: "cbuf \<Rightarrow> cbuf \<Rightarrow> (file_db, status + bytes \<times> bytes) act" where
  "local_get_rtoken uid bid ks =
     map_option (\<lambda>res. (res, ks)) (file_get_rtoken ks (buf_bytes bid) (buf_bytes uid))"

definition local_get_wtoken :: "cbuf \<Rightarrow> cbuf \<Rightarrow> (file_db, status + bytes \<times> bytes) act" where
  "local_get_wtoken uid bid ks =
     map_option (\<lambda>res. (res, ks)) (file_get_wtoken ks (buf_bytes bid) (buf_bytes uid))"

text \<open>
  The iterator: the block, the user id of the struct and the position in the directory.  A new one has no
  user id yet.  A file name that is no encoding gives the length -1, which is undefined.  The tokens and owners that \<^verbatim>\<open>hermes_key_store_iterator_next\<close> reads into the struct are
  never looked at; what remains of reading them is that it closes a file it could not open, which is
  undefined.
\<close>

definition local_iterator_create :: "cbuf \<Rightarrow> (file_db, hermes_key_store_iterator option) act" where
  "local_iterator_create bid ks =
     (if absent bid then Some (None, ks)
      else do {
        fpath \<leftarrow> BUILD_TYPED_PATH [C (db_path ks), E (the bid)];
        if \<not> is_dir (stat (db_root ks) fpath) then Some (None, ks)
        else if 1024 \<le> length fpath then None
        else Some (Some \<lparr>it_block_id = the bid, current_user_id = Some [], current_rights_mask = 0,
          current_index = 0\<rparr>, ks) })"

definition can_open :: "file_db \<Rightarrow> path_arg list \<Rightarrow> unit option" where
  "can_open ks as = do {
     fpath \<leftarrow> BUILD_TYPED_PATH as;
     if stat (db_root ks) fpath = None then None else Some () }"

definition local_iterator_next ::
    "hermes_key_store_iterator \<Rightarrow> (file_db, status \<times> hermes_key_store_iterator) act" where
  "local_iterator_next i ks = do {
     path \<leftarrow> BUILD_TYPED_PATH [C (db_path ks), E (it_block_id i)];
     case stat (db_root ks) path of
       Some (Dir es) \<Rightarrow>
         (case nth_entry es (current_index i) of
            None \<Rightarrow> Some ((HM_FAIL, i), ks)
          | Some d_name \<Rightarrow> do {
              uid \<leftarrow> string_to_buf d_name;
              _ \<leftarrow> can_open ks [C path, C d_name, C ''w'', C ''token''];
              _ \<leftarrow> can_open ks [C path, C d_name, C ''w'', C ''owner''];
              _ \<leftarrow> can_open ks [C path, C d_name, C ''r'', C ''token''];
              _ \<leftarrow> can_open ks [C path, C d_name, C ''r'', C ''owner''];
              Some ((HM_SUCCESS, i\<lparr>current_user_id := Some uid, current_index := current_index i + 1\<rparr>), ks) })
     | _ \<Rightarrow> None }"

definition local_key_store :: "file_db hermes_key_store" where
  "local_key_store =
     \<lparr>ks_get_rtoken = local_get_rtoken, ks_get_wtoken = local_get_wtoken,
      ks_set_rtoken = local_set_rtoken, ks_set_wtoken = local_set_wtoken,
      ks_iterator_create = local_iterator_create, ks_iterator_next = local_iterator_next\<rparr>"

subsection \<open>The data store\<close>

definition local_data_store_create :: "fnode \<Rightarrow> bytes list \<Rightarrow> block_files option" where
  "local_data_store_create r is =
     map_option (\<lambda>r. \<lparr>ds_path = DATA_STORE_PATH, ds_root = r, ds_rands = is\<rparr>) (create_directory r DATA_STORE_PATH)"

definition local_data_store_destroy :: "block_files option option \<Rightarrow> status \<times> block_files option option" where
  "local_data_store_destroy ds = (case ds of Some (Some _) \<Rightarrow> (DS_SUCCESS, Some None) | _ \<Rightarrow> (DS_FAIL, ds))"

definition local_set_block :: "cbuf \<Rightarrow> cbuf \<Rightarrow> cbuf \<Rightarrow> cbuf \<Rightarrow> cbuf \<Rightarrow> (block_files, status \<times> cbuf) act" where
  "local_set_block i data meta mac old_mac ds =
     map_option (\<lambda>(st, i, ds). ((st, Some i), ds))
       (file_set_block ds i (buf_bytes data) (buf_bytes meta) (buf_bytes mac) old_mac)"

definition local_get_block :: "cbuf \<Rightarrow> (block_files, status + bytes \<times> bytes) act" where
  "local_get_block i ds = map_option (\<lambda>res. (res, ds)) (file_get_block ds (buf_bytes i))"

definition local_rem_block :: "cbuf \<Rightarrow> cbuf \<Rightarrow> (block_files, status) act" where
  "local_rem_block i old_mac ds = file_rem_block ds (buf_bytes i) (buf_bytes old_mac)"

definition local_data_store :: "block_files hermes_data_store" where
  "local_data_store =
     \<lparr>ds_set_block = local_set_block, ds_get_block = local_get_block, ds_rem_block = local_rem_block\<rparr>"

subsection \<open>The credential store\<close>

definition local_credential_store_create :: "fnode \<Rightarrow> cred_files option" where
  "local_credential_store_create r =
     map_option (\<lambda>r. \<lparr>cs_path = CREDENTIAL_STORE_PATH, cs_root = r\<rparr>) (create_directory r CREDENTIAL_STORE_PATH)"

definition local_credential_store_destroy :: "cred_files option option \<Rightarrow> status \<times> cred_files option option" where
  "local_credential_store_destroy cs = (case cs of Some (Some _) \<Rightarrow> (CS_SUCCESS, Some None) | _ \<Rightarrow> (CS_FAIL, cs))"

definition local_get_public_key :: "cbuf \<Rightarrow> (cred_files, status + bytes) act" where
  "local_get_public_key uid cs = map_option (\<lambda>res. (res, cs)) (db_get_public_key cs (buf_bytes uid))"

definition local_credential_store :: "cred_files hermes_credential_store" where
  "local_credential_store = \<lparr>cs_get_public_key = local_get_public_key\<rparr>"

lemmas local_store_simps =
  local_key_store_def local_get_rtoken_def local_get_wtoken_def local_set_rtoken_def local_set_wtoken_def
  local_data_store_def local_set_block_def local_get_block_def local_rem_block_def
  local_credential_store_def local_get_public_key_def

subsection \<open>The contracts\<close>

text \<open>Every token is of some length, and its owner has an id of one file name.\<close>

definition local_keys_inv :: "file_db \<Rightarrow> bool" where
  "local_keys_inv d \<longleftrightarrow> key_files d \<and>
     (\<forall>k p t w. file_tokens k d p = Some (t, w) \<longrightarrow> t \<noteq> [] \<and> file_name w)"

definition local_data_inv :: "block_files \<Rightarrow> bool" where
  "local_data_inv d \<longleftrightarrow> data_files d \<and> ds_rands d = [] \<and>
     (\<forall>i b mt mac. file_blk d i = Some (b, mt, mac) \<longrightarrow> b \<noteq> [] \<and> mt \<noteq> [] \<and> mac \<noteq> [])"

lemma local_put:
  assumes "local_keys_inv d" "file_name b" "file_name u" "file_name w" "t \<noteq> []" "k = ''r'' \<or> k = ''w''"
  obtains d' where "put_token_files k d b u w t = Some (0, d')" "local_keys_inv d'"
    "file_tokens k d' = (file_tokens k d)((b, u) \<mapsto> (t, w))" "\<And>k'. k' \<noteq> k \<Longrightarrow> file_tokens k' d' = file_tokens k' d"
proof -
  have d: "key_files d" using assms(1) by (simp add: local_keys_inv_def)
  obtain d' where d': "put_token_files k d b u w t = Some (0, d')" "key_files d'"
    "file_at (db_root d') = (file_at (db_root d))
       (key_base @ [base64_groups b, base64_groups u, k, ''token''] \<mapsto> t,
        key_base @ [base64_groups b, base64_groups u, k, ''owner''] \<mapsto> w)"
    by (rule put_token_files_effect [OF d assms(2,3,6), where t = t and w = w])
  note toks = file_tokens_put [OF assms(2,3) d'(3)]
  have "t' \<noteq> [] \<and> file_name w'" if "file_tokens k' d' p = Some (t', w')" for k' p t' w'
  proof (cases "k' = k \<and> p = (b, u)")
    case True
    with that toks(1) assms(4,5) show ?thesis by simp
  next
    case False
    then have "file_tokens k' d' p = file_tokens k' d p" using toks by (cases "k' = k") auto
    with that assms(1) show ?thesis unfolding local_keys_inv_def by metis
  qed
  then have "local_keys_inv d'" using d'(2) by (simp add: local_keys_inv_def)
  then show ?thesis using that [OF d'(1)] toks by blast
qed

lemma local_del:
  assumes "local_keys_inv d" "file_name b" "file_name u" "ks = [] \<or> ks = [''w'']"
  obtains d' where "del_files ks d b u = Some (0, d')" "local_keys_inv d'"
    "\<And>k. file_tokens k d' = (if k \<in> set ks \<or> ks = [] then (file_tokens k d)((b, u) := None) else file_tokens k d)"
proof -
  have d: "key_files d" using assms(1) by (simp add: local_keys_inv_def)
  obtain d' where d': "del_files ks d b u = Some (0, d')" "key_files d'"
    "\<And>q. file_at (db_root d') q =
       (if prefix (key_base @ [base64_groups b, base64_groups u] @ ks) q then None else file_at (db_root d) q)"
    using del_files_effect [OF d assms(2-4)] by blast
  have toks: "file_tokens k d' = (if k \<in> set ks \<or> ks = [] then (file_tokens k d)((b, u) := None) else file_tokens k d)" for k
    by (rule file_tokens_del [OF assms(2-4) d'(3)])
  have "t' \<noteq> [] \<and> file_name w'" if "file_tokens k' d' p = Some (t', w')" for k' p t' w'
  proof -
    have "file_tokens k' d p = Some (t', w')" using that by (auto simp: toks split: if_splits)
    with assms(1) show ?thesis unfolding local_keys_inv_def by blast
  qed
  then have "local_keys_inv d'" using d'(2) by (simp add: local_keys_inv_def)
  then show ?thesis using that [OF d'(1)] toks by blast
qed

lemma local_key_values:
  assumes "local_keys_inv d" "file_name b" "file_name u"
  shows "local_get_rtoken (Some u) (Some b) d =
      Some (case file_tokens ''r'' d (b, u) of None \<Rightarrow> Inl 1 | Some tw \<Rightarrow> Inr tw, d)"
    and "local_get_wtoken (Some u) (Some b) d =
      Some (case file_tokens ''w'' d (b, u) of None \<Rightarrow> Inl 1 | Some tw \<Rightarrow> Inr tw, d)"
  using assms get_token_files_value [of d b u]
  by (simp_all add: local_keys_inv_def local_store_simps token_functions)

lemma local_insert:
  assumes "local_data_inv d"
  obtains i where "file_set_block d None b mt mac None = Some (DS_FAIL, i, d)"
  using assms data_files_rands(2) [of d]
  by (auto simp: local_data_inv_def file_set_block_def File_Data_Store.soter_rand_def)

lemma local_write:
  assumes "local_data_inv d" "file_name i" "b \<noteq> []" "mt \<noteq> []" "mac \<noteq> []"
  shows "if (\<exists>b0 mt0 m. file_blk d i = Some (b0, mt0, m) \<and> old \<noteq> Some m)
    then file_set_block d (Some i) b mt mac old = Some (DS_FAIL, i, d)
    else \<exists>d'. file_set_block d (Some i) b mt mac old = Some (0, i, d') \<and> local_data_inv d' \<and>
      file_blk d' = (file_blk d)(i \<mapsto> (b, mt, mac))"
proof -
  have d: "data_files d" "\<not> to_be_drawn d i" using assms(1) by (simp_all add: local_data_inv_def to_be_drawn_def)
  have "local_data_inv d'" if "data_files d'" "file_blk d' = (file_blk d)(i \<mapsto> (b, mt, mac))" "ds_rands d' = ds_rands d" for d'
    using that assms by (auto simp: local_data_inv_def split: if_splits)
  then show ?thesis using file_set_block_run [OF d(1) assms(2) d(2), of old b mt mac] by (auto split: if_splits)
qed

interpretation local_cs: credential_iface local_credential_store key_list file_users file_name
proof (unfold_locales, goal_cases)
  case (1 c u)
  then show ?case using db_get_public_key_run [OF 1] by (intro exI [of _ 1]) (simp add: local_store_simps)
next
  case (2 c u pk)
  then have "param_ok pk" by (simp add: key_list_def)
  then show ?case by (simp add: param_ok_def)
next
  case (3 u)
  then show ?case by (simp add: file_name_def)
qed

interpretation local_ks: key_iface local_key_store local_keys_inv "file_tokens ''r''" "file_tokens ''w''" file_name file_name
    "\<lambda>t. t \<noteq> []" "\<lambda>_. True" "\<lambda>_. False"
proof (unfold_locales, goal_cases)
  case (1 s u b)
  then show ?case using local_key_values(1) [OF 1(1,3,2)] by (intro exI [of _ 1]) (simp add: local_key_store_def)
next
  case (2 s u b)
  then show ?case using local_key_values(2) [OF 2(1,3,2)] by (intro exI [of _ 1]) (simp add: local_key_store_def)
next
  case (3 s u b t w)
  obtain s' where "put_token_files ''r'' s b u w t = Some (0, s')" "local_keys_inv s'"
    "file_tokens ''r'' s' = (file_tokens ''r'' s)((b, u) \<mapsto> (t, w))" "\<And>k'. k' \<noteq> ''r'' \<Longrightarrow> file_tokens k' s' = file_tokens k' s"
    by (rule local_put [OF 3(1,3,2,5,4) disjI1 [OF refl]]) blast
  then show ?case
    by (intro exI [of _ 0] exI [of _ s']) (simp add: local_store_simps token_functions HM_SUCCESS_def)
next
  case (4 s u b t w)
  obtain s' where "put_token_files ''w'' s b u w t = Some (0, s')" "local_keys_inv s'"
    "file_tokens ''w'' s' = (file_tokens ''w'' s)((b, u) \<mapsto> (t, w))" "\<And>k'. k' \<noteq> ''w'' \<Longrightarrow> file_tokens k' s' = file_tokens k' s"
    by (rule local_put [OF 4(1,3,2,5,4) disjI2 [OF refl]]) blast
  then show ?case
    by (intro exI [of _ 0] exI [of _ s']) (simp add: local_store_simps token_functions HM_SUCCESS_def)
next
  case (5 s u b w)
  obtain s' where "del_files [] s b u = Some (0, s')" "local_keys_inv s'"
    "\<And>k. file_tokens k s' = (if k \<in> set [] \<or> ([] :: string list) = [] then (file_tokens k s)((b, u) := None) else file_tokens k s)"
    by (rule local_del [OF 5(1,3,2) disjI1 [OF refl]]) blast
  then show ?case
    using token_functions(5) [of s b u w]
    by (intro exI [of _ 0] exI [of _ s']) (simp add: local_store_simps file_del_rtoken_def HM_SUCCESS_def lost_at_def)
next
  case (6 s u b w)
  obtain s' where "del_files [''w''] s b u = Some (0, s')" "local_keys_inv s'"
    "\<And>k. file_tokens k s' = (if k \<in> set [''w''] \<or> [''w''] = [] then (file_tokens k s)((b, u) := None) else file_tokens k s)"
    by (rule local_del [OF 6(1,3,2) disjI2 [OF refl]]) blast
  then show ?case
    using token_functions(6) [of s b u w]
    by (intro exI [of _ 0] exI [of _ s']) (simp add: local_store_simps file_del_wtoken_def HM_SUCCESS_def lost_at_def)
next
  case (7 s b u t w)
  then show ?case unfolding local_keys_inv_def by blast
next
  case (8 s b u t w)
  then show ?case unfolding local_keys_inv_def by blast
qed

interpretation local_ds: data_iface local_data_store local_data_inv file_blk file_name "\<lambda>e. e \<noteq> []" "\<lambda>_. True" "\<lambda>_ _ _. True"
    "\<lambda>_. None"
proof (unfold_locales, goal_cases)
  case (1 s e m mac)
  obtain i where "file_set_block s None e m mac None = Some (DS_FAIL, i, s)"
    by (rule local_insert [OF 1(1)])
  with 1(1) show ?case
    by (intro exI [of _ DS_FAIL] exI [of _ "Some i"] exI [of _ s]) (simp add: local_store_simps DS_FAIL_def HM_SUCCESS_def)
next
  case (2 s i e m mac old)
  obtain b0 m0 mac0 where b: "file_blk s i = Some (b0, m0, mac0)" using 2(2) by auto
  note run = local_write [OF 2(1,3-6), of "Some old", unfolded b]
  show ?case
  proof (cases "old = mac0")
    case True
    with run obtain s' where "file_set_block s (Some i) e m mac (Some old) = Some (0, i, s')" "local_data_inv s'"
      "file_blk s' = (file_blk s)(i \<mapsto> (e, m, mac))" by auto
    with True b show ?thesis
      by (intro exI [of _ 0] exI [of _ s']) (simp add: local_store_simps HM_SUCCESS_def)
  next
    case False
    with run have "file_set_block s (Some i) e m mac (Some old) = Some (DS_FAIL, i, s)" by auto
    with False b 2(1) show ?thesis
      by (intro exI [of _ DS_FAIL] exI [of _ s]) (simp add: local_store_simps HM_SUCCESS_def DS_FAIL_def)
  qed
next
  case (3 s i)
  then show ?case
    using stored_mac_value(2) [of s i] by (intro exI [of _ 1]) (auto simp: local_store_simps local_data_inv_def split: option.splits)
next
  case (4 s i b m mac)
  then show ?case unfolding local_data_inv_def by blast
next
  case (6 e)
  then show ?case by simp
next
  case (7 i)
  then show ?case by (simp add: file_name_def)
qed simp

end
