(* ===== verification/Low_Level_Commands.thy ===== *)
theory Low_Level_Commands
  imports Mid_System File_System
begin

section \<open>The commands of the low-level program\<close>

text \<open>
  \<^verbatim>\<open>docs/examples/c/mid_hermes_low_level/commands.c\<close>: the commands on Mid-Hermes blocks of the command line
  program.  The arguments are strings; the name of the file is also the id of the block.  A
  command works on the stores (\<open>world\<close>) and on the user's own files, a tree of their own.  The stores
  are the globals \<^verbatim>\<open>ks\<close>, \<^verbatim>\<open>ds\<close> and \<^verbatim>\<open>cs\<close>, which are not NULL after \<^verbatim>\<open>init\<close>.

  An assertion that fails ends the process and is \<open>None\<close>, as is the second release of the user after
  \<^verbatim>\<open>mid_hermes_ll_block_create\<close> has failed and released him.
\<close>

subsection \<open>Users\<close>

definition str_bytes :: "string \<Rightarrow> bytes" where
  "str_bytes s = map of_char s"

definition create_user ::
    "'c hermes_credential_store \<Rightarrow> string \<Rightarrow> string option \<Rightarrow> (('r, 'k, 'd, 'c) world, user_ptr) act" where
  "create_user cs uid sk =
     act_bind (on_creds (cs_get_public_key cs (Some (str_bytes uid)))) (\<lambda>res. case res of
       Inl e \<Rightarrow> act_ret None
     | Inr pk \<Rightarrow>
         (case sk of
            Some s \<Rightarrow>
              (case string_to_buf s of
                 None \<Rightarrow> act_undefined
               | Some ssk \<Rightarrow>
                   if ssk = [] then act_ret None
                   else act_ret (mid_hermes_ll_local_user_create (new_buffer (str_bytes uid)) (new_buffer ssk) (new_buffer pk)))
          | None \<Rightarrow> act_ret (mid_hermes_ll_user_create (new_buffer (str_bytes uid)) (new_buffer pk))))"

text \<open>The user of the command, who must exist.\<close>

definition act_assert :: "('w, 'a option) act \<Rightarrow> ('a option \<Rightarrow> ('w, 'b) act) \<Rightarrow> ('w, 'b) act" where
  "act_assert m k = act_bind m (\<lambda>x. if x = None then act_undefined else k x)"

text \<open>\<^verbatim>\<open>bl->load\<close> into an empty block of the user.\<close>

definition load_block ::
    "('r, 'h) themis \<Rightarrow> 'k hermes_key_store \<Rightarrow> 'd hermes_data_store \<Rightarrow> 'c hermes_credential_store \<Rightarrow>
     user_ptr \<Rightarrow> string \<Rightarrow> 'b \<Rightarrow> (mid_hermes_ll_block \<Rightarrow> (('r, 'k, 'd, 'c) world, 'b) act) \<Rightarrow>
     (('r, 'k, 'd, 'c) world, 'b) act" where
  "load_block T ks ds cs u name failed k =
     act_bind (mid_hermes_ll_block_load T (Some (mid_hermes_ll_block_create_empty u)) (new_buffer (str_bytes name))
         (Some ds) (Some ks) (Some cs)) (\<lambda>(ok, bl).
       if \<not> ok then act_ret failed else k (the bl))"

subsection \<open>Blocks\<close>

definition cmd_write_block ::
    "'k hermes_key_store \<Rightarrow> 'd hermes_data_store \<Rightarrow> mid_hermes_ll_block option \<Rightarrow> rights option \<Rightarrow>
     (('r, 'k, 'd, 'c) world, int) act" where
  "cmd_write_block ks ds bl rights =
     (if bl = None then act_ret 1
      else act_bind (mid_hermes_ll_block_save bl rights (Some ds) (Some ks)) (\<lambda>(ok, bl).
        act_ret (if \<not> ok then 1 else 0)))"

definition add_block ::
    "('r, 'h) themis \<Rightarrow> 'k hermes_key_store \<Rightarrow> 'd hermes_data_store \<Rightarrow> 'c hermes_credential_store \<Rightarrow> fnode \<Rightarrow>
     string \<Rightarrow> string \<Rightarrow> string \<Rightarrow> string \<Rightarrow> (('r, 'k, 'd, 'c) world, int) act" where
  "add_block T ks ds cs files uid sk block_file_name block_meta_data =
     act_assert (create_user cs uid (Some sk)) (\<lambda>u.
       (case read_whole_file files block_file_name of
          None \<Rightarrow> act_undefined
        | Some (Inl e) \<Rightarrow> act_ret 1
        | Some (Inr data) \<Rightarrow>
            act_bind (on_rand (mid_hermes_ll_block_create T u (new_buffer (str_bytes block_file_name))
                (new_buffer data) (new_buffer (str_bytes block_meta_data)) None None)) (\<lambda>bl.
              if bl = None then act_undefined
              else act_bind (cmd_write_block ks ds bl None) (\<lambda>st. act_ret (if st \<noteq> 0 then 1 else 0)))))"

definition upd_block ::
    "('r, 'h) themis \<Rightarrow> 'k hermes_key_store \<Rightarrow> 'd hermes_data_store \<Rightarrow> 'c hermes_credential_store \<Rightarrow> fnode \<Rightarrow>
     string \<Rightarrow> string \<Rightarrow> string \<Rightarrow> string \<Rightarrow> (('r, 'k, 'd, 'c) world, int) act" where
  "upd_block T ks ds cs files uid sk block_file_name block_meta_data =
     act_bind (create_user cs uid (Some sk)) (\<lambda>u.
       if u = None then act_ret 1
       else (case read_whole_file files block_file_name of
          None \<Rightarrow> act_undefined
        | Some (Inl e) \<Rightarrow> act_ret 1
        | Some (Inr new_data) \<Rightarrow>
            load_block T ks ds cs u block_file_name 1 (\<lambda>bl.
              act_bind (on_rand (mid_hermes_ll_block_update T (Some bl) (new_buffer new_data)
                  (new_buffer (str_bytes block_meta_data)))) (\<lambda>(ok, bl).
                if \<not> ok then act_ret 1
                else act_bind (mid_hermes_ll_block_save bl None (Some ds) (Some ks)) (\<lambda>(ok, bl).
                  act_ret (if \<not> ok then 1 else 0))))))"

definition del_block ::
    "('r, 'h) themis \<Rightarrow> 'k hermes_key_store \<Rightarrow> 'd hermes_data_store \<Rightarrow> 'c hermes_credential_store \<Rightarrow>
     string \<Rightarrow> string \<Rightarrow> string \<Rightarrow> (('r, 'k, 'd, 'c) world, int) act" where
  "del_block T ks ds cs uid sk block_file_name =
     act_bind (create_user cs uid (Some sk)) (\<lambda>u.
       if u = None then act_ret 1
       else load_block T ks ds cs u block_file_name 1 (\<lambda>bl.
         act_bind (mid_hermes_ll_block_delete (Some bl) None (Some ds) (Some ks)) (\<lambda>(ok, bl).
           act_ret (if \<not> ok then 1 else 0))))"

text \<open>The result has the user's files afterwards: two files with the data and the meta data of the block.\<close>

definition write_files :: "fnode \<Rightarrow> string \<Rightarrow> bytes \<Rightarrow> bytes \<Rightarrow> (int \<times> fnode) option" where
  "write_files files block_file_name d m =
     (if 256 \<le> length (block_file_name @ ''_block'') then None
      else (case write_whole_file files (block_file_name @ ''_block'') d of
         (st, files) \<Rightarrow>
           if st \<noteq> 0 then Some (1, files)
           else (case write_whole_file files (block_file_name @ ''_meta'') m of
             (st, files) \<Rightarrow> if st \<noteq> 0 then Some (1, files) else Some (0, files))))"

definition export_block :: "fnode \<Rightarrow> string \<Rightarrow> mid_hermes_ll_block \<Rightarrow> (int \<times> fnode) option" where
  "export_block files block_file_name bl =
     (case (bl_data bl, bl_meta bl) of
        (Some d, Some m) \<Rightarrow> write_files files block_file_name (buf_bytes (bdata d)) (buf_bytes (bdata m))
      | _ \<Rightarrow> None)"

definition cmd_get_block ::
    "('r, 'h) themis \<Rightarrow> 'k hermes_key_store \<Rightarrow> 'd hermes_data_store \<Rightarrow> 'c hermes_credential_store \<Rightarrow> fnode \<Rightarrow>
     string \<Rightarrow> string \<Rightarrow> string \<Rightarrow> (('r, 'k, 'd, 'c) world, int \<times> fnode) act" where
  "cmd_get_block T ks ds cs files uid sk block_file_name =
     act_assert (create_user cs uid (Some sk)) (\<lambda>u.
       load_block T ks ds cs u block_file_name (1, files) (\<lambda>bl.
         (case export_block files block_file_name bl of None \<Rightarrow> act_undefined | Some res \<Rightarrow> act_ret res)))"

subsection \<open>Access\<close>

definition grant_read ::
    "('r, 'h) themis \<Rightarrow> 'k hermes_key_store \<Rightarrow> 'd hermes_data_store \<Rightarrow> 'c hermes_credential_store \<Rightarrow>
     string \<Rightarrow> string \<Rightarrow> string \<Rightarrow> string \<Rightarrow> (('r, 'k, 'd, 'c) world, int) act" where
  "grant_read T ks ds cs uid sk block_file_name for_user_id =
     act_assert (create_user cs uid (Some sk)) (\<lambda>u.
       load_block T ks ds cs u block_file_name 1 (\<lambda>bl.
         act_bind (create_user cs for_user_id None) (\<lambda>for_u.
         act_bind (on_rand (mid_hermes_ll_block_rtoken_for T (Some bl) for_u)) (\<lambda>rtoken.
           if rtoken = None then act_ret 1
           else act_bind (on_keys (mid_hermes_ll_token_save (bl_user bl) (bl_id bl) rtoken (Some ks) False)) (\<lambda>st.
             act_ret (if HM_SUCCESS \<noteq> st then 1 else 0))))))"

text \<open>The other three commands need the update token of the block, and differ in what they do in the key store.\<close>

definition as_writer ::
    "('r, 'h) themis \<Rightarrow> 'k hermes_key_store \<Rightarrow> 'd hermes_data_store \<Rightarrow> 'c hermes_credential_store \<Rightarrow>
     string \<Rightarrow> string \<Rightarrow> string \<Rightarrow> string \<Rightarrow>
     (mid_hermes_ll_block \<Rightarrow> user_ptr \<Rightarrow> user_ptr \<Rightarrow> token_ptr \<Rightarrow> ('k, status) act) \<Rightarrow> (('r, 'k, 'd, 'c) world, int) act" where
  "as_writer T ks ds cs uid sk block_file_name for_user_id change =
     act_assert (create_user cs uid (Some sk)) (\<lambda>u.
       load_block T ks ds cs u block_file_name 1 (\<lambda>bl.
         if bl_wtoken bl = None then act_ret 1
         else act_bind (create_user cs for_user_id None) (\<lambda>for_u.
           if for_u = None then act_ret 1
           else act_bind (on_rand (mid_hermes_ll_block_wtoken_for T (Some bl) for_u)) (\<lambda>wtoken.
             if wtoken = None then act_ret 1
             else act_bind (on_keys (change bl u for_u wtoken)) (\<lambda>st.
               act_ret (if HM_SUCCESS \<noteq> st then 1 else 0))))))"

definition grant_update ::
    "('r, 'h) themis \<Rightarrow> 'k hermes_key_store \<Rightarrow> 'd hermes_data_store \<Rightarrow> 'c hermes_credential_store \<Rightarrow>
     string \<Rightarrow> string \<Rightarrow> string \<Rightarrow> string \<Rightarrow> (('r, 'k, 'd, 'c) world, int) act" where
  "grant_update T ks ds cs uid sk block_file_name for_user_id =
     as_writer T ks ds cs uid sk block_file_name for_user_id (\<lambda>bl u for_u wtoken.
       mid_hermes_ll_token_save (bl_user bl) (bl_id bl) wtoken (Some ks) True)"

definition deny_read ::
    "('r, 'h) themis \<Rightarrow> 'k hermes_key_store \<Rightarrow> 'd hermes_data_store \<Rightarrow> 'c hermes_credential_store \<Rightarrow>
     string \<Rightarrow> string \<Rightarrow> string \<Rightarrow> string \<Rightarrow> (('r, 'k, 'd, 'c) world, int) act" where
  "deny_read T ks ds cs uid sk block_file_name for_user_id =
     as_writer T ks ds cs uid sk block_file_name for_user_id (\<lambda>bl u for_u wtoken.
       mid_hermes_ll_token_del for_u u (bl_id bl) (Some ks) False)"

definition deny_update ::
    "('r, 'h) themis \<Rightarrow> 'k hermes_key_store \<Rightarrow> 'd hermes_data_store \<Rightarrow> 'c hermes_credential_store \<Rightarrow>
     string \<Rightarrow> string \<Rightarrow> string \<Rightarrow> string \<Rightarrow> (('r, 'k, 'd, 'c) world, int) act" where
  "deny_update T ks ds cs uid sk block_file_name for_user_id =
     as_writer T ks ds cs uid sk block_file_name for_user_id (\<lambda>bl u for_u wtoken.
       mid_hermes_ll_token_del for_u u (bl_id bl) (Some ks) True)"

definition rotate_block ::
    "('r, 'h) themis \<Rightarrow> 'k hermes_key_store \<Rightarrow> 'd hermes_data_store \<Rightarrow> 'c hermes_credential_store \<Rightarrow>
     string \<Rightarrow> string \<Rightarrow> string \<Rightarrow> (('r, 'k, 'd, 'c) world, int) act" where
  "rotate_block T ks ds cs uid sk block_file_name =
     act_assert (create_user cs uid (Some sk)) (\<lambda>u.
       load_block T ks ds cs u block_file_name 1 (\<lambda>bl.
         act_bind (mid_hermes_ll_block_access_rights (Some bl) (Some ks) (Some cs)) (\<lambda>rl.
           if rl = None then act_ret 1
           else act_bind (on_rand (mid_hermes_ll_block_rotate T (Some bl) rl)) (\<lambda>(ok, bl, rl).
             if \<not> ok then act_ret 1
             else act_bind (mid_hermes_ll_block_save bl rl (Some ds) (Some ks)) (\<lambda>(ok, bl).
               act_ret (if \<not> ok then 1 else 0))))))"

subsection \<open>Commands are Mid-Hermes operations\<close>

text \<open>\<open>exit_of\<close> is the exit status for the status of the operation.\<close>

definition exit_of :: "status \<Rightarrow> int" where
  "exit_of st = (if st = HM_SUCCESS then 0 else 1)"

lemma exit_of_simps [simp]: "exit_of HM_SUCCESS = 0" "exit_of HM_FAIL = 1" "exit_of 1 = 1" "exit_of 0 = 0"
  by (simp_all add: exit_of_def) (simp_all add: HM_SUCCESS_def)

context mid_stores
begin

lemma own_user:
  assumes "acting key_pair w (str_bytes uid) ssk pk" "string_to_buf sk = Some ssk"
  shows "create_user cs uid (Some sk) w = Some (Some (local_user (str_bytes uid) ssk pk), w)"
  using get_pub [OF winvD(1) [OF actingD(1) [OF assms(1)]] actingD(2) [OF assms(1)]] actingD [OF assms(1)] assms(2)
  by (auto simp: create_user_def act_simps local_user_create_eq new_buffer_def mid_hermes_ll_buffer_create_def)

lemma other_user:
  assumes "winv w" "uid_ok (str_bytes v)"
  shows "create_user cs v None w = Some (map_option (remote_user (str_bytes v)) (pub (cred_state w) (str_bytes v)), w)"
  using get_pub [OF winvD(1) [OF assms(1)] assms(2)] pub_ok [OF winvD(1) [OF assms(1)], of "str_bytes v"] uid_nonempty [OF assms(2)]
  by (auto simp: create_user_def act_simps user_create_eq new_buffer_def mid_hermes_ll_buffer_create_def split: option.splits)

lemma load_block_eq:
  assumes "acting key_pair w u ssk pk"
  shows "load_block T ks ds cs (Some (local_user u ssk pk)) name failed k w =
    with_loaded T (stores (local_user u ssk pk)) (Some (str_bytes name)) failed failed k w"
  using actingD(4,6) [OF assms]
  by (simp add: load_block_def with_loaded_def user_copy_eq new_buffer_def)

text \<open>A block that the user has a read token for is loaded, any other is not.\<close>

lemma load_block_run:
  assumes "mid_inv T key_pair w s" "acting key_pair w u ssk pk" "bid_ok (str_bytes name)"
  obtains (denied) "rt (key_state w) (str_bytes name, u) = None"
      "\<And>failed k. load_block T ks ds cs (Some (local_user u ssk pk)) name failed k w = Some (failed, w)"
  | (found) e mac d m kr kw where "rt (key_state w) (str_bytes name, u) \<noteq> None" "content s (str_bytes name) = Some (d, m)"
      "state_at T key_pair w (str_bytes name) kr kw d m" "blk (data_state w) (str_bytes name) = Some (e, m, mac)"
      "\<And>failed k. load_block T ks ds cs (Some (local_user u ssk pk)) name failed k w =
        k (loaded w u (local_user u ssk pk) (str_bytes name) e mac d m) w"
proof (cases "rt (key_state w) (str_bytes name, u) = None")
  case True
  show ?thesis
    by (rule denied [OF True]) (simp add: load_block_eq [OF assms(2)] with_loaded_denied [OF assms(2,3) True])
next
  case False
  obtain d m kr kw where at: "content s (str_bytes name) = Some (d, m)" "state_at T key_pair w (str_bytes name) kr kw d m"
    by (rule mid_inv_block [OF assms(1) disjI1 [OF False]])
  obtain e mac where st: "blk (data_state w) (str_bytes name) = Some (e, m, mac)"
    using at(2) by (rule state_at_stored)
  show ?thesis
    by (rule found [OF False at st]) (simp add: load_block_eq [OF assms(2)] with_loaded_run [OF assms(2,3) at(2) False st])
qed

text \<open>The situation of a command: its user, with his private key, and the block it is about.\<close>

definition commanding ::
    "('r, 'h) themis \<Rightarrow> (bytes \<Rightarrow> bytes \<Rightarrow> bool) \<Rightarrow> ('r, 'k, 'd, 'c) world \<Rightarrow> mid_spec \<Rightarrow> string \<Rightarrow> string \<Rightarrow> string \<Rightarrow>
     bytes \<Rightarrow> bytes \<Rightarrow> bool" where
  "commanding T key_pair w s uid sk name ssk pk \<longleftrightarrow> mid_inv T key_pair w s \<and>
     acting key_pair w (str_bytes uid) ssk pk \<and> string_to_buf sk = Some ssk \<and> bid_ok (str_bytes name)"

lemma commandingD:
  assumes "commanding T key_pair w s uid sk name ssk pk"
  shows "mid_inv T key_pair w s" "acting key_pair w (str_bytes uid) ssk pk" "string_to_buf sk = Some ssk"
    "bid_ok (str_bytes name)" "create_user cs uid (Some sk) w = Some (Some (local_user (str_bytes uid) ssk pk), w)"
  using assms own_user [of key_pair w uid ssk pk sk] by (simp_all add: commanding_def)

abbreviation user_stores :: "string \<Rightarrow> bytes \<Rightarrow> bytes \<Rightarrow> ('k, 'd, 'c) mid_hermes option" where
  "user_stores uid ssk pk \<equiv> Some (stores (local_user (str_bytes uid) ssk pk))"

lemma grant_read_eq:
  assumes c: "commanding T key_pair w s uid sk name ssk pk" and v: "uid_ok (str_bytes v)"
  shows "grant_read T ks ds cs uid sk name v w =
    act_map exit_of (mid_hermes_grant_read_access T (user_stores uid ssk pk) (Some (str_bytes name)) (Some (str_bytes v))) w"
proof (rule load_block_run [OF commandingD(1) [OF c] commandingD(2) [OF c] commandingD(4) [OF c]])
  note d = commandingD [OF c]
  assume "rt (key_state w) (str_bytes name, str_bytes uid) = None"
    "\<And>(failed :: int) k. load_block T ks ds cs (Some (local_user (str_bytes uid) ssk pk)) name failed k w = Some (failed, w)"
  then show ?thesis
    by (simp add: grant_read_def act_assert_def act_simps d(5) mid_hermes_grant_read_access_def act_map_run
        change_access_denied [OF d(2,4) v])
next
  note d = commandingD [OF c]
  fix e mac dt m kr kw
  assume at: "rt (key_state w) (str_bytes name, str_bytes uid) \<noteq> None"
    "state_at T key_pair w (str_bytes name) kr kw dt m" "blk (data_state w) (str_bytes name) = Some (e, m, mac)"
    and load: "\<And>(failed :: int) k. load_block T ks ds cs (Some (local_user (str_bytes uid) ssk pk)) name failed k w =
      k (loaded w (str_bytes uid) (local_user (str_bytes uid) ssk pk) (str_bytes name) e mac dt m) w"
  show ?thesis
    unfolding mid_hermes_grant_read_access_def act_map_run change_access_run [OF d(2,4) v at(2,1,3)]
    by (auto simp: grant_read_def act_assert_def act_simps d(5) load other_user [OF mid_invD(1) [OF d(1)] v]
        mid_hermes_ll_block_rtoken_for_def exit_of_def split: option.splits)
qed

lemma as_writer_eq:
  assumes c: "commanding T key_pair w s uid sk name ssk pk" and v: "uid_ok (str_bytes v)"
    and ch: "\<And>bl for_u t. bl_user bl = Some (local_user (str_bytes uid) ssk pk) \<Longrightarrow>
      change bl (Some (local_user (str_bytes uid) ssk pk)) for_u t = ch bl for_u t"
  shows "as_writer T ks ds cs uid sk name v change w =
    act_map exit_of (change_access T (user_stores uid ssk pk) (Some (str_bytes name)) (Some (str_bytes v))
      (mid_hermes_ll_block_wtoken_for T) ch) w"
proof (rule load_block_run [OF commandingD(1) [OF c] commandingD(2) [OF c] commandingD(4) [OF c]])
  note d = commandingD [OF c]
  assume "rt (key_state w) (str_bytes name, str_bytes uid) = None"
    "\<And>(failed :: int) k. load_block T ks ds cs (Some (local_user (str_bytes uid) ssk pk)) name failed k w = Some (failed, w)"
  then show ?thesis
    by (simp add: as_writer_def act_assert_def act_simps d(5) act_map_run change_access_denied [OF d(2,4) v])
next
  note d = commandingD [OF c]
  fix e mac dt m kr kw
  assume at: "rt (key_state w) (str_bytes name, str_bytes uid) \<noteq> None"
    "state_at T key_pair w (str_bytes name) kr kw dt m" "blk (data_state w) (str_bytes name) = Some (e, m, mac)"
    and load: "\<And>(failed :: int) k. load_block T ks ds cs (Some (local_user (str_bytes uid) ssk pk)) name failed k w =
      k (loaded w (str_bytes uid) (local_user (str_bytes uid) ssk pk) (str_bytes name) e mac dt m) w"
  show ?thesis
    unfolding act_map_run change_access_run [OF d(2,4) v at(2,1,3)]
    by (auto simp: as_writer_def act_assert_def act_simps d(5) load other_user [OF mid_invD(1) [OF d(1)] v]
        mid_hermes_ll_block_wtoken_for_def exit_of_def ch split: option.splits)
qed

lemma grant_update_eq:
  assumes "commanding T key_pair w s uid sk name ssk pk" "uid_ok (str_bytes v)"
  shows "grant_update T ks ds cs uid sk name v w =
    act_map exit_of (mid_hermes_grant_update_access T (user_stores uid ssk pk) (Some (str_bytes name)) (Some (str_bytes v))) w"
  unfolding grant_update_def mid_hermes_grant_update_access_def by (rule as_writer_eq [OF assms]) simp

lemma deny_read_eq:
  assumes "commanding T key_pair w s uid sk name ssk pk" "uid_ok (str_bytes v)"
  shows "deny_read T ks ds cs uid sk name v w =
    act_map exit_of (mid_hermes_deny_read_access T (user_stores uid ssk pk) (Some (str_bytes name)) (Some (str_bytes v))) w"
  unfolding deny_read_def mid_hermes_deny_read_access_def by (rule as_writer_eq [OF assms]) simp

lemma deny_update_eq:
  assumes "commanding T key_pair w s uid sk name ssk pk" "uid_ok (str_bytes v)"
  shows "deny_update T ks ds cs uid sk name v w =
    act_map exit_of (mid_hermes_deny_update_access T (user_stores uid ssk pk) (Some (str_bytes name)) (Some (str_bytes v))) w"
  unfolding deny_update_def mid_hermes_deny_update_access_def by (rule as_writer_eq [OF assms]) simp

lemma upd_block_eq:
  assumes c: "commanding T key_pair w s uid sk name ssk pk"
    and data: "read_whole_file files name = Some (Inr dt)" "dt \<noteq> []" "str_bytes meta \<noteq> []"
  shows "upd_block T ks ds cs files uid sk name meta w =
    act_map exit_of (mid_hermes_update_block T (user_stores uid ssk pk) (Some (str_bytes name)) (Some dt) (Some (str_bytes meta))) w"
proof -
  note d = commandingD [OF c]
  show ?thesis
    using bid_present [OF d(4)] data
    by (auto simp: upd_block_def mid_hermes_update_block_def act_simps d(5) load_block_eq [OF d(2)] Let_def
        with_loaded_def act_map_run new_buffer_def user_copy_eq actingD(4,6) [OF d(2)] exit_of_def HM_SUCCESS_def
        split: option.splits)
qed

text \<open>Reading writes what the block holds to the files of the user.\<close>

lemma get_block_eq:
  assumes c: "commanding T key_pair w s uid sk name ssk pk" and n: "length name + 6 < 256"
  shows "cmd_get_block T ks ds cs files uid sk name w =
    map_option (\<lambda>(res, w). (case res of Inl e \<Rightarrow> (1, files)
        | Inr (dt, m) \<Rightarrow> the (write_files files name (buf_bytes dt) (buf_bytes m)), w))
      (mid_hermes_read_block T (user_stores uid ssk pk) (Some (str_bytes name)) w)"
proof (rule load_block_run [OF commandingD(1) [OF c] commandingD(2) [OF c] commandingD(4) [OF c]])
  note d = commandingD [OF c]
  assume r: "rt (key_state w) (str_bytes name, str_bytes uid) = None"
    and "\<And>(failed :: int \<times> fnode) k. load_block T ks ds cs (Some (local_user (str_bytes uid) ssk pk)) name failed k w =
      Some (failed, w)"
  then show ?thesis
    by (simp add: cmd_get_block_def act_assert_def act_simps d(5) read_denied [OF d(2,4) r])
next
  note d = commandingD [OF c]
  fix e mac dt m kr kw
  assume at: "rt (key_state w) (str_bytes name, str_bytes uid) \<noteq> None"
    "state_at T key_pair w (str_bytes name) kr kw dt m" "blk (data_state w) (str_bytes name) = Some (e, m, mac)"
    and load: "\<And>(failed :: int \<times> fnode) k. load_block T ks ds cs (Some (local_user (str_bytes uid) ssk pk)) name failed k w =
      k (loaded w (str_bytes uid) (local_user (str_bytes uid) ssk pk) (str_bytes name) e mac dt m) w"
  show ?thesis
    using n
    by (simp add: cmd_get_block_def act_assert_def act_simps d(5) load read_run [OF d(2,4) at(2,1)] export_block_def
        new_buffer_def mid_hermes_ll_buffer_create_def write_files_def split: prod.split)
qed

end

subsection \<open>Creating a block under a name\<close>

text \<open>The contract of stores that let the caller choose the id of a new block, and take every token.\<close>

locale mid_stores_named =
  mid_stores cs cinv pub uid_ok ks kinv rt wt bid_ok tok_ok full ufull ds dinv blk dat_ok fits fresh
  for cs :: "'c hermes_credential_store" and cinv pub uid_ok
    and ks :: "'k hermes_key_store" and kinv rt wt bid_ok tok_ok full ufull
    and ds :: "'d hermes_data_store" and dinv blk dat_ok fits fresh +
  assumes set_named: "dinv s \<Longrightarrow> bid_ok i \<Longrightarrow> dat_ok e \<Longrightarrow> dat_ok m \<Longrightarrow> dat_ok mac \<Longrightarrow>
      \<exists>st s'. ds_set_block ds (Some i) (Some e) (Some m) (Some mac) None s = Some ((st, Some i), s') \<and> dinv s' \<and>
        (if st = HM_SUCCESS then blk s i = None \<and> blk s' = (blk s)(i \<mapsto> (e, m, mac))
         else blk s i \<noteq> None \<and> blk s' = blk s)"
    and set_r_taken: "kinv k \<Longrightarrow> uid_ok u \<Longrightarrow> bid_ok b \<Longrightarrow> tok_ok t \<Longrightarrow> uid_ok x \<Longrightarrow>
      \<exists>k'. ks_set_rtoken ks (Some u) (Some b) (Some t) (Some x) k = Some (HM_SUCCESS, k')"
    and set_w_taken: "kinv k \<Longrightarrow> uid_ok u \<Longrightarrow> bid_ok b \<Longrightarrow> tok_ok t \<Longrightarrow> uid_ok x \<Longrightarrow>
      \<exists>k'. ks_set_wtoken ks (Some u) (Some b) (Some t) (Some x) k = Some (HM_SUCCESS, k')"
begin

lemma save_keys_taken:
  assumes "kinv s" "uid_ok u" "bid_ok i" "tok_ok tr" "tok_ok tw" "bl_id bl = Some \<lparr>bdata = Some i\<rparr>"
    and "bl_rtoken bl = Some (wrapped_for usr usr tr)" "bl_wtoken bl = Some (wrapped_for usr usr tw)"
    "user_id usr = Some \<lparr>bdata = Some u\<rparr>"
    and "save_keys bl None (Some ks) s = Some ((ok, x), s')"
  shows ok
proof -
  obtain s1 where r: "ks_set_rtoken ks (Some u) (Some i) (Some tr) (Some u) s = Some (HM_SUCCESS, s1)"
    using set_r_taken [OF assms(1-4,2)] by blast
  have "kinv s1" using set_r [OF assms(1-4,2)] r by auto
  from set_w_taken [OF this assms(2,3,5,2)]
  obtain s2 where "ks_set_wtoken ks (Some u) (Some i) (Some tw) (Some u) s1 = Some (HM_SUCCESS, s2)" by blast
  with r assms(6-10) show ?thesis
    by (simp add: save_keys_def act_check_def act_bind_run mid_hermes_ll_rtoken_save_def
        mid_hermes_ll_wtoken_save_def save_token_def)
qed

lemma save_data_named:
  assumes "dinv s" "dat_ok e" "dat_ok m" "dat_ok mac" "bid_ok i"
    and "bl_id bl = new_buffer i" "bl_block bl = new_buffer e" "bl_meta bl = new_buffer m"
    "bl_mac bl = new_buffer mac" "bl_old_mac bl = None"
  obtains ok s' where "save_data bl ds s = Some ((ok, bl), s')" "dinv s'"
    "if ok then blk s i = None \<and> blk s' = (blk s)(i \<mapsto> (e, m, mac)) else blk s i \<noteq> None \<and> blk s' = blk s"
proof -
  obtain st s' where r: "ds_set_block ds (Some i) (Some e) (Some m) (Some mac) None s = Some ((st, Some i), s')" "dinv s'"
      "if st = HM_SUCCESS then blk s i = None \<and> blk s' = (blk s)(i \<mapsto> (e, m, mac)) else blk s i \<noteq> None \<and> blk s' = blk s"
    using set_named [OF assms(1,5,2-4)] by blast
  have "bl\<lparr>bl_id := Some \<lparr>bdata = Some i\<rparr>, bl_old_mac := None\<rparr> = bl" "bl\<lparr>bl_id := Some \<lparr>bdata = Some i\<rparr>\<rparr> = bl"
    using assms(6,10) by (cases bl; simp add: new_buffer_eq)+
  then have "save_data bl ds s = Some ((st = HM_SUCCESS, bl), s')"
    using assms(6-10) r(1)
    by (simp add: save_data_def Let_def act_bind_run new_buffer_def mid_hermes_ll_buffer_create_def)
  then show ?thesis using that [of "st = HM_SUCCESS" s'] r(2,3) by simp
qed

lemma add_block_step:
  assumes c: "commanding T key_pair w s uid sk name ssk pk" and T: "crypto_ok T key_pair plain_ok"
    and data: "read_whole_file files name = Some (Inr d)" "plain_ok d" "d \<noteq> []" "dat_ok (str_bytes meta)"
  obtains st w' s' where "add_block T ks ds cs files uid sk name meta w = Some (exit_of st, w')"
    "cred_state w' = cred_state w" "mid_inv T key_pair w' s'"
    "mid_step s (str_bytes uid) (MCreate d (str_bytes meta))
      (MId (st, if st = HM_SUCCESS then Some (str_bytes name) else None)) s'"
    "content s (str_bytes name) = None \<longrightarrow> st = HM_SUCCESS"
proof -
  let ?u = "local_user (str_bytes uid) ssk pk" and ?i = "str_bytes name" and ?m = "str_bytes meta"
  note cd = commandingD [OF c]
  note a = actingD [OF cd(2)] and ws = winvD [OF actingD(1) [OF cd(2)]]
  have W: "works T key_pair" "themis_laws T key_pair" "outputs_ok T tok_ok plain_ok dat_ok"
    using T by (simp_all add: crypto_ok_def)
  obtain bl r' where bl: "mid_hermes_ll_block_create T (Some ?u) (new_buffer ?i) (new_buffer d) (new_buffer ?m) None None
      (rand_state w) = Some (Some bl, r')"
    by (rule block_create_works [OF W(1,3,2) a(7,4,5,6) data(3)])
  obtain kr kw er ew e mac where form:
    "bl = \<lparr>bl_user = Some ?u, bl_id = new_buffer ?i, bl_block = new_buffer e, bl_data = new_buffer d,
      bl_meta = new_buffer ?m, bl_old_mac = None, bl_mac = new_buffer mac,
      bl_rtoken = Some (wrapped_for ?u ?u er), bl_wtoken = Some (wrapped_for ?u ?u ew)\<rparr>"
    and sealed: "hm_decrypt T (Some kr) (Some e) (Some ?m) True = Inr d"
      "hm_mac_create T (Some kw) (Some d) (Some ?m) True = Inr mac"
      "length kr = HM_TOKEN_LEN" "length kw = HM_TOKEN_LEN"
    and ok: "tok_ok er" "tok_ok ew" "dat_ok e" "dat_ok mac"
    and opens: "opens_for T key_pair pk er pk kr" "opens_for T key_pair pk ew pk kw"
    by (rule block_create_form [OF W(2) a(7,4,5,6) W(3) data(2) bl]) blast
  obtain dok sd where sd: "save_data bl ds (data_state w) = Some ((dok, bl), sd)" "dinv sd"
      "if dok then blk (data_state w) ?i = None \<and> blk sd = (blk (data_state w))(?i \<mapsto> (e, ?m, mac))
       else blk (data_state w) ?i \<noteq> None \<and> blk sd = blk (data_state w)"
    by (rule save_data_named [OF ws(3) ok(3) data(4) ok(4) cd(4), of bl]) (simp_all add: form)
  have run: "add_block T ks ds cs files uid sk name meta w = Some (exit_of (if ok then HM_SUCCESS else HM_FAIL), w')"
    if "mid_hermes_ll_block_save (Some bl) None (Some ds) (Some ks) (w\<lparr>rand_state := r'\<rparr>) = Some ((ok, x), w')" for ok x w'
    using that data(1) bl cd(5)
    by (simp add: add_block_def cmd_write_block_def act_assert_def act_simps)
  show ?thesis
  proof (cases dok)
    case False
    let ?w = "w\<lparr>rand_state := r', data_state := sd\<rparr>"
    have "add_block T ks ds cs files uid sk name meta w = Some (exit_of HM_FAIL, ?w)"
      using run [of False "Some bl" ?w] False sd(1) by (simp add: mid_hermes_ll_block_save_def act_simps)
    moreover have "mid_inv T key_pair ?w s"
      by (rule mid_inv_same [OF cd(1)]) (use ws sd(2,3) False in \<open>simp_all add: winv_def\<close>)
    moreover have "content s ?i \<noteq> None" using mid_invD(4) [OF cd(1), of ?i] sd(3) False by (cases "content s ?i") simp_all
    ultimately show ?thesis
      by (intro that [of HM_FAIL ?w s]) (simp_all add: mid_step.create_failed)
  next
    case True
    have bl_id: "bl\<lparr>bl_id := Some \<lparr>bdata = Some ?i\<rparr>\<rparr> = bl" by (simp add: form new_buffer_eq)
    obtain kok w' where save: "mid_hermes_ll_block_save (Some bl) None (Some ds) (Some ks) (w\<lparr>rand_state := r'\<rparr>) =
        Some ((kok, Some (bl\<lparr>bl_id := Some \<lparr>bdata = Some ?i\<rparr>\<rparr>)), w')"
      "winv w'" "cred_state w' = cred_state w" "created T key_pair (str_bytes uid) pk d ?m w w' ?i kok"
      by (rule save_created_run [OF cd(2) form sealed ok(1,2) opens _ sd(2) cd(4), of r'])
        (use sd(1,3) True in \<open>simp_all add: bl_id\<close>)
    have sd': "save_data bl ds (data_state w) = Some ((True, bl), sd)" using sd(1) True by simp
    then obtain k' where "save_keys bl None (Some ks) (key_state w) = Some ((kok, bl), k')"
      using save(1) unfolding bl_id by (auto simp: mid_hermes_ll_block_save_def act_simps split: option.splits)
    then have kok: kok
      by (rule save_keys_taken [OF ws(2) a(2) cd(4) ok(1,2), of bl ?u, rotated -1]) (simp_all add: form new_buffer_eq)
    obtain s' where "mid_inv T key_pair w' s'" "mid_step s (str_bytes uid) (MCreate d ?m)
        (MId (if kok then (HM_SUCCESS, Some ?i) else (HM_FAIL, None))) s'"
      by (rule created_step [OF cd(1,2) save(2-4)])
    then show ?thesis
      using that [of HM_SUCCESS w' s'] run [OF save(1)] save(3) kok by simp
  qed
qed

text \<open>A reader can grant reading to everybody whose keys match.\<close>

lemma grant_read_taken:
  assumes c: "commanding T key_pair w s uid sk name ssk pk" and T: "crypto_ok T key_pair plain_ok"
    and v: "uid_ok (str_bytes v)" "known key_pair (pub (cred_state w)) (str_bytes v) skv pkv"
    and rd: "(str_bytes name, str_bytes uid) \<in> readers s"
    and run: "grant_read T ks ds cs uid sk name v w = Some (x, w')"
  shows "x = 0"
proof -
  let ?u = "local_user (str_bytes uid) ssk pk" and ?i = "str_bytes name"
  note d = commandingD [OF c]
  have W: "works T key_pair" "themis_laws T key_pair" "outputs_ok T tok_ok plain_ok dat_ok"
    using T by (simp_all add: crypto_ok_def)
  have held: "rt (key_state w) (?i, str_bytes uid) \<noteq> None" using rd mid_invD(2) [OF d(1)] by auto
  obtain dt m kr kw where at: "state_at T key_pair w ?i kr kw dt m"
    by (rule mid_inv_block [OF d(1) disjI1 [OF held]])
  obtain e mac where st: "blk (data_state w) ?i = Some (e, m, mac)"
    using at by (rule state_at_stored)
  obtain t where t: "loaded_token rt w ?u (str_bytes uid) ?i = Some t" "token_opens T (Some t) kr" "token_user t = Some ?u"
    using loaded_opens(1) [OF d(2) at held] by blast
  show ?thesis
  proof (rule change_access_keys [OF d(2,4) v(1) at held st W(2,3) _ t(2,3) state_at_keys(3) [OF at],
        of "mid_hermes_ll_block_rtoken_for T" "\<lambda>bl for_user read_token. mid_hermes_ll_token_save (bl_user bl)
          (bl_id bl) read_token (mh_ks (the (Some (stores ?u)))) False" "\<lambda>x st s'. st = HM_SUCCESS"], goal_cases)
    case (2 y pkv)
    note ws = winvD(2) [OF actingD(1) [OF d(2)]]
    obtain k' where "ks_set_rtoken ks (Some (str_bytes v)) (Some ?i) (Some y) (Some (str_bytes uid)) (key_state w) =
        Some (HM_SUCCESS, k')" using set_r_taken [OF ws v(1) d(4) 2 actingD(2) [OF d(2)]] by blast
    moreover from this have "kinv k'" using set_r [OF ws v(1) d(4) 2 actingD(2) [OF d(2)]] by auto
    ultimately show ?case by (simp add: mid_hermes_ll_token_save_def set_token_fn_def)
  next
    case (3 st w'')
    then have "st = HM_SUCCESS" using W(1) v(2) by auto
    with 3(1) run show ?case
      by (simp add: grant_read_eq [OF c v(1)] act_map_run mid_hermes_grant_read_access_def)
  qed (simp add: mid_hermes_ll_block_rtoken_for_def t(1))
qed

end

end
