(* ===== verification/Low_Level_Program.thy ===== *)
theory Low_Level_Program
  imports Low_Level_Stores Low_Level_Commands Mid_Demo
begin

section \<open>The low-level command line program\<close>

text \<open>
  \<^verbatim>\<open>docs/examples/c/mid_hermes_low_level/main.c\<close>: the program, which opens the three local stores and runs the
  command that its arguments name.  Each run is a process of its own; what stays between two runs are the
  trees of the stores.

  The interpretation \<open>local_sys\<close> puts the contracts of the three stores together.  The theorem says that a
  session of runs by registered users is a run of the access control specification, in which the blocks
  have the names of the files they were made of.
\<close>

subsection \<open>The program\<close>

type_synonym 'r local_world = "('r, file_db, block_files, cred_files) world"

definition init_stores :: "'r local_world \<Rightarrow> 'r local_world option" where
  "init_stores w = do {
     ks \<leftarrow> local_key_store_create (db_root (key_state w));
     ds \<leftarrow> local_data_store_create (ds_root (data_state w)) (ds_rands (data_state w));
     cs \<leftarrow> local_credential_store_create (cs_root (cred_state w));
     Some (w\<lparr>key_state := ks, data_state := ds, cred_state := cs\<rparr>) }"

text \<open>The result of a command that leaves the files of the user alone.\<close>

definition keep_files :: "fnode \<Rightarrow> ('w, int) act \<Rightarrow> ('w, int \<times> fnode) act" where
  "keep_files files m = act_bind m (\<lambda>st. act_ret (st, files))"

text \<open>The chain of \<^verbatim>\<open>strcmp\<close> in \<^verbatim>\<open>main\<close>: the command named, with its arguments, if there are as many as it takes.\<close>

definition dispatch ::
    "('r, 'h) themis \<Rightarrow> string list \<Rightarrow> fnode \<Rightarrow> ('r local_world, int \<times> fnode) act" where
  "dispatch T argv files =
     (let cmd = argv ! 1; run = (\<lambda>argc m. if length argv \<noteq> argc then act_ret (1, files) else m);
          ks = local_key_store; ds = local_data_store; cs = local_credential_store in
      if cmd = ''read_block'' then run 5 (cmd_get_block T ks ds cs files (argv ! 2) (argv ! 3) (argv ! 4))
      else if cmd = ''add_block'' then
        run 6 (keep_files files (add_block T ks ds cs files (argv ! 2) (argv ! 3) (argv ! 4) (argv ! 5)))
      else if cmd = ''update_block'' then
        run 6 (keep_files files (upd_block T ks ds cs files (argv ! 2) (argv ! 3) (argv ! 4) (argv ! 5)))
      else if cmd = ''delete_block'' then
        run 5 (keep_files files (del_block T ks ds cs (argv ! 2) (argv ! 3) (argv ! 4)))
      else if cmd = ''grant_read'' then
        run 6 (keep_files files (grant_read T ks ds cs (argv ! 2) (argv ! 3) (argv ! 4) (argv ! 5)))
      else if cmd = ''grant_update'' then
        run 6 (keep_files files (grant_update T ks ds cs (argv ! 2) (argv ! 3) (argv ! 4) (argv ! 5)))
      else if cmd = ''revoke_read'' then
        run 6 (keep_files files (deny_read T ks ds cs (argv ! 2) (argv ! 3) (argv ! 4) (argv ! 5)))
      else if cmd = ''revoke_update'' then
        run 6 (keep_files files (deny_update T ks ds cs (argv ! 2) (argv ! 3) (argv ! 4) (argv ! 5)))
      else act_ret (1, files))"

text \<open>The exit status of the program, the files of the user and the stores.\<close>

definition ll_main :: "('r, 'h) themis \<Rightarrow> string list \<Rightarrow> fnode \<Rightarrow> ('r local_world, int \<times> fnode) act" where
  "ll_main T argv files =
     (if length argv < 2 then act_ret (1, files)
      else if length argv = 2 \<and> argv ! 1 = ''--help'' then act_ret (0, files)
      else (\<lambda>w. case init_stores w of
         None \<Rightarrow> None
       | Some w \<Rightarrow> act_bind (dispatch T argv files) (\<lambda>(st, files).
           act_ret (if 0 \<noteq> st then 1 else 0, files)) w))"

subsection \<open>The contract of its stores\<close>

interpretation local_sys: mid_stores_named local_credential_store key_list file_users file_name
    local_key_store local_keys_inv "file_tokens ''r''" "file_tokens ''w''" file_name "\<lambda>t. t \<noteq> []" "\<lambda>_. True" "\<lambda>_. False"
    local_data_store local_data_inv file_blk "\<lambda>e. e \<noteq> []" "\<lambda>_ _ _. True" "\<lambda>_. None"
proof (unfold_locales, goal_cases)
  case (1 s i e m mac)
  show ?case
  proof (cases "file_blk s i")
    case None
    then obtain s' where "file_set_block s (Some i) e m mac None = Some (0, i, s')" "local_data_inv s'"
      "file_blk s' = (file_blk s)(i \<mapsto> (e, m, mac))"
      using local_write [OF 1, of None] by auto
    with None show ?thesis by (intro exI [of _ 0] exI [of _ s']) (simp add: local_store_simps HM_SUCCESS_def)
  next
    case (Some x)
    then have "file_set_block s (Some i) e m mac None = Some (DS_FAIL, i, s)"
      using local_write [OF 1, of None] by (cases x) auto
    with 1(1) Some show ?thesis
      by (intro exI [of _ DS_FAIL] exI [of _ s]) (simp add: local_store_simps DS_FAIL_def HM_SUCCESS_def)
  qed
next
  case (2 k u b t x)
  obtain k' where "put_token_files ''r'' k b u x t = Some (0, k')"
    by (rule local_put [OF 2(1,3,2,5,4) disjI1 [OF refl]]) blast
  then show ?case by (simp add: local_store_simps token_functions HM_SUCCESS_def)
next
  case (3 k u b t x)
  obtain k' where "put_token_files ''w'' k b u x t = Some (0, k')"
    by (rule local_put [OF 3(1,3,2,5,4) disjI2 [OF refl]]) blast
  then show ?case by (simp add: local_store_simps token_functions HM_SUCCESS_def)
qed

subsection \<open>Opening the stores\<close>

lemma init_stores_there:
  assumes "local_sys.winv w"
  shows "init_stores w = Some w"
proof -
  have k: "key_files (key_state w)" and d: "data_files (data_state w)" and c: "key_list (cred_state w)"
    using assms by (simp_all add: local_sys.winv_def local_keys_inv_def local_data_inv_def)
  have "local_key_store_create (db_root (key_state w)) = Some (key_state w)"
    using k create_directory_there [OF _ _ key_store_path, of 4 key_base "db_root (key_state w)"]
    by (simp add: key_files_def local_key_store_create_def)
  moreover have "local_data_store_create (ds_root (data_state w)) (ds_rands (data_state w)) = Some (data_state w)"
    using d create_directory_there [OF _ _ data_store_path, of 2 data_base "ds_root (data_state w)"]
    by (simp add: data_files_def local_data_store_create_def)
  moreover have "local_credential_store_create (cs_root (cred_state w)) = Some (cred_state w)"
    using c create_directory_there [OF _ _ cred_store_path, of 1 cred_base "cs_root (cred_state w)"]
    by (simp add: key_list_def local_credential_store_create_def)
  ultimately show ?thesis by (simp add: init_stores_def)
qed

text \<open>Before the first run: no stores but the files of the public keys.\<close>

definition local_start :: "(bytes \<times> bytes) list \<Rightarrow> 'r \<Rightarrow> 'r local_world" where
  "local_start us r =
     \<lparr>rand_state = r, key_state = \<lparr>db_path = HERMES_KEY_STORE_PATH, db_root = Dir []\<rparr>,
      data_state = \<lparr>ds_path = DATA_STORE_PATH, ds_root = Dir [], ds_rands = []\<rparr>, cred_state = listed_keys us\<rparr>"

lemma init_stores_start:
  assumes "keys_listed us"
  obtains w where "init_stores (local_start us r) = Some w" "local_sys.mid_inv T key_pair w empty_spec"
    "cred_state w = listed_keys us"
proof -
  let ?w = "(local_start us r)\<lparr>key_state := start_key_files, data_state := start_block_files []\<rparr>"
  have "init_stores (local_start us r) = Some ?w"
    using start_key_files_made start_block_files_made listed_keys_made [of us]
    by (simp add: init_stores_def local_start_def local_key_store_create_def local_data_store_create_def
        local_credential_store_create_def start_key_files_def start_block_files_def listed_keys_def)
  moreover have "local_sys.mid_inv T key_pair ?w empty_spec"
  proof (rule local_sys.empty_inv)
    have "key_list (listed_keys us)" using assms listed_keys_ok unfolding keys_listed_def by blast
    then show "local_sys.winv ?w"
      using start_key_files_ok start_block_files_ok [of "[]"]
      by (simp add: local_sys.winv_def local_start_def local_keys_inv_def local_data_inv_def draws_ok_def start_block_files_def)
  qed (use start_key_files_ok start_block_files_ok [of "[]"] in \<open>simp_all add: draws_ok_def\<close>)
  ultimately show ?thesis by (rule that) (simp add: local_start_def)
qed

subsection \<open>Runs as operations\<close>

text \<open>The operation that a command line asks for, given the files of the user.\<close>

definition command_op :: "fnode \<Rightarrow> string list \<Rightarrow> mid_op option" where
  "command_op files argv =
     (let cmd = argv ! 1; i = str_bytes (argv ! 4); x = str_bytes (argv ! 5) in
      if length argv = 5 \<and> cmd = ''read_block'' then Some (MRead i)
      else if length argv \<noteq> 6 then None
      else if cmd = ''add_block'' \<or> cmd = ''update_block'' then
        (case read_whole_file files (argv ! 4) of
           Some (Inr d) \<Rightarrow> Some (if cmd = ''add_block'' then MCreate d x else MUpdate i d x)
         | _ \<Rightarrow> None)
      else if cmd = ''grant_read'' then Some (MGrantRead i x)
      else if cmd = ''grant_update'' then Some (MGrantUpdate i x)
      else if cmd = ''revoke_read'' then Some (MDenyRead i x)
      else if cmd = ''revoke_update'' then Some (MDenyUpdate i x)
      else None)"

text \<open>What the result of the operation is for the program: its exit status and the user's files.\<close>

fun shown_as :: "fnode \<Rightarrow> string \<Rightarrow> mid_res \<Rightarrow> int \<times> fnode \<Rightarrow> bool" where
  "shown_as files name (MStatus st) out \<longleftrightarrow> out = (exit_of st, files)"
| "shown_as files name (MId (st, i)) out \<longleftrightarrow>
     out = (exit_of st, files) \<and> i = (if st = HM_SUCCESS then Some (str_bytes name) else None)"
| "shown_as files name (MBlock (Inl e)) out \<longleftrightarrow> out = (1, files)"
| "shown_as files name (MBlock (Inr (d, m))) out \<longleftrightarrow> write_files files name (buf_bytes d) (buf_bytes m) = Some out"

text \<open>A run by a registered user who gives his private key, on a block whose name is one file name.\<close>

definition command_ok ::
    "(bytes \<Rightarrow> bytes \<Rightarrow> bool) \<Rightarrow> (bytes \<Rightarrow> bool) \<Rightarrow> (bytes \<times> bytes) list \<Rightarrow> fnode \<times> string list \<Rightarrow> bool" where
  "command_ok key_pair plain_ok us = (\<lambda>(files, argv).
     (\<exists>ssk pk. string_to_buf (argv ! 3) = Some ssk \<and> ssk \<noteq> [] \<and> map_of us (str_bytes (argv ! 2)) = Some pk \<and> key_pair ssk pk) \<and>
     file_name (str_bytes (argv ! 4)) \<and>
     (\<exists>op. command_op files argv = Some op \<and> mid_op_ok file_name file_name plain_ok (\<lambda>e. e \<noteq> []) op))"

lemma name_fits: "file_name (str_bytes name) \<Longrightarrow> length name + 6 < 256"
proof -
  assume "file_name (str_bytes name)"
  then have "BASE64_SIZE (length name) \<le> 256"
    using length_groups [of "str_bytes name"] by (simp add: file_name_def NAME_MAX_def str_bytes_def)
  then show ?thesis by (simp add: BASE64_SIZE_def)
qed

text \<open>When a run must succeed: adding a block under a new name does, and granting reading by a reader to a
  user whose keys match.\<close>

fun succeeds :: "(bytes \<Rightarrow> bool) \<Rightarrow> mid_spec \<Rightarrow> bytes \<Rightarrow> string \<Rightarrow> mid_op \<Rightarrow> mid_res \<Rightarrow> bool" where
  "succeeds member s u name (MCreate d m) r \<longleftrightarrow>
     (content s (str_bytes name) = None \<longrightarrow> r = MId (HM_SUCCESS, Some (str_bytes name)))"
| "succeeds member s u name (MGrantRead i v) r \<longleftrightarrow> (member v \<and> (i, u) \<in> readers s \<longrightarrow> r = MStatus HM_SUCCESS)"
| "succeeds member s u name _ r \<longleftrightarrow> True"

text \<open>\<open>runs_as\<close>: the run ends, and is the step \<open>op\<close> of \<open>u\<close> to those who look at its result.\<close>

definition runs_as ::
    "('r, 'h) themis \<Rightarrow> (bytes \<Rightarrow> bytes \<Rightarrow> bool) \<Rightarrow> 'r local_world \<Rightarrow> mid_spec \<Rightarrow> bytes \<Rightarrow> mid_op \<Rightarrow> fnode \<Rightarrow> string \<Rightarrow>
     ((int \<times> fnode) \<times> 'r local_world) option \<Rightarrow> bool" where
  "runs_as T key_pair w s u op files name res \<longleftrightarrow> (\<exists>out w' r s'. res = Some (out, w') \<and> cred_state w' = cred_state w \<and>
     local_sys.mid_inv T key_pair w' s' \<and> mid_step s u op r s' \<and> shown_as files name r out \<and>
     succeeds (\<lambda>v. \<exists>skv pkv. known key_pair (file_users (cred_state w)) v skv pkv) s u name op r)"

lemma keep_files_run: "keep_files files m w = map_option (\<lambda>(st, w). ((st, files), w)) (m w)"
  by (auto simp: keep_files_def act_simps split: option.split)

lemma runs_as_status:
  assumes "local_sys.steps T key_pair w s u op (act_map MStatus m w)" "out = act_map exit_of m w"
    and "\<And>st w'. out = Some (exit_of st, w') \<Longrightarrow>
      succeeds (\<lambda>v. \<exists>skv pkv. known key_pair (file_users (cred_state w)) v skv pkv) s u name op (MStatus st)"
  shows "runs_as T key_pair w s u op files name (map_option (\<lambda>(st, w). ((st, files), w)) out)"
  using assms unfolding local_sys.steps_def runs_as_def by (force simp: act_map_run)

lemma write_files_Some: "length name + 6 < 256 \<Longrightarrow> write_files files name d m = Some (the (write_files files name d m))"
  by (auto simp: write_files_def split: prod.split)

lemma runs_as_read:
  assumes "local_sys.steps T key_pair w s u (MRead i) (act_map MBlock m w)" "length name + 6 < 256"
    and "out = map_option (\<lambda>(res, w). (case res of Inl e \<Rightarrow> (1, files)
        | Inr (dt, m) \<Rightarrow> the (write_files files name (buf_bytes dt) (buf_bytes m)), w)) (m w)"
  shows "runs_as T key_pair w s u (MRead i) files name out"
proof -
  obtain res w' s' where m: "m w = Some (res, w')" "cred_state w' = cred_state w" "mid_step s u (MRead i) (MBlock res) s'"
      "local_sys.mid_inv T key_pair w' s'"
    using assms(1) unfolding local_sys.steps_def by (force simp: act_map_run)
  let ?x = "case res of Inl e \<Rightarrow> (1, files) | Inr (dt, m) \<Rightarrow> the (write_files files name (buf_bytes dt) (buf_bytes m))"
  have "shown_as files name (MBlock res) ?x"
    using write_files_Some [OF assms(2)] by (auto split: sum.split)
  then show ?thesis unfolding runs_as_def assms(3) using m by auto
qed

lemma command_opE:
  assumes "command_op files argv = Some op"
  obtains (read) "length argv = 5" "argv ! 1 = ''read_block''" "op = MRead (str_bytes (argv ! 4))"
  | (add) d where "length argv = 6" "argv ! 1 = ''add_block''" "read_whole_file files (argv ! 4) = Some (Inr d)"
      "op = MCreate d (str_bytes (argv ! 5))"
  | (update) d where "length argv = 6" "argv ! 1 = ''update_block''" "read_whole_file files (argv ! 4) = Some (Inr d)"
      "op = MUpdate (str_bytes (argv ! 4)) d (str_bytes (argv ! 5))"
  | (grant_read) "length argv = 6" "argv ! 1 = ''grant_read''" "op = MGrantRead (str_bytes (argv ! 4)) (str_bytes (argv ! 5))"
  | (grant_update) "length argv = 6" "argv ! 1 = ''grant_update''" "op = MGrantUpdate (str_bytes (argv ! 4)) (str_bytes (argv ! 5))"
  | (revoke_read) "length argv = 6" "argv ! 1 = ''revoke_read''" "op = MDenyRead (str_bytes (argv ! 4)) (str_bytes (argv ! 5))"
  | (revoke_update) "length argv = 6" "argv ! 1 = ''revoke_update''" "op = MDenyUpdate (str_bytes (argv ! 4)) (str_bytes (argv ! 5))"
  using assms unfolding command_op_def Let_def
  by (auto split: if_splits option.splits sum.splits)

lemma command_ops:
  assumes "command_ok key_pair plain_ok us (files, argv)"
  shows "argv ! 1 = ''read_block'' \<Longrightarrow> command_op files argv = Some (MRead (str_bytes (argv ! 4)))"
    and "argv ! 1 = ''grant_read'' \<Longrightarrow>
      command_op files argv = Some (MGrantRead (str_bytes (argv ! 4)) (str_bytes (argv ! 5)))"
    and "argv ! 1 = ''add_block'' \<Longrightarrow> \<exists>d. read_whole_file files (argv ! 4) = Some (Inr d) \<and>
      command_op files argv = Some (MCreate d (str_bytes (argv ! 5)))"
proof -
  obtain op where op: "command_op files argv = Some op" using assms by (auto simp: command_ok_def)
  show "command_op files argv = Some (MRead (str_bytes (argv ! 4)))" if "argv ! 1 = ''read_block''"
    by (rule command_opE [OF op]) (use op that in simp_all)
  show "command_op files argv = Some (MGrantRead (str_bytes (argv ! 4)) (str_bytes (argv ! 5)))" if "argv ! 1 = ''grant_read''"
    by (rule command_opE [OF op]) (use op that in simp_all)
  show "\<exists>d. read_whole_file files (argv ! 4) = Some (Inr d) \<and> command_op files argv = Some (MCreate d (str_bytes (argv ! 5)))"
    if "argv ! 1 = ''add_block''"
    by (rule command_opE [OF op]) (use op that in simp_all)
qed

lemma dispatch_step:
  assumes c: "local_sys.commanding T key_pair w s (argv ! 2) (argv ! 3) (argv ! 4) ssk pk"
    and T: "local_sys.crypto_ok T key_pair plain_ok"
    and op: "command_op files argv = Some op" "mid_op_ok file_name file_name plain_ok (\<lambda>e. e \<noteq> []) op"
  shows "runs_as T key_pair w s (str_bytes (argv ! 2)) op files (argv ! 4) (dispatch T argv files w)"
  using op(1)
proof (cases rule: command_opE)
  note d = local_sys.commandingD [OF c]
  note ok = op(2)
  {
    case read
    have "length (argv ! 4) + 6 < 256" using name_fits [OF d(4)] .
    from runs_as_read [OF local_sys.step_read [OF d(1,2,4), unfolded mid_exec.simps] this local_sys.get_block_eq [OF c this]]
    show ?thesis using read by (simp add: dispatch_def)
  next
    case (add dt)
    then have m: "plain_ok dt" "dt \<noteq> []" "str_bytes (argv ! 5) \<noteq> []" using ok by simp_all
    obtain st w' s' where "add_block T local_key_store local_data_store local_credential_store files (argv ! 2) (argv ! 3)
        (argv ! 4) (argv ! 5) w = Some (exit_of st, w')" "cred_state w' = cred_state w" "local_sys.mid_inv T key_pair w' s'"
      "mid_step s (str_bytes (argv ! 2)) (MCreate dt (str_bytes (argv ! 5)))
        (MId (st, if st = HM_SUCCESS then Some (str_bytes (argv ! 4)) else None)) s'"
      "content s (str_bytes (argv ! 4)) = None \<longrightarrow> st = HM_SUCCESS"
      by (rule local_sys.add_block_step [OF c T add(3) m])
    then have "runs_as T key_pair w s (str_bytes (argv ! 2)) op files (argv ! 4) (keep_files files (add_block T local_key_store
        local_data_store local_credential_store files (argv ! 2) (argv ! 3) (argv ! 4) (argv ! 5)) w)"
      unfolding runs_as_def add(4) by (force simp: keep_files_def act_simps)
    then show ?thesis using add by (simp add: dispatch_def)
  next
    case (update dt)
    then have m: "plain_ok dt" "dt \<noteq> []" "str_bytes (argv ! 5) \<noteq> []" using ok by simp_all
    from runs_as_status [OF local_sys.step_update [OF d(1,2) T d(4) m, unfolded mid_exec.simps]
        local_sys.upd_block_eq [OF c update(3) m(2,3)], where name = "argv ! 4" and files = files]
    show ?thesis using update by (simp add: dispatch_def keep_files_run)
  next
    case grant_read
    then have v: "file_name (str_bytes (argv ! 5))" using ok by simp
    have taken: "grant_read T local_key_store local_data_store local_credential_store (argv ! 2) (argv ! 3) (argv ! 4)
        (argv ! 5) w = Some (exit_of st, w') \<Longrightarrow> succeeds (\<lambda>v. \<exists>skv pkv. known key_pair (file_users (cred_state w)) v skv pkv)
        s (str_bytes (argv ! 2)) (argv ! 4) (MGrantRead (str_bytes (argv ! 4)) (str_bytes (argv ! 5))) (MStatus st)" for st w'
      using local_sys.grant_read_taken [OF c T v] by (auto simp: exit_of_def split: if_splits)
    from runs_as_status [OF local_sys.step_grant_read [OF d(1,2) T d(4) v, unfolded mid_exec.simps]
        local_sys.grant_read_eq [OF c v] taken, where files = files]
    show ?thesis using grant_read by (simp add: dispatch_def keep_files_run)
  next
    case grant_update
    then have v: "file_name (str_bytes (argv ! 5))" using ok by simp
    from runs_as_status [OF local_sys.step_grant_update [OF d(1,2) T d(4) v, unfolded mid_exec.simps]
        local_sys.grant_update_eq [OF c v], where name = "argv ! 4" and files = files]
    show ?thesis using grant_update by (simp add: dispatch_def keep_files_run)
  next
    case revoke_read
    then have v: "file_name (str_bytes (argv ! 5))" using ok by simp
    from runs_as_status [OF local_sys.step_deny_read [OF d(1,2) T d(4) v, unfolded mid_exec.simps]
        local_sys.deny_read_eq [OF c v], where name = "argv ! 4" and files = files]
    show ?thesis using revoke_read by (simp add: dispatch_def keep_files_run)
  next
    case revoke_update
    then have v: "file_name (str_bytes (argv ! 5))" using ok by simp
    from runs_as_status [OF local_sys.step_deny_update [OF d(1,2) T d(4) v, unfolded mid_exec.simps]
        local_sys.deny_update_eq [OF c v], where name = "argv ! 4" and files = files]
    show ?thesis using revoke_update by (simp add: dispatch_def keep_files_run)
  }
qed

lemma registered:
  assumes "keys_listed us" "command_ok key_pair plain_ok us (files, argv)"
  obtains ssk pk where "known key_pair (file_users (listed_keys us)) (str_bytes (argv ! 2)) ssk pk"
    "string_to_buf (argv ! 3) = Some ssk" "file_name (str_bytes (argv ! 2))"
proof -
  obtain ssk pk where u: "string_to_buf (argv ! 3) = Some ssk" "ssk \<noteq> []" "map_of us (str_bytes (argv ! 2)) = Some pk"
      "key_pair ssk pk" using assms(2) unfolding command_ok_def by auto
  have "file_name (str_bytes (argv ! 2))" "pk \<noteq> []"
    using assms(1) u(3) by (auto simp: keys_listed_def list_all_iff param_ok_def dest: map_of_SomeD)
  then show ?thesis using u by (intro that [of ssk pk]) (simp_all add: known_def listed_keys_users file_name_def)
qed

lemma ll_main_step:
  assumes init: "init_stores w = Some w0" and inv: "local_sys.mid_inv T key_pair w0 s"
    and us: "cred_state w0 = listed_keys us" "keys_listed us"
    and T: "local_sys.crypto_ok T key_pair plain_ok" and ok: "command_ok key_pair plain_ok us (files, argv)"
  shows "runs_as T key_pair w0 s (str_bytes (argv ! 2)) (the (command_op files argv)) files (argv ! 4) (ll_main T argv files w)"
proof -
  obtain op where name: "file_name (str_bytes (argv ! 4))"
    and op: "command_op files argv = Some op" "mid_op_ok file_name file_name plain_ok (\<lambda>e. e \<noteq> []) op"
    using ok unfolding command_ok_def by auto
  obtain ssk pk where u: "known key_pair (file_users (listed_keys us)) (str_bytes (argv ! 2)) ssk pk"
      "string_to_buf (argv ! 3) = Some ssk" "file_name (str_bytes (argv ! 2))"
    by (rule registered [OF us(2) ok])
  then have "local_sys.commanding T key_pair w0 s (argv ! 2) (argv ! 3) (argv ! 4) ssk pk"
    using name inv local_sys.mid_invD(1) [OF inv]
    by (simp add: local_sys.commanding_def local_sys.acting_def us(1))
  from dispatch_step [OF this T op]
  obtain st fs w' r s' where run: "dispatch T argv files w0 = Some ((st, fs), w')" "cred_state w' = cred_state w0"
      "local_sys.mid_inv T key_pair w' s'" "mid_step s (str_bytes (argv ! 2)) op r s'" "shown_as files (argv ! 4) r (st, fs)"
      "succeeds (\<lambda>v. \<exists>skv pkv. known key_pair (file_users (cred_state w0)) v skv pkv) s (str_bytes (argv ! 2)) (argv ! 4) op r"
    unfolding runs_as_def by (metis surj_pair)
  have "st = 0 \<or> st = 1"
    using run(5) by (cases "(files, argv ! 4, r, (st, fs))" rule: shown_as.cases)
      (auto simp: exit_of_def write_files_def split: if_splits prod.splits)
  moreover have "length argv = 5 \<or> length argv = 6" using op(1) by (auto elim: command_opE)
  ultimately have "ll_main T argv files w = Some ((st, fs), w')"
    using run(1) init by (auto simp: ll_main_def act_simps)
  with run op(1) show ?thesis unfolding runs_as_def by auto
qed

subsection \<open>Sessions\<close>

text \<open>Runs of the program one after the other, each with the files of its user at that time.\<close>

fun ll_session ::
    "('r, 'h) themis \<Rightarrow> (fnode \<times> string list) list \<Rightarrow> ('r local_world, (int \<times> fnode) list) act" where
  "ll_session T [] = act_ret []"
| "ll_session T ((files, argv) # cmds) =
     act_bind (ll_main T argv files) (\<lambda>out. act_map (\<lambda>outs. out # outs) (ll_session T cmds))"

definition session_op :: "fnode \<times> string list \<Rightarrow> bytes \<times> mid_op" where
  "session_op = (\<lambda>(files, argv). (str_bytes (argv ! 2), the (command_op files argv)))"

fun session_shown :: "(fnode \<times> string list) list \<Rightarrow> mid_res list \<Rightarrow> (int \<times> fnode) list \<Rightarrow> bool" where
  "session_shown [] [] [] \<longleftrightarrow> True"
| "session_shown ((files, argv) # cmds) (r # rs) (out # outs) \<longleftrightarrow>
     shown_as files (argv ! 4) r out \<and> session_shown cmds rs outs"
| "session_shown _ _ _ \<longleftrightarrow> False"

definition themis_local :: "('r, 'h) themis \<Rightarrow> (bytes \<Rightarrow> bytes \<Rightarrow> bool) \<Rightarrow> (bytes \<Rightarrow> bool) \<Rightarrow> bool" where
  "themis_local T key_pair plain_ok \<longleftrightarrow>
     works T key_pair \<and> themis_laws T key_pair \<and> outputs_ok T (\<lambda>e. e \<noteq> []) plain_ok (\<lambda>e. e \<noteq> [])"

lemma session_run:
  assumes "init_stores w = Some w0" "local_sys.mid_inv T key_pair w0 s" "cred_state w0 = listed_keys us"
    and "keys_listed us" "themis_local T key_pair plain_ok" "list_all (command_ok key_pair plain_ok us) cmds"
  shows "\<exists>outs w' rs s'. ll_session T cmds w = Some (outs, w') \<and> mid_run s (map session_op cmds) rs s' \<and>
    session_shown cmds rs outs"
  using assms
proof (induction cmds arbitrary: w w0 s)
  case Nil
  then show ?case by (auto intro!: exI [of _ "[]"] mid_run.stop)
next
  case (Cons c cmds)
  obtain files argv where c: "c = (files, argv)" by force
  have T: "local_sys.crypto_ok T key_pair plain_ok"
    using Cons.prems(5) by (simp add: themis_local_def local_sys.crypto_ok_def)
  have ok: "command_ok key_pair plain_ok us (files, argv)" "list_all (command_ok key_pair plain_ok us) cmds"
    using Cons.prems(6) c by simp_all
  obtain out w1 r s1 where run: "ll_main T argv files w = Some (out, w1)" "cred_state w1 = cred_state w0"
      "local_sys.mid_inv T key_pair w1 s1" "mid_step s (str_bytes (argv ! 2)) (the (command_op files argv)) r s1"
      "shown_as files (argv ! 4) r out"
    using ll_main_step [OF Cons.prems(1-4) T ok(1)] unfolding runs_as_def by blast
  have "init_stores w1 = Some w1" "cred_state w1 = listed_keys us"
    using init_stores_there [OF local_sys.mid_invD(1) [OF run(3)]] run(2) Cons.prems(3) by simp_all
  from Cons.IH [OF this(1) run(3) this(2) Cons.prems(4,5) ok(2)]
  obtain outs w' rs s' where "ll_session T cmds w1 = Some (outs, w')" "mid_run s1 (map session_op cmds) rs s'"
      "session_shown cmds rs outs" by blast
  with run(1,4,5) c show ?case
    by (intro exI [of _ "out # outs"] exI [of _ w'] exI [of _ "r # rs"] exI [of _ s'])
      (auto simp: act_bind_run act_map_run session_op_def intro: mid_run.step)
qed

lemma session_from_start:
  assumes "themis_local T key_pair plain_ok" "keys_listed us" "list_all (command_ok key_pair plain_ok us) cmds"
  shows "\<exists>outs w' rs s'. ll_session T cmds (local_start us r) = Some (outs, w') \<and>
    mid_run empty_spec (map session_op cmds) rs s' \<and> session_shown cmds rs outs"
proof -
  obtain w where "init_stores (local_start us r) = Some w" "local_sys.mid_inv T key_pair w empty_spec"
    "cred_state w = listed_keys us" by (rule init_stores_start [OF assms(2)])
  then show ?thesis by (rule session_run [OF _ _ _ assms(2,1,3)])
qed

text \<open>C3. The low-level program refines the access control specification: every session of its runs by
  registered users, that read, add and update blocks and grant and revoke access, is defined and ends;
  its exit statuses and the files it writes are those of a run of \<open>mid_step\<close> in which the blocks have the
  names of the user's files.\<close>

theorem low_level_refines_access_spec:
  assumes "themis_local T key_pair plain_ok" "keys_listed us" "list_all (command_ok key_pair plain_ok us) cmds"
  shows "\<exists>outs w' rs s'. ll_session T cmds (local_start us r) = Some (outs, w') \<and>
    mid_run empty_spec (map session_op cmds) rs s' \<and> session_shown cmds rs outs"
  by (rule session_from_start [OF assms])

lemma session_shown_Nil: "session_shown [] rs outs \<longleftrightarrow> rs = [] \<and> outs = []"
  by (cases rs; cases outs) auto

lemma session_shown_Cons: "session_shown ((files, argv) # cmds) rs outs \<longleftrightarrow>
   (\<exists>r rs' out outs'. rs = r # rs' \<and> outs = out # outs' \<and> shown_as files (argv ! 4) r out \<and> session_shown cmds rs' outs')"
  by (cases rs; cases outs) auto

lemma session_shown_append:
  "session_shown (xs @ ys) rs outs \<longleftrightarrow> (\<exists>rs1 rs2 outs1 outs2. rs = rs1 @ rs2 \<and> outs = outs1 @ outs2 \<and>
     session_shown xs rs1 outs1 \<and> session_shown ys rs2 outs2)"
proof (induction xs arbitrary: rs outs)
  case Nil
  then show ?case by (auto simp: session_shown_Nil)
next
  case (Cons x xs)
  obtain files argv where x: "x = (files, argv)" by force
  show ?case unfolding x append_Cons session_shown_Cons Cons.IH by (auto; metis append_Cons)
qed

lemma session_shown_length: "session_shown xs rs outs \<Longrightarrow> length rs = length xs \<and> length outs = length xs"
  by (induction xs rs outs rule: session_shown.induct) auto

text \<open>An \<open>add_block\<close> that exits with 0 has created the block under its name.\<close>

lemma added:
  assumes "command_ok key_pair plain_ok us (files, argv)" "argv ! 1 = ''add_block''" "shown_as files name r (0, f)"
    and "mid_step s u (the (command_op files argv)) r s'" "name = argv ! 4"
  obtains d m where "the (command_op files argv) = MCreate d m" "r = MId (HM_SUCCESS, Some (str_bytes name))"
proof -
  obtain op d m where op: "command_op files argv = Some op" and dm: "op = MCreate d m"
    using command_ops(3) [OF assms(1,2)] by auto
  obtain st i where r: "r = MId (st, i)" using assms(4) op dm by (auto elim: mid_step.cases)
  then have "st = HM_SUCCESS" using assms(3) by (auto simp: exit_of_def split: if_splits)
  with r assms(3) op dm show ?thesis by (intro that) simp_all
qed

text \<open>C5. Confidentiality for the low-level program: after a run of \<open>add_block\<close> that exits with 0, a user
  outside a group that its user belongs to, and whose members grant reading among themselves only, gets
  nothing from \<open>read_block\<close> but the exit status 1: his files stay as they are.\<close>

theorem low_level_block_stays_unread:
  assumes "themis_local T key_pair plain_ok" "keys_listed us"
    and "list_all (command_ok key_pair plain_ok us) (pre @ (f, add) # post @ [(g, rd)])"
    and "ll_session T (pre @ (f, add) # post @ [(g, rd)]) (local_start us r) = Some (outs, w)"
    and "add ! 1 = ''add_block''" "rd ! 1 = ''read_block''" "rd ! 4 = add ! 4" "fst (outs ! length pre) = 0"
    and "str_bytes (add ! 2) \<in> U" "str_bytes (rd ! 2) \<notin> U"
    and "list_all (\<lambda>c. respects_readers (str_bytes (add ! 4)) U (session_op c)) post"
  shows "last outs = (1, g)"
proof -
  let ?i = "str_bytes (add ! 4)" and ?u = "str_bytes (add ! 2)" and ?v = "str_bytes (rd ! 2)"
  obtain rs s where run: "mid_run empty_spec (map session_op (pre @ (f, add) # post @ [(g, rd)])) rs s"
    and shown: "session_shown (pre @ (f, add) # post @ [(g, rd)]) rs outs"
    using session_from_start [OF assms(1-3), of r] assms(4) by auto
  obtain rs1 x rs2 y outs1 z outs2 z' where rs: "rs = rs1 @ x # rs2 @ [y]" and outs: "outs = outs1 @ z # outs2 @ [z']"
    and at: "session_shown pre rs1 outs1" "shown_as f (add ! 4) x z" "shown_as g (rd ! 4) y z'"
    using shown unfolding session_shown_append session_shown_Cons session_shown_Nil by auto
  have len: "length rs1 = length pre" "length outs1 = length pre" using session_shown_length [OF at(1)] by simp_all
  have z: "z = (0, snd z)" using assms(8) outs len by (cases z) (simp add: nth_append)
  obtain rs0 s1 s2 where st: "mid_run empty_spec (map session_op pre) rs0 s1"
      "mid_step s1 ?u (the (command_op f add)) (rs ! length rs0) s2"
    using run by (auto simp: mid_run_append mid_run_Cons session_op_def nth_append)
  have x: "rs ! length rs0 = x" using mid_run_length [OF st(1)] rs len by (simp add: nth_append)
  have ok: "command_ok key_pair plain_ok us (f, add)" "command_ok key_pair plain_ok us (g, rd)" using assms(3) by simp_all
  obtain d m where dm: "the (command_op f add) = MCreate d m" "x = MId (HM_SUCCESS, Some ?i)"
    by (rule added [OF ok(1) assms(5) _ st(2)[unfolded x] refl, of "snd z"]) (use at(2) z in auto)
  have rd: "session_op (g, rd) = (?v, MRead ?i)"
    using command_ops(1) [OF ok(2) assms(6)] assms(7) by (simp add: session_op_def)
  have run': "mid_run empty_spec (map session_op pre @ (?u, MCreate d m) # map session_op post @ [(?v, MRead ?i)]) rs s"
    using run dm(1) rd by (simp add: session_op_def)
  obtain s2 rs2 s3 where s: "mid_run s2 (map session_op post) rs2 s3" "content s2 ?i = Some (d, m)"
      "{x. (?i, x) \<in> readers s2} = {?u}" "mid_step s3 ?v (MRead ?i) (last rs) s"
    by (rule mid_run_create_read [OF run' empty_wf]) (use rs len dm(2) in \<open>simp_all add: nth_append\<close>)
  have "{x. (?i, x) \<in> readers s3} \<subseteq> U"
    by (rule mid_run_readers [OF s(1)]) (use s(2,3) assms(9,11) in \<open>simp_all add: list.pred_map comp_def\<close>)
  then have "y = MBlock (Inl HM_FAIL)" using s(4) assms(10) rs by (auto simp: mid_step_read)
  then show ?thesis using at(3) outs by simp
qed

text \<open>Adding a block to fresh stores.\<close>

lemma first_add:
  assumes "themis_local T key_pair plain_ok" "keys_listed us" "command_ok key_pair plain_ok us (f, add)"
    and "add ! 1 = ''add_block''" "read_whole_file f (add ! 4) = Some (Inr d)"
  obtains w s where "ll_main T add f (local_start us r) = Some ((0, f), w)" "init_stores w = Some w"
    "local_sys.mid_inv T key_pair w s" "cred_state w = listed_keys us"
    "content s (str_bytes (add ! 4)) = Some (d, str_bytes (add ! 5))" "(str_bytes (add ! 4), str_bytes (add ! 2)) \<in> readers s"
    "(str_bytes (add ! 4), str_bytes (add ! 2)) \<in> writers s"
proof -
  have T: "local_sys.crypto_ok T key_pair plain_ok"
    using assms(1) by (simp add: themis_local_def local_sys.crypto_ok_def)
  have op: "the (command_op f add) = MCreate d (str_bytes (add ! 5))"
    using command_ops(3) [OF assms(3,4)] assms(5) by auto
  obtain w0 where w0: "init_stores (local_start us r) = Some w0" "local_sys.mid_inv T key_pair w0 empty_spec"
      "cred_state w0 = listed_keys us" by (rule init_stores_start [OF assms(2)])
  obtain x w q s where run: "ll_main T add f (local_start us r) = Some (x, w)" "cred_state w = cred_state w0"
      "local_sys.mid_inv T key_pair w s" "mid_step empty_spec (str_bytes (add ! 2)) (MCreate d (str_bytes (add ! 5))) q s"
      "shown_as f (add ! 4) q x" "q = MId (HM_SUCCESS, Some (str_bytes (add ! 4)))"
    using ll_main_step [OF w0 assms(2) T assms(3)] unfolding runs_as_def op by (auto simp: empty_spec_def)
  have "content s (str_bytes (add ! 4)) = Some (d, str_bytes (add ! 5))" "(str_bytes (add ! 4), str_bytes (add ! 2)) \<in> readers s"
    "(str_bytes (add ! 4), str_bytes (add ! 2)) \<in> writers s"
    using run(4) unfolding run(6) by (auto elim: createdE)
  with run(1-3,5,6) w0(3) show ?thesis
    using init_stores_there [OF local_sys.mid_invD(1) [OF run(3)]] by (intro that [of w s]) simp_all
qed

text \<open>C9. Over fresh stores, the low-level program shares blocks: a block added under a new name and granted
  to a registered user is read by him as it was added: his files are given its data and its meta data.\<close>

theorem low_level_shared_block_is_read:
  assumes "themis_local T key_pair plain_ok" "keys_listed us"
    and "list_all (command_ok key_pair plain_ok us) [(f, add), (g, grant), (h, rd)]"
    and "add ! 1 = ''add_block''" "grant ! 1 = ''grant_read''" "rd ! 1 = ''read_block''"
    and "grant ! 2 = add ! 2" "grant ! 4 = add ! 4" "grant ! 5 = rd ! 2" "rd ! 4 = add ! 4"
    and "read_whole_file f (add ! 4) = Some (Inr d)"
  shows "\<exists>out w. ll_session T [(f, add), (g, grant), (h, rd)] (local_start us r) = Some ([(0, f), (0, g), out], w) \<and>
    write_files h (add ! 4) d (str_bytes (add ! 5)) = Some out"
proof -
  let ?i = "str_bytes (add ! 4)" and ?u = "str_bytes (add ! 2)" and ?v = "str_bytes (rd ! 2)"
  have T: "local_sys.crypto_ok T key_pair plain_ok"
    using assms(1) by (simp add: themis_local_def local_sys.crypto_ok_def)
  have ok: "command_ok key_pair plain_ok us (f, add)" "command_ok key_pair plain_ok us (g, grant)"
      "command_ok key_pair plain_ok us (h, rd)" using assms(3) by simp_all
  have op: "the (command_op g grant) = MGrantRead ?i ?v"
      "the (command_op h rd) = MRead ?i"
    using command_ops(2) [OF ok(2)] command_ops(1) [OF ok(3)] assms(4-11) by auto
  obtain w1 s1 where one: "ll_main T add f (local_start us r) = Some ((0, f), w1)" and i1: "init_stores w1 = Some w1"
      "local_sys.mid_inv T key_pair w1 s1" "cred_state w1 = listed_keys us"
    and s1: "content s1 ?i = Some (d, str_bytes (add ! 5))" "(?i, ?u) \<in> readers s1"
    by (rule first_add [OF assms(1,2) ok(1) assms(4,11), where r = r])
  have "\<exists>skv pkv. known key_pair (file_users (cred_state w1)) ?v skv pkv"
    unfolding i1(3) by (rule registered [OF assms(2) ok(3)]) blast
  then obtain o2 w2 r2 s2 where two: "ll_main T grant g w1 = Some (o2, w2)" "cred_state w2 = cred_state w1"
      "local_sys.mid_inv T key_pair w2 s2" "mid_step s1 ?u (MGrantRead ?i ?v) (MStatus HM_SUCCESS) s2" "o2 = (0, g)"
    using ll_main_step [OF i1 assms(2) T ok(2)] s1(2) assms(7) unfolding runs_as_def op by auto
  have i2: "init_stores w2 = Some w2" "cred_state w2 = listed_keys us"
    using init_stores_there [OF local_sys.mid_invD(1) [OF two(3)]] two(2) i1(3) by simp_all
  have s2: "content s2 ?i = Some (d, str_bytes (add ! 5))" "(?i, ?v) \<in> readers s2"
    using two(4) s1(1) by (auto elim: mid_step.cases)
  obtain o3 w3 r3 s3 where three: "ll_main T rd h w2 = Some (o3, w3)" "mid_step s2 ?v (MRead ?i) r3 s3"
      "shown_as h (rd ! 4) r3 o3"
    using ll_main_step [OF i2(1) two(3) i2(2) assms(2) T ok(3)] unfolding runs_as_def op by auto
  have "write_files h (add ! 4) d (str_bytes (add ! 5)) = Some o3"
    using three(2,3) s2 assms(10) by (auto simp: mid_step_read)
  then show ?thesis using one two(1,5) three(1) by (auto simp: act_bind_run act_map_run)
qed

subsection \<open>Deletion\<close>

lemma local_rem:
  assumes "local_data_inv d" "file_blk d i = Some (e, m, mac)" "file_name i"
  obtains d' where "local_rem_block (Some i) (Some mac) d = Some (0, d')" "file_blk d' = (file_blk d)(i := None)"
proof -
  have d: "data_files d" "mac \<noteq> []" using assms(1,2) by (auto simp: local_data_inv_def)
  obtain d' where "file_rem_block d i mac = Some (0, d')" "file_blk d' = (file_blk d)(i := None)"
    using rem_block_effect [OF d(1) assms(3,2) d(2)] by blast
  then show ?thesis by (intro that) (simp_all add: local_rem_block_def)
qed

text \<open>C11. \<open>del_block\<close> by a user who may update the block removes it and his own two tokens, and exits with 0:
  every other token of the block stays in the key store, as the command gives no list of rights.\<close>

theorem del_block_leaves_tokens:
  assumes "local_sys.commanding T key_pair w s uid sk name ssk pk"
    and "(str_bytes name, str_bytes uid) \<in> readers s" "(str_bytes name, str_bytes uid) \<in> writers s"
  shows "\<exists>w'. del_block T local_key_store local_data_store local_credential_store uid sk name w = Some (0, w') \<and>
    file_blk (data_state w') = (file_blk (data_state w))(str_bytes name := None) \<and>
    (\<forall>k. file_tokens k (key_state w') = (file_tokens k (key_state w))((str_bytes name, str_bytes uid) := None))"
proof (rule local_sys.load_block_run [OF local_sys.commandingD(1) [OF assms(1)] local_sys.commandingD(2) [OF assms(1)]
    local_sys.commandingD(4) [OF assms(1)]])
  assume "file_tokens ''r'' (key_state w) (str_bytes name, str_bytes uid) = None"
  then show ?thesis using assms(2) local_sys.mid_invD(2) [OF local_sys.commandingD(1) [OF assms(1)]] by auto
next
  note d = local_sys.commandingD [OF assms(1)]
  let ?u = "local_user (str_bytes uid) ssk pk" and ?i = "str_bytes name"
  fix e mac dt m kr kw
  let ?l = "local_sys.loaded w (str_bytes uid) ?u ?i e mac dt m"
  assume at: "local_sys.state_at T key_pair w ?i kr kw dt m" and blk: "file_blk (data_state w) ?i = Some (e, m, mac)"
    and held: "file_tokens ''r'' (key_state w) (?i, str_bytes uid) \<noteq> None"
    and load: "\<And>(failed :: int) k. load_block T local_key_store local_data_store local_credential_store
      (Some ?u) name failed k w = k ?l w"
  note ws = local_sys.winvD [OF local_sys.mid_invD(1) [OF d(1)]]
  obtain t where t: "local_sys.loaded_token (file_tokens ''r'') w ?u (str_bytes uid) ?i = Some t" "token_user t = Some ?u"
    using local_sys.loaded_opens(1) [OF d(2) at held] by blast
  have mac: "bl_mac ?l = new_buffer mac"
    using assms(3) local_sys.mid_invD(3) [OF d(1)] by (auto simp: local_sys.loaded_def)
  obtain sd where rem: "local_rem_block (Some ?i) (Some mac) (data_state w) = Some (0, sd)"
      "file_blk sd = (file_blk (data_state w))(?i := None)" by (rule local_rem [OF ws(3) blk d(4)])
  obtain sk' where del: "del_files [] (key_state w) ?i (str_bytes uid) = Some (0, sk')"
      "\<And>k. file_tokens k sk' = (if k \<in> set [] \<or> ([] :: string list) = [] then (file_tokens k (key_state w))((?i, str_bytes uid) := None)
        else file_tokens k (key_state w))"
    by (rule local_del [OF ws(2) d(4) local_sys.actingD(2) [OF d(2)] disjI1 [OF refl]]) blast
  have "local_set_rtoken (Some (str_bytes uid)) (Some ?i) None (Some (str_bytes uid)) (key_state w) = Some (HM_SUCCESS, sk')"
    using del(1) token_functions(5) [of "key_state w" ?i "str_bytes uid" "str_bytes uid"]
    by (simp add: local_set_rtoken_def file_del_rtoken_def HM_SUCCESS_def)
  moreover have "ds_rem_block local_data_store = local_rem_block" "ks_set_rtoken local_key_store = local_set_rtoken"
    by (simp_all add: local_data_store_def local_key_store_def)
  ultimately have "del_block T local_key_store local_data_store local_credential_store uid sk name w =
      Some (0, w\<lparr>data_state := sd, key_state := sk'\<rparr>)"
    using rem(1) mac t
    by (simp add: del_block_def act_simps d(5) load mid_hermes_ll_block_delete_def Let_def
        new_buffer_def mid_hermes_ll_buffer_create_def act_check_def mid_hermes_ll_rtoken_delete_def key_of_def
        HM_SUCCESS_def)
  then show ?thesis using rem(2) del(2) by simp
qed

subsection \<open>Rotation\<close>

text \<open>The iterator that starts at no user: what it first gives as the id of a user is empty, and nobody has it.\<close>

lemma local_iterator_starts:
  assumes "local_keys_inv k" "file_name i" "file_tokens ''r'' k (i, u) \<noteq> None"
  shows "local_iterator_create (Some i) k =
    Some (Some \<lparr>it_block_id = i, current_user_id = Some [], current_rights_mask = 0, current_index = 0\<rparr>, k)"
proof -
  have d: "key_files k" "db_path k = HERMES_KEY_STORE_PATH" using assms(1) by (simp_all add: local_keys_inv_def key_files_def)
  have u: "file_name u" using assms(3) by (auto simp: file_tokens_def split: if_splits)
  let ?as = "[C (db_path k), E i]"
  have args: "list_all path_arg_ok ?as" using d(2) file_name_arg [OF assms(2)] by simp
  obtain s where s: "BUILD_TYPED_PATH ?as = Some s" "path_ok s" "components s = key_base @ [base64_groups i]"
    by (rule block_path [OF d(1) assms(2)])
  have "length s \<le> 1 + 2 * Suc NAME_MAX"
    using build_typed_path_join [OF args, of "''.''" None] s(1) by (auto simp: BUILD_TYPED_PATH_def NAME_MAX_def)
  then have len: "length s < 1024" by (simp add: NAME_MAX_def)
  have "is_dir (lookup (db_root k) (key_base @ [base64_groups i, base64_groups u, ''r'']))"
    using assms(3) file_tokens_dir [OF d(1) assms(2) u] by blast
  then have "is_dir (lookup (db_root k) (key_base @ [base64_groups i]))"
    by (intro dir_above [of "db_root k" "key_base @ [base64_groups i]" "[base64_groups u, ''r'']"]) (auto elim!: is_dirE)
  then have "is_dir (stat (db_root k) s)" using s(2,3) by (auto simp: stat_def elim!: is_dirE)
  then show ?thesis using s(1) len assms(2) by (simp add: local_iterator_create_def absent_def file_name_def)
qed

lemma no_rights_listed:
  assumes "local_sys.winv w" "file_tokens ''r'' (key_state w) (i, u) \<noteq> None" "file_name i" "bl_id bl = new_buffer i"
  shows "mid_hermes_ll_block_access_rights (Some bl) (Some local_key_store) (Some local_credential_store) w = Some (None, w)"
proof -
  have k: "local_keys_inv (key_state w)" using local_sys.winvD(2) [OF assms(1)] .
  show ?thesis
    using local_iterator_starts [OF k assms(3,2)] assms(4)
    by (simp add: mid_hermes_ll_block_access_rights_def act_simps new_buffer_def mid_hermes_ll_buffer_create_def
        access_loop.simps access_turn_def access_body_def Let_def hermes_key_store_iterator_get_user_id_def local_key_store_def
        mid_hermes_ll_user_load_c_def mid_hermes_ll_rtoken_load_c_def mid_hermes_ll_wtoken_load_c_def
        mid_hermes_ll_token_load_c_def absent_def)
qed

text \<open>C13. Rotating a block from the command line never works: whoever the user is, and whatever he holds,
  \<open>rotate_block\<close> exits with 1 and changes nothing, since the iterator over the users of a block does not
  name the first of them.\<close>

theorem rotate_block_never_works:
  assumes "local_sys.commanding T key_pair w s uid sk name ssk pk"
  shows "rotate_block T local_key_store local_data_store local_credential_store uid sk name w = Some (1, w)"
proof (rule local_sys.load_block_run [OF local_sys.commandingD(1) [OF assms] local_sys.commandingD(2) [OF assms] local_sys.commandingD(4) [OF assms]])
  note d = local_sys.commandingD [OF assms]
  assume "\<And>(failed :: int) k. load_block T local_key_store local_data_store local_credential_store
    (Some (local_user (str_bytes uid) ssk pk)) name failed k w = Some (failed, w)"
  then show ?thesis by (simp add: rotate_block_def act_assert_def act_simps d(5))
next
  note d = local_sys.commandingD [OF assms]
  fix e mac dt m
  assume held: "file_tokens ''r'' (key_state w) (str_bytes name, str_bytes uid) \<noteq> None"
    and load: "\<And>(failed :: int) k. load_block T local_key_store local_data_store local_credential_store
      (Some (local_user (str_bytes uid) ssk pk)) name failed k w =
      k (local_sys.loaded w (str_bytes uid) (local_user (str_bytes uid) ssk pk) (str_bytes name) e mac dt m) w"
  have "mid_hermes_ll_block_access_rights (Some (local_sys.loaded w (str_bytes uid) (local_user (str_bytes uid) ssk pk)
      (str_bytes name) e mac dt m)) (Some local_key_store) (Some local_credential_store) w = Some (None, w)"
    by (rule no_rights_listed [OF local_sys.mid_invD(1) [OF d(1)] held d(4)]) (simp add: new_buffer_eq)
  then show ?thesis by (simp add: rotate_block_def act_assert_def act_simps d(5) load)
qed

subsection \<open>The theorems at a concrete session\<close>

definition local_demo_users :: "(bytes \<times> bytes) list" where
  "local_demo_users = [(str_bytes ''A'', [1]), (str_bytes ''B'', [2])]"

abbreviation local_demo_files :: fnode where
  "local_demo_files \<equiv> Dir [(''x'', File [7])]"

abbreviation demo_add :: "string list" where
  "demo_add \<equiv> [''p'', ''add_block'', ''A'', ''AQ=='', ''x'', ''m'']"

abbreviation demo_grant :: "string list" where
  "demo_grant \<equiv> [''p'', ''grant_read'', ''A'', ''AQ=='', ''x'', ''B'']"

abbreviation demo_read :: "string list" where
  "demo_read \<equiv> [''p'', ''read_block'', ''B'', ''Ag=='', ''x'']"

lemma local_demo_strings:
  "string_to_buf ''AQ=='' = Some [1]" "string_to_buf ''Ag=='' = Some [2]"
  "file_name (str_bytes ''A'')" "file_name (str_bytes ''B'')" "file_name (str_bytes ''x'')"
proof -
  have g: "base64_groups [1] = ''AQ==''" "base64_groups [2] = ''Ag==''" by code_simp+
  have "string_to_buf (base64_groups [b]) = Some [b]" for b
    using decode_groups [of 0 "[]" "[b]" 2048 0] length_groups [of "[b]"] by (simp add: string_to_buf_def base64_decode_def)
  from this [of 1] this [of 2] g
  show "string_to_buf ''AQ=='' = Some [1]" "string_to_buf ''Ag=='' = Some [2]" by simp_all
  have "base64_groups (str_bytes ''A'') = ''QQ==''" "base64_groups (str_bytes ''B'') = ''Qg==''"
    "base64_groups (str_bytes ''x'') = ''eA==''" by code_simp+
  then show "file_name (str_bytes ''A'')" "file_name (str_bytes ''B'')" "file_name (str_bytes ''x'')"
    by (simp_all add: file_name_def NAME_MAX_def str_bytes_def)
qed

lemma local_demo_data: "read_whole_file local_demo_files ''x'' = Some (Inr [7])"
  by (simp add: read_whole_file_def stat_def path_ok_def components_def PATH_MAX_def NAME_MAX_def)

lemma local_demo_ok:
  "themis_local demo_themis demo_pair (\<lambda>d. length d \<le> 1000)" "keys_listed local_demo_users"
  "command_ok demo_pair (\<lambda>d. length d \<le> 1000) local_demo_users (local_demo_files, demo_add)"
  "command_ok demo_pair (\<lambda>d. length d \<le> 1000) local_demo_users (Dir [], demo_grant)"
  "command_ok demo_pair (\<lambda>d. length d \<le> 1000) local_demo_users (Dir [], demo_read)"
proof -
  have "outputs_ok demo_themis (\<lambda>e. e \<noteq> []) (\<lambda>d. length d \<le> 1000) (\<lambda>e. e \<noteq> [])"
    using demo_fits by (auto simp: themis_fits_def outputs_ok_def param_ok_def)
  then show "themis_local demo_themis demo_pair (\<lambda>d. length d \<le> 1000)"
    using demo_fits by (simp add: themis_local_def themis_fits_def)
  show "keys_listed local_demo_users"
    using local_demo_strings by (simp add: keys_listed_def local_demo_users_def param_ok_def str_bytes_def)
  have ab: "str_bytes ''A'' \<noteq> str_bytes ''B''" by (simp add: str_bytes_def)
  show "command_ok demo_pair (\<lambda>d. length d \<le> 1000) local_demo_users (local_demo_files, demo_add)"
    using local_demo_strings local_demo_data
    by (simp add: command_ok_def command_op_def local_demo_users_def demo_pair_def) (simp add: str_bytes_def)
  show "command_ok demo_pair (\<lambda>d. length d \<le> 1000) local_demo_users (Dir [], demo_grant)"
    "command_ok demo_pair (\<lambda>d. length d \<le> 1000) local_demo_users (Dir [], demo_read)"
    using local_demo_strings ab by (simp_all add: command_ok_def command_op_def local_demo_users_def demo_pair_def)
qed

abbreviation local_demo :: "(fnode \<times> string list) list" where
  "local_demo \<equiv> [(local_demo_files, demo_add), (Dir [], demo_grant), (Dir [], demo_read)]"

theorem low_level_refines_access_spec_witness:
  "\<exists>outs w' rs s'. ll_session demo_themis local_demo (local_start local_demo_users 0) = Some (outs, w') \<and>
    mid_run empty_spec (map session_op local_demo) rs s' \<and> session_shown local_demo rs outs"
  by (rule low_level_refines_access_spec [OF local_demo_ok(1,2)]) (use local_demo_ok(3-5) in simp)

theorem low_level_shared_block_is_read_witness:
  "\<exists>out w. ll_session demo_themis local_demo (local_start local_demo_users 0) =
      Some ([(0, local_demo_files), (0, Dir []), out], w) \<and> write_files (Dir []) ''x'' [7] (str_bytes ''m'') = Some out"
  using low_level_shared_block_is_read [OF local_demo_ok(1,2), of local_demo_files demo_add "Dir []" demo_grant "Dir []" demo_read
      "[7]" 0] local_demo_ok(3-5) local_demo_data by simp

theorem low_level_block_stays_unread_witness:
  "\<exists>outs w. ll_session demo_themis [(local_demo_files, demo_add), (Dir [], demo_read)] (local_start local_demo_users 0) = Some (outs, w) \<and>
    last outs = (1, Dir [])"
proof -
  let ?cs = "[] @ (local_demo_files, demo_add) # [] @ [(Dir [], demo_read)]"
  have ok: "list_all (command_ok demo_pair (\<lambda>d. length d \<le> 1000) local_demo_users) ?cs" using local_demo_ok(3,5) by simp
  obtain outs w where run: "ll_session demo_themis ?cs (local_start local_demo_users 0) = Some (outs, w)"
    using session_from_start [OF local_demo_ok(1,2) ok, of 0] by blast
  obtain w1 where "ll_main demo_themis demo_add local_demo_files (local_start local_demo_users 0) = Some ((0, local_demo_files), w1)"
    by (rule first_add [OF local_demo_ok(1-3), where d = "[7]" and r = 0]) (use local_demo_data in simp_all)
  with run have "fst (outs ! length []) = 0" by (auto simp: act_bind_run act_map_run split: option.splits)
  from low_level_block_stays_unread [OF local_demo_ok(1,2) ok run _ _ _ this, of "{str_bytes ''A''}"]
  have "last outs = (1, Dir [])" by (simp add: str_bytes_def)
  with run show ?thesis by simp
qed

text \<open>A store with the block \<^verbatim>\<open>x\<close> of the first user.\<close>

lemma demo_commanding:
  obtains w :: "nat local_world" and s where "local_sys.commanding demo_themis demo_pair w s ''A'' ''AQ=='' ''x'' [1] [1]"
    "(str_bytes ''x'', str_bytes ''A'') \<in> readers s" "(str_bytes ''x'', str_bytes ''A'') \<in> writers s"
    "file_tokens ''r'' (key_state w) (str_bytes ''x'', str_bytes ''A'') \<noteq> None"
proof -
  obtain w s where w: "local_sys.mid_inv demo_themis demo_pair w s" "cred_state w = listed_keys local_demo_users"
      "(str_bytes (demo_add ! 4), str_bytes (demo_add ! 2)) \<in> readers s"
      "(str_bytes (demo_add ! 4), str_bytes (demo_add ! 2)) \<in> writers s"
    by (rule first_add [OF local_demo_ok(1-3), where d = "[7]" and r = 0]) (use local_demo_data in simp_all)
  have "local_sys.commanding demo_themis demo_pair w s ''A'' ''AQ=='' ''x'' [1] [1]"
    using w(1,2) local_sys.mid_invD(1) [OF w(1)] local_demo_strings
    by (simp add: local_sys.commanding_def local_sys.acting_def known_def listed_keys_users local_demo_users_def
        demo_pair_def file_name_def)
  with w(3,4) local_sys.mid_invD(2) [OF w(1)] show ?thesis by (intro that) auto
qed

theorem rotate_block_never_works_witness:
  "\<exists>w. file_tokens ''r'' (key_state w) (str_bytes ''x'', str_bytes ''A'') \<noteq> None \<and>
    rotate_block demo_themis local_key_store local_data_store local_credential_store ''A'' ''AQ=='' ''x'' w = Some (1, w)"
proof -
  obtain w s where w: "local_sys.commanding demo_themis demo_pair w s ''A'' ''AQ=='' ''x'' [1] [1]"
    "file_tokens ''r'' (key_state w) (str_bytes ''x'', str_bytes ''A'') \<noteq> None" by (rule demo_commanding)
  from rotate_block_never_works [OF w(1)] w(2) show ?thesis by blast
qed

theorem del_block_leaves_tokens_witness:
  "\<exists>w w'. file_tokens ''r'' (key_state w) (str_bytes ''x'', str_bytes ''A'') \<noteq> None \<and>
    del_block demo_themis local_key_store local_data_store local_credential_store ''A'' ''AQ=='' ''x'' w = Some (0, w') \<and>
    file_blk (data_state w') = (file_blk (data_state w))(str_bytes ''x'' := None) \<and>
    (\<forall>k. file_tokens k (key_state w') = (file_tokens k (key_state w))((str_bytes ''x'', str_bytes ''A'') := None))"
proof -
  obtain w s where w: "local_sys.commanding demo_themis demo_pair w s ''A'' ''AQ=='' ''x'' [1] [1]"
    "(str_bytes ''x'', str_bytes ''A'') \<in> readers s" "(str_bytes ''x'', str_bytes ''A'') \<in> writers s"
    "file_tokens ''r'' (key_state w) (str_bytes ''x'', str_bytes ''A'') \<noteq> None" by (rule demo_commanding)
  from del_block_leaves_tokens [OF w(1-3)] w(4) show ?thesis by blast
qed

end
