(* ===== verification/Spec2Isabelle.thy ===== *)
theory Spec2Isabelle
  imports Mem_Cmp Common_Buffer Demo_Session Example_System Low_Level_Program
begin

text \<open>
  A model of hermes-core, the C library that shares encrypted blocks between users over three
  servers that are not trusted with the data.

  \<^bold>\<open>The program.\<close>  A user holds a \<^verbatim>\<open>mid_hermes_t\<close> (\<^verbatim>\<open>src/mid_hermes\<close>), which works on blocks, tokens and
  users (\<^verbatim>\<open>src/mid_hermes_ll\<close>).  A block is data sealed under a read key, with a MAC under an update
  key; the two keys are wrapped, for each user who may use them, into a read and an update token.
  Sealed blocks with their meta data and MAC go to the data store, tokens to the key store, and the
  public keys the tokens are wrapped with come from the credential store.  Each store is a server
  (\<^verbatim>\<open>src/data_store\<close>, \<^verbatim>\<open>src/key_store\<close>, \<^verbatim>\<open>src/credential_store\<close>) with a database behind it, reached by
  remote calls (\<^verbatim>\<open>src/rpc\<close>): the client packs name and parameters and sends them over a transport, the
  server looks the name up in a hash table (\<^verbatim>\<open>src/common\<close>), calls the stub, and sends status and
  results back.

  \<^bold>\<open>Which theory models what.\<close>  Names of definitions are those of the C code.
  \<^item> \<open>Hermes_Prelude\<close>: the status codes of \<^verbatim>\<open>common/errors.h\<close> and what the components share.
  \<^item> \<open>Mem_Cmp\<close>, \<open>Hash_Table\<close>, \<open>Common_Buffer\<close>: \<^verbatim>\<open>src/common\<close>.
  \<^item> \<open>Buffers_List\<close>, \<open>Rpc_Transport\<close>, \<open>Param_Pack\<close>, \<open>Rpc\<close>: \<^verbatim>\<open>src/rpc\<close> and the pipes of \<^verbatim>\<open>tests/common\<close>.
    \<open>Rpc_Loop\<close> and \<open>Remote_Call\<close> put client and server on one pair of pipes and prove that a remote
    call is the call.
  \<^item> \<open>Service\<close>: the loop that the three services share.
  \<^item> \<open>Credential_Store\<close>, \<open>Data_Store\<close>, \<open>Key_Store\<close>: functions, stubs, proxies, clients, servers and
    services of the stores, over any database.  \<open>Data_Store_Db\<close> and \<open>Key_Store_Db\<close> state what a
    database promises, as locales, and derive what the store promises, locally and remotely;
    \<open>Test_Data_Store_Db\<close> and \<open>Test_Key_Store_Db\<close> are the databases of \<^verbatim>\<open>tests/common\<close> and interpret them.
  \<^item> \<open>Ll_Utils\<close>, \<open>Ll_Buffer\<close>, \<open>Ll_Stores\<close>, \<open>Ll_User\<close>, \<open>Ll_Token\<close>, \<open>Ll_Rights_List\<close>, \<open>Ll_Block\<close>,
    \<open>Ll_Block_Store\<close>: \<^verbatim>\<open>src/mid_hermes_ll\<close>, in the order the code builds them.  \<open>Ll_Block_Props\<close> has what
    tokens and sealed blocks are (\<open>opens_for\<close>, \<open>sealed\<close>) and that creating, updating and rotating make them.
  \<^item> \<open>Mid_Stores\<close>, \<open>Mid_Hermes\<close>: \<^verbatim>\<open>src/mid_hermes\<close>, the stores over the RPC clients and the operations.
  \<^item> \<open>Secure_Transport\<close>: \<^verbatim>\<open>src/secure_transport\<close>, the encrypted transport, its handshake and its key callbacks.
    \<open>Secure_Link\<close> proves that it is a reliable transport over a reliable transport, \<open>Secure_Rpc\<close> that remote calls
    work over it, and \<open>Demo_Session\<close> has the properties and their concrete inputs.

  \<^bold>\<open>From the parts to the whole.\<close>  \<open>Mid_Contract\<close> states the contracts of the three store interfaces as
  locales, \<open>mid_stores\<close> puts them together with Themis.  In it \<open>Mid_Ops\<close> says what each operation of
  Mid-Hermes does to the stores, \<open>Mid_Spec\<close> has the specification \<open>mid_step\<close> (blocks, readers, writers) and
  the simulation \<open>refines\<close>, and \<open>Mid_Live\<close> when operations succeed.  \<open>Mid_Keys\<close> and \<open>Mid_Data\<close> prove
  the contracts for the stores behind RPC, from those of the databases, and \<open>Mid_System\<close> for the
  credential store; its interpretation \<open>sys\<close> is the system of all parts, and its theorems are about programs of
  Mid-Hermes calls that go through every layer down to the databases.  \<open>Demo_Themis\<close> and \<open>Mid_Demo\<close> apply
  the theorems to concrete users, keys and blocks.

  \<^bold>\<open>Conventions.\<close>  A pointer that may be NULL is an option, and a pointer with a length is an option of
  a byte list.  What the code leaves undefined (a read past the end, a call of NULL, a double free,
  writing over what a pointer does not own) and a loop that never ends are the value \<open>None\<close> of the outer
  option; a theorem that a run is \<open>Some\<close> says that it is defined and ends.  Statuses are the 32-bit words of
  \<^verbatim>\<open>errors.h\<close>, lengths on the wire 32-bit words, little endian.  Functions that change objects or
  devices return the new state; an out parameter is part of the result.  \<open>act\<close> is such a function of
  the world of the three stores and the random numbers.

  \<^bold>\<open>Parameters.\<close>  Themis and Soter are the record \<open>themis\<close>, with randomness in a state.  The theorems
  assume of it what its documentation says: sealed and wrapped data open again (\<open>themis_laws\<close>),
  the calls succeed on good arguments (\<open>works\<close>), and the outputs are not too long for the stores
  (\<open>outputs_ok\<close>, \<open>seals_fit\<close>).  Confidentiality and integrity theorems are about the access the
  library and the servers give, not about breaking the cryptography.  Transports are records of
  functions over a device state.  The secure session of Themis is the record \<open>themis_session\<close>; \<open>session_laws\<close>
  says what its documentation does: what one end wraps the other unwraps, in order.

  \<^bold>\<open>Bounds.\<close>  No fuel is used but in loops that the code may not leave: these are \<open>partial_function\<close>.
  The service loop reads its stop flag as often as the schedule given to it says.  Buffers that
  go through RPC have fewer than \<open>2 ^ 28\<close> bytes (\<open>param_ok\<close>), so that sums of 32-bit lengths do not wrap;
  the code does not check this.

  \<^bold>\<open>Not modelled.\<close>  Allocations succeed; the releasing of memory is modelled only where it decides whether
  a run is defined.  The threads and signals around the services are not in the library, their
  effect is the schedule of the stop flag.  The Go and Python bindings are another language or glue to
  another runtime.  The programs under \<^verbatim>\<open>docs/examples\<close> are sockets, files and command lines around
  the library.

  \<^bold>\<open>Plan.\<close>  Left: the file databases and the low-level commands of \<^verbatim>\<open>docs/examples/c\<close>, with the file
  system as a map, and the deletion and rotation of Mid-Hermes in the specification of \<open>Mid_Spec\<close>.
\<close>

end
